(* ===== verification/Prelude.thy ===== *)
theory Prelude
  imports Complex_Main "HOL-Library.Char_ord" "HOL-Library.List_Lexorder"
begin

section \<open>Prelude: the shared vocabulary of the model\<close>

text \<open>
  What every component of the model uses: identifiers and nullable identifiers with
  JavaScript's notion of truthiness, errors as values of a sum type, the single-row
  queries of the database client, and bounded parent walks. Strings are byte lists
  in UTF-8; the comparison \<open><\<close> on them is the lexicographic one of
  \<open>HOL-Library.List_Lexorder\<close>.
\<close>

named_theorems model_defs \<open>definitions that component proofs unfold\<close>
named_theorems result_simps \<open>rewriting of the error monad\<close>

subsection \<open>Identifiers and truthiness\<close>

type_synonym ident = string
type_synonym ident_opt = "string option"

text \<open>
  A nullable string used as a condition (\<open>if (x)\<close>, \<open>x ? a : b\<close>, \<open>!x\<close>) is true when
  it is neither \<open>null\<close>/\<open>undefined\<close> nor the empty string.
\<close>

fun truthy :: "string option \<Rightarrow> bool" where
  "truthy None = False"
| "truthy (Some s) = (s \<noteq> [])"

lemma truthyE [elim]:
  assumes "truthy x"
  obtains s where "x = Some s" and "s \<noteq> []"
  using assms by (cases x) auto

text \<open>The nullish coalescing operator \<open>a ?? b\<close> of two nullable values.\<close>

fun nullish :: "'a option \<Rightarrow> 'a option \<Rightarrow> 'a option" where
  "nullish (Some a) b = Some a"
| "nullish None b = b"

text \<open>The remainder operator \<open>a % b\<close> of integers takes the sign of the dividend.\<close>

definition js_rem :: "int \<Rightarrow> int \<Rightarrow> int" where
  "js_rem a b = sgn a * (\<bar>a\<bar> mod \<bar>b\<bar>)"

lemma js_rem_normalised:
  assumes "0 < n"
  shows "(js_rem a n + n) mod n = a mod n"
proof (cases "0 \<le> a")
  case True
  with assms show ?thesis by (simp add: js_rem_def sgn_if)
next
  case False
  with assms have "js_rem a n = - ((- a) mod n)" by (simp add: js_rem_def)
  then show ?thesis by (simp add: mod_minus_eq)
qed

text \<open>\<open>Number.isInteger\<close> of an exact number.\<close>

definition isInteger :: "rat \<Rightarrow> bool" where
  "isInteger q \<longleftrightarrow> of_int \<lfloor>q\<rfloor> = q"

lemma isInteger_of_int [simp]: "isInteger (of_int i)"
  by (simp add: isInteger_def)

lemma isInteger_numeral [simp]: "isInteger (numeral n)" "isInteger 1"
  by (simp_all add: isInteger_def)

text \<open>The three bytes of the em dash in UTF-8, for the messages that contain it.\<close>

definition em_dash :: string where
  "em_dash = [char_of (226::nat), char_of (128::nat), char_of (148::nat)]"

text \<open>The decimal text of a natural number in a template literal.\<close>

fun nat_string :: "nat \<Rightarrow> string" where
  "nat_string n = (if n < 10 then [char_of (48 + n)]
     else nat_string (n div 10) @ [char_of (48 + n mod 10)])"

declare nat_string.simps [simp del]

subsection \<open>Errors as values\<close>

text \<open>
  The application errors of \<open>common/errors\<close>, by the factory that makes them. Each
  carries its stable code; \<open>NotFound\<close> carries the entity kind and the id; \<open>Unprocessable\<close> is an
  \<open>AppError\<close> made directly with the status 422.
\<close>

datatype app_error =
    ValidationFailed string
  | NotFound string string
  | NotFoundWithCode string
  | Conflict string
  | Forbidden string
  | Unprocessable string
  | ServerError string
  | PlainError string

type_synonym 'a result = "app_error + 'a"

fun and_then :: "'a result \<Rightarrow> ('a \<Rightarrow> 'b result) \<Rightarrow> 'b result" where
  "and_then (Inl e) f = Inl e"
| "and_then (Inr a) f = f a"

fun guard_ok :: "bool \<Rightarrow> app_error \<Rightarrow> unit result" where
  "guard_ok b e = (if b then Inr () else Inl e)"

lemma and_then_Inr_iff [result_simps]:
  "and_then r f = Inr b \<longleftrightarrow> (\<exists>a. r = Inr a \<and> f a = Inr b)"
  by (cases r) auto

lemma and_then_assoc:
  "and_then (and_then r f) g = and_then r (\<lambda>a. and_then (f a) g)"
  by (cases r) auto

lemma and_then_cong [fundef_cong]:
  "r = s \<Longrightarrow> (\<And>a. s = Inr a \<Longrightarrow> f a = g a) \<Longrightarrow> and_then r f = and_then s g"
  by (cases s) auto

subsection \<open>Database reads\<close>

text \<open>
  \<open>maybeSingle()\<close> of the database client: the row when exactly one matches, no data
  otherwise (with several rows the client reports an error and no data).
\<close>

fun maybe_single :: "'a list \<Rightarrow> 'a option" where
  "maybe_single [x] = Some x"
| "maybe_single _ = None"

lemma maybe_single_Some: "maybe_single xs = Some x \<longleftrightarrow> xs = [x]"
  by (cases xs rule: maybe_single.cases) auto

lemma maybe_single_in_set: "maybe_single xs = Some x \<Longrightarrow> x \<in> set xs"
  by (simp add: maybe_single_Some)

subsection \<open>First element with a property, with its position\<close>

text \<open>
  A \<open>for ... of\<close> loop that returns at the first element on which the body yields a
  value.
\<close>

fun first_some :: "('a \<Rightarrow> 'b option) \<Rightarrow> 'a list \<Rightarrow> 'b option" where
  "first_some f [] = None"
| "first_some f (x # xs) = (case f x of Some y \<Rightarrow> Some y | None \<Rightarrow> first_some f xs)"

lemma first_some_None: "first_some f xs = None \<longleftrightarrow> (\<forall>x\<in>set xs. f x = None)"
  by (induction xs) (auto split: option.splits)

lemma first_some_SomeD:
  "first_some f xs = Some y \<Longrightarrow>
     \<exists>us x vs. xs = us @ x # vs \<and> (\<forall>u\<in>set us. f u = None) \<and> f x = Some y"
proof (induction xs)
  case Nil
  then show ?case by simp
next
  case (Cons a xs)
  show ?case
  proof (cases "f a")
    case None
    with Cons obtain us x vs where "xs = us @ x # vs" "\<forall>u\<in>set us. f u = None" "f x = Some y"
      by auto
    with None have "a # xs = (a # us) @ x # vs \<and> (\<forall>u\<in>set (a # us). f u = None) \<and> f x = Some y"
      by simp
    then show ?thesis by blast
  next
    case (Some b)
    with Cons.prems have "a # xs = [] @ a # xs \<and> (\<forall>u\<in>set []. f u = None) \<and> f a = Some y"
      by simp
    then show ?thesis by blast
  qed
qed

lemma first_some_append:
  "first_some f (us @ vs) = (case first_some f us of Some y \<Rightarrow> Some y | None \<Rightarrow> first_some f vs)"
  by (induction us) (auto split: option.splits)

lemma first_some_hit:
  "\<forall>u\<in>set us. f u = None \<Longrightarrow> f x = Some y \<Longrightarrow> first_some f (us @ x # vs) = Some y"
  by (simp add: first_some_append first_some_None [THEN iffD2])

lemma first_some_cong:
  "(\<And>x. x \<in> set xs \<Longrightarrow> f x = g x) \<Longrightarrow> first_some f xs = first_some g xs"
  by (induction xs) (auto split: option.splits)

lemma find_SomeD: "find P xs = Some x \<Longrightarrow> x \<in> set xs \<and> P x"
  by (induction xs) (auto split: if_splits)

lemma find_skip: "\<forall>x\<in>set xs. \<not> P x \<Longrightarrow> find P (xs @ ys) = find P ys"
  by (induction xs) auto

fun orElse :: "'a option \<Rightarrow> 'a \<Rightarrow> 'a" where
  "orElse (Some x) d = x"
| "orElse None d = d"

subsection \<open>Loops over lists with a fallible body\<close>

text \<open>
  \<open>xs.every(f)\<close>, \<open>xs.some(f)\<close> and \<open>for (const x of xs) f(x)\<close> with a body that may throw:
  the first exception ends the loop, and \<open>every\<close> and \<open>some\<close> stop at the element that
  decides them.
\<close>

fun every_result :: "('a \<Rightarrow> bool result) \<Rightarrow> 'a list \<Rightarrow> bool result" where
  "every_result f [] = Inr True"
| "every_result f (x # xs) =
     and_then (f x) (\<lambda>b. if b then every_result f xs else Inr False)"

fun some_result :: "('a \<Rightarrow> bool result) \<Rightarrow> 'a list \<Rightarrow> bool result" where
  "some_result f [] = Inr False"
| "some_result f (x # xs) =
     and_then (f x) (\<lambda>b. if b then Inr True else some_result f xs)"

fun each_result :: "('a \<Rightarrow> unit result) \<Rightarrow> 'a list \<Rightarrow> unit result" where
  "each_result f [] = Inr ()"
| "each_result f (x # xs) = and_then (f x) (\<lambda>_. each_result f xs)"

fun map_result :: "('a \<Rightarrow> 'b result) \<Rightarrow> 'a list \<Rightarrow> 'b list result" where
  "map_result f [] = Inr []"
| "map_result f (x # xs) = and_then (f x) (\<lambda>y. and_then (map_result f xs) (\<lambda>ys. Inr (y # ys)))"

lemma map_result_cong [fundef_cong]:
  "xs = ys \<Longrightarrow> (\<And>x. x \<in> set ys \<Longrightarrow> f x = g x) \<Longrightarrow> map_result f xs = map_result g ys"
  by (induction xs arbitrary: ys) auto

lemma every_result_cong [fundef_cong]:
  "xs = ys \<Longrightarrow> (\<And>x. x \<in> set ys \<Longrightarrow> f x = g x) \<Longrightarrow> every_result f xs = every_result g ys"
  by (induction ys arbitrary: xs) (auto cong: if_cong)

lemma some_result_cong [fundef_cong]:
  "xs = ys \<Longrightarrow> (\<And>x. x \<in> set ys \<Longrightarrow> f x = g x) \<Longrightarrow> some_result f xs = some_result g ys"
  by (induction ys arbitrary: xs) (auto cong: if_cong)

lemma each_result_cong [fundef_cong]:
  "xs = ys \<Longrightarrow> (\<And>x. x \<in> set ys \<Longrightarrow> f x = g x) \<Longrightarrow> each_result f xs = each_result g ys"
  by (induction ys arbitrary: xs) (auto cong: if_cong)

lemma every_result_total:
  "(\<And>x. x \<in> set xs \<Longrightarrow> \<exists>b. f x = Inr b) \<Longrightarrow> \<exists>b. every_result f xs = Inr b"
proof (induction xs)
  case (Cons x xs)
  then obtain b where "f x = Inr b" by auto
  with Cons show ?case by (cases b) auto
qed auto

lemma some_result_total:
  "(\<And>x. x \<in> set xs \<Longrightarrow> \<exists>b. f x = Inr b) \<Longrightarrow> \<exists>b. some_result f xs = Inr b"
proof (induction xs)
  case (Cons x xs)
  then obtain b where "f x = Inr b" by auto
  with Cons show ?case by (cases b) auto
qed auto

text \<open>
  What code of untyped values can come to: a value, or, unless the condition \<open>b\<close> rules it out, the \<open>TypeError\<close> of the
  run time. The combinators keep this.
\<close>

definition type_error :: app_error where
  "type_error = PlainError ''TypeError''"

definition settles :: "bool \<Rightarrow> 'a result \<Rightarrow> bool" where
  "settles b r \<longleftrightarrow> (\<exists>x. r = Inr x) \<or> \<not> b \<and> r = Inl type_error"

named_theorems settle \<open>code that settles\<close>

lemma settles_Inr [simp, settle]: "settles b (Inr x)"
  by (simp add: settles_def)

lemma settles_error [simp]: "settles b (Inl e) \<longleftrightarrow> \<not> b \<and> e = type_error"
  by (simp add: settles_def)

lemma settles_value: "settles True r \<longleftrightarrow> (\<exists>x. r = Inr x)"
  by (simp add: settles_def)

lemma settles_weaken: "settles b r \<Longrightarrow> (b' \<Longrightarrow> b) \<Longrightarrow> settles b' r"
  by (auto simp: settles_def)

lemma settles_and_then [settle]: "settles b r \<Longrightarrow> (\<And>x. r = Inr x \<Longrightarrow> settles b (f x)) \<Longrightarrow> settles b (and_then r f)"
  by (cases r) (auto simp: settles_def)

lemma settles_if [settle]: "settles b r \<Longrightarrow> settles b q \<Longrightarrow> settles b (if c then r else q)"
  by simp

lemma settles_every [settle]: "(\<And>x. x \<in> set xs \<Longrightarrow> settles b (f x)) \<Longrightarrow> settles b (every_result f xs)"
  by (induction xs) (auto intro!: settles_and_then)

lemma settles_some [settle]: "(\<And>x. x \<in> set xs \<Longrightarrow> settles b (f x)) \<Longrightarrow> settles b (some_result f xs)"
  by (induction xs) (auto intro!: settles_and_then)

lemma settles_map [settle]: "(\<And>x. x \<in> set xs \<Longrightarrow> settles b (f x)) \<Longrightarrow> settles b (map_result f xs)"
  by (induction xs) (auto intro!: settles_and_then)

lemma each_result_Inr_iff [result_simps]:
  "each_result f xs = Inr u \<longleftrightarrow> (\<forall>x\<in>set xs. f x = Inr ())"
  by (induction xs) (auto simp: and_then_Inr_iff)

subsection \<open>Sets in insertion order\<close>

text \<open>A JavaScript \<open>Set\<close> or the keys of a \<open>Map\<close>: every element once, in the order of its first insertion.\<close>

definition set_add :: "'a \<Rightarrow> 'a list \<Rightarrow> 'a list" where
  "set_add x xs = (if x \<in> set xs then xs else xs @ [x])"

lemma set_set_add [simp]: "set (set_add x xs) = insert x (set xs)"
  by (auto simp: set_add_def)

lemma set_fold_set_add [simp]: "set (fold set_add xs acc) = set acc \<union> set xs"
  by (induction xs arbitrary: acc) auto

lemma distinct_fold_set_add: "distinct acc \<Longrightarrow> distinct (fold set_add xs acc)"
  by (induction xs arbitrary: acc) (auto simp: set_add_def)

text \<open>\<open>s.split(c)\<close> with a separator of one character.\<close>

fun split_on :: "char \<Rightarrow> string \<Rightarrow> string list" where
  "split_on c [] = [[]]"
| "split_on c (x # xs) =
     (if x = c then [] # split_on c xs
      else (case split_on c xs of [] \<Rightarrow> [[x]] | w # ws \<Rightarrow> (x # w) # ws))"

lemma split_on_neq_Nil: "split_on c s \<noteq> []"
  by (induction s) (auto split: list.splits)

lemma split_on_no_sep: "c \<notin> set s \<Longrightarrow> split_on c s = [s]"
  by (induction s) auto

lemma split_on_append:
  "c \<notin> set s \<Longrightarrow> split_on c (s @ c # t) = s # split_on c t"
  by (induction s) auto

subsection \<open>Bounded parent walks\<close>

text \<open>
  A loop \<open>for (i = 0; current && i < n; i++) { chain.push(current); current = parent }\<close>:
  at most \<open>n\<close> elements, each the parent of the one before, stopping at a falsy id.
\<close>

fun parent_walk :: "(string \<Rightarrow> string option) \<Rightarrow> nat \<Rightarrow> string option \<Rightarrow> string list" where
  "parent_walk par 0 cur = []"
| "parent_walk par (Suc n) cur =
     (case cur of
        None \<Rightarrow> []
      | Some c \<Rightarrow> if c = [] then [] else c # parent_walk par n (par c))"

lemma length_parent_walk: "length (parent_walk par n cur) \<le> n"
  by (induction n arbitrary: cur) (auto split: option.splits)

lemma parent_walk_hd: "0 < n \<Longrightarrow> s \<noteq> [] \<Longrightarrow> \<exists>rest. parent_walk par n (Some s) = s # rest"
  by (cases n) auto

lemma parent_walk_linked:
  "Suc i < length (parent_walk par n cur) \<Longrightarrow>
     par (parent_walk par n cur ! i) = Some (parent_walk par n cur ! Suc i)"
proof (induction n arbitrary: cur i)
  case 0
  then show ?case by simp
next
  case (Suc n)
  from Suc.prems obtain c where c: "cur = Some c" "c \<noteq> []"
    by (auto split: option.splits if_splits)
  show ?case
  proof (cases i)
    case 0
    with Suc.prems c have "parent_walk par n (par c) \<noteq> []" by auto
    then obtain p where "par c = Some p" "p \<noteq> []" "0 < n"
      by (cases n) (auto split: option.splits if_splits)
    with 0 c show ?thesis
      by (cases n) auto
  next
    case (Suc j)
    with Suc.prems c Suc.IH[of j "par c"] show ?thesis by simp
  qed
qed

lemma parent_walk_no_empty: "[] \<notin> set (parent_walk par n cur)"
  by (induction n arbitrary: cur) (auto split: option.splits)

end
