(* ===== verification/Js_Date.thy ===== *)
theory Js_Date
  imports Prelude
begin

section \<open>The UTC half of the JavaScript \<open>Date\<close> object\<close>

text \<open>
  The time arithmetic of the language standard that the sources use: a date is a time
  value in milliseconds since the epoch, or \<open>None\<close> for an invalid date (the time value
  \<open>NaN\<close>). Years, months (0 to 11) and days of the month are computed from a day number
  by the proleptic Gregorian calendar. The lemmas show that the field accessors and
  \<open>MakeDay\<close> are inverse to each other, which is what the calendar arithmetic of the
  components rests on.
\<close>

type_synonym jsdate = "int option"

definition msPerDay :: int where
  "msPerDay = 86400000"

definition DayFromYear :: "int \<Rightarrow> int" where
  "DayFromYear y = 365 * (y - 1970) + (y - 1969) div 4 - (y - 1901) div 100 + (y - 1601) div 400"

definition leap :: "int \<Rightarrow> bool" where
  "leap y \<longleftrightarrow> y mod 4 = 0 \<and> (y mod 100 \<noteq> 0 \<or> y mod 400 = 0)"

text \<open>
  The year of a day number: an estimate from the mean length of the year, corrected by
  one year in either direction.
\<close>

definition YearFromDay :: "int \<Rightarrow> int" where
  "YearFromDay d =
     (let y = 1970 + (d * 400) div 146097
      in if d < DayFromYear y then y - 1
         else if DayFromYear (y + 1) \<le> d then y + 1
         else y)"

definition MonthStart :: "bool \<Rightarrow> int \<Rightarrow> int" where
  "MonthStart lp m =
     (if m \<le> 0 then 0 else if m = 1 then 31
      else (if lp then 1 else 0) +
        (if m = 2 then 59 else if m = 3 then 90 else if m = 4 then 120
         else if m = 5 then 151 else if m = 6 then 181 else if m = 7 then 212
         else if m = 8 then 243 else if m = 9 then 273 else if m = 10 then 304
         else if m = 11 then 334 else 365))"

definition MonthInYear :: "bool \<Rightarrow> int \<Rightarrow> int" where
  "MonthInYear lp n =
     (if n < MonthStart lp 1 then 0 else if n < MonthStart lp 2 then 1
      else if n < MonthStart lp 3 then 2 else if n < MonthStart lp 4 then 3
      else if n < MonthStart lp 5 then 4 else if n < MonthStart lp 6 then 5
      else if n < MonthStart lp 7 then 6 else if n < MonthStart lp 8 then 7
      else if n < MonthStart lp 9 then 8 else if n < MonthStart lp 10 then 9
      else if n < MonthStart lp 11 then 10 else 11)"

definition DayWithinYear :: "int \<Rightarrow> int" where
  "DayWithinYear d = d - DayFromYear (YearFromDay d)"

definition MonthFromDay :: "int \<Rightarrow> int" where
  "MonthFromDay d = MonthInYear (leap (YearFromDay d)) (DayWithinYear d)"

definition DateFromDay :: "int \<Rightarrow> int" where
  "DateFromDay d =
     DayWithinYear d - MonthStart (leap (YearFromDay d)) (MonthFromDay d) + 1"

definition DaysInMonth :: "int \<Rightarrow> int \<Rightarrow> int" where
  "DaysInMonth y m = MonthStart (leap y) (m + 1) - MonthStart (leap y) m"

definition MakeDay :: "int \<Rightarrow> int \<Rightarrow> int \<Rightarrow> int" where
  "MakeDay y m dt =
     DayFromYear (y + m div 12) + MonthStart (leap (y + m div 12)) (m mod 12) + dt - 1"

definition Day :: "int \<Rightarrow> int" where
  "Day t = t div msPerDay"

lemma Day_midnight [simp]: "Day (d * msPerDay) = d"
  by (simp add: Day_def msPerDay_def)

definition TimeWithinDay :: "int \<Rightarrow> int" where
  "TimeWithinDay t = t mod msPerDay"

definition getUTCFullYear :: "int \<Rightarrow> int" where
  "getUTCFullYear t = YearFromDay (Day t)"

definition getUTCMonth :: "int \<Rightarrow> int" where
  "getUTCMonth t = MonthFromDay (Day t)"

definition getUTCDate :: "int \<Rightarrow> int" where
  "getUTCDate t = DateFromDay (Day t)"

definition getUTCHours :: "int \<Rightarrow> int" where
  "getUTCHours t = (t div 3600000) mod 24"

definition getUTCMinutes :: "int \<Rightarrow> int" where
  "getUTCMinutes t = (t div 60000) mod 60"

definition getUTCSeconds :: "int \<Rightarrow> int" where
  "getUTCSeconds t = (t div 1000) mod 60"

definition getUTCMilliseconds :: "int \<Rightarrow> int" where
  "getUTCMilliseconds t = t mod 1000"

definition MakeTime :: "int \<Rightarrow> int \<Rightarrow> int \<Rightarrow> int \<Rightarrow> int" where
  "MakeTime h m s ms = h * 3600000 + m * 60000 + s * 1000 + ms"

text \<open>Time values further than \<open>8.64e15\<close> from the epoch are invalid.\<close>

definition TimeClip :: "int \<Rightarrow> jsdate" where
  "TimeClip t = (if \<bar>t\<bar> \<le> 8640000000000000 then Some t else None)"

text \<open>\<open>Date.UTC\<close>: a year from 0 to 99 stands for \<open>1900 + year\<close>.\<close>

definition Date_UTC :: "int \<Rightarrow> int \<Rightarrow> int \<Rightarrow> int \<Rightarrow> int \<Rightarrow> int \<Rightarrow> int \<Rightarrow> jsdate" where
  "Date_UTC y m d h mi s ms =
     TimeClip (MakeDay (if 0 \<le> y \<and> y \<le> 99 then 1900 + y else y) m d * msPerDay
       + MakeTime h mi s ms)"

definition setUTCDate :: "int \<Rightarrow> int \<Rightarrow> jsdate" where
  "setUTCDate t d =
     TimeClip (MakeDay (getUTCFullYear t) (getUTCMonth t) d * msPerDay + TimeWithinDay t)"

subsection \<open>Years\<close>

lemma div_step:
  fixes a n :: int
  assumes n: "0 < n"
  shows "(a + 1) div n = a div n + (if (a + 1) mod n = 0 then 1 else 0)"
proof -
  define q r where "q = a div n" and "r = a mod n"
  have a: "a = n * q + r" and r: "0 \<le> r" "r < n"
    using n by (auto simp: q_def r_def)
  show ?thesis
  proof (cases "r + 1 = n")
    case True
    then have e: "a + 1 = n * (q + 1)" using a by (simp add: algebra_simps)
    have "(a + 1) div n = q + 1" and "(a + 1) mod n = 0"
      unfolding e using n by simp_all
    then show ?thesis by (simp add: q_def)
  next
    case False
    then have "0 \<le> r + 1" "r + 1 < n" using r by auto
    moreover have e: "a + 1 = (r + 1) + n * q" using a by simp
    ultimately have "(a + 1) div n = q" and "(a + 1) mod n = r + 1"
      unfolding e using n by (simp_all add: div_mult_self2)
    then show ?thesis using r by (simp add: q_def)
  qed
qed

lemma mod_shift:
  fixes y k n :: int
  assumes "n dvd k"
  shows "(y - k) mod n = y mod n"
  using assms by (simp add: mod_eq_dvd_iff)

lemma leap_count:
  "(B \<Longrightarrow> A) \<Longrightarrow> (C \<Longrightarrow> B) \<Longrightarrow>
     (if A then 1 else 0) - (if B then 1 else 0) + (if C then 1 else 0)
       = (if A \<and> (\<not> B \<or> C) then (1::int) else 0)"
  by (cases A; cases B; cases C) simp_all

lemma DayFromYear_step: "DayFromYear (y + 1) = DayFromYear y + (if leap y then 366 else 365)"
proof -
  have d4: "(y - 1969 + 1) div 4 = (y - 1969) div 4 + (if y mod 4 = 0 then 1 else 0)"
    using div_step [of 4 "y - 1969"] mod_shift [of 4 1968 y] by simp
  have d100: "(y - 1901 + 1) div 100 = (y - 1901) div 100 + (if y mod 100 = 0 then 1 else 0)"
    using div_step [of 100 "y - 1901"] mod_shift [of 100 1900 y] by simp
  have d400: "(y - 1601 + 1) div 400 = (y - 1601) div 400 + (if y mod 400 = 0 then 1 else 0)"
    using div_step [of 400 "y - 1601"] mod_shift [of 400 1600 y] by simp
  have i: "y mod 100 = 0 \<Longrightarrow> y mod 4 = 0" "y mod 400 = 0 \<Longrightarrow> y mod 100 = 0"
    using mod_mod_cancel [of 4 100 y] mod_mod_cancel [of 100 400 y] by auto
  have "DayFromYear (y + 1) = 365 * (y - 1970) + 365 + (y - 1969 + 1) div 4
      - (y - 1901 + 1) div 100 + (y - 1601 + 1) div 400"
    by (simp add: DayFromYear_def algebra_simps)
  also have "\<dots> = DayFromYear y + 365 + ((if y mod 4 = 0 then 1 else 0)
      - (if y mod 100 = 0 then 1 else 0) + (if y mod 400 = 0 then 1 else 0))"
    unfolding d4 d100 d400 by (simp add: DayFromYear_def)
  also have "\<dots> = DayFromYear y + 365 + (if leap y then 1 else 0)"
    unfolding leap_def by (subst leap_count [OF i]) (assumption | rule refl)+
  also have "\<dots> = DayFromYear y + (if leap y then 366 else 365)"
    by simp
  finally show ?thesis .
qed

lemma DayFromYear_less_step: "DayFromYear y < DayFromYear (y + 1)"
  by (simp add: DayFromYear_step)

lemma DayFromYear_mono: "y \<le> z \<Longrightarrow> DayFromYear y \<le> DayFromYear z"
proof (induction "nat (z - y)" arbitrary: z)
  case 0
  then have "z = y" by simp
  then show ?case by simp
next
  case (Suc n)
  then have "DayFromYear y \<le> DayFromYear (z - 1)" by auto
  also have "\<dots> \<le> DayFromYear z" using DayFromYear_less_step [of "z - 1"] by simp
  finally show ?case .
qed

lemma div_bounds:
  fixes a n :: int
  assumes "0 < n"
  shows "n * (a div n) \<le> a \<and> a < n * (a div n) + n"
  using mult_div_mod_eq [of n a] pos_mod_bound [OF assms, of a] pos_mod_sign [OF assms, of a]
  by linarith

lemma YearFromDay_bounds:
  "DayFromYear (YearFromDay d) \<le> d \<and> d < DayFromYear (YearFromDay d + 1)"
proof -
  define y where "y = 1970 + (d * 400) div 146097"
  define e where "e = (d * 400) div 146097"
  have e: "146097 * e \<le> d * 400" "d * 400 < 146097 * e + 146097"
    using div_bounds [of 146097 "d * 400"] by (simp_all add: e_def)
  have y: "y = 1970 + e" by (simp add: y_def e_def)
  have lo: "DayFromYear (y - 1) \<le> d"
  proof -
    define a b c where "a = (y - 1 - 1969) div 4" and "b = (y - 1 - 1901) div 100"
      and "c = (y - 1 - 1601) div 400"
    have "4 * a \<le> y - 1 - 1969" "y - 1 - 1901 < 100 * b + 100" "400 * c \<le> y - 1 - 1601"
      unfolding a_def b_def c_def using div_bounds [of 4] div_bounds [of 100] div_bounds [of 400]
      by simp_all
    moreover have "DayFromYear (y - 1) = 365 * (y - 1 - 1970) + a - b + c"
      by (simp only: DayFromYear_def a_def b_def c_def)
    ultimately have "400 * DayFromYear (y - 1) \<le> 400 * d"
      using e y by (simp add: algebra_simps)
    then show ?thesis by simp
  qed
  have hi: "d < DayFromYear (y + 2)"
  proof -
    define a b c where "a = (y + 2 - 1969) div 4" and "b = (y + 2 - 1901) div 100"
      and "c = (y + 2 - 1601) div 400"
    have "y + 2 - 1969 < 4 * a + 4" "100 * b \<le> y + 2 - 1901" "y + 2 - 1601 < 400 * c + 400"
      unfolding a_def b_def c_def using div_bounds [of 4] div_bounds [of 100] div_bounds [of 400]
      by simp_all
    moreover have "DayFromYear (y + 2) = 365 * (y + 2 - 1970) + a - b + c"
      by (simp only: DayFromYear_def a_def b_def c_def)
    ultimately have "400 * d < 400 * DayFromYear (y + 2)"
      using e y by (simp add: algebra_simps)
    then show ?thesis by simp
  qed
  show ?thesis
    using lo hi DayFromYear_less_step [of y]
    by (auto simp: YearFromDay_def Let_def y_def [symmetric] add.assoc)
qed

lemma YearFromDay_unique:
  assumes "DayFromYear y \<le> d" and "d < DayFromYear (y + 1)"
  shows "YearFromDay d = y"
proof -
  have b: "DayFromYear (YearFromDay d) \<le> d" "d < DayFromYear (YearFromDay d + 1)"
    using YearFromDay_bounds by auto
  have "\<not> YearFromDay d < y"
  proof
    assume "YearFromDay d < y"
    then have "DayFromYear (YearFromDay d + 1) \<le> DayFromYear y" by (intro DayFromYear_mono) simp
    with b assms show False by simp
  qed
  moreover have "\<not> y < YearFromDay d"
  proof
    assume "y < YearFromDay d"
    then have "DayFromYear (y + 1) \<le> DayFromYear (YearFromDay d)" by (intro DayFromYear_mono) simp
    with b assms show False by simp
  qed
  ultimately show ?thesis by simp
qed


subsection \<open>Months and days\<close>

lemma MonthStart_365:
  "MonthStart (leap y) 12 = (if leap y then 366 else 365)" "MonthStart lp 0 = 0"
  by (simp_all add: MonthStart_def)

lemma month_cases:
  fixes m :: int
  assumes "0 \<le> m" and "m \<le> 11"
  obtains "m = 0" | "m = 1" | "m = 2" | "m = 3" | "m = 4" | "m = 5" | "m = 6" | "m = 7"
    | "m = 8" | "m = 9" | "m = 10" | "m = 11"
proof -
  have "m \<in> {0..11}" using assms by simp
  also have "{0..11::int} = {0,1,2,3,4,5,6,7,8,9,10,11}" by (simp add: simp_from_to)
  finally show thesis using that by blast
qed

lemma MonthInYear_range: "0 \<le> MonthInYear lp n \<and> MonthInYear lp n \<le> 11"
  by (simp add: MonthInYear_def)

lemma MonthInYear_bounds:
  assumes "0 \<le> n" and "n < MonthStart lp 12"
  shows "MonthStart lp (MonthInYear lp n) \<le> n \<and> n < MonthStart lp (MonthInYear lp n + 1)"
  using assms by (cases lp) (simp_all add: MonthInYear_def MonthStart_def)

lemma MonthInYear_unique:
  assumes "0 \<le> m" "m \<le> 11" and "MonthStart lp m \<le> n" and "n < MonthStart lp (m + 1)"
  shows "MonthInYear lp n = m"
  using assms(1,2)
proof (cases rule: month_cases)
qed (use assms(3,4) in \<open>simp_all add: MonthInYear_def MonthStart_def split: if_splits\<close>)

lemma MonthStart_mono:
  assumes "0 \<le> m" "m \<le> 11"
  shows "0 \<le> MonthStart lp m" "MonthStart lp m + 28 \<le> MonthStart lp (m + 1)"
    "MonthStart lp (m + 1) \<le> MonthStart lp 12"
  by (rule month_cases [OF assms]; simp add: MonthStart_def)+

lemma DaysInMonth_bounds:
  assumes "0 \<le> m" "m \<le> 11"
  shows "28 \<le> DaysInMonth y m" "DaysInMonth y m \<le> 31"
  by (rule month_cases [OF assms]; simp add: DaysInMonth_def MonthStart_def)+

lemma DayWithinYear_bounds:
  "0 \<le> DayWithinYear d \<and> DayWithinYear d < MonthStart (leap (YearFromDay d)) 12"
  using YearFromDay_bounds [of d]
  by (simp add: DayWithinYear_def DayFromYear_step MonthStart_365)

lemma DateFromDay_bounds:
  "1 \<le> DateFromDay d \<and> DateFromDay d \<le> DaysInMonth (YearFromDay d) (MonthFromDay d)"
  using MonthInYear_bounds [of "DayWithinYear d" "leap (YearFromDay d)"] DayWithinYear_bounds [of d]
  by (simp add: DateFromDay_def DaysInMonth_def MonthFromDay_def)

lemma MonthFromDay_range: "0 \<le> MonthFromDay d \<and> MonthFromDay d \<le> 11"
  by (simp add: MonthFromDay_def MonthInYear_range)

text \<open>Reading the fields of a day and making the day again gives the day.\<close>

lemma MakeDay_fields: "MakeDay (YearFromDay d) (MonthFromDay d) (DateFromDay d) = d"
  using MonthFromDay_range [of d] by (simp add: MakeDay_def DateFromDay_def DayWithinYear_def)

text \<open>Making a day from valid fields and reading the fields gives them back.\<close>

lemma fields_MakeDay:
  assumes m: "0 \<le> m" "m \<le> 11" and d: "1 \<le> d" "d \<le> DaysInMonth y m"
  shows "YearFromDay (MakeDay y m d) = y" "MonthFromDay (MakeDay y m d) = m"
    "DateFromDay (MakeDay y m d) = d"
proof -
  let ?D = "MakeDay y m d"
  have D: "?D = DayFromYear y + MonthStart (leap y) m + d - 1"
    using m by (simp add: MakeDay_def)
  have s: "0 \<le> MonthStart (leap y) m" "MonthStart (leap y) (m + 1) \<le> MonthStart (leap y) 12"
    using MonthStart_mono [OF m] by auto
  have "d \<le> MonthStart (leap y) (m + 1) - MonthStart (leap y) m"
    using d by (simp add: DaysInMonth_def)
  then have "DayFromYear y \<le> ?D \<and> ?D < DayFromYear y + MonthStart (leap y) 12"
    using D s d by linarith
  then show y: "YearFromDay ?D = y"
    by (intro YearFromDay_unique) (auto simp: DayFromYear_step MonthStart_365)
  then have w: "DayWithinYear ?D = MonthStart (leap y) m + d - 1"
    by (simp add: DayWithinYear_def D)
  show mm: "MonthFromDay ?D = m"
    unfolding MonthFromDay_def y w using m d by (intro MonthInYear_unique) (auto simp: DaysInMonth_def)
  show "DateFromDay ?D = d"
    by (simp add: DateFromDay_def y mm w)
qed

lemma MakeDay_shift: "MakeDay y m (d + k) = MakeDay y m d + k"
  by (simp add: MakeDay_def)

lemma MakeDay_carry: "MakeDay y m d = MakeDay (y + m div 12) (m mod 12) d"
  by (simp add: MakeDay_def)

lemma MakeDay_years: "MakeDay y (a + 12 * q) d = MakeDay (y + q) a d"
proof -
  have "(a + 12 * q) div 12 = q + a div 12" and "(a + 12 * q) mod 12 = a mod 12"
    by simp_all
  then show ?thesis unfolding MakeDay_def by (simp only: add.assoc)
qed

text \<open>The last day of a month is the day before the first of the next one.\<close>

lemma MakeDay_last:
  assumes "0 \<le> m" "m \<le> 11"
  shows "MakeDay y (m + 1) 0 = MakeDay y m (DaysInMonth y m)"
proof (cases "m = 11")
  case True
  then show ?thesis
    by (simp add: MakeDay_def DaysInMonth_def DayFromYear_step MonthStart_365)
next
  case False
  with assms have "(m + 1) div 12 = 0" "(m + 1) mod 12 = m + 1" by auto
  with assms show ?thesis by (simp add: MakeDay_def DaysInMonth_def)
qed

text \<open>Successive months start between 28 and 31 days apart, and later months later.\<close>

lemma MakeDay_month_step:
  assumes "0 \<le> m" "m \<le> 11"
  shows "MakeDay y (m + 1) 1 = MakeDay y m 1 + DaysInMonth y m"
  using MakeDay_last [OF assms, of y] by (simp add: MakeDay_def)

lemma MakeDay_month_grows: "MakeDay y m 1 + 28 * int k \<le> MakeDay y (m + int k) 1"
proof (induction k)
  case 0
  show ?case by simp
next
  case (Suc k)
  let ?y = "y + (m + int k) div 12" and ?m = "(m + int k) mod 12"
  have r: "0 \<le> ?m" "?m \<le> 11"
    using pos_mod_bound [of 12 "m + int k"] by simp_all
  have e: "m + int (Suc k) = (?m + 1) + 12 * ((m + int k) div 12)"
    using mult_div_mod_eq [of 12 "m + int k"] by linarith
  have "MakeDay y (m + int (Suc k)) 1 = MakeDay ?y (?m + 1) 1"
    unfolding e by (rule MakeDay_years)
  also have "\<dots> = MakeDay ?y ?m 1 + DaysInMonth ?y ?m"
    using r by (rule MakeDay_month_step)
  also have "MakeDay ?y ?m 1 = MakeDay y (m + int k) 1"
    by (rule MakeDay_carry [symmetric])
  finally show ?case using Suc.IH DaysInMonth_bounds(1) [OF r, of ?y] by simp
qed

subsection \<open>Times\<close>

lemma Day_TimeWithinDay: "Day t * msPerDay + TimeWithinDay t = t"
  by (simp add: Day_def TimeWithinDay_def)

lemma TimeWithinDay_range: "0 \<le> TimeWithinDay t \<and> TimeWithinDay t < msPerDay"
  by (simp add: TimeWithinDay_def msPerDay_def)

lemma Day_eq: "0 \<le> r \<Longrightarrow> r < msPerDay \<Longrightarrow> Day (d * msPerDay + r) = d"
  by (simp add: Day_def msPerDay_def)

lemma TimeWithinDay_eq: "0 \<le> r \<Longrightarrow> r < msPerDay \<Longrightarrow> TimeWithinDay (d * msPerDay + r) = r"
  by (simp add: TimeWithinDay_def msPerDay_def)

lemma MakeTime_fields:
  "MakeTime (getUTCHours t) (getUTCMinutes t) (getUTCSeconds t) (getUTCMilliseconds t)
     = TimeWithinDay t"
proof -
  define a b c where "a = t div 1000" and "b = a div 60" and "c = b div 60"
  have abc: "t div 60000 = b" "t div 3600000 = c" "t div 86400000 = c div 24"
    by (simp_all add: a_def b_def c_def div_mult2_eq [symmetric] flip: zdiv_zmult2_eq)
  have "t = a * 1000 + t mod 1000" "a = b * 60 + a mod 60" "b = c * 60 + b mod 60"
    "c = c div 24 * 24 + c mod 24" "t = t div 86400000 * 86400000 + t mod 86400000"
    by (simp_all add: a_def b_def c_def)
  then show ?thesis
    unfolding MakeTime_def getUTCHours_def getUTCMinutes_def getUTCSeconds_def
      getUTCMilliseconds_def TimeWithinDay_def msPerDay_def abc a_def [symmetric]
    by linarith
qed

lemma setUTCDate_shift: "setUTCDate t (getUTCDate t + k) = TimeClip (t + k * msPerDay)"
proof -
  have "MakeDay (getUTCFullYear t) (getUTCMonth t) (getUTCDate t + k) = Day t + k"
    by (simp add: MakeDay_shift getUTCFullYear_def getUTCMonth_def getUTCDate_def MakeDay_fields)
  then have "setUTCDate t (getUTCDate t + k) = TimeClip ((Day t + k) * msPerDay + TimeWithinDay t)"
    by (simp add: setUTCDate_def)
  also have "(Day t + k) * msPerDay + TimeWithinDay t = t + k * msPerDay"
    using Day_TimeWithinDay [of t] by (simp add: algebra_simps)
  finally show ?thesis .
qed

lemma TimeClip_Some: "TimeClip t = Some u \<longleftrightarrow> u = t \<and> \<bar>t\<bar> \<le> 8640000000000000"
  by (auto simp: TimeClip_def)

lemma Some_TimeClip: "Some u = TimeClip t \<longleftrightarrow> u = t \<and> \<bar>t\<bar> \<le> 8640000000000000"
  by (auto simp: TimeClip_def)

end
