(* ===== verification/Maintenance_Recurrence.thy ===== *)
theory Maintenance_Recurrence
  imports Js_Date
begin

section \<open>Recurrence of maintenance plans\<close>

text \<open>
  The model of \<open>apps/api/src/modules/maintenance/recurrence.ts\<close>: advancing a run time by
  days, weeks, calendar months or years with the day of the month clamped, walking an
  anchor forward to the first run after now under an iteration cap, and parsing an
  anchor date. An interval is a number, so it is a rational here and the integrality
  check of the source is a branch of the model; a thrown \<open>Error\<close> is \<open>Inl\<close>.
\<close>

definition ANCHOR_TIME_OF_DAY_UTC :: "int \<times> int" where
  "ANCHOR_TIME_OF_DAY_UTC = (9, 0)"

definition DEFAULT_ADVANCE_CAP :: nat where
  "DEFAULT_ADVANCE_CAP = 4096"

definition VALID_UNITS :: "string list" where
  "VALID_UNITS = [''day'', ''week'', ''month'', ''year'']"

definition isRecurrenceUnit :: "string \<Rightarrow> bool" where
  "isRecurrenceUnit value \<longleftrightarrow> value \<in> set VALID_UNITS"

definition lastDayOfMonthUtc :: "int \<Rightarrow> int \<Rightarrow> int option" where
  "lastDayOfMonthUtc year monthIndex =
     map_option getUTCDate (Date_UTC year (monthIndex + 1) 0 0 0 0 0)"

text \<open>
  An invalid date has \<open>NaN\<close> for every field, so the sum of its fields is again an
  invalid date; \<open>Math.min\<close> with \<open>NaN\<close> is \<open>NaN\<close>.
\<close>

definition addCalendarMonths :: "jsdate \<Rightarrow> int \<Rightarrow> jsdate" where
  "addCalendarMonths from months =
     (case from of
        None \<Rightarrow> None
      | Some t \<Rightarrow>
          let fromYear = getUTCFullYear t;
              fromMonth = getUTCMonth t;
              fromDay = getUTCDate t;
              totalMonths = fromMonth + months;
              targetYear = fromYear + totalMonths div 12;
              normalisedTargetMonth = js_rem (js_rem totalMonths 12 + 12) 12
          in (case lastDayOfMonthUtc targetYear normalisedTargetMonth of
                None \<Rightarrow> None
              | Some lastDayOfTarget \<Rightarrow>
                  let clampedDay = min fromDay lastDayOfTarget
                  in Date_UTC targetYear normalisedTargetMonth clampedDay
                       (getUTCHours t) (getUTCMinutes t) (getUTCSeconds t)
                       (getUTCMilliseconds t)))"

definition advanceRecurrence :: "jsdate \<Rightarrow> rat \<Rightarrow> string \<Rightarrow> jsdate result" where
  "advanceRecurrence from interval unit =
     (if \<not> isInteger interval \<or> interval \<le> 0
        then Inl (PlainError ''advanceRecurrence: interval must be a positive integer'')
      else if \<not> isRecurrenceUnit unit
        then Inl (PlainError ''advanceRecurrence: invalid unit'')
      else if unit = ''day''
        then Inr (Option.bind from (\<lambda>t. setUTCDate t (getUTCDate t + \<lfloor>interval\<rfloor>)))
      else if unit = ''week''
        then Inr (Option.bind from (\<lambda>t. setUTCDate t (getUTCDate t + \<lfloor>interval\<rfloor> * 7)))
      else if unit = ''month''
        then Inr (addCalendarMonths from \<lfloor>interval\<rfloor>)
      else Inr (addCalendarMonths from (\<lfloor>interval\<rfloor> * 12)))"

text \<open>
  The loop of \<open>advanceToNextFuture\<close>. A comparison with an invalid date is false, so the
  loop then ends with the cursor it has.
\<close>

function advance_loop ::
  "jsdate \<Rightarrow> rat \<Rightarrow> string \<Rightarrow> jsdate \<Rightarrow> nat \<Rightarrow> nat \<Rightarrow> jsdate result" where
  "advance_loop cursor interval unit now iter maxIterations =
     (case (cursor, now) of
        (Some t, Some n) \<Rightarrow>
          if t \<le> n
          then and_then (advanceRecurrence cursor interval unit)
                 (\<lambda>c. if iter + 1 > maxIterations
                      then Inl (PlainError ''advanceToNextFuture: exceeded iterations'')
                      else advance_loop c interval unit now (iter + 1) maxIterations)
          else Inr cursor
      | _ \<Rightarrow> Inr cursor)"
  by pat_completeness auto
termination
  by (relation "measure (\<lambda>(c, i, u, n, iter, mx). Suc mx - iter)") auto

declare advance_loop.simps [simp del]

definition advanceToNextFuture ::
  "jsdate \<Rightarrow> rat \<Rightarrow> string \<Rightarrow> jsdate \<Rightarrow> nat \<Rightarrow> jsdate result" where
  "advanceToNextFuture from interval unit now maxIterations =
     advance_loop from interval unit now 0 maxIterations"

subsection \<open>Anchor dates\<close>

definition is_digit :: "char \<Rightarrow> bool" where
  "is_digit c \<longleftrightarrow> (48::nat) \<le> of_char c \<and> (of_char c :: nat) \<le> 57"

definition digit_val :: "char \<Rightarrow> int" where
  "digit_val c = of_char c - 48"

text \<open>The regular expression \<open>^(\d{4})-(\d{2})-(\d{2})$\<close> and its three groups as numbers.\<close>

definition match_ymd :: "string \<Rightarrow> (int \<times> int \<times> int) option" where
  "match_ymd s =
     (case s of
        [a, b, c, d, h1, e, f, h2, g, i] \<Rightarrow>
          if list_all is_digit [a, b, c, d, e, f, g, i] \<and> h1 = CHR ''-'' \<and> h2 = CHR ''-''
          then Some (((digit_val a * 10 + digit_val b) * 10 + digit_val c) * 10 + digit_val d,
                     digit_val e * 10 + digit_val f, digit_val g * 10 + digit_val i)
          else None
      | _ \<Rightarrow> None)"

definition parseAnchorDateToUtc :: "string \<Rightarrow> jsdate result" where
  "parseAnchorDateToUtc anchorDate =
     (case match_ymd anchorDate of
        None \<Rightarrow> Inl (PlainError ''parseAnchorDateToUtc: expected YYYY-MM-DD'')
      | Some (year, month, day) \<Rightarrow>
          if month < 1 \<or> month > 12 \<or> day < 1 \<or> day > 31
          then Inl (PlainError ''parseAnchorDateToUtc: out-of-range value'')
          else
            let result = Date_UTC year (month - 1) day
                  (fst ANCHOR_TIME_OF_DAY_UTC) (snd ANCHOR_TIME_OF_DAY_UTC) 0 0
            in if map_option getUTCMonth result \<noteq> Some (month - 1)
                  \<or> map_option getUTCDate result \<noteq> Some day
               then Inl (PlainError ''parseAnchorDateToUtc: invalid calendar date'')
               else Inr result)"

definition computeInitialNextRunAt :: "string \<Rightarrow> rat \<Rightarrow> string \<Rightarrow> jsdate \<Rightarrow> jsdate result" where
  "computeInitialNextRunAt anchorDate interval unit now =
     and_then (parseAnchorDateToUtc anchorDate)
       (\<lambda>anchorTs.
          case (anchorTs, now) of
            (Some a, Some n) \<Rightarrow>
              if a > n then Inr anchorTs
              else advanceToNextFuture anchorTs interval unit now DEFAULT_ADVANCE_CAP
          | _ \<Rightarrow> advanceToNextFuture anchorTs interval unit now DEFAULT_ADVANCE_CAP)"


subsection \<open>Calendar months\<close>

lemma js_rem_twice: "js_rem (js_rem a 12 + 12) 12 = a mod 12"
proof -
  have "\<bar>js_rem a 12\<bar> < 12"
    by (cases "0 \<le> a") (auto simp: js_rem_def sgn_if)
  then have "js_rem (js_rem a 12 + 12) 12 = (js_rem a 12 + 12) mod 12"
    by (simp add: js_rem_def [of "js_rem a 12 + 12"] sgn_if)
  also have "\<dots> = a mod 12" by (rule js_rem_normalised) simp
  finally show ?thesis .
qed

text \<open>The year that \<open>Date.UTC\<close> makes of a year argument.\<close>

definition utc_year :: "int \<Rightarrow> int" where
  "utc_year y = (if 0 \<le> y \<and> y \<le> 99 then 1900 + y else y)"

lemma Date_UTC_alt:
  "Date_UTC y m d h mi s ms = TimeClip (MakeDay (utc_year y) m d * msPerDay + MakeTime h mi s ms)"
  by (simp add: Date_UTC_def utc_year_def)

lemma lastDayOfMonthUtc_eq:
  assumes "0 \<le> m" "m \<le> 11" and "lastDayOfMonthUtc y m = Some l"
  shows "l = DaysInMonth (utc_year y) m"
proof -
  let ?d = "MakeDay (utc_year y) m (DaysInMonth (utc_year y) m)"
  have "Date_UTC y (m + 1) 0 0 0 0 0 = TimeClip (?d * msPerDay)"
    using assms(1,2) by (simp add: Date_UTC_alt MakeDay_last MakeTime_def)
  with assms(3) have "l = getUTCDate (?d * msPerDay)"
    by (auto simp: lastDayOfMonthUtc_def TimeClip_Some)
  also have "\<dots> = DateFromDay ?d"
    by (simp add: getUTCDate_def)
  also have "\<dots> = DaysInMonth (utc_year y) m"
    using DaysInMonth_bounds [OF assms(1,2), of "utc_year y"] assms(1,2)
    by (intro fields_MakeDay) auto
  finally show ?thesis .
qed

text \<open>
  What a successful addition computes: the target month, the day clamped to its length,
  and the time of day unchanged.
\<close>

lemma addCalendarMonths_SomeD:
  assumes "addCalendarMonths (Some t) months = Some t'"
  defines "y \<equiv> getUTCFullYear t + (getUTCMonth t + months) div 12"
    and "m \<equiv> (getUTCMonth t + months) mod 12"
  defines "d \<equiv> min (getUTCDate t) (DaysInMonth (utc_year y) m)"
  shows "t' = MakeDay (utc_year y) m d * msPerDay + TimeWithinDay t"
proof -
  have m: "0 \<le> m" "m \<le> 11"
    using pos_mod_bound [of 12 "getUTCMonth t + months"] by (simp_all add: m_def)
  from assms(1) obtain l where l: "lastDayOfMonthUtc y m = Some l"
    and "Date_UTC y m (min (getUTCDate t) l) (getUTCHours t) (getUTCMinutes t)
      (getUTCSeconds t) (getUTCMilliseconds t) = Some t'"
    by (auto simp: addCalendarMonths_def Let_def js_rem_twice y_def m_def split: option.splits)
  moreover have "min (getUTCDate t) l = d"
    using lastDayOfMonthUtc_eq [OF m l] by (simp add: d_def)
  ultimately show ?thesis
    by (simp add: Date_UTC_alt TimeClip_Some MakeTime_fields)
qed

lemma getUTC_fields_eq:
  assumes "0 \<le> r" "r < msPerDay" "0 \<le> m" "m \<le> 11" "1 \<le> d" "d \<le> DaysInMonth y m"
  shows "getUTCFullYear (MakeDay y m d * msPerDay + r) = y"
    "getUTCMonth (MakeDay y m d * msPerDay + r) = m"
    "getUTCDate (MakeDay y m d * msPerDay + r) = d"
    "TimeWithinDay (MakeDay y m d * msPerDay + r) = r"
  using assms fields_MakeDay [of m d y]
  by (simp_all add: getUTCFullYear_def getUTCMonth_def getUTCDate_def Day_eq TimeWithinDay_eq)

lemma clamped_day_valid:
  assumes "0 \<le> m" "m \<le> 11"
  shows "1 \<le> min (getUTCDate t) (DaysInMonth y m) \<and>
    min (getUTCDate t) (DaysInMonth y m) \<le> DaysInMonth y m"
  using DateFromDay_bounds [of "Day t"] DaysInMonth_bounds(1) [OF assms, of y]
  by (simp add: getUTCDate_def)

text \<open>
  The days a unit spans at least: a calendar month advances by at least 28 days even
  when the day is clamped.
\<close>

definition unit_days :: "string \<Rightarrow> int" where
  "unit_days u = (if u = ''day'' then 1 else if u = ''week'' then 7
     else if u = ''month'' then 28 else 336)"

lemma MakeDay_year_mono:
  assumes "y \<le> z"
  shows "MakeDay y m d \<le> MakeDay z m d"
proof -
  obtain k where z: "z = y + int k"
    using assms zle_iff_zadd by blast
  have "MakeDay y m 1 \<le> MakeDay y (m + int (12 * k)) 1"
    using MakeDay_month_grows [of y m "12 * k"] by simp
  also have "\<dots> = MakeDay z m 1"
    using MakeDay_years [of y m "int k" 1] by (simp add: z)
  finally show ?thesis
    using MakeDay_shift [of y m 1 "d - 1"] MakeDay_shift [of z m 1 "d - 1"] by simp
qed

lemma MakeDay_year_gap:
  assumes "y + 1 \<le> z"
  shows "MakeDay y m d < MakeDay z m d"
proof -
  have "MakeDay y m 1 + 336 \<le> MakeDay (y + 1) m 1"
    using MakeDay_month_grows [of y m 12] MakeDay_years [of y m 1 1] by simp
  then have "MakeDay y m d < MakeDay (y + 1) m d"
    using MakeDay_shift [of y m 1 "d - 1"] MakeDay_shift [of "y + 1" m 1 "d - 1"] by simp
  also have "\<dots> \<le> MakeDay z m d" using assms by (rule MakeDay_year_mono)
  finally show ?thesis .
qed

lemma MakeDay_plus_months:
  "MakeDay y (m + n + e) 1 = MakeDay (y + (m + n) div 12) ((m + n) mod 12 + e) 1"
proof -
  have "m + n + e = ((m + n) mod 12 + e) + 12 * ((m + n) div 12)"
    using mult_div_mod_eq [of 12 "m + n"] by linarith
  then show ?thesis by (simp only: MakeDay_years)
qed

lemma MakeDay_later_month:
  assumes "0 < n" and "y + (m + n) div 12 \<le> Y"
  shows "MakeDay y (m + e) 1 + 28 * n \<le> MakeDay Y ((m + n) mod 12 + e) 1"
proof -
  have "MakeDay y (m + e) 1 + 28 * n \<le> MakeDay y (m + n + e) 1"
    using MakeDay_month_grows [of y "m + e" "nat n"] assms(1) by (simp add: algebra_simps)
  also have "\<dots> \<le> MakeDay Y ((m + n) mod 12 + e) 1"
    unfolding MakeDay_plus_months by (rule MakeDay_year_mono [OF assms(2)])
  finally show ?thesis .
qed

lemma month_gap:
  assumes m: "0 \<le> m" "m \<le> 11" and d: "d \<le> DaysInMonth y m" and n: "0 < n"
    and Y: "y + (m + n) div 12 \<le> Y"
  defines "M \<equiv> (m + n) mod 12"
  shows "MakeDay y m d + 28 * n \<le> MakeDay Y M (min d (DaysInMonth Y M))"
proof -
  have M: "0 \<le> M" "M \<le> 11"
    using pos_mod_bound [of 12 "m + n"] by (simp_all add: M_def)
  let ?c = "min d (DaysInMonth Y M)"
  have s: "MakeDay y m d = MakeDay y m 1 + d - 1" "MakeDay Y M ?c = MakeDay Y M 1 + ?c - 1"
    using MakeDay_shift [of y m 1 "d - 1"] MakeDay_shift [of Y M 1 "?c - 1"] by simp_all
  have g: "MakeDay y m 1 + 28 * n \<le> MakeDay Y M 1"
    "MakeDay y (m + 1) 1 + 28 * n \<le> MakeDay Y (M + 1) 1"
    using MakeDay_later_month [OF n Y, of 0] MakeDay_later_month [OF n Y, of 1]
    by (simp_all add: M_def)
  have "MakeDay y (m + 1) 1 = MakeDay y m 1 + DaysInMonth y m"
    "MakeDay Y (M + 1) 1 = MakeDay Y M 1 + DaysInMonth Y M"
    using m M by (simp_all add: MakeDay_month_step)
  with s g d show ?thesis by linarith
qed

lemma addCalendarMonths_gap:
  assumes "addCalendarMonths (Some t) n = Some t'" and "0 < n"
  shows "t + n * 28 * msPerDay \<le> t'"
proof -
  let ?y = "getUTCFullYear t + (getUTCMonth t + n) div 12" and ?M = "(getUTCMonth t + n) mod 12"
  let ?D = "MakeDay (utc_year ?y) ?M (min (getUTCDate t) (DaysInMonth (utc_year ?y) ?M))"
  have "MakeDay (getUTCFullYear t) (getUTCMonth t) (getUTCDate t) + 28 * n \<le> ?D"
    using MonthFromDay_range [of "Day t"] DateFromDay_bounds [of "Day t"] assms(2)
    by (intro month_gap)
      (simp_all add: getUTCMonth_def getUTCDate_def getUTCFullYear_def utc_year_def)
  then have "Day t + 28 * n \<le> ?D"
    by (simp add: getUTCMonth_def getUTCDate_def getUTCFullYear_def MakeDay_fields)
  then have "(Day t + 28 * n) * msPerDay \<le> ?D * msPerDay"
    by (rule mult_right_mono) (simp add: msPerDay_def)
  then show ?thesis
    using addCalendarMonths_SomeD [OF assms(1)] Day_TimeWithinDay [of t]
    by (simp add: algebra_simps)
qed

subsection \<open>Advancing once\<close>

lemma advanceRecurrence_Inr:
  "advanceRecurrence from i u = Inr r \<longleftrightarrow>
     isInteger i \<and> 0 < i \<and> isRecurrenceUnit u \<and>
     r = (if u = ''day'' then Option.bind from (\<lambda>t. setUTCDate t (getUTCDate t + \<lfloor>i\<rfloor>))
          else if u = ''week'' then Option.bind from (\<lambda>t. setUTCDate t (getUTCDate t + \<lfloor>i\<rfloor> * 7))
          else if u = ''month'' then addCalendarMonths from \<lfloor>i\<rfloor>
          else addCalendarMonths from (\<lfloor>i\<rfloor> * 12))"
  by (auto simp: advanceRecurrence_def)

lemma advanceRecurrence_total:
  "isInteger i \<Longrightarrow> 0 < i \<Longrightarrow> isRecurrenceUnit u \<Longrightarrow> \<exists>r. advanceRecurrence c i u = Inr r"
  by (simp add: advanceRecurrence_Inr)

lemma floor_pos_int: "isInteger i \<Longrightarrow> 0 < i \<Longrightarrow> 0 < \<lfloor>i\<rfloor>"
  by (metis isInteger_def of_int_0_less_iff)

lemma advance_gap:
  assumes "advanceRecurrence (Some t) i u = Inr (Some t')"
  shows "t + unit_days u * \<lfloor>i\<rfloor> * msPerDay \<le> t'"
proof -
  from assms have i: "isInteger i" "0 < i" by (auto simp: advanceRecurrence_Inr)
  then have p: "0 < \<lfloor>i\<rfloor>" "0 < \<lfloor>i\<rfloor> * 12" using floor_pos_int by auto
  consider "u = ''day''" | "u = ''week''" | "u = ''month''" | "u = ''year''"
    using assms by (auto simp: advanceRecurrence_Inr isRecurrenceUnit_def VALID_UNITS_def)
  then show ?thesis
  proof cases
    case 1
    with assms show ?thesis
      by (simp add: advanceRecurrence_Inr setUTCDate_shift Some_TimeClip unit_days_def)
  next
    case 2
    with assms show ?thesis
      by (simp add: advanceRecurrence_Inr setUTCDate_shift Some_TimeClip unit_days_def)
  next
    case 3
    with assms have "addCalendarMonths (Some t) \<lfloor>i\<rfloor> = Some t'" by (simp add: advanceRecurrence_Inr)
    from addCalendarMonths_gap [OF this p(1)] 3 show ?thesis
      by (simp add: unit_days_def algebra_simps)
  next
    case 4
    with assms have "addCalendarMonths (Some t) (\<lfloor>i\<rfloor> * 12) = Some t'"
      by (simp add: advanceRecurrence_Inr)
    from addCalendarMonths_gap [OF this p(2)] 4 show ?thesis
      by (simp add: unit_days_def algebra_simps)
  qed
qed

subsection \<open>Walking to the first future run\<close>

text \<open>The run times in order: the start, one advance, two advances, and so on.\<close>

fun nth_run :: "jsdate \<Rightarrow> rat \<Rightarrow> string \<Rightarrow> nat \<Rightarrow> jsdate result" where
  "nth_run c i u 0 = Inr c"
| "nth_run c i u (Suc k) = and_then (advanceRecurrence c i u) (\<lambda>c'. nth_run c' i u k)"

lemma advance_loop_first:
  assumes "advance_loop (Some t) i u (Some n) iter mx = Inr (Some r)"
  shows "n < r \<and> (\<exists>k. iter + k \<le> max iter mx \<and> nth_run (Some t) i u k = Inr (Some r) \<and>
    (\<forall>j<k. \<exists>c. nth_run (Some t) i u j = Inr (Some c) \<and> c \<le> n))"
  using assms
proof (induction "Suc mx - iter" arbitrary: t iter rule: less_induct)
  case less
  show ?case
  proof (cases "t \<le> n")
    case False
    with less.prems have "t = r" by (simp add: advance_loop.simps [of "Some t"])
    with False have "iter + 0 \<le> max iter mx \<and> nth_run (Some t) i u 0 = Inr (Some r) \<and>
        (\<forall>j<0. \<exists>c. nth_run (Some t) i u j = Inr (Some c) \<and> c \<le> n)" and "n < r"
      by auto
    then show ?thesis by blast
  next
    case True
    with less.prems obtain c where adv: "advanceRecurrence (Some t) i u = Inr c"
      and le: "iter + 1 \<le> mx"
      and rest: "advance_loop c i u (Some n) (iter + 1) mx = Inr (Some r)"
      by (auto simp: advance_loop.simps [of "Some t"] and_then_Inr_iff split: if_splits)
    from rest obtain t1 where c: "c = Some t1"
      by (cases c) (auto simp: advance_loop.simps)
    have "Suc mx - (iter + 1) < Suc mx - iter" using le by simp
    from less.hyps [OF this, of t1] rest c le obtain k where
      n: "n < r" and k: "iter + 1 + k \<le> max (iter + 1) mx" "nth_run (Some t1) i u k = Inr (Some r)"
        "\<forall>j<k. \<exists>c. nth_run (Some t1) i u j = Inr (Some c) \<and> c \<le> n"
      by auto
    have "\<forall>j<Suc k. \<exists>c. nth_run (Some t) i u j = Inr (Some c) \<and> c \<le> n"
    proof (intro allI impI)
      fix j assume "j < Suc k"
      then show "\<exists>c. nth_run (Some t) i u j = Inr (Some c) \<and> c \<le> n"
        using k(3) True adv c by (cases j) auto
    qed
    moreover have "nth_run (Some t) i u (Suc k) = Inr (Some r)" using k adv c by simp
    moreover have "iter + Suc k \<le> max iter mx" using k(1) le by simp
    ultimately show ?thesis using n by blast
  qed
qed

lemma advance_loop_returns:
  assumes i: "isInteger i" "0 < i" "isRecurrenceUnit u"
  shows "iter \<le> mx \<Longrightarrow> n < t + int (mx - iter) * (unit_days u * \<lfloor>i\<rfloor> * msPerDay) \<Longrightarrow>
    \<exists>r. advance_loop (Some t) i u (Some n) iter mx = Inr r"
proof (induction "mx - iter" arbitrary: t iter)
  case 0
  then show ?case by (simp add: advance_loop.simps [of "Some t"])
next
  case (Suc k)
  obtain c where adv: "advanceRecurrence (Some t) i u = Inr c"
    using advanceRecurrence_total [OF i] by blast
  show ?case
  proof (cases "t \<le> n")
    case False
    then show ?thesis by (simp add: advance_loop.simps [of "Some t"])
  next
    case True
    have lt: "iter + 1 \<le> mx" using Suc.hyps(2) by simp
    have unf: "advance_loop (Some t) i u (Some n) iter mx
        = advance_loop c i u (Some n) (iter + 1) mx"
      using True adv lt by (simp add: advance_loop.simps [of "Some t"])
    show ?thesis
    proof (cases c)
      case None
      then show ?thesis using unf by (simp add: advance_loop.simps [of None])
    next
      case (Some t1)
      let ?s = "unit_days u * \<lfloor>i\<rfloor> * msPerDay"
      have "t + ?s \<le> t1" using advance_gap adv Some by blast
      moreover have "int (mx - iter) = int (mx - (iter + 1)) + 1" using lt by simp
      ultimately have "n < t1 + int (mx - (iter + 1)) * ?s"
        using Suc.prems(2) by (simp add: algebra_simps)
      with Suc.hyps(1) [of "iter + 1" t1] Suc.hyps(2) lt Some unf show ?thesis by auto
    qed
  qed
qed

subsection \<open>Properties\<close>

lemma date_check_iff:
  assumes m: "0 \<le> m" "m \<le> 11" and d: "1 \<le> d"
  shows "MonthFromDay (MakeDay y m d) = m \<and> DateFromDay (MakeDay y m d) = d
    \<longleftrightarrow> d \<le> DaysInMonth y m"
proof
  assume "d \<le> DaysInMonth y m"
  with assms show "MonthFromDay (MakeDay y m d) = m \<and> DateFromDay (MakeDay y m d) = d"
    by (simp add: fields_MakeDay)
next
  let ?D = "MakeDay y m d"
  assume *: "MonthFromDay ?D = m \<and> DateFromDay ?D = d"
  have D: "MakeDay (YearFromDay ?D) m d = ?D" using * MakeDay_fields [of ?D] by simp
  show "d \<le> DaysInMonth y m"
  proof (rule ccontr)
    assume "\<not> d \<le> DaysInMonth y m"
    moreover have "d \<le> DaysInMonth (YearFromDay ?D) m" using * DateFromDay_bounds [of ?D] by simp
    ultimately have "YearFromDay ?D \<noteq> y" by auto
    then consider "YearFromDay ?D + 1 \<le> y" | "y + 1 \<le> YearFromDay ?D" by linarith
    then show False
      using D MakeDay_year_gap [of "YearFromDay ?D" y m d] MakeDay_year_gap [of y "YearFromDay ?D" m d]
      by cases auto
  qed
qed

lemma parse_iff:
  "parseAnchorDateToUtc s = Inr r \<longleftrightarrow>
     (\<exists>y m d. match_ymd s = Some (y, m, d) \<and> 1 \<le> m \<and> m \<le> 12 \<and> 1 \<le> d \<and>
        d \<le> DaysInMonth (utc_year y) (m - 1) \<and>
        r = TimeClip (MakeDay (utc_year y) (m - 1) d * msPerDay + MakeTime 9 0 0 0) \<and> r \<noteq> None)"
  (is "?L \<longleftrightarrow> ?R")
proof (cases "match_ymd s")
  case None
  then show ?thesis by (simp add: parseAnchorDateToUtc_def)
next
  case (Some ymd)
  obtain y m d where ymd: "ymd = (y, m, d)" by (cases ymd)
  let ?D = "MakeDay (utc_year y) (m - 1) d" and ?T = "MakeTime 9 0 0 0"
  have T: "0 \<le> ?T" "?T < msPerDay" by (simp_all add: MakeTime_def msPerDay_def)
  have u: "Date_UTC y (m - 1) d 9 0 0 0 = TimeClip (?D * msPerDay + ?T)"
    by (rule Date_UTC_alt)
  have day: "Day (?D * msPerDay + ?T) = ?D" using T by (rule Day_eq)
  have iff: "getUTCMonth (?D * msPerDay + ?T) = m - 1 \<and> getUTCDate (?D * msPerDay + ?T) = d
      \<longleftrightarrow> d \<le> DaysInMonth (utc_year y) (m - 1)" if "1 \<le> m" "m \<le> 12" "1 \<le> d" "d \<le> 31"
    using that date_check_iff [of "m - 1" d "utc_year y"]
    by (simp add: getUTCMonth_def getUTCDate_def day)
  show ?thesis
    using iff DaysInMonth_bounds(2) [of "m - 1" "utc_year y"] u
    by (auto simp: parseAnchorDateToUtc_def Some ymd ANCHOR_TIME_OF_DAY_UTC_def TimeClip_def
        split: if_splits)
qed

lemma digit_val_range: "is_digit c \<Longrightarrow> 0 \<le> digit_val c \<and> digit_val c \<le> 9"
proof -
  assume "is_digit c"
  then have "(48::nat) \<le> of_char c" "(of_char c :: nat) \<le> 57" by (auto simp: is_digit_def)
  moreover have "(of_char c :: int) = int (of_char c)" by (simp add: of_nat_of_char)
  ultimately show ?thesis by (simp add: digit_val_def)
qed

lemma match_ymd_year: "match_ymd s = Some (y, m, d) \<Longrightarrow> 0 \<le> y \<and> y \<le> 9999"
  by (auto simp: match_ymd_def dest!: digit_val_range split: list.splits if_splits)

lemma anchor_in_range:
  assumes "match_ymd s = Some (y, m, d)" "1 \<le> m" "m \<le> 12" "1 \<le> d"
    "d \<le> DaysInMonth (utc_year y) (m - 1)"
  shows "\<bar>MakeDay (utc_year y) (m - 1) d * msPerDay + 32400000\<bar> \<le> 8640000000000000"
proof -
  let ?y = "utc_year y"
  have y: "0 \<le> ?y" "?y \<le> 9999" using match_ymd_year [OF assms(1)] by (auto simp: utc_year_def)
  have "DayFromYear 0 \<le> DayFromYear ?y" "DayFromYear ?y \<le> DayFromYear 9999"
    using y by (auto intro: DayFromYear_mono)
  then have "-719528 \<le> DayFromYear ?y" "DayFromYear ?y \<le> 2932532"
    by (auto simp: DayFromYear_def)
  moreover have "0 \<le> MonthStart (leap ?y) (m - 1)" "MonthStart (leap ?y) (m - 1) \<le> 366"
    using MonthStart_mono [of "m - 1" "leap ?y"] assms(2,3) by (auto simp: MonthStart_365 split: if_splits)
  moreover have "d \<le> 31"
    using DaysInMonth_bounds(2) [of "m - 1" ?y] assms by simp
  moreover have "(m - 1) div 12 = 0" "(m - 1) mod 12 = m - 1" using assms by simp_all
  ultimately show ?thesis using assms(4) by (simp add: MakeDay_def msPerDay_def)
qed

lemma parse_fields:
  assumes "parseAnchorDateToUtc s = Inr r"
  shows "\<exists>y m d. match_ymd s = Some (y, m, d) \<and> 1 \<le> m \<and> m \<le> 12 \<and> 1 \<le> d \<and>
    d \<le> DaysInMonth (utc_year y) (m - 1) \<and>
    r = Some (MakeDay (utc_year y) (m - 1) d * msPerDay + 32400000)"
  using assms by (auto simp: parse_iff MakeTime_def TimeClip_Some)

lemma parse_not_None: "parseAnchorDateToUtc s \<noteq> Inr None"
  by (auto simp: parse_iff)

lemma getUTCHours_TimeWithinDay: "getUTCHours t = TimeWithinDay t div 3600000"
proof -
  have "t mod (3600000 * 24) = 3600000 * (t div 3600000 mod 24) + t mod 3600000"
    by (rule zmod_zmult2_eq) simp
  then show ?thesis by (simp add: getUTCHours_def TimeWithinDay_def msPerDay_def)
qed

text \<open>
  Adding calendar months keeps the time of day, lands in the month the addition
  names, and clamps the day of the month to that month's length (for target years
  outside 0 to 99, where \<open>Date.UTC\<close> does not rewrite the year).
\<close>

theorem addCalendarMonths_fields:
  assumes "addCalendarMonths (Some t) n = Some t'"
    and "getUTCFullYear t + (getUTCMonth t + n) div 12 \<notin> {0..99}"
  shows "getUTCFullYear t' = getUTCFullYear t + (getUTCMonth t + n) div 12 \<and>
    getUTCMonth t' = (getUTCMonth t + n) mod 12 \<and>
    getUTCDate t' = min (getUTCDate t) (DaysInMonth (getUTCFullYear t') (getUTCMonth t')) \<and>
    TimeWithinDay t' = TimeWithinDay t"
proof -
  let ?y = "getUTCFullYear t + (getUTCMonth t + n) div 12" and ?m = "(getUTCMonth t + n) mod 12"
  let ?d = "min (getUTCDate t) (DaysInMonth ?y ?m)"
  have m: "0 \<le> ?m" "?m \<le> 11" using pos_mod_bound [of 12 "getUTCMonth t + n"] by simp_all
  have "utc_year ?y = ?y" using assms(2) by (auto simp: utc_year_def)
  then have t': "t' = MakeDay ?y ?m ?d * msPerDay + TimeWithinDay t"
    using addCalendarMonths_SomeD [OF assms(1)] by simp
  have d: "1 \<le> ?d" "?d \<le> DaysInMonth ?y ?m" using clamped_day_valid [OF m] by blast+
  have r: "0 \<le> TimeWithinDay t" "TimeWithinDay t < msPerDay" using TimeWithinDay_range by blast+
  note f = getUTC_fields_eq [OF r m d, folded t']
  show ?thesis unfolding f by (intro conjI refl)
qed

text \<open>
  The witness is the example of the source's comment: 31 January 2026 plus one month is
  28 February 2026.
\<close>

theorem addCalendarMonths_fields_witness:
  "addCalendarMonths (Some 1769853600000) 1 = Some 1772272800000 \<and>
   getUTCDate 1772272800000 = 28 \<and> getUTCMonth 1772272800000 = 1"
proof -
  have a: "addCalendarMonths (Some 1769853600000) 1 = Some 1772272800000"
    by code_simp
  have y: "getUTCFullYear 1769853600000 + (getUTCMonth 1769853600000 + 1) div 12 \<notin> {0..99}"
    by code_simp
  have "getUTCMonth 1772272800000 = (getUTCMonth 1769853600000 + 1) mod 12"
    using addCalendarMonths_fields [OF a y] by blast
  moreover have "getUTCMonth 1769853600000 = 0" "getUTCDate 1772272800000 = 28"
    by code_simp+
  ultimately show ?thesis using a by simp
qed

text \<open>
  Every advance moves strictly forward, by at least the unit's shortest length: a
  day, seven days, 28 days per month and 336 days per year, times the interval.
\<close>

theorem advanceRecurrence_progress:
  assumes "advanceRecurrence (Some t) interval unit = Inr (Some t')"
  shows "t < t' \<and> t + unit_days unit * \<lfloor>interval\<rfloor> * msPerDay \<le> t'"
proof -
  have "0 < unit_days unit * \<lfloor>interval\<rfloor> * msPerDay"
    using assms floor_pos_int [of interval]
    by (auto simp: advanceRecurrence_Inr unit_days_def msPerDay_def)
  then show ?thesis using advance_gap [OF assms] by linarith
qed

theorem advanceRecurrence_progress_witness:
  "(0::int) < 604800000 \<and> 0 + unit_days ''week'' * \<lfloor>1::rat\<rfloor> * msPerDay \<le> 604800000"
proof -
  have "setUTCDate 0 (getUTCDate 0 + 7) = Some 604800000"
    by (simp add: setUTCDate_shift TimeClip_def msPerDay_def)
  then have "advanceRecurrence (Some 0) 1 ''week'' = Inr (Some 604800000)"
    by (simp add: advanceRecurrence_def isRecurrenceUnit_def VALID_UNITS_def)
  from advanceRecurrence_progress [OF this] show ?thesis .
qed

text \<open>
  C28. When \<open>advanceToNextFuture\<close> returns a date it is strictly after now and it is the
  first of the plan's run times that is: every earlier one, of at most the permitted
  number of advances, is not after now.
\<close>

theorem advanceToNextFuture_first:
  assumes "advanceToNextFuture (Some from) interval unit (Some now) maxIterations = Inr (Some r)"
  shows "now < r \<and> (\<exists>k\<le>maxIterations. nth_run (Some from) interval unit k = Inr (Some r) \<and>
    (\<forall>j<k. \<exists>c. nth_run (Some from) interval unit j = Inr (Some c) \<and> c \<le> now))"
  using advance_loop_first [OF assms [unfolded advanceToNextFuture_def]] by simp

theorem advanceToNextFuture_first_witness:
  "(100000000::int) < 172800000 \<and>
   (\<exists>k\<le>5. nth_run (Some 0) 1 ''day'' k = Inr (Some 172800000) \<and>
     (\<forall>j<k. \<exists>c. nth_run (Some 0) 1 ''day'' j = Inr (Some c) \<and> c \<le> 100000000))"
proof -
  have s: "advanceRecurrence (Some x) 1 ''day'' = Inr (TimeClip (x + msPerDay))" for x
    by (simp add: advanceRecurrence_def isRecurrenceUnit_def VALID_UNITS_def
      setUTCDate_shift [of x 1, simplified])
  have "advanceToNextFuture (Some 0) 1 ''day'' (Some 100000000) 5 = Inr (Some 172800000)"
    by (simp add: advanceToNextFuture_def advance_loop.simps s TimeClip_def msPerDay_def)
  from advanceToNextFuture_first [OF this] show ?thesis .
qed

text \<open>
  The iteration cap is only reached from an anchor that lies more than the cap's
  worth of unit lengths in the past: for every valid interval and unit, and any start
  closer than that to now, \<open>advanceToNextFuture\<close> returns and does not throw.
\<close>

theorem advanceToNextFuture_returns:
  assumes "isInteger interval" "0 < interval" "isRecurrenceUnit unit"
    and "now < from + int maxIterations * (unit_days unit * \<lfloor>interval\<rfloor> * msPerDay)"
  shows "\<exists>r. advanceToNextFuture (Some from) interval unit (Some now) maxIterations = Inr r"
  using advance_loop_returns [OF assms(1-3), of 0 maxIterations now "from"] assms(4)
  by (simp add: advanceToNextFuture_def)

theorem advanceToNextFuture_returns_witness:
  "\<exists>r. advanceToNextFuture (Some 0) 3 ''month'' (Some 1769853600000) DEFAULT_ADVANCE_CAP = Inr r"
  by (rule advanceToNextFuture_returns)
    (simp_all add: isRecurrenceUnit_def VALID_UNITS_def unit_days_def msPerDay_def
      DEFAULT_ADVANCE_CAP_def)

text \<open>
  The anchor parser accepts exactly the strings \<open>YYYY-MM-DD\<close> that name a day of the
  calendar, and gives that day at 09:00 UTC. For the years 0000 to 0099 the year it
  gives is 1900 to 1999: \<open>Date.UTC\<close> rewrites it and the check compares only the month
  and the day.
\<close>

theorem parseAnchorDateToUtc_accepts:
  "(\<exists>t. parseAnchorDateToUtc s = Inr (Some t)) \<longleftrightarrow>
     (\<exists>y m d. match_ymd s = Some (y, m, d) \<and> 1 \<le> m \<and> m \<le> 12 \<and> 1 \<le> d \<and>
        d \<le> DaysInMonth (utc_year y) (m - 1))"
  using anchor_in_range by (fastforce simp: parse_iff MakeTime_def TimeClip_def)

text \<open>
  The year of an accepted anchor: what was written for the years from 0100 on, and
  1900 more than what was written for the years 0000 to 0099. A mistyped century is
  accepted as a date of the twentieth century instead of being rejected.
\<close>

theorem parseAnchorDateToUtc_year:
  assumes "match_ymd s = Some (y, m, d)" and "parseAnchorDateToUtc s = Inr (Some t)"
  shows "getUTCFullYear t = (if 0 \<le> y \<and> y \<le> 99 then 1900 + y else y) \<and>
    getUTCMonth t = m - 1 \<and> getUTCDate t = d \<and> getUTCHours t = 9"
proof -
  have v: "1 \<le> m" "m \<le> 12" "1 \<le> d" "d \<le> DaysInMonth (utc_year y) (m - 1)"
    and t: "t = MakeDay (utc_year y) (m - 1) d * msPerDay + 32400000"
    using assms parse_fields [OF assms(2)] by auto
  have f: "getUTCFullYear t = utc_year y" "getUTCMonth t = m - 1" "getUTCDate t = d"
      "TimeWithinDay t = 32400000"
    unfolding t using v by (intro getUTC_fields_eq; simp add: msPerDay_def)+
  have "getUTCHours t = TimeWithinDay t div 3600000"
    by (rule getUTCHours_TimeWithinDay)
  with f show ?thesis by (simp add: utc_year_def)
qed

theorem parseAnchorDateToUtc_year_witness:
  "parseAnchorDateToUtc ''0026-03-01'' = Inr (Some (-1383404400000)) \<and>
   getUTCFullYear (-1383404400000) = 1926"
proof -
  have m: "match_ymd ''0026-03-01'' = Some (26, 3, 1)" by code_simp
  have p: "parseAnchorDateToUtc ''0026-03-01'' = Inr (Some (-1383404400000))" by code_simp
  from parseAnchorDateToUtc_year [OF m p] p show ?thesis by simp
qed

text \<open>
  The initial run time of a plan: when it is computed from a valid date it lies
  strictly after now, and it is the anchor itself or the first later run time.
\<close>

theorem computeInitialNextRunAt_future:
  assumes "computeInitialNextRunAt anchor interval unit (Some now) = Inr (Some r)"
  shows "now < r \<and> (\<exists>a k. parseAnchorDateToUtc anchor = Inr (Some a) \<and> k \<le> DEFAULT_ADVANCE_CAP \<and>
    nth_run (Some a) interval unit k = Inr (Some r) \<and>
    (\<forall>j<k. \<exists>c. nth_run (Some a) interval unit j = Inr (Some c) \<and> c \<le> now))"
proof -
  obtain a where a: "parseAnchorDateToUtc anchor = Inr (Some a)"
    using assms parse_not_None [of anchor]
    by (auto simp: computeInitialNextRunAt_def and_then_Inr_iff)
  show ?thesis
  proof (cases "now < a")
    case True
    with assms a have "r = a" by (simp add: computeInitialNextRunAt_def)
    with True a show ?thesis by (intro conjI exI [of _ a] exI [of _ 0]) auto
  next
    case False
    with assms a have
      "advance_loop (Some a) interval unit (Some now) 0 DEFAULT_ADVANCE_CAP = Inr (Some r)"
      by (simp add: computeInitialNextRunAt_def advanceToNextFuture_def)
    from advance_loop_first [OF this] a show ?thesis by auto
  qed
qed

theorem computeInitialNextRunAt_future_witness:
  "computeInitialNextRunAt ''2026-01-31'' 1 ''month'' (Some 1769850000001) = Inr (Some 1772269200000)
   \<and> (1769850000001::int) < 1772269200000"
proof -
  have p: "parseAnchorDateToUtc ''2026-01-31'' = Inr (Some 1769850000000)" by code_simp
  have a: "addCalendarMonths (Some 1769850000000) 1 = Some 1772269200000" by code_simp
  have "computeInitialNextRunAt ''2026-01-31'' 1 ''month'' (Some 1769850000001)
      = Inr (Some 1772269200000)"
    using p a by (simp add: computeInitialNextRunAt_def advanceToNextFuture_def
      advance_loop.simps [of "Some 1769850000000"] advance_loop.simps [of "Some 1772269200000"]
      advanceRecurrence_def isRecurrenceUnit_def VALID_UNITS_def DEFAULT_ADVANCE_CAP_def)
  with computeInitialNextRunAt_future [OF this] show ?thesis by blast
qed

end
