(* ===== verification/Business_Hours.thy ===== *)
theory Business_Hours
  imports Js_Date
begin

section \<open>Business hours\<close>

text \<open>
  \<open>modules/sla/business-hours.service.ts\<close>: adding business minutes to an instant and counting the
  business minutes between two instants, along the working hours and holidays of a calendar in its
  time zone. Both are loops over days with at most 400 rounds.

  Local time is the business of the date library: a record \<open>zone\<close> has the four operations the service uses
  (the weekday and the date of an instant, the instant with its hour and possibly its minute
  set and its seconds zero, the start of the next day), and the locale \<open>zone_laws\<close> what it relies on, for the times at which
  the windows of the calendar begin and end. UTC (\<open>utc_zone\<close>), to which the service falls back, keeps the laws for every
  calendar; a zone that changes its clock (\<open>shift_zone\<close>) keeps them for the calendars with no window that begins or ends in
  the hour the clock skips or repeats.
  Instants are milliseconds, durations whole minutes. A time of day is split at the colons and its parts
  are read as decimal numbers (an empty part as 0, as \<open>Number\<close> does); without a minute the library keeps the minute
  of the cursor, and it refuses a part that is not a number.
\<close>

subsection \<open>Calendars and zones\<close>

record WorkingDay =
  wk_start :: string
  wk_end :: string

record Holiday =
  hd_date :: string
  hd_recurring :: bool

record BusinessHoursCalendar =
  bc_time_zone :: string
  bc_working_hours :: "(string \<times> WorkingDay option) list"
  bc_holidays :: "Holiday list"

record zone =
  zn_weekday :: "int \<Rightarrow> nat"
  zn_ymd :: "int \<Rightarrow> nat \<times> nat \<times> nat"
  zn_set :: "int \<Rightarrow> nat \<Rightarrow> nat option \<Rightarrow> int"
  zn_next :: "int \<Rightarrow> int"

definition DAY_KEYS :: "string list" where
  "DAY_KEYS = [''sunday'', ''monday'', ''tuesday'', ''wednesday'', ''thursday'', ''friday'', ''saturday'']"

definition pad :: "nat \<Rightarrow> nat \<Rightarrow> string" where
  "pad k n = (let s = nat_string n in replicate (k - length s) (CHR ''0'') @ s)"

fun digits_value :: "nat \<Rightarrow> string \<Rightarrow> nat option" where
  "digits_value acc [] = Some acc"
| "digits_value acc (c # cs) =
     (if CHR ''0'' \<le> c \<and> c \<le> CHR ''9'' then digits_value (10 * acc + (of_char c - 48)) cs else None)"

definition hour_minute :: "string \<Rightarrow> (nat \<times> nat option) result" where
  "hour_minute s =
     (case map (digits_value 0) (split_on (CHR '':'') s) of
        [Some h] \<Rightarrow> Inr (h, None)
      | Some h # Some m # _ \<Rightarrow> Inr (h, Some m)
      | _ \<Rightarrow> Inl (PlainError ''Invalid unit value''))"

subsection \<open>Operations\<close>

definition isHoliday :: "zone \<Rightarrow> BusinessHoursCalendar \<Rightarrow> int \<Rightarrow> bool" where
  "isHoliday z c t =
     (case zn_ymd z t of (y, mo, d) \<Rightarrow>
        let mmdd = pad 2 mo @ ''-'' @ pad 2 d; full = pad 4 y @ ''-'' @ mmdd
        in \<exists>h\<in>set (bc_holidays c). hd_date h \<noteq> [] \<and>
             (if hd_recurring h then drop 5 (hd_date h) = mmdd else hd_date h = full))"

definition working_day :: "zone \<Rightarrow> BusinessHoursCalendar \<Rightarrow> int \<Rightarrow> WorkingDay option" where
  "working_day z c t =
     Option.bind (map_of (bc_working_hours c) (DAY_KEYS ! (if zn_weekday z t = 7 then 0 else zn_weekday z t))) id"

definition windowFor :: "zone \<Rightarrow> BusinessHoursCalendar \<Rightarrow> int \<Rightarrow> (int \<times> int) option result" where
  "windowFor z c t =
     (if isHoliday z c t then Inr None
      else (case working_day z c t of
              None \<Rightarrow> Inr None
            | Some wd \<Rightarrow>
                and_then (hour_minute (wk_start wd)) (\<lambda>(sh, sm).
                and_then (hour_minute (wk_end wd)) (\<lambda>(eh, em).
                  let s = zn_set z t sh sm; e = zn_set z t eh em
                  in Inr (if e \<le> s then None else Some (s, e))))))"

definition max_iterations :: nat where
  "max_iterations = 400"

text \<open>The loop of \<open>addBusinessMinutes\<close>; its result is the rest of the minutes and the cursor.\<close>

fun add_loop :: "nat \<Rightarrow> zone \<Rightarrow> BusinessHoursCalendar \<Rightarrow> int \<Rightarrow> int \<Rightarrow> (int \<times> int) result" where
  "add_loop 0 z c remaining cursor = Inr (remaining, cursor)"
| "add_loop (Suc n) z c remaining cursor =
     (if remaining \<le> 0 then Inr (remaining, cursor)
      else and_then (windowFor z c cursor) (\<lambda>w.
        case w of
          None \<Rightarrow> add_loop n z c remaining (zn_next z cursor)
        | Some (winStart, winEnd) \<Rightarrow>
            let cur = (if cursor < winStart then winStart else cursor)
            in if winEnd \<le> cur then add_loop n z c remaining (zn_next z cur)
               else let available = (winEnd - cur) div 60000
                    in if available \<le> 0 then add_loop n z c remaining (zn_next z cur)
                       else let tk = min remaining available
                            in add_loop n z c (remaining - tk) (cur + tk * 60000)))"

definition zone_of :: "(string \<Rightarrow> zone) \<Rightarrow> BusinessHoursCalendar \<Rightarrow> zone" where
  "zone_of zones c = zones (if bc_time_zone c = [] then ''UTC'' else bc_time_zone c)"

definition addBusinessMinutes :: "(string \<Rightarrow> zone) \<Rightarrow> BusinessHoursCalendar option \<Rightarrow> int \<Rightarrow> int \<Rightarrow> int result" where
  "addBusinessMinutes zones calendar start minutes =
     (case calendar of
        None \<Rightarrow> Inr (start + minutes * 60000)
      | Some c \<Rightarrow>
          if minutes \<le> 0 then Inr start
          else and_then (add_loop max_iterations (zone_of zones c) c minutes start) (\<lambda>(_, cursor). Inr cursor))"

fun between_loop :: "nat \<Rightarrow> zone \<Rightarrow> BusinessHoursCalendar \<Rightarrow> int \<Rightarrow> int \<Rightarrow> int \<Rightarrow> int result" where
  "between_loop 0 z c until tot cursor = Inr tot"
| "between_loop (Suc n) z c until tot cursor =
     (if until \<le> cursor then Inr tot
      else and_then (windowFor z c cursor) (\<lambda>w.
        case w of
          None \<Rightarrow> between_loop n z c until tot (zn_next z cursor)
        | Some (winStart, winEnd) \<Rightarrow>
            let cur = (if cursor < winStart then winStart else cursor)
            in if winEnd \<le> cur then between_loop n z c until tot (zn_next z cur)
               else if winEnd < until
               then between_loop n z c until (tot + max 0 ((winEnd - cur) div 60000)) (zn_next z winEnd)
               else between_loop n z c until (tot + max 0 ((until - cur) div 60000)) until))"

definition businessMinutesBetween ::
    "(string \<Rightarrow> zone) \<Rightarrow> BusinessHoursCalendar option \<Rightarrow> int \<Rightarrow> int \<Rightarrow> int result" where
  "businessMinutesBetween zones calendar from until =
     (if until \<le> from then Inr 0
      else (case calendar of
              None \<Rightarrow> Inr ((until - from) div 60000)
            | Some c \<Rightarrow> between_loop max_iterations (zone_of zones c) c until 0 from))"

subsection \<open>Calendars the loops work on\<close>

definition time_ok :: "string \<Rightarrow> bool" where
  "time_ok s \<longleftrightarrow> (case hour_minute s of Inl _ \<Rightarrow> False | Inr (h, m) \<Rightarrow> h < 24 \<and> (case m of None \<Rightarrow> False | Some m \<Rightarrow> m < 60))"

definition hours_ok :: "BusinessHoursCalendar \<Rightarrow> bool" where
  "hours_ok c \<longleftrightarrow> list_all (\<lambda>(_, wd). case wd of None \<Rightarrow> True | Some w \<Rightarrow> time_ok (wk_start w) \<and> time_ok (wk_end w))
     (bc_working_hours c)"

lemma working_day_ok:
  assumes "hours_ok c" "working_day z c t = Some w"
  shows "time_ok (wk_start w)" "time_ok (wk_end w)"
proof -
  from assms(2) obtain k where "map_of (bc_working_hours c) k = Some (Some w)"
    by (auto simp: working_day_def bind_eq_Some_conv)
  from map_of_SomeD [OF this] assms(1) show "time_ok (wk_start w)" "time_ok (wk_end w)"
    by (auto simp: hours_ok_def list_all_iff)
qed

text \<open>The times of day at which the windows of a calendar begin and end.\<close>

definition time_of_day :: "string \<Rightarrow> (nat \<times> nat) list" where
  "time_of_day s = (case hour_minute s of Inr (h, Some m) \<Rightarrow> [(h, m)] | _ \<Rightarrow> [])"

definition window_times :: "BusinessHoursCalendar \<Rightarrow> (nat \<times> nat) list" where
  "window_times c = concat (map (\<lambda>(_, wd). case wd of None \<Rightarrow> [] | Some w \<Rightarrow> time_of_day (wk_start w) @ time_of_day (wk_end w))
     (bc_working_hours c))"

lemma working_day_times:
  assumes "working_day z c t = Some w" "s \<in> {wk_start w, wk_end w}" "hour_minute s = Inr (h, Some m)"
  shows "(h, m) \<in> set (window_times c)"
proof -
  from assms(1) obtain k where "map_of (bc_working_hours c) k = Some (Some w)"
    by (auto simp: working_day_def bind_eq_Some_conv)
  from map_of_SomeD [OF this] assms(2,3) show ?thesis
    by (force simp: window_times_def time_of_day_def)
qed

text \<open>The rest of the window of a day from a cursor on.\<close>

definition slot :: "zone \<Rightarrow> BusinessHoursCalendar \<Rightarrow> int \<Rightarrow> (int \<times> int) option" where
  "slot z c t = (case windowFor z c t of
     Inr (Some (s, e)) \<Rightarrow> if e \<le> max t s then None else Some (max t s, e)
   | _ \<Rightarrow> None)"

text \<open>The whole business minutes of a day from an instant on.\<close>

definition day_minutes :: "zone \<Rightarrow> BusinessHoursCalendar \<Rightarrow> int \<Rightarrow> int" where
  "day_minutes z c t = (case slot z c t of None \<Rightarrow> 0 | Some (a, e) \<Rightarrow> (e - a) div 60000)"

text \<open>
  What the service relies on in the zone, for a calendar: a day has a next day, everything the service asks about
  an instant is a matter of its day, and the times at which windows begin and end are one instant of that day.
\<close>

locale zone_laws =
  fixes z :: zone and c :: BusinessHoursCalendar
  assumes next_later: "t < zn_next z t"
    and one_day: "t \<le> u \<Longrightarrow> u < zn_next z t \<Longrightarrow> zn_next z u = zn_next z t \<and> zn_weekday z u = zn_weekday z t \<and>
      zn_ymd z u = zn_ymd z t"
    and one_instant: "t \<le> u \<Longrightarrow> u < zn_next z t \<Longrightarrow> (h, m) \<in> set (window_times c) \<Longrightarrow>
      zn_set z u h (Some m) = zn_set z t h (Some m)"
    and set_before: "(h, m) \<in> set (window_times c) \<Longrightarrow> h < 24 \<Longrightarrow> m < 60 \<Longrightarrow> zn_set z t h (Some m) < zn_next z t"
begin

lemma window_one_day:
  assumes "hours_ok c" "t \<le> u" "u < zn_next z t"
  shows "windowFor z c u = windowFor z c t"
proof -
  note same = one_day [OF assms(2,3)]
  have days: "isHoliday z c u = isHoliday z c t" "working_day z c u = working_day z c t"
    using same by (auto simp: isHoliday_def working_day_def)
  show ?thesis
  proof (cases "working_day z c t")
    case (Some w)
    from working_day_ok [OF assms(1) this] obtain sh sm eh em where
      w: "hour_minute (wk_start w) = Inr (sh, Some sm)" "hour_minute (wk_end w) = Inr (eh, Some em)"
      by (auto simp: time_ok_def split: sum.splits option.splits)
    from Some w have "(sh, sm) \<in> set (window_times c)" "(eh, em) \<in> set (window_times c)"
      by (auto intro: working_day_times)
    then have "zn_set z u sh (Some sm) = zn_set z t sh (Some sm)" "zn_set z u eh (Some em) = zn_set z t eh (Some em)"
      using one_instant [OF assms(2,3)] by simp_all
    with Some days w show ?thesis by (simp add: windowFor_def)
  qed (simp add: windowFor_def days)
qed

lemma window_bounds:
  assumes "hours_ok c"
  obtains "windowFor z c t = Inr None"
  | s e where "windowFor z c t = Inr (Some (s, e))" "s < e" "e < zn_next z t"
proof (cases "isHoliday z c t \<or> working_day z c t = None")
  case True
  then have "windowFor z c t = Inr None" by (auto simp: windowFor_def)
  then show ?thesis by (rule that(1))
next
  case False
  then obtain w where w: "working_day z c t = Some w" "\<not> isHoliday z c t" by auto
  from working_day_ok [OF assms w(1)] obtain sh sm eh em where
    hm: "hour_minute (wk_start w) = Inr (sh, Some sm)" "hour_minute (wk_end w) = Inr (eh, Some em)" "eh < 24" "em < 60"
    by (auto simp: time_ok_def split: sum.splits option.splits)
  from w(1) hm(2) have "(eh, em) \<in> set (window_times c)" by (auto intro: working_day_times)
  with hm w set_before [of eh em t] that show ?thesis
    by (cases "zn_set z t eh (Some em) \<le> zn_set z t sh (Some sm)") (auto simp: windowFor_def)
qed

lemma slot_bounds:
  assumes "hours_ok c" "slot z c t = Some (a, e)"
  shows "t \<le> a" "a < e" "e < zn_next z t"
proof -
  from assms(1) have "t \<le> a \<and> a < e \<and> e < zn_next z t"
    by (cases rule: window_bounds [of t]) (use assms(2) in \<open>auto simp: slot_def split: if_splits\<close>)
  then show "t \<le> a" "a < e" "e < zn_next z t" by blast+
qed

lemma slot_later:
  assumes "hours_ok c" "slot z c t = Some (a, e)" "a \<le> u" "u < zn_next z t"
  shows "slot z c u = (if u < e then Some (u, e) else None)"
proof -
  from slot_bounds [OF assms(1,2)] assms(3) have "t \<le> u" by simp
  from window_one_day [OF assms(1) this assms(4)] assms(2,3) show ?thesis
    by (auto simp: slot_def split: sum.splits option.splits if_splits)
qed

lemma next_one_day: "t \<le> u \<Longrightarrow> u < zn_next z t \<Longrightarrow> zn_next z u = zn_next z t"
  using one_day by blast

lemma add_step:
  assumes "hours_ok c" "0 < rest"
  shows "add_loop (Suc n) z c rest t = (case slot z c t of
     None \<Rightarrow> add_loop n z c rest (zn_next z t)
   | Some (a, e) \<Rightarrow> if (e - a) div 60000 \<le> 0 then add_loop n z c rest (zn_next z t)
       else add_loop n z c (rest - min rest ((e - a) div 60000)) (a + min rest ((e - a) div 60000) * 60000))"
  using assms(1)
proof (cases rule: window_bounds [of t])
  case 1
  with assms(2) show ?thesis by (simp add: slot_def)
next
  case (2 s e)
  then have "zn_next z (max t s) = zn_next z t" using next_later by (intro next_one_day) auto
  moreover have "(if t < s then s else t) = max t s" by simp
  ultimately show ?thesis using 2 assms(2) by (simp add: slot_def Let_def)
qed

lemma between_step:
  assumes "hours_ok c" "t < until"
  shows "between_loop (Suc n) z c until tot t = (case slot z c t of
     None \<Rightarrow> between_loop n z c until tot (zn_next z t)
   | Some (a, e) \<Rightarrow> if e < until then between_loop n z c until (tot + (e - a) div 60000) (zn_next z t)
       else between_loop n z c until (tot + max 0 ((until - a) div 60000)) until)"
  using assms(1)
proof (cases rule: window_bounds [of t])
  case 1
  with assms(2) show ?thesis by (simp add: slot_def)
next
  case (2 s e)
  then have "zn_next z (max t s) = zn_next z t" using next_later by (intro next_one_day) auto
  moreover have "zn_next z e = zn_next z t" if "max t s < e" using 2 that by (intro next_one_day) auto
  moreover have "(if t < s then s else t) = max t s" by simp
  ultimately show ?thesis using 2 assms(2) by (auto simp: slot_def Let_def pos_imp_zdiv_nonneg_iff)
qed

lemma add_later:
  assumes "hours_ok c" "add_loop n z c rest t = Inr (rest', u)"
  shows "t \<le> u"
  using assms(2)
proof (induction n arbitrary: rest t)
  case (Suc n)
  show ?case
  proof (cases "0 < rest")
    case True
    show ?thesis
    proof (cases "slot z c t")
      case None
      with Suc.prems True have "add_loop n z c rest (zn_next z t) = Inr (rest', u)"
        by (simp del: add_loop.simps add: add_step [OF assms(1)])
      from Suc.IH [OF this] next_later [of t] show ?thesis by simp
    next
      case (Some p)
      then obtain a e where p: "slot z c t = Some (a, e)" by (cases p) simp
      have "add_loop n z c rest (zn_next z t) = Inr (rest', u) \<or>
          add_loop n z c (rest - min rest ((e - a) div 60000)) (a + min rest ((e - a) div 60000) * 60000) = Inr (rest', u) \<and>
          0 < (e - a) div 60000"
        using Suc.prems by (auto simp del: add_loop.simps simp: add_step [OF assms(1) True] p split: if_splits)
      then have "zn_next z t \<le> u \<or> a \<le> u" using Suc.IH True by fastforce
      with slot_bounds [OF assms(1) p] next_later [of t] show ?thesis by auto
    qed
  qed (use Suc.prems in simp)
qed simp


text \<open>
  Taking all minutes of a day leaves the cursor less than a minute before the end of its window, so that
  the next round goes on to the next day.
\<close>

lemma add_rest_of_day:
  assumes "hours_ok c" "slot z c t = Some (a, e)" "0 < rest" "v = a + (e - a) div 60000 * 60000"
  shows "add_loop (Suc n) z c rest v = add_loop n z c rest (zn_next z t)" "a \<le> v" "v \<le> e"
    "slot z c v = (if v < e then Some (v, e) else None)" "zn_next z v = zn_next z t" "(e - v) div 60000 = 0"
proof -
  note b = slot_bounds [OF assms(1,2)]
  have v: "v = e - (e - a) mod 60000" using minus_mult_div_eq_mod [of "e - a" 60000] by (simp add: assms(4) algebra_simps)
  have "0 \<le> (e - a) mod 60000" "(e - a) mod 60000 < 60000" by simp_all
  with v show le: "v \<le> e" and gap: "(e - v) div 60000 = 0" by simp_all
  show ge: "a \<le> v" using b(2) by (simp add: assms(4) pos_imp_zdiv_nonneg_iff)
  show nx: "zn_next z v = zn_next z t" using b le ge by (intro next_one_day) simp_all
  show sl: "slot z c v = (if v < e then Some (v, e) else None)" using slot_later [OF assms(1,2) ge] b(3) le by simp
  show "add_loop (Suc n) z c rest v = add_loop n z c rest (zn_next z t)"
    by (simp del: add_loop.simps add: add_step [OF assms(1,3)] sl nx gap)
qed

lemma add_done [simp]: "add_loop n z c 0 t = Inr (0, t)"
  by (cases n) simp_all

lemma between_done [simp]: "between_loop n z c t tot t = Inr tot"
  by (cases n) simp_all

subsection \<open>Counting gives back what was added\<close>

lemma between_add:
  assumes "hours_ok c" "add_loop n z c rest s = Inr (0, t)" "0 < rest" "n \<le> k"
  shows "s < t \<and> between_loop k z c t tot s = Inr (tot + rest)"
  using assms(2-4)
proof (induction n arbitrary: rest s k tot)
  case (Suc n)
  note step = add_step [OF assms(1) Suc.prems(2), of n s]
  from Suc.prems(3) obtain k' where k: "k = Suc k'" "n \<le> k'" by (cases k) auto
  show ?case
  proof (cases "slot z c s")
    case None
    with Suc.prems step have "add_loop n z c rest (zn_next z s) = Inr (0, t)" by (simp del: add_loop.simps)
    from Suc.IH [OF this Suc.prems(2) k(2), of tot] next_later [of s]
    have "s < t" "between_loop k' z c t tot (zn_next z s) = Inr (tot + rest)" by simp_all
    with None k(1) show ?thesis by (simp del: between_loop.simps add: between_step [OF assms(1)])
  next
    case (Some p)
    then obtain a e where p: "slot z c s = Some (a, e)" by (cases p) simp
    note b = slot_bounds [OF assms(1) p]
    let ?av = "(e - a) div 60000" and ?v = "a + (e - a) div 60000 * 60000"
    note v = add_rest_of_day [OF assms(1) p _ refl]
    have av: "0 \<le> ?av" using b(2) by (simp add: pos_imp_zdiv_nonneg_iff)
    show ?thesis
    proof (cases "rest \<le> ?av")
      case True
      with Suc.prems(1,2) step p have t: "t = a + rest * 60000" by (simp del: add_loop.simps)
      from True v(3) [OF Suc.prems(2)] have "t \<le> e" unfolding t by simp
      with t k(1) b p Suc.prems(2) show ?thesis by (simp del: between_loop.simps add: between_step [OF assms(1)])
    next
      case False
      then have more: "0 < rest - ?av" by simp
      have nxt: "add_loop n z c (if ?av = 0 then rest else rest - ?av) (if ?av = 0 then zn_next z s else ?v) = Inr (0, t)"
        using Suc.prems(1) step p False av by (auto simp del: add_loop.simps simp: min_def split: if_splits)
      have after: "zn_next z s \<le> t"
      proof (cases "?av = 0")
        case False
        with nxt more obtain n' where "n = Suc n'" "add_loop n' z c (rest - ?av) (zn_next z s) = Inr (0, t)"
          using v(1) [OF more] by (cases n) auto
        with add_later [OF assms(1)] show ?thesis by blast
      qed (use nxt add_later [OF assms(1)] in auto)
      have "between_loop k' z c t (tot + ?av) (zn_next z s) = Inr (tot + rest)"
      proof (cases "?av = 0")
        case True
        with nxt Suc.IH [of rest "zn_next z s" k' "tot + ?av"] Suc.prems(2) k(2) show ?thesis by simp
      next
        case False
        with nxt have "?v < t \<and> between_loop (Suc k') z c t (tot + ?av) ?v = Inr (tot + ?av + (rest - ?av))"
          using Suc.IH [of "rest - ?av" ?v "Suc k'" "tot + ?av"] more k(2) by (simp del: between_loop.simps)
        then show ?thesis
          using v(4-6) [OF more] b(3) after
          by (auto simp del: between_loop.simps simp: between_step [OF assms(1)] split: if_splits)
      qed
      with after b p k(1) show ?thesis by (simp del: between_loop.simps add: between_step [OF assms(1)])
    qed
  qed
qed simp

subsection \<open>Enough rounds\<close>

text \<open>A day takes at most two rounds, so the bound suffices for the minutes of half as many days.\<close>

lemma add_enough:
  assumes "hours_ok c" "0 \<le> rest" "rest \<le> (\<Sum>k<N. day_minutes z c ((zn_next z ^^ k) t))" "2 * N \<le> n"
  shows "\<exists>u. add_loop n z c rest t = Inr (0, u)"
  using assms(2-4)
proof (induction N arbitrary: rest t n)
  case (Suc N)
  from Suc.prems(3) obtain n' where n: "n = Suc (Suc n')" "2 * N \<le> n'" by (cases n; cases "n - 1") auto
  have sum: "(\<Sum>k<Suc N. day_minutes z c ((zn_next z ^^ k) t)) =
      day_minutes z c t + (\<Sum>k<N. day_minutes z c ((zn_next z ^^ k) (zn_next z t)))"
    by (subst sum.lessThan_Suc_shift) (simp add: funpow_swap1)
  show ?case
  proof (cases "0 < rest")
    case True
    note step = add_step [OF assms(1) True, of "Suc n'" t]
    show ?thesis
    proof (cases "slot z c t")
      case None
      then have "day_minutes z c t = 0" by (simp add: day_minutes_def)
      with Suc.IH [of rest "zn_next z t" "Suc n'"] Suc.prems n sum step None show ?thesis
        by (simp del: add_loop.simps)
    next
      case (Some p)
      then obtain a e where p: "slot z c t = Some (a, e)" by (cases p) simp
      then have av: "day_minutes z c t = (e - a) div 60000" by (simp add: day_minutes_def)
      show ?thesis
      proof (cases "(e - a) div 60000 \<le> 0")
        case True
        with Suc.IH [of rest "zn_next z t" "Suc n'"] Suc.prems n sum step p av show ?thesis
          by (simp del: add_loop.simps)
      next
        case pos: False
        show ?thesis
        proof (cases "rest \<le> (e - a) div 60000")
          case True
          with pos step p n(1) show ?thesis by (simp del: add_loop.simps)
        next
          case False
          then have more: "0 < rest - (e - a) div 60000" by simp
          from False pos step p n(1) add_rest_of_day (1) [OF assms(1) p more refl, of n']
          have "add_loop n z c rest t = add_loop n' z c (rest - (e - a) div 60000) (zn_next z t)"
            by (simp del: add_loop.simps)
          with Suc.IH [of "rest - (e - a) div 60000" "zn_next z t" n'] more Suc.prems n(2) sum av show ?thesis by simp
        qed
      qed
    qed
  next
    case False
    with Suc.prems(1) show ?thesis by simp
  qed
qed simp

lemma add_total: "hours_ok c \<Longrightarrow> \<exists>r. add_loop n z c rest t = Inr r"
proof (induction n arbitrary: rest t)
  case (Suc n)
  then show ?case by (cases rule: window_bounds [OF Suc.prems, of t]) (simp_all add: Let_def)
qed simp

lemma between_total: "hours_ok c \<Longrightarrow> \<exists>r. between_loop n z c until tot t = Inr r"
proof (induction n arbitrary: tot t)
  case (Suc n)
  then show ?case by (cases rule: window_bounds [OF Suc.prems, of t]) (simp_all add: Let_def)
qed simp

lemma between_grows: "hours_ok c \<Longrightarrow> between_loop n z c until tot t = Inr r \<Longrightarrow> tot \<le> r"
proof (induction n arbitrary: tot t)
  case (Suc n)
  show ?case
  proof (cases "until \<le> t")
    case False
    then have step: "t < until" by simp
    note s = between_step [OF Suc.prems(1) step, of n tot]
    show ?thesis
    proof (cases "slot z c t")
      case None
      with s Suc.prems(2) have "between_loop n z c until tot (zn_next z t) = Inr r" by simp
      from Suc.IH [OF Suc.prems(1) this] show ?thesis .
    next
      case (Some p)
      then obtain a e where p: "slot z c t = Some (a, e)" by (cases p) simp
      have "0 \<le> (e - a) div 60000" using slot_bounds [OF Suc.prems(1) p] by (simp add: pos_imp_zdiv_nonneg_iff)
      with s p Suc.prems(2) Suc.IH [OF Suc.prems(1)] show ?thesis by (fastforce split: if_splits)
    qed
  qed (use Suc.prems in simp)
qed simp

lemma add_then_count:
  assumes "zone_of zones c = z" "hours_ok c" "0 < minutes" "N \<le> 200"
    "minutes \<le> (\<Sum>k<N. day_minutes z c ((zn_next z ^^ k) start))"
  shows "\<exists>t. addBusinessMinutes zones (Some c) start minutes = Inr t \<and> start < t \<and>
    businessMinutesBetween zones (Some c) start t = Inr minutes"
proof -
  obtain t where t: "add_loop max_iterations z c minutes start = Inr (0, t)"
    using add_enough [OF assms(2) _ assms(5), of max_iterations] assms(3,4) by (auto simp: max_iterations_def)
  from between_add [OF assms(2) this assms(3) order_refl, of 0] assms(1,3) t show ?thesis
    by (auto simp: addBusinessMinutes_def businessMinutesBetween_def)
qed

end

text \<open>Calendars on which both operations answer.\<close>

definition lawful :: "(string \<Rightarrow> zone) \<Rightarrow> BusinessHoursCalendar \<Rightarrow> bool" where
  "lawful zones c \<longleftrightarrow> hours_ok c \<and> zone_laws (zone_of zones c) c"

lemma addBusinessMinutes_returns:
  assumes "\<And>c. calendar = Some c \<Longrightarrow> lawful zones c"
  shows "\<exists>d. addBusinessMinutes zones calendar start minutes = Inr d"
proof (cases calendar)
  case (Some c)
  from assms [OF this] obtain r where "add_loop max_iterations (zone_of zones c) c minutes start = Inr r"
    unfolding lawful_def using zone_laws.add_total by blast
  with Some show ?thesis by (cases r) (simp add: addBusinessMinutes_def)
qed (simp add: addBusinessMinutes_def)

lemma businessMinutesBetween_returns:
  assumes "\<And>c. calendar = Some c \<Longrightarrow> lawful zones c"
  shows "\<exists>m. businessMinutesBetween zones calendar from until = Inr m \<and> 0 \<le> m"
proof (cases calendar)
  case None
  then show ?thesis by (simp add: businessMinutesBetween_def pos_imp_zdiv_nonneg_iff)
next
  case (Some c)
  note c = assms [OF this, unfolded lawful_def]
  then obtain r where "between_loop max_iterations (zone_of zones c) c until 0 from = Inr r"
    using zone_laws.between_total by blast
  with zone_laws.between_grows [of "zone_of zones c" c max_iterations until 0 "from" r] c Some show ?thesis
    by (simp add: businessMinutesBetween_def)
qed

subsection \<open>The zone UTC\<close>

definition utc_zone :: zone where
  "utc_zone =
     \<lparr>zn_weekday = (\<lambda>t. let d = (Day t + 4) mod 7 in if d = 0 then 7 else nat d),
      zn_ymd = (\<lambda>t. (nat (getUTCFullYear t), nat (getUTCMonth t + 1), nat (getUTCDate t))),
      zn_set = (\<lambda>t h m. Day t * msPerDay +
        MakeTime (int h) (case m of None \<Rightarrow> t div 60000 mod 60 | Some m \<Rightarrow> int m) 0 0),
      zn_next = (\<lambda>t. (Day t + 1) * msPerDay)\<rparr>"

lemma same_day:
  assumes "t \<le> u" "u < (Day t + 1) * msPerDay"
  shows "Day u = Day t"
proof -
  have "Day t \<le> Day u" using assms(1) by (simp add: Day_def msPerDay_def zdiv_mono1)
  moreover have "Day u < Day t + 1" using assms(2) by (simp add: Day_def msPerDay_def div_less_iff_less_mult)
  ultimately show ?thesis by simp
qed

lemma utc_same_day:
  assumes "Day u = Day t"
  shows "zn_next utc_zone u = zn_next utc_zone t" "zn_weekday utc_zone u = zn_weekday utc_zone t"
    "zn_ymd utc_zone u = zn_ymd utc_zone t" "zn_set utc_zone u h (Some m) = zn_set utc_zone t h (Some m)"
  using assms by (simp_all add: utc_zone_def getUTCFullYear_def getUTCMonth_def getUTCDate_def)

interpretation utc: zone_laws utc_zone c for c
proof
  fix t u :: int and h m :: nat
  show "t < zn_next utc_zone t" by (simp add: utc_zone_def Day_def msPerDay_def)
  show "zn_next utc_zone u = zn_next utc_zone t \<and> zn_weekday utc_zone u = zn_weekday utc_zone t \<and> zn_ymd utc_zone u = zn_ymd utc_zone t"
    "zn_set utc_zone u h (Some m) = zn_set utc_zone t h (Some m)" if "t \<le> u" "u < zn_next utc_zone t"
    using utc_same_day [OF same_day [of t u]] that by (simp_all add: utc_zone_def)
  show "zn_set utc_zone t h (Some m) < zn_next utc_zone t" if "h < 24" "m < 60"
    using that by (simp add: utc_zone_def MakeTime_def msPerDay_def)
qed

subsection \<open>A zone that changes its clock\<close>

text \<open>
  A zone whose offset to UTC is \<open>a\<close> milliseconds before an instant \<open>T\<close> and \<open>b\<close> from then on. Local times between
  \<open>T + min a b\<close> and \<open>T + max a b\<close> are skipped or come twice; every other local time is one instant. The laws hold for the
  calendars whose windows, like the days, begin and end at such times.
\<close>

definition local_at :: "int \<Rightarrow> int \<Rightarrow> int \<Rightarrow> int \<Rightarrow> int" where
  "local_at T a b t = t + (if t < T then a else b)"

definition instant_of :: "int \<Rightarrow> int \<Rightarrow> int \<Rightarrow> int \<Rightarrow> int" where
  "instant_of T a b x = x - (if x < T + min a b then a else b)"

definition shift_zone :: "int \<Rightarrow> int \<Rightarrow> int \<Rightarrow> zone" where
  "shift_zone T a b =
     \<lparr>zn_weekday = (\<lambda>t. zn_weekday utc_zone (local_at T a b t)), zn_ymd = (\<lambda>t. zn_ymd utc_zone (local_at T a b t)),
      zn_set = (\<lambda>t h m. instant_of T a b (zn_set utc_zone (local_at T a b t) h m)),
      zn_next = (\<lambda>t. instant_of T a b (zn_next utc_zone (local_at T a b t)))\<rparr>"

definition one_instant_at :: "int \<Rightarrow> int \<Rightarrow> int \<Rightarrow> int \<Rightarrow> bool" where
  "one_instant_at T a b x \<longleftrightarrow> x < T + min a b \<or> T + max a b \<le> x"

text \<open>At such a local time the clock shows it or a later time exactly from its instant on.\<close>

lemma instant_iff: "one_instant_at T a b x \<Longrightarrow> instant_of T a b x \<le> t \<longleftrightarrow> x \<le> local_at T a b t"
  by (auto simp: one_instant_at_def instant_of_def local_at_def min_def max_def split: if_splits)

lemma instant_local: "one_instant_at T a b x \<Longrightarrow> local_at T a b (instant_of T a b x) = x"
  by (auto simp: one_instant_at_def instant_of_def local_at_def min_def max_def split: if_splits)

lemma shift_zone_laws:
  assumes midnight: "\<And>d. one_instant_at T a b (d * msPerDay)"
    and times: "\<And>d h m. (h, m) \<in> set (window_times c) \<Longrightarrow> one_instant_at T a b (d * msPerDay + MakeTime (int h) (int m) 0 0)"
  shows "zone_laws (shift_zone T a b) c"
proof
  let ?z = "shift_zone T a b" and ?L = "local_at T a b"
  have start: "Day x * msPerDay \<le> x" "x < (Day x + 1) * msPerDay" for x by (simp_all add: Day_def msPerDay_def)
  have next_: "zn_next ?z t \<le> u \<longleftrightarrow> (Day (?L t) + 1) * msPerDay \<le> ?L u" for t u
    using instant_iff [OF midnight] by (simp add: shift_zone_def utc_zone_def)
  fix t u :: int and h m :: nat
  show "t < zn_next ?z t" using next_ [of t t] start [of "?L t"] by simp
  have day: "Day (?L u) = Day (?L t)" if "t \<le> u" "u < zn_next ?z t"
  proof -
    have "instant_of T a b (Day (?L t) * msPerDay) \<le> u"
      using instant_iff [OF midnight, of "Day (?L t)" t] start(1) [of "?L t"] that(1) by simp
    then have "Day (?L t) * msPerDay \<le> ?L u" using instant_iff [OF midnight] by simp
    moreover have "?L u < (Day (?L t) + 1) * msPerDay" using next_ [of t u] that(2) by simp
    ultimately show ?thesis using same_day [of "Day (?L t) * msPerDay" "?L u"] by (simp add: Day_def msPerDay_def)
  qed
  show "zn_next ?z u = zn_next ?z t \<and> zn_weekday ?z u = zn_weekday ?z t \<and> zn_ymd ?z u = zn_ymd ?z t"
    "(h, m) \<in> set (window_times c) \<Longrightarrow> zn_set ?z u h (Some m) = zn_set ?z t h (Some m)" if "t \<le> u" "u < zn_next ?z t"
    using utc_same_day [OF day [OF that]] by (simp_all add: shift_zone_def)
  assume hm: "(h, m) \<in> set (window_times c)" "h < 24" "m < 60"
  let ?x = "Day (?L t) * msPerDay + MakeTime (int h) (int m) 0 0"
  have "?x < (Day (?L t) + 1) * msPerDay" using hm(2,3) by (simp add: MakeTime_def msPerDay_def)
  then have "\<not> zn_next ?z t \<le> instant_of T a b ?x" using next_ [of t] instant_local [OF times [OF hm(1)]] by simp
  then show "zn_set ?z t h (Some m) < zn_next ?z t" by (simp add: shift_zone_def utc_zone_def)
qed

lemma one_instant_day:
  assumes "T + min a b = day * msPerDay + lo" "T + max a b = day * msPerDay + hi" "0 \<le> lo" "hi \<le> msPerDay"
    "0 \<le> x" "x < msPerDay" "x < lo \<or> hi \<le> x"
  shows "one_instant_at T a b (d * msPerDay + x)"
proof -
  consider "d + 1 \<le> day" | "d = day" | "day + 1 \<le> d" by linarith
  then show ?thesis
  proof cases
    case 1
    from mult_right_mono [OF this, of msPerDay] assms show ?thesis by (simp add: one_instant_at_def msPerDay_def)
  next
    case 3
    from mult_right_mono [OF this, of msPerDay] assms show ?thesis by (simp add: one_instant_at_def msPerDay_def)
  qed (use assms in \<open>auto simp: one_instant_at_def\<close>)
qed

subsection \<open>A calendar\<close>

definition ex_calendar :: BusinessHoursCalendar where
  "ex_calendar =
     \<lparr>bc_time_zone = [],
      bc_working_hours =
        [(''monday'', Some \<lparr>wk_start = ''09:00'', wk_end = ''17:30''\<rparr>), (''tuesday'', Some \<lparr>wk_start = ''09:00'', wk_end = ''17:00''\<rparr>),
         (''friday'', Some \<lparr>wk_start = ''08:00'', wk_end = ''12:00''\<rparr>), (''saturday'', None)],
      bc_holidays = [\<lparr>hd_date = ''2020-12-25'', hd_recurring = True\<rparr>]\<rparr>"

text \<open>Amsterdam in 2026 up to the autumn: on 29 March, a Sunday, the clock goes from 02:00 to 03:00.\<close>

definition amsterdam :: zone where
  "amsterdam = shift_zone (MakeDay 2026 2 29 * msPerDay + MakeTime 1 0 0 0) 3600000 7200000"

interpretation amsterdam: zone_laws amsterdam ex_calendar
  unfolding amsterdam_def
proof (rule shift_zone_laws)
  let ?T = "MakeDay 2026 2 29 * msPerDay + MakeTime 1 0 0 0"
  have clear: "one_instant_at ?T 3600000 7200000 (d * msPerDay + x)" if "0 \<le> x" "x < msPerDay" "x < 7200000 \<or> 10800000 \<le> x" for d x
    using one_instant_day [of ?T 3600000 7200000 "MakeDay 2026 2 29" 7200000 10800000 x d] that
    by (simp add: MakeTime_def msPerDay_def)
  from clear [of 0] show "one_instant_at ?T 3600000 7200000 (d * msPerDay)" for d by (simp add: msPerDay_def)
  fix d :: int and h m :: nat
  assume "(h, m) \<in> set (window_times ex_calendar)"
  moreover have "window_times ex_calendar = [(9, 0), (17, 30), (9, 0), (17, 0), (8, 0), (12, 0)]" by code_simp
  ultimately have "(h, m) \<in> {(9, 0), (17, 30), (17, 0), (8, 0), (12, 0)}" by auto
  then show "one_instant_at ?T 3600000 7200000 (d * msPerDay + MakeTime (int h) (int m) 0 0)"
    by (intro clear) (auto simp: MakeTime_def msPerDay_def)
qed

text \<open>Friday 24 July 2026, 10:20.\<close>

definition ex_friday :: int where
  "ex_friday = MakeDay 2026 6 24 * msPerDay + MakeTime 10 20 0 0"

definition all_day :: BusinessHoursCalendar where
  "all_day =
     \<lparr>bc_time_zone = [],
      bc_working_hours = map (\<lambda>k. (k, Some \<lparr>wk_start = ''00:00'', wk_end = ''24:00''\<rparr>)) DAY_KEYS,
      bc_holidays = []\<rparr>"

lemma add_loop_closed:
  assumes "\<And>t. windowFor z c t = Inr None" "0 < rest"
  shows "add_loop n z c rest s = Inr (rest, (zn_next z ^^ n) s)"
  using assms by (induction n arbitrary: s) (simp_all add: funpow_swap1)

lemma ex_calendar_days:
  "zn_weekday utc_zone ex_friday = 5" "zn_ymd utc_zone ex_friday = (2026, 7, 24)"
  "zn_weekday utc_zone (ex_friday + 222000000) = 1" "zn_ymd utc_zone (ex_friday + 222000000) = (2026, 7, 27)"
  "map (pad 2) [7, 24, 27] = [''07'', ''24'', ''27'']"
  "map hour_minute [''09:00'', ''17:30'', ''08:00'', ''12:00''] =
     [Inr (9, Some 0), Inr (17, Some 30), Inr (8, Some 0), Inr (12, Some 0)]"
  "Day ex_friday * msPerDay + 37200000 = ex_friday" "Day (ex_friday + 222000000) * msPerDay = ex_friday + 222000000"
proof -
  have days: "Day ex_friday = MakeDay 2026 6 24" "Day (ex_friday + 222000000) = MakeDay 2026 6 27"
    by (simp_all add: ex_friday_def Day_def msPerDay_def MakeTime_def MakeDay_def)
  have numbers: "MakeDay 2026 6 24 = 20658" "MakeDay 2026 6 27 = 20661" "DaysInMonth 2026 6 = 31" by code_simp+
  show "zn_weekday utc_zone ex_friday = 5" "zn_weekday utc_zone (ex_friday + 222000000) = 1"
    by (simp_all add: utc_zone_def days numbers)
  show "zn_ymd utc_zone ex_friday = (2026, 7, 24)" "zn_ymd utc_zone (ex_friday + 222000000) = (2026, 7, 27)"
    using fields_MakeDay [of 6 24 2026] fields_MakeDay [of 6 27 2026]
    by (simp_all add: utc_zone_def getUTCFullYear_def getUTCMonth_def getUTCDate_def days numbers)
  show "Day ex_friday * msPerDay + 37200000 = ex_friday" "Day (ex_friday + 222000000) * msPerDay = ex_friday + 222000000"
    by (simp_all add: days) (simp_all add: ex_friday_def numbers msPerDay_def MakeTime_def)
qed code_simp+

lemma ex_calendar_windows:
  "windowFor utc_zone ex_calendar ex_friday = Inr (Some (ex_friday - 8400000, ex_friday + 6000000))"
  "windowFor utc_zone ex_calendar (ex_friday + 222000000) = Inr (Some (ex_friday + 254400000, ex_friday + 285000000))"
proof -
  have "\<not> isHoliday utc_zone ex_calendar ex_friday" "\<not> isHoliday utc_zone ex_calendar (ex_friday + 222000000)"
    using ex_calendar_days by (simp_all add: isHoliday_def ex_calendar_def)
  moreover have "working_day utc_zone ex_calendar ex_friday = Some \<lparr>wk_start = ''08:00'', wk_end = ''12:00''\<rparr>"
    "working_day utc_zone ex_calendar (ex_friday + 222000000) = Some \<lparr>wk_start = ''09:00'', wk_end = ''17:30''\<rparr>"
    by (simp_all add: working_day_def ex_calendar_days ex_calendar_def DAY_KEYS_def)
  moreover have "zn_set utc_zone ex_friday h (Some m) = ex_friday - 37200000 + MakeTime (int h) (int m) 0 0"
    "zn_set utc_zone (ex_friday + 222000000) h (Some m) = ex_friday + 222000000 + MakeTime (int h) (int m) 0 0" for h m
    using ex_calendar_days(7,8) by (simp_all add: utc_zone_def)
  ultimately show "windowFor utc_zone ex_calendar ex_friday = Inr (Some (ex_friday - 8400000, ex_friday + 6000000))"
    "windowFor utc_zone ex_calendar (ex_friday + 222000000) = Inr (Some (ex_friday + 254400000, ex_friday + 285000000))"
    using ex_calendar_days(6) by (simp_all add: windowFor_def MakeTime_def)
qed

lemma ex_calendar_minutes:
  "480 \<le> (\<Sum>k<4. day_minutes utc_zone ex_calendar ((zn_next utc_zone ^^ k) ex_friday))"
proof -
  have days: "[0..<4] = [0, 1, 2, 3]" by code_simp
  have monday: "zn_next utc_zone (zn_next utc_zone (zn_next utc_zone ex_friday)) = ex_friday + 222000000" by code_simp
  have nonneg: "0 \<le> day_minutes z c t" for z c t
    by (auto simp: day_minutes_def slot_def pos_imp_zdiv_nonneg_iff split: option.splits sum.splits)
  have "day_minutes utc_zone ex_calendar ex_friday = 100"
    "day_minutes utc_zone ex_calendar (ex_friday + 222000000) = 510"
    using ex_calendar_windows by (simp_all add: day_minutes_def slot_def)
  then show ?thesis
    using nonneg [of utc_zone ex_calendar "zn_next utc_zone ex_friday"]
      nonneg [of utc_zone ex_calendar "zn_next utc_zone (zn_next utc_zone ex_friday)"]
    by (simp add: lessThan_atLeast0 sum_set_upt_conv_sum_list_nat days eval_nat_numeral monday)
qed

lemma all_day_window: "windowFor utc_zone all_day t = Inr (Some (Day t * msPerDay, (Day t + 1) * msPerDay))"
proof -
  let ?i = "if zn_weekday utc_zone t = 7 then 0 else zn_weekday utc_zone t"
  have "(Day t + 4) mod 7 < 7" "0 \<le> (Day t + 4) mod 7" by simp_all
  then have "?i < 7" by (auto simp: utc_zone_def Let_def)
  moreover have "length DAY_KEYS = 7" by (simp add: DAY_KEYS_def)
  ultimately have "DAY_KEYS ! ?i \<in> set DAY_KEYS" by (metis nth_mem)
  then have wd: "working_day utc_zone all_day t = Some \<lparr>wk_start = ''00:00'', wk_end = ''24:00''\<rparr>"
    by (simp add: working_day_def all_day_def map_of_map_restrict)
  have hm: "hour_minute ''00:00'' = Inr (0, Some 0)" "hour_minute ''24:00'' = Inr (24, Some 0)" by code_simp+
  have "\<not> isHoliday utc_zone all_day t" by (simp add: isHoliday_def all_day_def)
  with wd hm show ?thesis by (simp add: windowFor_def utc_zone_def MakeTime_def msPerDay_def algebra_simps)
qed

lemma add_all_day:
  "k \<le> n \<Longrightarrow> add_loop n utc_zone all_day (int k * 1440) (d * msPerDay) = Inr (0, (d + int k) * msPerDay)"
proof (induction k arbitrary: n d)
  case (Suc k)
  then obtain n' where n: "n = Suc n'" "k \<le> n'" by (cases n) auto
  have "((d + 1) * msPerDay - d * msPerDay) div 60000 = 1440" "d * msPerDay + 1440 * 60000 = (d + 1) * msPerDay"
    "d * msPerDay < (d + 1) * msPerDay" "int (Suc k) * 1440 - 1440 = int k * 1440" "min (int (Suc k) * 1440) 1440 = 1440"
    by (simp_all add: msPerDay_def algebra_simps)
  then have "add_loop n utc_zone all_day (int (Suc k) * 1440) (d * msPerDay) =
      add_loop n' utc_zone all_day (int k * 1440) ((d + 1) * msPerDay)"
    by (simp only: n add_loop.simps all_day_window) (simp add: Let_def)
  with Suc.IH [OF n(2), of "d + 1"] show ?case by (simp add: algebra_simps)
qed simp

lemma between_all_day:
  "k \<le> n \<Longrightarrow> between_loop n utc_zone all_day ((d + 2 * int k) * msPerDay) tot (d * msPerDay) = Inr (tot + int k * 1440)"
proof (induction k arbitrary: n d tot)
  case (Suc k)
  then obtain n' where n: "n = Suc n'" "k \<le> n'" by (cases n) auto
  let ?u = "(d + 2 * int (Suc k)) * msPerDay"
  have "((d + 1) * msPerDay - d * msPerDay) div 60000 = 1440" "d * msPerDay < (d + 1) * msPerDay"
    "d * msPerDay < ?u" "(d + 1) * msPerDay < ?u" "zn_next utc_zone ((d + 1) * msPerDay) = (d + 2) * msPerDay"
    by (simp_all add: msPerDay_def algebra_simps utc_zone_def Day_def)
  then have "between_loop n utc_zone all_day ?u tot (d * msPerDay) =
      between_loop n' utc_zone all_day ?u (tot + 1440) ((d + 2) * msPerDay)"
    by (simp only: n between_loop.simps all_day_window) (simp add: Let_def)
  with Suc.IH [OF n(2), of "d + 2" "tot + 1440"] show ?case by (simp add: algebra_simps)
qed simp

subsection \<open>Properties\<close>

text \<open>
  C15. A due date counts back, on the calendars the loops are made for. When the windows begin and end between 00:00 and
  23:59, at times that are one instant on every day of the zone (so that no clock change falls into them), the due date
  of any number of minutes that 200 days offer is later than the start, and counting the business minutes up to it
  gives back exactly that number. C34 and C35 show what happens on other calendars.
\<close>

theorem deadline_counts_back:
  assumes "zone_laws (zone_of zones c) c" "hours_ok c" "0 < minutes" "N \<le> 200"
    "minutes \<le> (\<Sum>k<N. day_minutes (zone_of zones c) c ((zn_next (zone_of zones c) ^^ k) start))"
  shows "\<exists>t. addBusinessMinutes zones (Some c) start minutes = Inr t \<and> start < t \<and>
    businessMinutesBetween zones (Some c) start t = Inr minutes"
  by (rule zone_laws.add_then_count [OF assms(1) refl assms(2-5)])

theorem deadline_counts_back_witness:
  "\<exists>t. addBusinessMinutes (\<lambda>_. utc_zone) (Some ex_calendar) ex_friday 480 = Inr t \<and> ex_friday < t \<and>
    businessMinutesBetween (\<lambda>_. utc_zone) (Some ex_calendar) ex_friday t = Inr 480"
proof (rule deadline_counts_back [where N = 4])
  show "zone_laws (zone_of (\<lambda>_. utc_zone) ex_calendar) ex_calendar" by (simp add: zone_of_def utc.zone_laws_axioms)
  show "hours_ok ex_calendar" by code_simp
qed (use ex_calendar_minutes in \<open>simp_all add: zone_of_def\<close>)

text \<open>
  C35. On a calendar without a working day the loop runs out of rounds, and the service answers with the start
  of the four hundredth day after the start, whatever the number of minutes: a due date without an error.
\<close>

theorem closed_calendar_due_date:
  assumes "\<And>t. windowFor (zone_of zones c) c t = Inr None" "0 < minutes"
  shows "addBusinessMinutes zones (Some c) start minutes = Inr ((zn_next (zone_of zones c) ^^ 400) start)"
  using assms(2) by (simp add: addBusinessMinutes_def max_iterations_def add_loop_closed [OF assms(1)])

theorem closed_calendar_due_date_witness:
  "let c = ex_calendar\<lparr>bc_working_hours := []\<rparr>
   in addBusinessMinutes (\<lambda>_. utc_zone) (Some c) 0 1 = Inr ((zn_next utc_zone ^^ 400) 0)"
  using closed_calendar_due_date [of "\<lambda>_. utc_zone" "ex_calendar\<lparr>bc_working_hours := []\<rparr>" 1 0]
  by (simp add: zone_of_def windowFor_def working_day_def)

text \<open>
  C34. A window that ends at 24:00 makes the count skip the day after it: on a calendar that is open around the
  clock, an even number of days from midnight counts as half as many, although the due date of
  the minutes of all these days is exactly their end.
\<close>

theorem midnight_window_halves:
  assumes "0 < k" "k \<le> 200"
  shows "addBusinessMinutes (\<lambda>_. utc_zone) (Some all_day) (d * msPerDay) (int (2 * k) * 1440) =
      Inr ((d + int (2 * k)) * msPerDay) \<and>
    businessMinutesBetween (\<lambda>_. utc_zone) (Some all_day) (d * msPerDay) ((d + int (2 * k)) * msPerDay) =
      Inr (int k * 1440)"
proof -
  have "d * msPerDay < (d + 2 * int k) * msPerDay" using assms(1) by (simp add: msPerDay_def)
  with between_all_day [of k max_iterations d 0] add_all_day [of "2 * k" max_iterations d] assms show ?thesis
    by (simp add: addBusinessMinutes_def businessMinutesBetween_def zone_of_def max_iterations_def)
qed

theorem midnight_window_halves_witness:
  "businessMinutesBetween (\<lambda>_. utc_zone) (Some all_day) (20654 * msPerDay) (20656 * msPerDay) = Inr 1440"
  using midnight_window_halves [of 1 20654] by simp

end
