(* ===== verification/Db_Tx.thy ===== *)
theory Db_Tx
  imports Prelude
begin

text \<open>
  Tables and transactions, as DbService (common/db/db.service.ts) gives them to the
  services. A table is the list of its rows; a row is found by its primary key and updated
  by a filtered UPDATE. A transaction works on a copy of the database, the pair of the
  copy and a flag that says whether a statement of the transaction has failed. PostgreSQL
  refuses every statement after a failed one and turns the final COMMIT into a ROLLBACK,
  also when the program caught the error of the failed statement.

  The last part has the two interfaces the services are clients of: operations that keep
  an invariant, and operations along which a relation between databases grows. Both carry
  over from one operation to any sequence of operations.
\<close>

subsection \<open>Rows\<close>

definition select_by :: "('r \<Rightarrow> 'k) \<Rightarrow> 'k \<Rightarrow> 'r list \<Rightarrow> 'r option" where
  "select_by key k rows = find (\<lambda>r. key r = k) rows"

definition update_where :: "('r \<Rightarrow> bool) \<Rightarrow> ('r \<Rightarrow> 'r) \<Rightarrow> 'r list \<Rightarrow> 'r list" where
  "update_where P f rows = map (\<lambda>r. if P r then f r else r) rows"

lemma select_by_SomeD: "select_by key k rows = Some r \<Longrightarrow> r \<in> set rows \<and> key r = k"
  by (auto simp: select_by_def find_Some_iff)

lemma select_by_None: "select_by key k rows = None \<longleftrightarrow> (\<forall>r\<in>set rows. key r \<noteq> k)"
  by (auto simp: select_by_def find_None_iff)

lemma select_by_mem:
  assumes "distinct (map key rows)" "r \<in> set rows"
  shows "select_by key (key r) rows = Some r"
  using assms by (induction rows) (auto simp: select_by_def)

lemma key_inj:
  assumes "distinct (map key rows)" "r \<in> set rows" "q \<in> set rows" "key r = key q"
  shows "r = q"
  using assms by (auto simp: distinct_map dest: inj_onD)

lemma filter_key_single:
  "distinct (map f xs) \<Longrightarrow> v \<in> set xs \<Longrightarrow> filter (\<lambda>w. f w = f v) xs = [v]"
  by (induction xs) (auto simp: filter_empty_conv image_iff)

lemma set_update_where:
  "set (update_where P f rows) = (\<lambda>r. if P r then f r else r) ` set rows"
  by (simp add: update_where_def)

lemma ball_update_where:
  "(\<forall>r\<in>set (update_where P f rows). Q r) \<longleftrightarrow> (\<forall>r\<in>set rows. Q (if P r then f r else r))"
  by (auto simp: update_where_def)

lemma bex_update_where:
  "(\<exists>r\<in>set (update_where P f rows). Q r) \<longleftrightarrow> (\<exists>r\<in>set rows. Q (if P r then f r else r))"
  by (auto simp: update_where_def)

lemma map_key_update_where [simp]:
  assumes "\<forall>r. key (f r) = key r"
  shows "map key (update_where P f rows) = map key rows"
  using assms by (simp add: update_where_def)

lemma select_by_update_where:
  assumes "\<forall>r. key (f r) = key r"
  shows "select_by key k (update_where P f rows) =
    map_option (\<lambda>r. if P r then f r else r) (select_by key k rows)"
  using assms by (induction rows) (auto simp: select_by_def update_where_def)

lemma select_by_map:
  assumes "\<forall>r. key (f r) = key r"
  shows "select_by key k (map f rows) = map_option f (select_by key k rows)"
  using assms by (induction rows) (auto simp: select_by_def)

lemma update_where_cong:
  "(\<forall>r\<in>set rows. P r = Q r) \<Longrightarrow> update_where P f rows = update_where Q f rows"
  by (simp add: update_where_def)

subsection \<open>Transactions\<close>

type_synonym 'w tx = "'w \<times> bool"

type_synonym ('w, 'a) op = "'w \<Rightarrow> 'a result \<times> 'w"

text \<open>
  A statement whose error the program catches and logs: it takes effect when it succeeds,
  and marks the transaction as failed when it does not.
\<close>

fun best_effort :: "bool \<Rightarrow> ('w \<Rightarrow> 'w) \<Rightarrow> 'w tx \<Rightarrow> 'w tx" where
  "best_effort ok f (w, failed) = (if failed then (w, True) else if ok then (f w, False) else (w, True))"

text \<open>
  DbService.tx: begin, the body, commit; an error of the body rolls back and is rethrown.
\<close>

definition db_tx :: "('w tx \<Rightarrow> ('a \<times> 'w tx) result) \<Rightarrow> ('w, 'a) op" where
  "db_tx fn w = (case fn (w, False) of
       Inl e \<Rightarrow> (Inl e, w)
     | Inr (a, (w', failed)) \<Rightarrow> (Inr a, if failed then w else w'))"

lemma db_tx_Inl [simp]: "fn (w, False) = Inl e \<Longrightarrow> db_tx fn w = (Inl e, w)"
  by (simp add: db_tx_def)

lemma db_tx_error_keeps:
  assumes "db_tx fn w = (Inl e, w')"
  shows "w' = w"
  using assms by (auto simp: db_tx_def split: sum.splits)

subsection \<open>Sequences of operations\<close>

definition run_all :: "('op \<Rightarrow> 'w \<Rightarrow> 'w) \<Rightarrow> 'op list \<Rightarrow> 'w \<Rightarrow> 'w" where
  "run_all run ops w = fold run ops w"

lemma run_all_simps [simp]:
  "run_all run [] w = w"
  "run_all run (x # ops) w = run_all run ops (run x w)"
  by (simp_all add: run_all_def)

lemma run_all_append [simp]: "run_all run (us @ vs) w = run_all run vs (run_all run us w)"
  by (simp add: run_all_def)

locale op_invariant =
  fixes run :: "'op \<Rightarrow> 'w \<Rightarrow> 'w"
    and inv :: "'w \<Rightarrow> bool"
  assumes run_inv: "inv w \<Longrightarrow> inv (run x w)"
begin

lemma run_all_inv: "inv w \<Longrightarrow> inv (run_all run ops w)"
  by (induction ops arbitrary: w) (auto intro: run_inv)

end

locale op_evolution =
  fixes run :: "'op \<Rightarrow> 'w \<Rightarrow> 'w"
    and rel :: "'w \<Rightarrow> 'w \<Rightarrow> bool"
  assumes rel_refl: "rel w w"
    and rel_trans: "rel u v \<Longrightarrow> rel v w \<Longrightarrow> rel u w"
    and run_rel: "rel w (run x w)"
begin

lemma run_all_rel: "rel w (run_all run ops w)"
  by (induction ops arbitrary: w) (auto intro: rel_refl rel_trans run_rel)

lemma run_all_rel_later: "rel (run_all run us w) (run_all run (us @ vs) w)"
  by (simp add: run_all_rel)

end

end
