(* ===== verification/Js_Value.thy ===== *)
theory Js_Value
  imports Prelude
begin

section \<open>JSON values as JavaScript sees them\<close>

text \<open>
  Rule conditions, predicates and workflow configurations are JSON read back from the
  database. A value is one of the JSON kinds or \<open>undefined\<close>; numbers are exact
  rationals. The conversions between strings and numbers or dates
  (\<open>Number(s)\<close>, \<open>String(n)\<close>, \<open>Date.parse(s)\<close>) are fields of a \<open>host\<close> record that the
  definitions take as an argument: \<open>None\<close> is \<open>NaN\<close>.
\<close>

datatype jsval =
    JUndef
  | JNull
  | JBool bool
  | JNum rat
  | JStr string
  | JArr "jsval list"
  | JObj "(string \<times> jsval) list"

record host =
  date_parse :: "string \<Rightarrow> int option"
  str_num :: "string \<Rightarrow> rat option"
  num_str :: "rat \<Rightarrow> string"

fun truthy_val :: "jsval \<Rightarrow> bool" where
  "truthy_val JUndef = False"
| "truthy_val JNull = False"
| "truthy_val (JBool b) = b"
| "truthy_val (JNum n) = (n \<noteq> 0)"
| "truthy_val (JStr s) = (s \<noteq> [])"
| "truthy_val (JArr vs) = True"
| "truthy_val (JObj fs) = True"

definition is_nullish :: "jsval \<Rightarrow> bool" where
  "is_nullish v \<longleftrightarrow> v = JUndef \<or> v = JNull"

text \<open>
  Strict equality \<open>===\<close>. Arrays and objects are compared by identity; two values that
  reach a comparison come from different parts of the data, so they are not identical.
\<close>

fun strict_eq :: "jsval \<Rightarrow> jsval \<Rightarrow> bool" where
  "strict_eq (JArr vs) _ = False"
| "strict_eq (JObj fs) _ = False"
| "strict_eq a b = (a = b)"

definition js_includes :: "jsval list \<Rightarrow> jsval \<Rightarrow> bool" where
  "js_includes vs v \<longleftrightarrow> (\<exists>x\<in>set vs. strict_eq x v)"

fun obj_get :: "(string \<times> jsval) list \<Rightarrow> string \<Rightarrow> jsval" where
  "obj_get fs k = (case map_of fs k of None \<Rightarrow> JUndef | Some v \<Rightarrow> v)"

text \<open>\<open>s.includes(t)\<close> on strings: \<open>t\<close> occurs in \<open>s\<close> as a contiguous part.\<close>

fun starts_with :: "string \<Rightarrow> string \<Rightarrow> bool" where
  "starts_with s [] = True"
| "starts_with [] (c # t) = False"
| "starts_with (d # s) (c # t) = (d = c \<and> starts_with s t)"

fun str_includes :: "string \<Rightarrow> string \<Rightarrow> bool" where
  "str_includes [] t = (t = [])"
| "str_includes (c # s) t = (starts_with (c # s) t \<or> str_includes s t)"

lemma starts_with_iff: "starts_with s t \<longleftrightarrow> (\<exists>u. s = t @ u)"
  by (induction s t rule: starts_with.induct) auto

lemma str_includes_iff: "str_includes s t \<longleftrightarrow> (\<exists>u v. s = u @ t @ v)"
proof (induction s)
  case Nil
  show ?case by auto
next
  case (Cons c s)
  have "(\<exists>u v. c # s = u @ t @ v) \<longleftrightarrow> (\<exists>v. c # s = t @ v) \<or> (\<exists>u v. s = u @ t @ v)"
    by (metis append_Cons append_Nil list.exhaust list.sel(3))
  with Cons.IH show ?case by (simp add: starts_with_iff)
qed

definition has_key :: "(string \<times> jsval) list \<Rightarrow> string \<Rightarrow> bool" where
  "has_key fs k \<longleftrightarrow> map_of fs k \<noteq> None"

text \<open>
  \<open>String(v)\<close> and \<open>Number(v)\<close>, where \<open>None\<close> is \<open>NaN\<close>. Both ask an object for \<open>toString\<close> and \<open>valueOf\<close>. A field of JSON
  is no function and is passed over; the inherited \<open>toString\<close> answers, unless a field of that name hides it: then
  neither method yields a primitive value and the conversion throws a \<open>TypeError\<close>. An array converts its elements.
\<close>

fun js_String :: "host \<Rightarrow> jsval \<Rightarrow> string result"
and js_join :: "host \<Rightarrow> jsval list \<Rightarrow> string result" where
  "js_String h JUndef = Inr ''undefined''"
| "js_String h JNull = Inr ''null''"
| "js_String h (JBool b) = Inr (if b then ''true'' else ''false'')"
| "js_String h (JNum n) = Inr (num_str h n)"
| "js_String h (JStr s) = Inr s"
| "js_String h (JArr vs) = js_join h vs"
| "js_String h (JObj fs) = (if has_key fs ''toString'' then Inl type_error else Inr ''[object Object]'')"
| "js_join h [] = Inr []"
| "js_join h [v] = (if is_nullish v then Inr [] else js_String h v)"
| "js_join h (v # w # vs) =
     and_then (if is_nullish v then Inr [] else js_String h v) (\<lambda>x.
     and_then (js_join h (w # vs)) (\<lambda>y. Inr (x @ '','' @ y)))"

fun js_Number :: "host \<Rightarrow> jsval \<Rightarrow> rat option result" where
  "js_Number h JUndef = Inr None"
| "js_Number h JNull = Inr (Some 0)"
| "js_Number h (JBool b) = Inr (Some (if b then 1 else 0))"
| "js_Number h (JNum n) = Inr (Some n)"
| "js_Number h (JStr s) = Inr (str_num h s)"
| "js_Number h (JArr vs) = and_then (js_join h vs) (\<lambda>s. Inr (str_num h s))"
| "js_Number h (JObj fs) = (if has_key fs ''toString'' then Inl type_error else Inr (str_num h ''[object Object]''))"

text \<open>The values that convert: no field \<open>toString\<close>, neither of the value nor of an element of an array.\<close>

fun plain_val :: "jsval \<Rightarrow> bool" where
  "plain_val (JArr vs) = list_all plain_val vs"
| "plain_val (JObj fs) = (\<not> has_key fs ''toString'')"
| "plain_val _ = True"

lemma js_String_settles_aux:
  "settles (plain_val v) (js_String h v)" "settles (list_all plain_val vs) (js_join h vs)"
proof (induction h v and h vs rule: js_String_js_join.induct)
  case (10 h v w vs)
  have "settles (list_all plain_val (v # w # vs)) (if is_nullish v then Inr [] else js_String h v)"
    using 10(1) by (auto elim: settles_weaken)
  then show ?case unfolding js_join.simps
    by (intro settles_and_then) (auto intro: settles_weaken [OF 10(2)])
qed auto

lemma js_String_settles [settle]: "(b \<Longrightarrow> plain_val v) \<Longrightarrow> settles b (js_String h v)"
  by (rule settles_weaken [OF js_String_settles_aux(1)])

lemma js_Number_settles [settle]: "(b \<Longrightarrow> plain_val v) \<Longrightarrow> settles b (js_Number h v)"
  by (cases v) (auto intro!: settles_and_then intro: settles_weaken [OF js_String_settles_aux(2)])

text \<open>
  The properties that an object without a prototype of its own inherits. Indexing an object with one of these names
  yields a function (with \<open>__proto__\<close>, an object), which is truthy, when the object has no field of that name.
\<close>

definition OBJECT_KEYS :: "string list" where
  "OBJECT_KEYS = [''constructor'', ''__defineGetter__'', ''__defineSetter__'', ''hasOwnProperty'', ''__lookupGetter__'',
     ''__lookupSetter__'', ''isPrototypeOf'', ''propertyIsEnumerable'', ''toString'', ''valueOf'', ''__proto__'',
     ''toLocaleString'']"

text \<open>The string of a nullable column as a value.\<close>

fun of_str_opt :: "string option \<Rightarrow> jsval" where
  "of_str_opt None = JNull"
| "of_str_opt (Some s) = JStr s"

text \<open>\<open>s.trim()\<close>, with the white space of ASCII.\<close>

definition is_ws :: "char \<Rightarrow> bool" where
  "is_ws ch \<longleftrightarrow> ch \<in> {CHR '' '', CHR 0x09, CHR 0x0A, CHR 0x0B, CHR 0x0C, CHR 0x0D}"

definition strip_by :: "(char \<Rightarrow> bool) \<Rightarrow> string \<Rightarrow> string" where
  "strip_by P s = rev (dropWhile P (rev (dropWhile P s)))"

definition js_trim :: "string \<Rightarrow> string" where
  "js_trim = strip_by is_ws"

lemma strip_by_id:
  assumes "s \<noteq> [] \<Longrightarrow> \<not> P (hd s) \<and> \<not> P (last s)"
  shows "strip_by P s = s"
proof (cases "s = []")
  case False
  with assms have "dropWhile P s = s" by (cases s) auto
  moreover from False assms have "dropWhile P (rev s) = rev s"
    by (cases s rule: rev_cases) auto
  ultimately show ?thesis by (simp add: strip_by_def)
qed (simp add: strip_by_def)

lemma hd_dropWhile_not: "dropWhile P s \<noteq> [] \<Longrightarrow> \<not> P (hd (dropWhile P s))"
  by (induction s) auto

lemma strip_by_ends:
  assumes "strip_by P s \<noteq> []"
  shows "\<not> P (hd (strip_by P s)) \<and> \<not> P (last (strip_by P s))"
proof
  let ?t = "dropWhile P s"
  let ?u = "dropWhile P (rev ?t)"
  have u: "?u \<noteq> []" using assms by (simp add: strip_by_def)
  from hd_dropWhile_not [OF u] show "\<not> P (last (strip_by P s))"
    using u by (simp add: strip_by_def last_rev)
  have "\<exists>w. rev ?t = w @ ?u" by (metis takeWhile_dropWhile_id)
  then obtain w where "?t = rev ?u @ rev w" by (metis rev_append rev_rev_ident)
  with u have "hd ?t = hd (rev ?u)" "?t \<noteq> []"
    by (metis hd_append2 rev_is_Nil_conv, metis append_is_Nil_conv rev_is_Nil_conv)
  with hd_dropWhile_not [of P s] show "\<not> P (hd (strip_by P s))" by (simp add: strip_by_def)
qed

lemma js_trim_idem [simp]: "js_trim (js_trim s) = js_trim s"
  unfolding js_trim_def by (rule strip_by_id) (rule strip_by_ends)

text \<open>
  Property access \<open>v[part]\<close> on a value of type object: a field of an object, an element
  or the length of an array.
\<close>

fun js_get :: "jsval \<Rightarrow> string \<Rightarrow> jsval" where
  "js_get (JObj fs) k = obj_get fs k"
| "js_get (JArr vs) k =
     (if k = ''length'' then JNum (of_nat (length vs))
      else (case find (\<lambda>i. nat_string i = k) [0..<length vs] of
              Some i \<Rightarrow> vs ! i | None \<Rightarrow> JUndef))"
| "js_get _ k = JUndef"

text \<open>\<open>a ?? b\<close> of JSON values.\<close>

definition or_default :: "jsval \<Rightarrow> jsval \<Rightarrow> jsval" where
  "or_default a b = (if is_nullish a then b else a)"

text \<open>\<open>Object.entries(v)\<close>: the fields of an object, the elements of an array or a string by index.\<close>

fun object_entries :: "jsval \<Rightarrow> (string \<times> jsval) list" where
  "object_entries (JObj fs) = fs"
| "object_entries (JArr vs) = map (\<lambda>(i, v). (nat_string i, v)) (enumerate 0 vs)"
| "object_entries (JStr s) = map (\<lambda>(i, c). (nat_string i, JStr [c])) (enumerate 0 s)"
| "object_entries _ = []"

text \<open>Assignment of a field: a new key goes to the end.\<close>

fun obj_set :: "(string \<times> jsval) list \<Rightarrow> string \<Rightarrow> jsval \<Rightarrow> (string \<times> jsval) list" where
  "obj_set [] k v = [(k, v)]"
| "obj_set ((j, w) # fs) k v = (if j = k then (k, v) # fs else (j, w) # obj_set fs k v)"

lemma map_of_obj_set [simp]: "map_of (obj_set fs k v) = (map_of fs)(k \<mapsto> v)"
  by (induction fs k v rule: obj_set.induct) (auto simp: fun_upd_twist)

end
