(* ===== verification/Outbox.thy ===== *)
theory Outbox
  imports Db_Tx Js_Value "HOL-Library.Product_Lexorder" Complex_Main
begin

text \<open>
  The outbox worker (outbox/outbox.worker.ts) with its types and handler registry: a table
  of events, claimed in batches under a token, dispatched to handlers, and moved to
  processed, to a later retry or to the dead letters. The outcome of a handler is a value; a
  handler is a function from the event to its outcome, and its own effects are outside the
  model. Instants and delays are milliseconds.

  The last part runs any number of workers against one table: a step is a claim, the
  dispatch of one claimed event, a crash that loses a claimed event, the stale-claim sweep,
  the purge or a new event, in any order.
\<close>

section \<open>Data\<close>

record OutboxEvent =
  ev_id :: ident
  ev_tenant_id :: ident
  ev_event_type :: string
  ev_event_version :: nat
  ev_aggregate_type :: string
  ev_aggregate_id :: ident
  ev_payload :: "(string \<times> jsval) list"
  ev_payload_hash :: string
  ev_idempotency_key :: string
  ev_enqueued_at :: int
  ev_available_at :: int
  ev_processed_at :: "int option"
  ev_processed_reason :: "string option"
  ev_claim_token :: "string option"
  ev_claimed_at :: "int option"
  ev_attempts :: nat
  ev_last_error :: "string option"
  ev_dead_lettered_at :: "int option"

datatype DeadLetterReason =
  MaxAttempts | DeadLetterErr | TenantNotFound | PartialFailureBlocker | NoHandlerRegistered

record dead_letter_row =
  dl_event :: OutboxEvent
  dl_attempts :: nat
  dl_last_error :: string
  dl_at :: int
  dl_reason :: DeadLetterReason

datatype tier = Standard | Enterprise

record TenantInfo =
  ti_id :: ident
  ti_slug :: string
  ti_tier :: tier

text \<open>The outcome of a handler: success, the dead-letter error, or any other error.\<close>

datatype handler_outcome = HandlerOk | HandlerDeadLetter string | HandlerError string

record outbox_db =
  ob_events :: "OutboxEvent list"
  ob_dead_letters :: "dead_letter_row list"
  ob_tenants :: "(ident \<times> string \<times> string) list"

record outbox_config =
  cf_batchSize :: nat
  cf_maxAttempts :: nat
  cf_staleClaimMs :: int
  cf_purgeAfterDays :: int
  cf_backoffMs :: "int list"
  cf_handlers :: "((string \<times> nat) \<times> (OutboxEvent \<Rightarrow> handler_outcome)) list"
  cf_random :: "ident \<Rightarrow> nat \<Rightarrow> rat"

type_synonym tenant_cache = "(ident \<times> (TenantInfo option \<times> int)) list"

definition default_backoffMs :: "int list" where
  "default_backoffMs = [30000, 2 * 60000, 10 * 60000, 60 * 60000]"

section \<open>The handler registry\<close>

text \<open>
  A second handler for the same event type and version stops the start of the process.
\<close>

fun register_handlers ::
  "((string \<times> nat) \<times> 'h) list \<Rightarrow> ((string \<times> nat) \<times> 'h) list \<Rightarrow> ((string \<times> nat) \<times> 'h) list result" where
  "register_handlers [] handlers = Inr handlers"
| "register_handlers ((key, h) # wrappers) handlers =
    (case map_of handlers key of
       Some _ \<Rightarrow> Inl (ServerError ''outbox.duplicate_handler'')
     | None \<Rightarrow> register_handlers wrappers (handlers @ [(key, h)]))"

definition registry_get :: "((string \<times> nat) \<times> 'h) list \<Rightarrow> string \<Rightarrow> nat \<Rightarrow> 'h option" where
  "registry_get handlers eventType version = map_of handlers (eventType, version)"

section \<open>Transitions\<close>

abbreviation claimed_by :: "ident \<Rightarrow> string \<Rightarrow> OutboxEvent \<Rightarrow> bool" where
  "claimed_by i token r \<equiv> ev_id r = i \<and> ev_claim_token r = Some token"

definition update_events ::
  "(OutboxEvent \<Rightarrow> bool) \<Rightarrow> (OutboxEvent \<Rightarrow> OutboxEvent) \<Rightarrow> outbox_db \<Rightarrow> outbox_db" where
  "update_events P f w = w\<lparr>ob_events := update_where P f (ob_events w)\<rparr>"

definition success_row :: "int \<Rightarrow> OutboxEvent \<Rightarrow> OutboxEvent" where
  "success_row now r = r\<lparr>ev_processed_at := Some now, ev_processed_reason := Some ''handler_ok'',
    ev_claim_token := None, ev_last_error := None, ev_attempts := ev_attempts r + 1\<rparr>"

definition markSuccess :: "int \<Rightarrow> OutboxEvent \<Rightarrow> string \<Rightarrow> outbox_db \<Rightarrow> outbox_db" where
  "markSuccess now event token = update_events (claimed_by (ev_id event) token) (success_row now)"

definition backoffForAttempt :: "int list \<Rightarrow> rat \<Rightarrow> nat \<Rightarrow> int" where
  "backoffForAttempt backoffMs rnd attempt =
    (let idx = max 0 (min (int attempt - 1) (int (length backoffMs) - 1));
         base = backoffMs ! nat idx;
         jitter = \<lfloor>of_int base * (rnd - 1 / 2) * (66 / 100)\<rfloor>
     in max 1000 (base + jitter))"

definition retry_row :: "int \<Rightarrow> int \<Rightarrow> nat \<Rightarrow> string \<Rightarrow> OutboxEvent \<Rightarrow> OutboxEvent" where
  "retry_row now delayMs nextAttempts err r = r\<lparr>ev_claim_token := None, ev_last_error := Some err,
    ev_attempts := nextAttempts, ev_available_at := now + delayMs\<rparr>"

definition markRetry ::
  "outbox_config \<Rightarrow> int \<Rightarrow> OutboxEvent \<Rightarrow> string \<Rightarrow> nat \<Rightarrow> string \<Rightarrow> outbox_db \<Rightarrow> outbox_db" where
  "markRetry cfg now event token nextAttempts err =
    update_events (claimed_by (ev_id event) token)
      (retry_row now (backoffForAttempt (cf_backoffMs cfg) (cf_random cfg (ev_id event) nextAttempts) nextAttempts)
        nextAttempts err)"

definition dead_row :: "int \<Rightarrow> string \<Rightarrow> OutboxEvent \<Rightarrow> OutboxEvent" where
  "dead_row now err r = r\<lparr>ev_claim_token := None, ev_attempts := ev_attempts r + 1,
    ev_last_error := Some err, ev_dead_lettered_at := Some now\<rparr>"

text \<open>
  The insert copies the row still claimed under the token, unless the dead letters have an
  entry with the tenant and idempotency key of the row.
\<close>

definition dead_letter_insert ::
  "int \<Rightarrow> OutboxEvent \<Rightarrow> string \<Rightarrow> DeadLetterReason \<Rightarrow> string \<Rightarrow> outbox_db \<Rightarrow> outbox_db" where
  "dead_letter_insert now event token reason err w =
    (let rows = filter (claimed_by (ev_id event) token) (ob_events w);
         fresh = filter (\<lambda>r. \<not> (\<exists>d\<in>set (ob_dead_letters w). ev_tenant_id (dl_event d) = ev_tenant_id r \<and>
           ev_idempotency_key (dl_event d) = ev_idempotency_key r)) rows
     in w\<lparr>ob_dead_letters := ob_dead_letters w @
          map (\<lambda>r. \<lparr>dl_event = r, dl_attempts = ev_attempts r + 1, dl_last_error = err, dl_at = now,
            dl_reason = reason\<rparr>) fresh\<rparr>)"

definition deadLetter ::
  "int \<Rightarrow> OutboxEvent \<Rightarrow> string \<Rightarrow> DeadLetterReason \<Rightarrow> string \<Rightarrow> outbox_db \<Rightarrow> outbox_db" where
  "deadLetter now event token reason err w =
    snd (db_tx (\<lambda>t. Inr ((), (update_events (claimed_by (ev_id event) token) (dead_row now err)
      (dead_letter_insert now event token reason err (fst t)), snd t))) w)"

section \<open>Claim and dispatch\<close>

definition claimable :: "outbox_config \<Rightarrow> int \<Rightarrow> OutboxEvent \<Rightarrow> bool" where
  "claimable cfg now r \<longleftrightarrow> ev_processed_at r = None \<and> ev_dead_lettered_at r = None \<and>
    ev_claim_token r = None \<and> ev_available_at r \<le> now \<and> ev_attempts r < cf_maxAttempts cfg"

definition claim_ids :: "outbox_config \<Rightarrow> int \<Rightarrow> outbox_db \<Rightarrow> ident list" where
  "claim_ids cfg now w = map ev_id (take (cf_batchSize cfg)
    (sort_key (\<lambda>r. (ev_available_at r, ev_enqueued_at r)) (filter (claimable cfg now) (ob_events w))))"

definition claim_row :: "int \<Rightarrow> string \<Rightarrow> OutboxEvent \<Rightarrow> OutboxEvent" where
  "claim_row now token r = r\<lparr>ev_claim_token := Some token, ev_claimed_at := Some now\<rparr>"

definition claim_batch :: "outbox_config \<Rightarrow> int \<Rightarrow> string \<Rightarrow> outbox_db \<Rightarrow> OutboxEvent list \<times> outbox_db" where
  "claim_batch cfg now token w =
    (let ids = claim_ids cfg now w;
         w' = update_events (\<lambda>r. ev_id r \<in> set ids) (claim_row now token) w
     in (filter (\<lambda>r. ev_id r \<in> set ids) (ob_events w'), w'))"

definition tenantCacheTtlMs :: int where
  "tenantCacheTtlMs = 30000"

definition loadTenant ::
  "int \<Rightarrow> ident \<Rightarrow> outbox_db \<Rightarrow> tenant_cache \<Rightarrow> TenantInfo option \<times> tenant_cache" where
  "loadTenant now tenantId w cache =
    (case map_of cache tenantId of
       Some (value, expiresAt) \<Rightarrow> if expiresAt > now then (value, cache) else
         (let value = map_option (\<lambda>(slug, t). \<lparr>ti_id = tenantId, ti_slug = slug,
                ti_tier = (if t = ''enterprise'' then Enterprise else Standard)\<rparr>) (map_of (ob_tenants w) tenantId)
          in (value, (tenantId, value, now + tenantCacheTtlMs) # cache))
     | None \<Rightarrow>
         (let value = map_option (\<lambda>(slug, t). \<lparr>ti_id = tenantId, ti_slug = slug,
                ti_tier = (if t = ''enterprise'' then Enterprise else Standard)\<rparr>) (map_of (ob_tenants w) tenantId)
          in (value, (tenantId, value, now + tenantCacheTtlMs) # cache)))"

definition dispatchOne ::
  "outbox_config \<Rightarrow> int \<Rightarrow> OutboxEvent \<Rightarrow> string \<Rightarrow> outbox_db \<times> tenant_cache \<Rightarrow> outbox_db \<times> tenant_cache" where
  "dispatchOne cfg now event token st =
    (case registry_get (cf_handlers cfg) (ev_event_type event) (ev_event_version event) of
       None \<Rightarrow> (deadLetter now event token NoHandlerRegistered (''no handler registered for '' @
         ev_event_type event @ ''@v'' @ nat_string (ev_event_version event)) (fst st), snd st)
     | Some handler \<Rightarrow>
         (case loadTenant now (ev_tenant_id event) (fst st) (snd st) of
            (None, cache) \<Rightarrow> (deadLetter now event token TenantNotFound (''tenant '' @ ev_tenant_id event @
              '' not found in tenants registry'') (fst st), cache)
          | (Some _, cache) \<Rightarrow>
              (case handler event of
                 HandlerOk \<Rightarrow> (markSuccess now event token (fst st), cache)
               | HandlerDeadLetter msg \<Rightarrow> (deadLetter now event token DeadLetterErr msg (fst st), cache)
               | HandlerError msg \<Rightarrow>
                   let wouldBeAttempts = ev_attempts event + 1 in
                   if wouldBeAttempts \<ge> cf_maxAttempts cfg
                   then (deadLetter now event token MaxAttempts msg (fst st), cache)
                   else (markRetry cfg now event token wouldBeAttempts msg (fst st), cache))))"

definition drainOnce ::
  "outbox_config \<Rightarrow> int \<Rightarrow> string \<Rightarrow> outbox_db \<times> tenant_cache \<Rightarrow> nat \<times> (outbox_db \<times> tenant_cache)" where
  "drainOnce cfg now token st =
    (case claim_batch cfg now token (fst st) of
       (claimed, w) \<Rightarrow> (length claimed, fold (\<lambda>event. dispatchOne cfg now event token) claimed (w, snd st)))"

definition sweepStaleClaims :: "outbox_config \<Rightarrow> int \<Rightarrow> outbox_db \<Rightarrow> outbox_db" where
  "sweepStaleClaims cfg now = update_events
    (\<lambda>r. ev_processed_at r = None \<and> ev_dead_lettered_at r = None \<and>
      (case ev_claimed_at r of None \<Rightarrow> False | Some c \<Rightarrow> c < now - cf_staleClaimMs cfg))
    (\<lambda>r. r\<lparr>ev_claim_token := None, ev_claimed_at := None\<rparr>)"

definition purgeProcessed :: "outbox_config \<Rightarrow> int \<Rightarrow> outbox_db \<Rightarrow> outbox_db" where
  "purgeProcessed cfg now w = w\<lparr>ob_events := filter (\<lambda>r. \<not> (case ev_processed_at r of
     None \<Rightarrow> False | Some p \<Rightarrow> p < now - cf_purgeAfterDays cfg * 86400000)) (ob_events w)\<rparr>"

section \<open>Workers side by side\<close>

text \<open>
  The table, the event ids ever used, the tokens ever drawn and the claimed events the workers still have in hand,
  each as the row was when it was claimed. A new event has a new id and the state the
  insert gives it; a token is drawn once.
\<close>

record worker_state =
  ws_db :: outbox_db
  ws_cache :: tenant_cache
  ws_ids :: "ident list"
  ws_tokens :: "string list"
  ws_inflight :: "(string \<times> OutboxEvent) list"

datatype worker_op =
    WClaim int string
  | WDispatch int nat
  | WCrash nat
  | WSweep int
  | WPurge int
  | WEnqueue OutboxEvent

fun run_worker :: "outbox_config \<Rightarrow> worker_op \<Rightarrow> worker_state \<Rightarrow> worker_state" where
  "run_worker cfg (WClaim now token) s =
    (if token \<in> set (ws_tokens s) then s
     else case claim_batch cfg now token (ws_db s) of (claimed, w) \<Rightarrow>
       s\<lparr>ws_db := w, ws_tokens := token # ws_tokens s,
         ws_inflight := ws_inflight s @ map (Pair token) claimed\<rparr>)"
| "run_worker cfg (WDispatch now k) s =
    (if length (ws_inflight s) \<le> k then s
     else case ws_inflight s ! k of (token, event) \<Rightarrow>
       case dispatchOne cfg now event token (ws_db s, ws_cache s) of (w, cache) \<Rightarrow>
         s\<lparr>ws_db := w, ws_cache := cache, ws_inflight := take k (ws_inflight s) @ drop (Suc k) (ws_inflight s)\<rparr>)"
| "run_worker cfg (WCrash k) s =
    s\<lparr>ws_inflight := take k (ws_inflight s) @ drop (Suc k) (ws_inflight s)\<rparr>"
| "run_worker cfg (WSweep now) s = s\<lparr>ws_db := sweepStaleClaims cfg now (ws_db s)\<rparr>"
| "run_worker cfg (WPurge now) s = s\<lparr>ws_db := purgeProcessed cfg now (ws_db s)\<rparr>"
| "run_worker cfg (WEnqueue r) s =
    (if ev_id r \<in> set (ws_ids s) then s
     else s\<lparr>ws_db := (ws_db s)\<lparr>ob_events := ob_events (ws_db s) @
       [r\<lparr>ev_processed_at := None, ev_claim_token := None, ev_claimed_at := None, ev_attempts := 0,
          ev_dead_lettered_at := None\<rparr>]\<rparr>, ws_ids := ev_id r # ws_ids s\<rparr>)"

section \<open>Lemmas\<close>

definition has_dead_letter :: "dead_letter_row list \<Rightarrow> OutboxEvent \<Rightarrow> bool" where
  "has_dead_letter ds r \<longleftrightarrow> (\<exists>d\<in>set ds. ev_tenant_id (dl_event d) = ev_tenant_id r \<and>
    ev_idempotency_key (dl_event d) = ev_idempotency_key r)"

text \<open>
  A row is never both processed and dead-lettered, a claimed row is neither and has attempts
  left, attempts stay within the maximum, and a dead-lettered row has its entry.
\<close>

definition row_ok :: "outbox_config \<Rightarrow> string list \<Rightarrow> dead_letter_row list \<Rightarrow> OutboxEvent \<Rightarrow> bool" where
  "row_ok cfg tokens ds r \<longleftrightarrow>
    (ev_processed_at r = None \<or> ev_dead_lettered_at r = None) \<and>
    (case ev_claim_token r of None \<Rightarrow> True
     | Some tok \<Rightarrow> tok \<in> set tokens \<and> ev_processed_at r = None \<and> ev_dead_lettered_at r = None \<and>
         ev_attempts r < cf_maxAttempts cfg) \<and>
    ev_attempts r \<le> cf_maxAttempts cfg \<and>
    (ev_dead_lettered_at r = None \<or> has_dead_letter ds r)"

text \<open>An event in hand still agrees with its row while the row carries its token.\<close>

definition flight_ok :: "string list \<Rightarrow> OutboxEvent list \<Rightarrow> string \<times> OutboxEvent \<Rightarrow> bool" where
  "flight_ok tokens rows f \<longleftrightarrow> fst f \<in> set tokens \<and>
    (\<forall>r\<in>set rows. claimed_by (ev_id (snd f)) (fst f) r \<longrightarrow> ev_attempts r = ev_attempts (snd f))"

definition worker_inv :: "outbox_config \<Rightarrow> worker_state \<Rightarrow> bool" where
  "worker_inv cfg s \<longleftrightarrow> distinct (map ev_id (ob_events (ws_db s))) \<and>
    ev_id ` set (ob_events (ws_db s)) \<subseteq> set (ws_ids s) \<and>
    (\<forall>r\<in>set (ob_events (ws_db s)). row_ok cfg (ws_tokens s) (ob_dead_letters (ws_db s)) r) \<and>
    (\<forall>f\<in>set (ws_inflight s). flight_ok (ws_tokens s) (ob_events (ws_db s)) f)"

lemma has_dead_letter_mono: "set ds \<subseteq> set ds' \<Longrightarrow> has_dead_letter ds r \<Longrightarrow> has_dead_letter ds' r"
  by (auto simp: has_dead_letter_def)

lemma row_ok_mono:
  assumes "row_ok cfg ts ds r" "set ts \<subseteq> set ts'" "set ds \<subseteq> set ds'"
  shows "row_ok cfg ts' ds' r"
  using assms has_dead_letter_mono [OF assms(3)] by (auto simp: row_ok_def split: option.splits)

text \<open>Updates that end the claim of the rows they touch keep the invariant.\<close>

lemma worker_inv_release:
  assumes inv: "worker_inv cfg s"
    and rows: "ob_events (ws_db s') = update_where P f (ob_events (ws_db s))"
    and ds: "set (ob_dead_letters (ws_db s)) \<subseteq> set (ob_dead_letters (ws_db s'))"
    and ts: "ws_tokens s' = ws_tokens s" "ws_ids s' = ws_ids s" and fl: "set (ws_inflight s') \<subseteq> set (ws_inflight s)"
    and f: "\<forall>r. ev_id (f r) = ev_id r"
      "\<And>r. r \<in> set (ob_events (ws_db s)) \<Longrightarrow> P r \<Longrightarrow> ev_claim_token (f r) = None \<and>
         row_ok cfg (ws_tokens s) (ob_dead_letters (ws_db s')) (f r)"
  shows "worker_inv cfg s'"
  unfolding worker_inv_def
proof (intro conjI ballI)
  have ids: "map ev_id (ob_events (ws_db s')) = map ev_id (ob_events (ws_db s))" using rows f(1) by simp
  then show "distinct (map ev_id (ob_events (ws_db s')))" using inv by (simp add: worker_inv_def)
  have "ev_id ` set (ob_events (ws_db s')) = ev_id ` set (ob_events (ws_db s))"
    using arg_cong [OF ids, of set] by simp
  then show "ev_id ` set (ob_events (ws_db s')) \<subseteq> set (ws_ids s')"
    using inv ts(2) by (simp add: worker_inv_def)
next
  fix r assume "r \<in> set (ob_events (ws_db s'))"
  then obtain q where q: "q \<in> set (ob_events (ws_db s))" "r = (if P q then f q else q)"
    unfolding rows set_update_where by blast
  then have "row_ok cfg (ws_tokens s) (ob_dead_letters (ws_db s)) q" using inv by (simp add: worker_inv_def)
  then show "row_ok cfg (ws_tokens s') (ob_dead_letters (ws_db s')) r"
    using q f(2) row_ok_mono [OF _ subset_refl ds] unfolding ts(1) by (cases "P q") simp_all
next
  fix x assume "x \<in> set (ws_inflight s')"
  then have x: "flight_ok (ws_tokens s) (ob_events (ws_db s)) x" using fl inv by (auto simp: worker_inv_def)
  show "flight_ok (ws_tokens s') (ob_events (ws_db s')) x"
    unfolding flight_ok_def ts(1)
  proof (intro conjI ballI impI)
    show "fst x \<in> set (ws_tokens s)" using x by (simp add: flight_ok_def)
  next
    fix r assume "r \<in> set (ob_events (ws_db s'))" and c: "claimed_by (ev_id (snd x)) (fst x) r"
    then obtain q where q: "q \<in> set (ob_events (ws_db s))" "r = (if P q then f q else q)"
      unfolding rows set_update_where by blast
    then have "\<not> P q" using f(2) c by auto
    then show "ev_attempts r = ev_attempts (snd x)" using q x c by (auto simp: flight_ok_def)
  qed
qed

lemma deadLetter_eq:
  "ob_events (deadLetter now event token reason err w) =
    update_where (claimed_by (ev_id event) token) (dead_row now err) (ob_events w)"
  "ob_dead_letters (deadLetter now event token reason err w) =
    ob_dead_letters (dead_letter_insert now event token reason err w)"
  by (simp_all add: deadLetter_def db_tx_def update_events_def dead_letter_insert_def Let_def)

lemma dead_letter_insert_keeps [simp]:
  "set (ob_dead_letters w) \<subseteq> set (ob_dead_letters (dead_letter_insert now event token reason err w))"
  by (auto simp: dead_letter_insert_def Let_def)

lemma dead_letter_insert_has:
  assumes "r \<in> set (ob_events w)" "claimed_by (ev_id event) token r"
  shows "has_dead_letter (ob_dead_letters (dead_letter_insert now event token reason err w)) r"
proof (cases "has_dead_letter (ob_dead_letters w) r")
  case True
  then show ?thesis by (rule has_dead_letter_mono [OF dead_letter_insert_keeps])
next
  case False
  let ?d = "\<lparr>dl_event = r, dl_attempts = ev_attempts r + 1, dl_last_error = err, dl_at = now, dl_reason = reason\<rparr>"
  have "?d \<in> set (ob_dead_letters (dead_letter_insert now event token reason err w))"
    using False assms by (simp add: dead_letter_insert_def Let_def has_dead_letter_def)
  then show ?thesis unfolding has_dead_letter_def by (intro bexI) simp_all
qed

text \<open>The three ways a dispatch ends.\<close>

lemma dispatchOne_cases:
  obtains (succeeded) "fst (dispatchOne cfg now event token st) = markSuccess now event token (fst st)"
  | (retried) err where "fst (dispatchOne cfg now event token st) =
      markRetry cfg now event token (ev_attempts event + 1) err (fst st)"
      "ev_attempts event + 1 < cf_maxAttempts cfg"
  | (buried) reason err where "fst (dispatchOne cfg now event token st) =
      deadLetter now event token reason err (fst st)"
proof (cases "registry_get (cf_handlers cfg) (ev_event_type event) (ev_event_version event)")
  case None
  then show ?thesis by (intro buried) (simp add: dispatchOne_def)
next
  case (Some handler)
  obtain tv cache where lt: "loadTenant now (ev_tenant_id event) (fst st) (snd st) = (tv, cache)" by fastforce
  show ?thesis
  proof (cases tv)
    case None
    then show ?thesis using Some lt by (intro buried) (simp add: dispatchOne_def)
  next
    case (Some v)
    then have eq: "fst (dispatchOne cfg now event token st) = (case handler event of
         HandlerOk \<Rightarrow> markSuccess now event token (fst st)
       | HandlerDeadLetter msg \<Rightarrow> deadLetter now event token DeadLetterErr msg (fst st)
       | HandlerError msg \<Rightarrow> if ev_attempts event + 1 \<ge> cf_maxAttempts cfg
           then deadLetter now event token MaxAttempts msg (fst st)
           else markRetry cfg now event token (ev_attempts event + 1) msg (fst st))"
      using lt \<open>registry_get _ _ _ = Some handler\<close>
      by (simp add: dispatchOne_def Let_def split: handler_outcome.split)
    show ?thesis
    proof (cases "handler event")
      case HandlerOk
      then show ?thesis using eq by (intro succeeded) simp
    next
      case (HandlerDeadLetter msg)
      then show ?thesis using eq by (intro buried) simp
    next
      case (HandlerError msg)
      then show ?thesis using eq
        by (cases "ev_attempts event + 1 \<ge> cf_maxAttempts cfg") (auto intro: buried retried)
    qed
  qed
qed

lemma row_ok_dead:
  assumes "row_ok cfg ts ds r" "ev_claim_token r = Some tok" "has_dead_letter ds' r"
  shows "row_ok cfg ts ds' (dead_row now err r)"
  using assms by (auto simp: row_ok_def dead_row_def has_dead_letter_def)

lemma row_ok_success:
  assumes "row_ok cfg ts ds r" "ev_claim_token r = Some tok"
  shows "row_ok cfg ts ds (success_row now r)"
  using assms by (auto simp: row_ok_def success_row_def)

lemma row_ok_retry:
  assumes "row_ok cfg ts ds r" "ev_claim_token r = Some tok" "n < cf_maxAttempts cfg"
  shows "row_ok cfg ts ds (retry_row now d n err r)"
  using assms by (auto simp: row_ok_def retry_row_def)

lemma set_remove_nth: "set (take k xs @ drop (Suc k) xs) \<subseteq> set xs"
  by (auto dest: in_set_takeD in_set_dropD)

lemma worker_inv_dispatch:
  assumes inv: "worker_inv cfg s"
  shows "worker_inv cfg (run_worker cfg (WDispatch now k) s)"
proof (cases "length (ws_inflight s) \<le> k")
  case False
  obtain token event where ev: "ws_inflight s ! k = (token, event)" by fastforce
  obtain w cache where d: "dispatchOne cfg now event token (ws_db s, ws_cache s) = (w, cache)" by fastforce
  let ?s' = "s\<lparr>ws_db := w, ws_cache := cache, ws_inflight := take k (ws_inflight s) @ drop (Suc k) (ws_inflight s)\<rparr>"
  have s': "run_worker cfg (WDispatch now k) s = ?s'" using False ev d by simp
  have fl: "set (ws_inflight ?s') \<subseteq> set (ws_inflight s)" using set_remove_nth by simp
  have ok: "row_ok cfg (ws_tokens s) (ob_dead_letters (ws_db s)) r" if "r \<in> set (ob_events (ws_db s))" for r
    using inv that by (simp add: worker_inv_def)
  have w: "w = fst (dispatchOne cfg now event token (ws_db s, ws_cache s))" using d by simp
  show ?thesis unfolding s'
  proof (cases rule: dispatchOne_cases [of cfg now event token "(ws_db s, ws_cache s)"])
    case succeeded
    show "worker_inv cfg ?s'"
      by (rule worker_inv_release [OF inv, where f = "success_row now" and P = "claimed_by (ev_id event) token"])
        (use fl succeeded w ok row_ok_success in \<open>auto simp: markSuccess_def update_events_def success_row_def\<close>)
  next
    case (retried err)
    let ?f = "retry_row now (backoffForAttempt (cf_backoffMs cfg)
      (cf_random cfg (ev_id event) (ev_attempts event + 1)) (ev_attempts event + 1)) (ev_attempts event + 1) err"
    show "worker_inv cfg ?s'"
      by (rule worker_inv_release [OF inv, where f = ?f and P = "claimed_by (ev_id event) token"])
        (use fl retried w ok row_ok_retry in \<open>auto simp: markRetry_def update_events_def retry_row_def\<close>)
  next
    case (buried reason err)
    show "worker_inv cfg ?s'"
    proof (rule worker_inv_release [OF inv, where f = "dead_row now err" and P = "claimed_by (ev_id event) token"])
      fix r assume r: "r \<in> set (ob_events (ws_db s))" "claimed_by (ev_id event) token r"
      have "has_dead_letter (ob_dead_letters (ws_db ?s')) r"
        using buried w dead_letter_insert_has [OF r] by (simp add: deadLetter_eq)
      then show "ev_claim_token (dead_row now err r) = None \<and>
          row_ok cfg (ws_tokens s) (ob_dead_letters (ws_db ?s')) (dead_row now err r)"
        using row_ok_dead [OF ok [OF r(1)], of token] r(2) by (simp add: dead_row_def)
    qed (use fl buried w in \<open>auto simp: deadLetter_eq dead_row_def\<close>)
  qed
qed (use inv in simp)

lemma worker_inv_sweep:
  assumes "worker_inv cfg s"
  shows "worker_inv cfg (run_worker cfg (WSweep now) s)"
  by (rule worker_inv_release [OF assms, where f = "\<lambda>r. r\<lparr>ev_claim_token := None, ev_claimed_at := None\<rparr>"])
    (use assms in \<open>auto simp: sweepStaleClaims_def update_events_def worker_inv_def row_ok_def has_dead_letter_def
      split: option.splits\<close>)

lemma worker_inv_purge:
  assumes "worker_inv cfg s"
  shows "worker_inv cfg (run_worker cfg (WPurge now) s)"
  using assms by (auto simp: worker_inv_def purgeProcessed_def distinct_map_filter flight_ok_def)

lemma worker_inv_crash:
  assumes "worker_inv cfg s"
  shows "worker_inv cfg (run_worker cfg (WCrash k) s)"
  using assms by (auto simp: worker_inv_def dest: in_set_takeD in_set_dropD)

lemma worker_inv_enqueue:
  assumes "worker_inv cfg s"
  shows "worker_inv cfg (run_worker cfg (WEnqueue r) s)"
proof -
  have "row_ok cfg ts ds (r\<lparr>ev_processed_at := None, ev_claim_token := None, ev_claimed_at := None,
      ev_attempts := 0, ev_dead_lettered_at := None\<rparr>)" for ts ds by (simp add: row_ok_def)
  then show ?thesis using assms by (auto simp: worker_inv_def flight_ok_def)
qed

lemma claim_ids_claimable:
  assumes "distinct (map ev_id (ob_events w))" "r \<in> set (ob_events w)" "ev_id r \<in> set (claim_ids cfg now w)"
  shows "claimable cfg now r"
proof -
  from assms(3) obtain q where q: "q \<in> set (ob_events w)" "claimable cfg now q" "ev_id q = ev_id r"
    unfolding claim_ids_def by (auto dest!: in_set_takeD)
  then have "q = r" using key_inj [OF assms(1) q(1) assms(2)] by simp
  with q show ?thesis by simp
qed

lemma worker_inv_claim:
  assumes inv: "worker_inv cfg s"
  shows "worker_inv cfg (run_worker cfg (WClaim now token) s)"
proof (cases "token \<in> set (ws_tokens s)")
  case False
  let ?ids = "claim_ids cfg now (ws_db s)" and ?rows = "ob_events (ws_db s)"
  let ?new = "update_where (\<lambda>r. ev_id r \<in> set ?ids) (claim_row now token) ?rows"
  let ?s' = "run_worker cfg (WClaim now token) s"
  have s': "ob_events (ws_db ?s') = ?new" "ob_dead_letters (ws_db ?s') = ob_dead_letters (ws_db s)"
    "ws_tokens ?s' = token # ws_tokens s" "ws_ids ?s' = ws_ids s"
    "ws_inflight ?s' = ws_inflight s @ map (Pair token) (filter (\<lambda>r. ev_id r \<in> set ?ids) ?new)"
    using False by (simp_all add: claim_batch_def Let_def update_events_def)
  have dist: "distinct (map ev_id ?rows)" using inv by (simp add: worker_inv_def)
  then have dist': "distinct (map ev_id ?new)" by (simp add: claim_row_def)
  have src: "\<exists>q\<in>set ?rows. r = (if ev_id q \<in> set ?ids then claim_row now token q else q)" if "r \<in> set ?new" for r
    using that by (auto simp: set_update_where)
  have old: "row_ok cfg (token # ws_tokens s) (ob_dead_letters (ws_db s)) q" if "q \<in> set ?rows" for q
    using inv that row_ok_mono [of cfg "ws_tokens s" _ q "token # ws_tokens s"] by (auto simp: worker_inv_def)
  have row: "row_ok cfg (token # ws_tokens s) (ob_dead_letters (ws_db s)) r" if r: "r \<in> set ?new" for r
  proof -
    obtain q where q: "q \<in> set ?rows" "r = (if ev_id q \<in> set ?ids then claim_row now token q else q)"
      using src [OF r] by blast
    show ?thesis
    proof (cases "ev_id q \<in> set ?ids")
      case True
      from claim_ids_claimable [OF dist q(1) True] show ?thesis using q(2) True
        by (simp add: row_ok_def claimable_def claim_row_def)
    qed (use q old in simp)
  qed
  have fl_old: "flight_ok (token # ws_tokens s) ?new x" if "x \<in> set (ws_inflight s)" for x
  proof -
    have x: "flight_ok (ws_tokens s) ?rows x" using inv that by (simp add: worker_inv_def)
    then have ne: "fst x \<noteq> token" using False by (auto simp: flight_ok_def)
    have "ev_attempts r = ev_attempts (snd x)"
      if r: "r \<in> set ?new" and c: "claimed_by (ev_id (snd x)) (fst x) r" for r
    proof -
      obtain q where q: "q \<in> set ?rows" "r = (if ev_id q \<in> set ?ids then claim_row now token q else q)"
        using src [OF r] by blast
      have "r = q"
      proof (cases "ev_id q \<in> set ?ids")
        case True
        then have "ev_claim_token r = Some token" using q(2) by (simp add: claim_row_def)
        then show ?thesis using c ne by simp
      qed (use q in simp)
      then show ?thesis using q c x by (auto simp: flight_ok_def)
    qed
    then show ?thesis using x by (auto simp: flight_ok_def)
  qed
  have fl_new: "flight_ok (token # ws_tokens s) ?new (token, e)" if e: "e \<in> set ?new" for e
  proof -
    have "r = e" if r: "r \<in> set ?new" "ev_id r = ev_id e" for r
      by (rule key_inj [OF dist' r(1) e r(2)])
    then show ?thesis by (auto simp: flight_ok_def)
  qed
  have ids: "ev_id ` set ?new \<subseteq> set (ws_ids s)"
    using inv src by (fastforce simp: worker_inv_def claim_row_def)
  show ?thesis unfolding worker_inv_def s'
    using dist' row fl_old fl_new ids by auto
qed (use inv in simp)

lemma worker_inv_step: "worker_inv cfg s \<Longrightarrow> worker_inv cfg (run_worker cfg x s)"
  by (cases x) (simp_all only: worker_inv_claim worker_inv_dispatch worker_inv_crash worker_inv_sweep
    worker_inv_purge worker_inv_enqueue)

interpretation outbox_workers: op_invariant "run_worker cfg" "worker_inv cfg" for cfg
  by unfold_locales (rule worker_inv_step)

subsection \<open>Settled events\<close>

definition settled :: "outbox_config \<Rightarrow> OutboxEvent \<Rightarrow> worker_state \<Rightarrow> bool" where
  "settled cfg r s \<longleftrightarrow> worker_inv cfg s \<and> ev_id r \<in> set (ws_ids s) \<and>
    (ev_processed_at r \<noteq> None \<or> ev_dead_lettered_at r \<noteq> None) \<and>
    (r \<in> set (ob_events (ws_db s)) \<or>
     ev_processed_at r \<noteq> None \<and> ev_id r \<notin> ev_id ` set (ob_events (ws_db s)))"

lemma update_where_keeps: "r \<in> set rows \<Longrightarrow> \<not> P r \<Longrightarrow> r \<in> set (update_where P f rows)"
  by (force simp: set_update_where)

lemma settled_update:
  assumes "settled cfg r s" "worker_inv cfg s'" "ws_ids s' = ws_ids s"
    "ob_events (ws_db s') = update_where P f (ob_events (ws_db s))" "\<forall>q. ev_id (f q) = ev_id q"
    "r \<in> set (ob_events (ws_db s)) \<Longrightarrow> \<not> P r"
  shows "settled cfg r s'"
proof -
  have "ev_id ` set (ob_events (ws_db s')) = ev_id ` set (ob_events (ws_db s))"
    using arg_cong [OF map_key_update_where [OF assms(5), of P "ob_events (ws_db s)"], of set] assms(4) by simp
  then show ?thesis using assms update_where_keeps [of r] by (auto simp: settled_def)
qed

lemma settled_row:
  assumes "settled cfg r s" "r \<in> set (ob_events (ws_db s))"
  shows "ev_claim_token r = None" "ev_processed_at r \<noteq> None \<or> ev_dead_lettered_at r \<noteq> None"
proof -
  have "row_ok cfg (ws_tokens s) (ob_dead_letters (ws_db s)) r"
    using assms by (simp add: settled_def worker_inv_def)
  moreover show "ev_processed_at r \<noteq> None \<or> ev_dead_lettered_at r \<noteq> None"
    using assms by (simp add: settled_def)
  ultimately show "ev_claim_token r = None" by (auto simp: row_ok_def split: option.splits)
qed

lemma settled_dispatch:
  assumes s: "settled cfg r s"
  shows "settled cfg r (run_worker cfg (WDispatch now k) s)"
proof (cases "length (ws_inflight s) \<le> k")
  case False
  obtain token event where ev: "ws_inflight s ! k = (token, event)" by fastforce
  obtain w cache where d: "dispatchOne cfg now event token (ws_db s, ws_cache s) = (w, cache)" by fastforce
  have w: "w = fst (dispatchOne cfg now event token (ws_db s, ws_cache s))" using d by simp
  have "\<exists>f. ob_events w = update_where (claimed_by (ev_id event) token) f (ob_events (ws_db s)) \<and>
      (\<forall>q. ev_id (f q) = ev_id q)"
    by (cases rule: dispatchOne_cases [of cfg now event token "(ws_db s, ws_cache s)"])
      (auto simp: w markSuccess_def markRetry_def update_events_def deadLetter_eq
        success_row_def retry_row_def dead_row_def)
  then obtain f where f: "ob_events w = update_where (claimed_by (ev_id event) token) f (ob_events (ws_db s))"
    "\<forall>q. ev_id (f q) = ev_id q" by blast
  have "worker_inv cfg s" using s by (simp add: settled_def)
  from worker_inv_dispatch [OF this, of now k] show ?thesis
    by (rule settled_update [OF s, where P = "claimed_by (ev_id event) token" and f = f])
      (use False ev d f settled_row [OF s] in auto)
qed (use s in simp)

lemma settled_claim:
  assumes s: "settled cfg r s"
  shows "settled cfg r (run_worker cfg (WClaim now token) s)"
proof (cases "token \<in> set (ws_tokens s)")
  case False
  have inv: "worker_inv cfg s" using s by (simp add: settled_def)
  then have dist: "distinct (map ev_id (ob_events (ws_db s)))" by (simp add: worker_inv_def)
  have "ev_id r \<notin> set (claim_ids cfg now (ws_db s))" if r: "r \<in> set (ob_events (ws_db s))"
    using claim_ids_claimable [OF dist r, of cfg now] settled_row(2) [OF s r] by (auto simp: claimable_def)
  then show ?thesis
    by (intro settled_update [OF s worker_inv_claim [OF inv],
        where P = "\<lambda>q. ev_id q \<in> set (claim_ids cfg now (ws_db s))" and f = "claim_row now token"])
      (use False in \<open>simp_all add: claim_batch_def Let_def update_events_def claim_row_def\<close>)
qed (use s in simp)

lemma settledD: "settled cfg r s \<Longrightarrow> worker_inv cfg s"
  by (simp add: settled_def)

lemma settled_sweep:
  assumes s: "settled cfg r s"
  shows "settled cfg r (run_worker cfg (WSweep now) s)"
  by (rule settled_update [OF s worker_inv_sweep [OF settledD [OF s]],
      where f = "\<lambda>r. r\<lparr>ev_claim_token := None, ev_claimed_at := None\<rparr>" and
        P = "\<lambda>r. ev_processed_at r = None \<and> ev_dead_lettered_at r = None \<and>
          (case ev_claimed_at r of None \<Rightarrow> False | Some c \<Rightarrow> c < now - cf_staleClaimMs cfg)"])
    (use settled_row(2) [OF s] in \<open>auto simp: sweepStaleClaims_def update_events_def\<close>)

definition purgeable :: "outbox_config \<Rightarrow> int \<Rightarrow> OutboxEvent \<Rightarrow> bool" where
  "purgeable cfg now r \<longleftrightarrow> (case ev_processed_at r of
     None \<Rightarrow> False | Some p \<Rightarrow> p < now - cf_purgeAfterDays cfg * 86400000)"

lemma purge_rows:
  "ob_events (ws_db (run_worker cfg (WPurge now) s)) = filter (\<lambda>r. \<not> purgeable cfg now r) (ob_events (ws_db s))"
  by (simp add: purgeProcessed_def purgeable_def)

lemma settled_purge:
  assumes s: "settled cfg r s"
  shows "settled cfg r (run_worker cfg (WPurge now) s)"
proof -
  let ?rows = "ob_events (ws_db s)" and ?rows' = "filter (\<lambda>r. \<not> purgeable cfg now r) (ob_events (ws_db s))"
  have dist: "distinct (map ev_id ?rows)" using settledD [OF s] by (simp add: worker_inv_def)
  have "r \<in> set ?rows' \<or> ev_processed_at r \<noteq> None \<and> ev_id r \<notin> ev_id ` set ?rows'"
  proof (cases "r \<in> set ?rows")
    case r: True
    show ?thesis
    proof (cases "purgeable cfg now r")
      case True
      have "q = r" if "q \<in> set ?rows" "ev_id q = ev_id r" for q
        by (rule key_inj [OF dist that(1) r that(2)])
      with True have "ev_id r \<notin> ev_id ` set ?rows'" by force
      moreover have "ev_processed_at r \<noteq> None" using True by (auto simp: purgeable_def split: option.splits)
      ultimately show ?thesis by blast
    qed (use r in simp)
  next
    case False
    then show ?thesis using s by (auto simp: settled_def)
  qed
  moreover have "ws_ids (run_worker cfg (WPurge now) s) = ws_ids s" by simp
  ultimately show ?thesis
    using s worker_inv_purge [OF settledD [OF s], of now] unfolding settled_def purge_rows by simp
qed

lemma settled_enqueue:
  assumes s: "settled cfg r s"
  shows "settled cfg r (run_worker cfg (WEnqueue q) s)"
proof (cases "ev_id q \<in> set (ws_ids s)")
  case False
  have "ev_id r \<noteq> ev_id q" using s False by (auto simp: settled_def)
  then show ?thesis
    using s False worker_inv_enqueue [OF settledD [OF s], of q] by (simp add: settled_def)
qed (use s in simp)

lemma settled_crash: "settled cfg r s \<Longrightarrow> settled cfg r (run_worker cfg (WCrash k) s)"
  using worker_inv_crash [of cfg s k] by (simp add: settled_def)

lemma settled_step: "settled cfg r s \<Longrightarrow> settled cfg r (run_worker cfg x s)"
  by (cases x) (simp_all only: settled_claim settled_dispatch settled_crash settled_sweep
    settled_purge settled_enqueue)

interpretation settled_events: op_invariant "run_worker cfg" "settled cfg r" for cfg r
  by unfold_locales (rule settled_step)

lemma map_singletonD:
  assumes "map f xs = [y]"
  obtains x where "x \<in> set xs" "f x = y"
  using assms by auto

section \<open>Properties\<close>

definition example_event :: OutboxEvent where
  "example_event = \<lparr>ev_id = ''e'', ev_tenant_id = ''t'', ev_event_type = ''x'', ev_event_version = 1,
    ev_aggregate_type = ''a'', ev_aggregate_id = ''i'', ev_payload = [], ev_payload_hash = ''h'',
    ev_idempotency_key = ''k'', ev_enqueued_at = 0, ev_available_at = 0, ev_processed_at = None,
    ev_processed_reason = None, ev_claim_token = None, ev_claimed_at = None, ev_attempts = 0,
    ev_last_error = None, ev_dead_lettered_at = None\<rparr>"

definition example_cfg :: outbox_config where
  "example_cfg = \<lparr>cf_batchSize = 100, cf_maxAttempts = 5, cf_staleClaimMs = 300000, cf_purgeAfterDays = 7,
    cf_backoffMs = default_backoffMs, cf_handlers = [((''x'', 1), \<lambda>_. HandlerDeadLetter ''bad'')],
    cf_random = (\<lambda>_ _. 1 / 2)\<rparr>"

definition example_outbox :: worker_state where
  "example_outbox = \<lparr>ws_db = \<lparr>ob_events = [example_event], ob_dead_letters = [],
      ob_tenants = [(''t'', ''slug'', ''standard'')]\<rparr>,
    ws_cache = [], ws_ids = [''e''], ws_tokens = [], ws_inflight = []\<rparr>"

lemma example_outbox_inv: "worker_inv example_cfg example_outbox"
  by (simp add: worker_inv_def row_ok_def example_outbox_def example_event_def)

text \<open>
  C5. With any number of workers, crashes, sweeps, purges and new events in any order: no
  event is both processed and dead-lettered, an event is claimed only while it is neither and
  has attempts left, attempts never pass the maximum, and every dead-lettered event has its
  entry among the dead letters.
\<close>

theorem outbox_rows_consistent:
  assumes "worker_inv cfg s" "r \<in> set (ob_events (ws_db (run_all (run_worker cfg) ops s)))"
  shows "(ev_processed_at r = None \<or> ev_dead_lettered_at r = None) \<and>
    (ev_claim_token r = None \<or> ev_processed_at r = None \<and> ev_dead_lettered_at r = None \<and>
       ev_attempts r < cf_maxAttempts cfg) \<and>
    ev_attempts r \<le> cf_maxAttempts cfg \<and>
    (ev_dead_lettered_at r = None \<or>
       has_dead_letter (ob_dead_letters (ws_db (run_all (run_worker cfg) ops s))) r)"
proof -
  from outbox_workers.run_all_inv [OF assms(1), of ops] assms(2)
  have "row_ok cfg (ws_tokens (run_all (run_worker cfg) ops s))
    (ob_dead_letters (ws_db (run_all (run_worker cfg) ops s))) r" by (simp add: worker_inv_def)
  then show ?thesis by (auto simp: row_ok_def split: option.splits)
qed

theorem outbox_rows_consistent_witness:
  "\<exists>r\<in>set (ob_events (ws_db (run_all (run_worker example_cfg)
      [WClaim 10 ''w1'', WSweep 400000, WClaim 400001 ''w2'', WDispatch 400002 1, WDispatch 400003 0]
      example_outbox))). ev_attempts r \<le> 5 \<and> ev_attempts r = 1"
proof -
  let ?s = "run_all (run_worker example_cfg)
      [WClaim 10 ''w1'', WSweep 400000, WClaim 400001 ''w2'', WDispatch 400002 1, WDispatch 400003 0] example_outbox"
  have att: "map ev_attempts (ob_events (ws_db ?s)) = [1]" by code_simp
  then obtain r where r: "r \<in> set (ob_events (ws_db ?s))" "ev_attempts r = 1"
    by (rule map_singletonD)
  have "ev_attempts r \<le> cf_maxAttempts example_cfg"
    using outbox_rows_consistent [OF example_outbox_inv r(1)] by blast
  then have "ev_attempts r \<le> 5 \<and> ev_attempts r = 1" using r(2) by (simp add: example_cfg_def)
  then show ?thesis by (rule bexI [OF _ r(1)])
qed

text \<open>
  C11. A processed or dead-lettered event is final: no later step of any worker changes its
  row. A dead-lettered row stays for good; a processed row stays or is purged, and its id does
  not come back.
\<close>

theorem outbox_settled_final:
  assumes "worker_inv cfg s" "r \<in> set (ob_events (ws_db s))"
    and "ev_processed_at r \<noteq> None \<or> ev_dead_lettered_at r \<noteq> None"
  shows "r \<in> set (ob_events (ws_db (run_all (run_worker cfg) ops s))) \<or>
    ev_processed_at r \<noteq> None \<and> ev_id r \<notin> ev_id ` set (ob_events (ws_db (run_all (run_worker cfg) ops s)))"
proof -
  have "settled cfg r s" using assms by (auto simp: settled_def worker_inv_def)
  from settled_events.run_all_inv [OF this, of ops] show ?thesis by (simp add: settled_def)
qed

theorem outbox_settled_final_witness:
  "\<exists>r. ev_dead_lettered_at r = Some 5 \<and> r \<in> set (ob_events (ws_db (run_all (run_worker example_cfg)
      [WClaim 10 ''w'', WDispatch 11 0, WPurge 1000]
      (example_outbox\<lparr>ws_db := \<lparr>ob_events = [r],
         ob_dead_letters = [\<lparr>dl_event = r, dl_attempts = 5, dl_last_error = ''down'', dl_at = 5, dl_reason = MaxAttempts\<rparr>],
         ob_tenants = []\<rparr>\<rparr>))))"
proof -
  let ?r = "example_event\<lparr>ev_dead_lettered_at := Some 5, ev_attempts := 5\<rparr>"
  let ?s = "example_outbox\<lparr>ws_db := \<lparr>ob_events = [?r],
         ob_dead_letters = [\<lparr>dl_event = ?r, dl_attempts = 5, dl_last_error = ''down'', dl_at = 5, dl_reason = MaxAttempts\<rparr>],
         ob_tenants = []\<rparr>\<rparr>"
  have "worker_inv example_cfg ?s"
    by (simp add: worker_inv_def row_ok_def has_dead_letter_def example_outbox_def example_event_def example_cfg_def)
  from outbox_settled_final [OF this, of ?r "[WClaim 10 ''w'', WDispatch 11 0, WPurge 1000]"]
  show ?thesis by (intro exI [of _ ?r]) (auto simp: example_event_def)
qed

text \<open>
  A dispatch makes exactly one transition of a row that still carries its token: the
  token is cleared, the attempts rise by one, and the row is processed, dead-lettered or
  rescheduled. A row that no longer carries the token (the claim went stale and was taken
  over) is not touched, and neither are the dead letters when no row carries it.
\<close>

theorem dispatchOne_one_transition:
  assumes "w' = fst (dispatchOne cfg now event token (w, cache))"
    and "\<forall>r\<in>set (ob_events w). claimed_by (ev_id event) token r \<longrightarrow>
      ev_attempts r = ev_attempts event \<and> ev_processed_at r = None \<and> ev_dead_lettered_at r = None"
  shows "\<exists>f. ob_events w' = map f (ob_events w) \<and>
    (\<forall>r\<in>set (ob_events w). if claimed_by (ev_id event) token r
       then ev_id (f r) = ev_id r \<and> ev_claim_token (f r) = None \<and> ev_attempts (f r) = ev_attempts r + 1 \<and>
         (ev_processed_at (f r) = Some now \<and> ev_dead_lettered_at (f r) = None \<or>
          ev_processed_at (f r) = None \<and> ev_dead_lettered_at (f r) = Some now \<or>
          ev_processed_at (f r) = None \<and> ev_dead_lettered_at (f r) = None \<and>
            now + 1000 \<le> ev_available_at (f r) \<and> ev_attempts (f r) < cf_maxAttempts cfg)
       else f r = r) \<and>
    ((\<exists>r\<in>set (ob_events w). claimed_by (ev_id event) token r) \<or> ob_dead_letters w' = ob_dead_letters w)"
proof (cases rule: dispatchOne_cases [of cfg now event token "(w, cache)"])
  case succeeded
  then show ?thesis using assms
    by (intro exI [of _ "\<lambda>r. if claimed_by (ev_id event) token r then success_row now r else r"])
      (simp add: markSuccess_def update_events_def update_where_def success_row_def)
next
  case (retried err)
  let ?d = "backoffForAttempt (cf_backoffMs cfg) (cf_random cfg (ev_id event) (ev_attempts event + 1)) (ev_attempts event + 1)"
  have "1000 \<le> ?d" by (simp add: backoffForAttempt_def Let_def)
  then show ?thesis using assms retried
    by (intro exI [of _ "\<lambda>r. if claimed_by (ev_id event) token r
        then retry_row now ?d (ev_attempts event + 1) err r else r"])
      (simp add: markRetry_def update_events_def update_where_def retry_row_def)
next
  case (buried reason err)
  have "ob_dead_letters (dead_letter_insert now event token reason err w) = ob_dead_letters w"
    if "\<not> (\<exists>r\<in>set (ob_events w). claimed_by (ev_id event) token r)"
  proof -
    have "filter (claimed_by (ev_id event) token) (ob_events w) = []" using that by (auto simp: filter_empty_conv)
    then show ?thesis by (simp add: dead_letter_insert_def Let_def)
  qed
  then show ?thesis using assms buried
    by (intro exI [of _ "\<lambda>r. if claimed_by (ev_id event) token r then dead_row now err r else r"])
      (simp add: deadLetter_eq update_where_def dead_row_def, blast)
qed

theorem dispatchOne_one_transition_witness:
  "\<exists>f. ob_events (fst (dispatchOne example_cfg 10 (example_event\<lparr>ev_claim_token := Some ''w''\<rparr>) ''w''
      (\<lparr>ob_events = [example_event\<lparr>ev_claim_token := Some ''w''\<rparr>], ob_dead_letters = [],
        ob_tenants = [(''t'', ''slug'', ''standard'')]\<rparr>, []))) = [f (example_event\<lparr>ev_claim_token := Some ''w''\<rparr>)] \<and>
    ev_attempts (f (example_event\<lparr>ev_claim_token := Some ''w''\<rparr>)) = 1"
  using dispatchOne_one_transition [OF refl, of
      "\<lparr>ob_events = [example_event\<lparr>ev_claim_token := Some ''w''\<rparr>], ob_dead_letters = [],
        ob_tenants = [(''t'', ''slug'', ''standard'')]\<rparr>"
      "example_event\<lparr>ev_claim_token := Some ''w''\<rparr>" "''w''" example_cfg 10 "[]"]
  by (auto simp: example_event_def)

text \<open>
  The delay before a retry: with a random number from zero to one (exclusive) it stays
  within a third of the table entry of the attempt, clamped to the last entry, and is never
  less than a second.
\<close>

theorem backoffForAttempt_bounds:
  assumes "0 \<le> rnd" "rnd < 1" "table \<noteq> []" "1 \<le> attempt" "\<forall>b\<in>set table. 2000 \<le> b"
    and base: "base = table ! (min attempt (length table) - 1)"
  shows "real_of_int base * 67 / 100 - 1 \<le> real_of_int (backoffForAttempt table rnd attempt) \<and>
    real_of_int (backoffForAttempt table rnd attempt) \<le> real_of_int base * 133 / 100 \<and>
    1000 \<le> backoffForAttempt table rnd attempt"
proof -
  have idx: "nat (max 0 (min (int attempt - 1) (int (length table) - 1))) = min attempt (length table) - 1"
    using assms(3,4) by (cases table) auto
  let ?x = "of_int base * (rnd - 1 / 2) * (66 / 100) :: rat"
  have "base \<in> set table" unfolding base using assms(3,4) by (intro nth_mem) (cases table, auto)
  then have b: "2000 \<le> base" using assms(5) by blast
  have eq: "backoffForAttempt table rnd attempt = max 1000 (base + \<lfloor>?x\<rfloor>)"
    by (simp add: backoffForAttempt_def Let_def idx base)
  have b': "(0::rat) \<le> of_int base" using b by simp
  have up: "?x \<le> of_int base * (33 / 100)"
    using mult_left_mono [OF _ b', of "(rnd - 1 / 2) * (66 / 100)" "33 / 100"] assms(2) by (simp add: mult.assoc)
  have lo: "- (of_int base * (33 / 100)) \<le> ?x"
    using mult_left_mono [OF _ b', of "- (33 / 100)" "(rnd - 1 / 2) * (66 / 100)"] assms(1) by (simp add: mult.assoc)
  have "(of_int \<lfloor>?x\<rfloor> :: rat) \<le> of_int base * (33 / 100)" using up of_int_floor_le order_trans by blast
  then have u: "100 * \<lfloor>?x\<rfloor> \<le> 33 * base"
    using of_int_le_iff [where 'a = rat, of "100 * \<lfloor>?x\<rfloor>" "33 * base"] by simp
  have "- (of_int base * (33 / 100)) < (of_int \<lfloor>?x\<rfloor> + 1 :: rat)" using lo by linarith
  then have l: "- (33 * base) < 100 * \<lfloor>?x\<rfloor> + 100"
    using of_int_less_iff [where 'a = rat, of "- (33 * base)" "100 * \<lfloor>?x\<rfloor> + 100"] by simp
  have "100 * backoffForAttempt table rnd attempt \<le> 133 * base"
    "67 * base - 100 \<le> 100 * backoffForAttempt table rnd attempt"
    unfolding eq using u l b by (auto simp: max_def)
  then show ?thesis unfolding eq by (auto simp: max_def)
qed

theorem backoffForAttempt_bounds_witness:
  "real_of_int 600000 * 67 / 100 - 1 \<le> real_of_int (backoffForAttempt default_backoffMs (1 / 4) 3) \<and>
    real_of_int (backoffForAttempt default_backoffMs (1 / 4) 3) \<le> real_of_int 600000 * 133 / 100 \<and>
    1000 \<le> backoffForAttempt default_backoffMs (1 / 4) 3"
  by (rule backoffForAttempt_bounds) (simp_all add: default_backoffMs_def)

end
