(* ===== verification/Sla_Timers.thy ===== *)
theory Sla_Timers
  imports Business_Hours Outbox
begin

section \<open>Service level timers\<close>

text \<open>
  \<open>modules/sla/sla.service.ts\<close> with the outbox handlers \<open>sla-timer-recompute.handler.ts\<close> and
  \<open>sla-timer-repoint.handler.ts\<close> and the stored procedures they meet: \<open>transition_entity_status\<close> (migration 00325), which
  changes the status of a case or work order, \<open>start_sla_timers\<close> (00352), \<open>repoint_sla_timer\<close> (00353) and
  \<open>mark_sla_breached_batch\<close> (00240).

  The database is a record of tables. An operation takes the instant, the ids of the rows it inserts and
  the environment: the time zones, the hash of a payload, the \<open>Date\<close> constructor and the choice that the database makes
  when a query has a limit and no order. Queries answer; the failures modelled are those the
  schema and the procedures raise.
\<close>

subsection \<open>Rows\<close>

datatype TimerType = Response | Resolution

fun timer_name :: "TimerType \<Rightarrow> string" where
  "timer_name Response = ''response''"
| "timer_name Resolution = ''resolution''"

record SlaTimerRow =
  st_id :: ident
  st_tenant_id :: ident
  st_ticket_id :: ident
  st_policy_id :: ident
  st_timer_type :: TimerType
  st_target_minutes :: int
  st_started_at :: int
  st_due_at :: int
  st_calendar_id :: ident_opt
  st_paused :: bool
  st_paused_at :: "int option"
  st_total_paused_minutes :: int
  st_recompute_pending :: bool
  st_breached :: bool
  st_breached_at :: "int option"
  st_completed_at :: "int option"
  st_stopped_at :: "int option"
  st_stopped_reason :: "string option"
  st_entity_kind :: "string option"

datatype ThresholdTimerScope = OneTimer TimerType | BothTimers

datatype ThresholdAction = Notify | Escalate

datatype ThresholdTargetType = TargetUser | TargetTeam | TargetManager

record EscalationThreshold =
  th_at_percent :: int
  th_timer_type :: ThresholdTimerScope
  th_action :: ThresholdAction
  th_target_type :: ThresholdTargetType
  th_target_id :: ident_opt

record SlaPolicy =
  sp_id :: ident
  sp_tenant_id :: ident
  sp_name :: string
  sp_response_time_minutes :: "int option"
  sp_resolution_time_minutes :: "int option"
  sp_calendar_id :: ident_opt
  sp_pause_on_waiting_reasons :: "string list option"
  sp_escalation_thresholds :: "EscalationThreshold list option"

text \<open>The columns of \<open>tickets\<close> (cases) and \<open>work_orders\<close> that the service level code reads or writes.\<close>

record sla_entity =
  en_id :: ident
  en_tenant_id :: ident
  en_title :: string
  en_status :: string
  en_status_category :: string
  en_waiting_reason :: "string option"
  en_resolved_at :: "int option"
  en_closed_at :: "int option"
  en_parent_ticket_id :: ident_opt
  en_sla_id :: ident_opt
  en_assigned_user_id :: ident_opt
  en_assigned_team_id :: ident_opt
  en_requester_person_id :: ident_opt
  en_watchers :: "ident list option"
  en_sla_paused :: bool
  en_sla_paused_at :: "int option"
  en_response_due_at :: "int option"
  en_resolution_due_at :: "int option"
  en_response_breached_at :: "int option"
  en_resolution_breached_at :: "int option"
  en_at_risk :: bool

record calendar_row =
  ca_id :: ident
  ca_tenant_id :: ident
  ca_calendar :: BusinessHoursCalendar

record sla_user =
  us_id :: ident
  us_tenant_id :: ident
  us_auth_uid :: ident_opt
  us_person_id :: ident_opt

record sla_person =
  ps_id :: ident
  ps_tenant_id :: ident
  ps_first_name :: string
  ps_last_name :: string
  ps_manager_person_id :: ident_opt

record sla_team =
  tm_id :: ident
  tm_tenant_id :: ident
  tm_name :: string

record sla_event =
  se_tenant_id :: ident
  se_event_type :: string
  se_entity_type :: string
  se_entity_id :: ident
  se_payload :: "(string \<times> jsval) list"

record activity_row =
  ac_tenant_id :: ident
  ac_ticket_id :: ident
  ac_author_person_id :: ident_opt
  ac_metadata :: "(string \<times> jsval) list"

datatype crossing_action = DidNotify | DidEscalate | SkippedNoManager

record crossing_row =
  cr_tenant_id :: ident
  cr_timer_id :: ident
  cr_ticket_id :: ident
  cr_at_percent :: int
  cr_timer_type :: TimerType
  cr_action :: crossing_action
  cr_target_type :: ThresholdTargetType
  cr_target_id :: ident_opt
  cr_notification_id :: ident_opt

text \<open>A row of \<open>command_operations\<close> with the outcome \<open>success\<close>; a failed command leaves no row.\<close>

record ('p, 'r) command_row =
  co_tenant_id :: ident
  co_key :: string
  co_payload :: 'p
  co_result :: 'r

record status_patch =
  pl_status :: "string option option"
  pl_status_category :: "string option option"
  pl_waiting_reason :: "string option option"

record status_result =
  sr_previous :: "string \<times> string \<times> string option"
  sr_new :: "string \<times> string \<times> string option"
  sr_noop :: bool

record sla_db =
  sd_timers :: "SlaTimerRow list"
  sd_tickets :: "sla_entity list"
  sd_work_orders :: "sla_entity list"
  sd_policies :: "SlaPolicy list"
  sd_calendars :: "calendar_row list"
  sd_users :: "sla_user list"
  sd_persons :: "sla_person list"
  sd_teams :: "sla_team list"
  sd_events :: "sla_event list"
  sd_activities :: "activity_row list"
  sd_crossings :: "crossing_row list"
  sd_commands :: "(status_patch, status_result) command_row list"
  sd_outbox :: "OutboxEvent list"

record sla_env =
  sv_zones :: "string \<Rightarrow> zone"
  sv_date :: "jsval \<Rightarrow> int option"
  sv_md5 :: "(string \<times> jsval) list \<Rightarrow> string"
  sv_pick :: "nat \<Rightarrow> SlaTimerRow list \<Rightarrow> SlaTimerRow list"

subsection \<open>Operations as state passing\<close>

definition op_return :: "'a \<Rightarrow> ('w, 'a) op" where
  "op_return a w = (Inr a, w)"

definition op_of :: "'a result \<Rightarrow> ('w, 'a) op" where
  "op_of r w = (r, w)"

definition op_do :: "('w \<Rightarrow> 'w) \<Rightarrow> ('w, unit) op" where
  "op_do f w = (Inr (), f w)"

definition op_then :: "('w, 'a) op \<Rightarrow> ('a \<Rightarrow> ('w, 'b) op) \<Rightarrow> ('w, 'b) op" where
  "op_then m f w = (case m w of (Inl e, w') \<Rightarrow> (Inl e, w') | (Inr a, w') \<Rightarrow> f a w')"

text \<open>A stored procedure runs in a transaction: an exception leaves the database as it was.\<close>

definition atomically :: "('w, 'a) op \<Rightarrow> ('w, 'a) op" where
  "atomically m w = (case m w of (Inl e, _) \<Rightarrow> (Inl e, w) | (Inr a, w') \<Rightarrow> (Inr a, w'))"

subsection \<open>Timers and their entities\<close>

definition active :: "SlaTimerRow \<Rightarrow> bool" where
  "active r \<longleftrightarrow> st_completed_at r = None \<and> st_stopped_at r = None"

definition timer_of :: "ident \<Rightarrow> ident \<Rightarrow> SlaTimerRow \<Rightarrow> bool" where
  "timer_of ticketId tenantId r \<longleftrightarrow> st_ticket_id r = ticketId \<and> st_tenant_id r = tenantId"

definition update_timers :: "(SlaTimerRow \<Rightarrow> bool) \<Rightarrow> (SlaTimerRow \<Rightarrow> SlaTimerRow) \<Rightarrow> sla_db \<Rightarrow> sla_db" where
  "update_timers P f db = db\<lparr>sd_timers := update_where P f (sd_timers db)\<rparr>"

definition same_active :: "SlaTimerRow \<Rightarrow> SlaTimerRow \<Rightarrow> bool" where
  "same_active r q \<longleftrightarrow> active r \<and> active q \<and> st_tenant_id r = st_tenant_id q \<and> st_ticket_id r = st_ticket_id q \<and>
     st_policy_id r = st_policy_id q \<and> st_timer_type r = st_timer_type q"

text \<open>
  The trigger of migration 00232 derives the kind of the entity when the insert does not give it. An
  insert fails on a primary key or when the unique index on active timers (00346) has the row.
\<close>

definition derive_kind :: "sla_db \<Rightarrow> SlaTimerRow \<Rightarrow> SlaTimerRow" where
  "derive_kind db r =
     (case st_entity_kind r of
        Some _ \<Rightarrow> r
      | None \<Rightarrow>
          if st_ticket_id r \<in> en_id ` set (sd_tickets db) then r\<lparr>st_entity_kind := Some ''case''\<rparr>
          else if st_ticket_id r \<in> en_id ` set (sd_work_orders db) then r\<lparr>st_entity_kind := Some ''work_order''\<rparr>
          else r)"

definition insertable :: "sla_db \<Rightarrow> SlaTimerRow \<Rightarrow> bool" where
  "insertable db r \<longleftrightarrow> st_id r \<notin> st_id ` set (sd_timers db) \<and> (\<forall>q\<in>set (sd_timers db). \<not> same_active r q)"

fun insert_timers :: "SlaTimerRow list \<Rightarrow> sla_db \<Rightarrow> sla_db option" where
  "insert_timers [] db = Some db"
| "insert_timers (r # rs) db =
     (if insertable db (derive_kind db r)
      then insert_timers rs (db\<lparr>sd_timers := sd_timers db @ [derive_kind db r]\<rparr>) else None)"

definition entity_hit :: "ident \<Rightarrow> ident \<Rightarrow> sla_entity \<Rightarrow> bool" where
  "entity_hit i tenantId r \<longleftrightarrow> en_id r = i \<and> (tenantId = [] \<or> en_tenant_id r = tenantId)"

definition updateTicketOrWorkOrder :: "ident \<Rightarrow> (sla_entity \<Rightarrow> sla_entity) \<Rightarrow> ident \<Rightarrow> (sla_db, unit) op" where
  "updateTicketOrWorkOrder i patch tenantId db =
     (if \<exists>r\<in>set (sd_tickets db). entity_hit i tenantId r
      then (Inr (), db\<lparr>sd_tickets := update_where (entity_hit i tenantId) patch (sd_tickets db)\<rparr>)
      else if \<exists>r\<in>set (sd_work_orders db). entity_hit i tenantId r
      then (Inr (), db\<lparr>sd_work_orders := update_where (entity_hit i tenantId) patch (sd_work_orders db)\<rparr>)
      else (Inl (ServerError ''sla.target_missing''), db))"

definition set_due :: "TimerType \<Rightarrow> int option \<Rightarrow> sla_entity \<Rightarrow> sla_entity" where
  "set_due ty d r = (case ty of Response \<Rightarrow> r\<lparr>en_response_due_at := d\<rparr> | Resolution \<Rightarrow> r\<lparr>en_resolution_due_at := d\<rparr>)"

definition find_policy :: "ident \<Rightarrow> ident \<Rightarrow> sla_db \<Rightarrow> SlaPolicy option" where
  "find_policy slaPolicyId tenantId db =
     find (\<lambda>p. sp_id p = slaPolicyId \<and> sp_tenant_id p = tenantId) (sd_policies db)"

definition loadCalendar :: "ident_opt \<Rightarrow> sla_db \<Rightarrow> BusinessHoursCalendar option" where
  "loadCalendar calendarId db =
     (if truthy calendarId then map_option ca_calendar (find (\<lambda>c. Some (ca_id c) = calendarId) (sd_calendars db)) else None)"

definition target_minutes :: "TimerType \<Rightarrow> SlaPolicy \<Rightarrow> int option" where
  "target_minutes ty p = (case ty of Response \<Rightarrow> sp_response_time_minutes p | Resolution \<Rightarrow> sp_resolution_time_minutes p)"

definition has_target :: "int option \<Rightarrow> bool" where
  "has_target m \<longleftrightarrow> m \<noteq> None \<and> m \<noteq> Some 0"

subsection \<open>Starting timers\<close>

definition new_timer ::
    "(TimerType \<Rightarrow> ident) \<Rightarrow> int \<Rightarrow> SlaPolicy \<Rightarrow> ident \<Rightarrow> ident \<Rightarrow> TimerType \<Rightarrow> int \<Rightarrow> int \<Rightarrow> SlaTimerRow" where
  "new_timer gen now p ticketId tenantId ty minutes due =
     \<lparr>st_id = gen ty, st_tenant_id = tenantId, st_ticket_id = ticketId, st_policy_id = sp_id p, st_timer_type = ty,
      st_target_minutes = minutes, st_started_at = now, st_due_at = due, st_calendar_id = sp_calendar_id p,
      st_paused = False, st_paused_at = None, st_total_paused_minutes = 0, st_recompute_pending = False,
      st_breached = False, st_breached_at = None, st_completed_at = None, st_stopped_at = None,
      st_stopped_reason = None, st_entity_kind = None\<rparr>"

definition start_timer ::
    "sla_env \<Rightarrow> (TimerType \<Rightarrow> ident) \<Rightarrow> int \<Rightarrow> SlaPolicy \<Rightarrow> BusinessHoursCalendar option \<Rightarrow> ident \<Rightarrow> ident \<Rightarrow> TimerType \<Rightarrow>
     SlaTimerRow list \<Rightarrow> (sla_db, SlaTimerRow list) op" where
  "start_timer env gen now p calendar ticketId tenantId ty timers =
     (if has_target (target_minutes ty p)
      then op_then (op_of (addBusinessMinutes (sv_zones env) calendar now (the (target_minutes ty p)))) (\<lambda>due.
           op_then (updateTicketOrWorkOrder ticketId (set_due ty (Some due)) tenantId) (\<lambda>_.
             op_return (timers @ [new_timer gen now p ticketId tenantId ty (the (target_minutes ty p)) due])))
      else op_return timers)"

definition startTimers :: "sla_env \<Rightarrow> (TimerType \<Rightarrow> ident) \<Rightarrow> int \<Rightarrow> ident \<Rightarrow> ident \<Rightarrow> ident \<Rightarrow> (sla_db, unit) op" where
  "startTimers env gen now ticketId tenantId slaPolicyId db =
     (case find_policy slaPolicyId tenantId db of
        None \<Rightarrow> (Inr (), db)
      | Some p \<Rightarrow>
          let calendar = loadCalendar (sp_calendar_id p) db
          in op_then (start_timer env gen now p calendar ticketId tenantId Response []) (\<lambda>timers.
             op_then (start_timer env gen now p calendar ticketId tenantId Resolution timers) (\<lambda>timers.
               op_do (\<lambda>db. case insert_timers timers db of None \<Rightarrow> db | Some db' \<Rightarrow> db'))) db)"

record timer_draft =
  td_timer_type :: TimerType
  td_target_minutes :: int
  td_due_at :: int
  td_calendar_id :: ident_opt

definition draft_timer ::
    "sla_env \<Rightarrow> int \<Rightarrow> SlaPolicy \<Rightarrow> BusinessHoursCalendar option \<Rightarrow> TimerType \<Rightarrow> timer_draft list result" where
  "draft_timer env now p calendar ty =
     (if has_target (target_minutes ty p)
      then and_then (addBusinessMinutes (sv_zones env) calendar now (the (target_minutes ty p))) (\<lambda>due.
        Inr [\<lparr>td_timer_type = ty, td_target_minutes = the (target_minutes ty p), td_due_at = due,
              td_calendar_id = sp_calendar_id p\<rparr>])
      else Inr [])"

definition positive_target :: "int option \<Rightarrow> bool" where
  "positive_target m \<longleftrightarrow> (case m of None \<Rightarrow> False | Some n \<Rightarrow> 0 < n)"

definition buildTimersForRpc :: "sla_env \<Rightarrow> int \<Rightarrow> ident \<Rightarrow> ident \<Rightarrow> sla_db \<Rightarrow> timer_draft list result" where
  "buildTimersForRpc env now slaPolicyId tenantId db =
     (case find_policy slaPolicyId tenantId db of
        None \<Rightarrow> Inl (NotFoundWithCode ''sla.policy_not_found'')
      | Some p \<Rightarrow>
          if \<not> positive_target (sp_response_time_minutes p) \<and> \<not> positive_target (sp_resolution_time_minutes p)
          then Inl (ValidationFailed ''sla.policy_has_no_targets'')
          else let calendar = loadCalendar (sp_calendar_id p) db
               in and_then (draft_timer env now p calendar Response) (\<lambda>us.
                  and_then (draft_timer env now p calendar Resolution) (\<lambda>vs. Inr (us @ vs))))"

subsection \<open>Pausing, resuming, completing\<close>

definition pauseTimers :: "int \<Rightarrow> ident \<Rightarrow> ident \<Rightarrow> (sla_db, unit) op" where
  "pauseTimers now ticketId tenantId db =
     updateTicketOrWorkOrder ticketId (\<lambda>r. r\<lparr>en_sla_paused := True, en_sla_paused_at := Some now\<rparr>) tenantId
       (update_timers (\<lambda>r. timer_of ticketId tenantId r \<and> \<not> st_paused r \<and> active r)
          (\<lambda>r. r\<lparr>st_paused := True, st_paused_at := Some now\<rparr>) db)"

definition stopTimers :: "int \<Rightarrow> ident \<Rightarrow> ident \<Rightarrow> string \<Rightarrow> sla_db \<Rightarrow> sla_db" where
  "stopTimers now ticketId tenantId reason =
     update_timers (\<lambda>r. timer_of ticketId tenantId r \<and> active r)
       (\<lambda>r. r\<lparr>st_stopped_at := Some now, st_stopped_reason := Some reason\<rparr>)"

text \<open>\<open>new Date(null)\<close> is the epoch.\<close>

definition resume_timer :: "sla_env \<Rightarrow> int \<Rightarrow> SlaTimerRow \<Rightarrow> (sla_db, unit) op" where
  "resume_timer env now timer db =
     (let calendar = loadCalendar (st_calendar_id timer) db;
          pausedAt = (case st_paused_at timer of None \<Rightarrow> 0 | Some t \<Rightarrow> t)
      in op_then (op_of (businessMinutesBetween (sv_zones env) calendar pausedAt now)) (\<lambda>minutes.
         op_then (op_of (if 0 < minutes then addBusinessMinutes (sv_zones env) calendar (st_due_at timer) minutes
                         else Inr (st_due_at timer))) (\<lambda>newDue.
           op_do (update_timers (\<lambda>r. st_id r = st_id timer)
             (\<lambda>r. r\<lparr>st_paused := False, st_paused_at := None,
                     st_total_paused_minutes := st_total_paused_minutes timer + minutes, st_due_at := newDue\<rparr>)))) db)"

fun each_op :: "('a \<Rightarrow> ('w, unit) op) \<Rightarrow> 'a list \<Rightarrow> ('w, unit) op" where
  "each_op f [] = op_return ()"
| "each_op f (x # xs) = op_then (f x) (\<lambda>_. each_op f xs)"

definition mirror_due :: "SlaTimerRow list \<Rightarrow> sla_entity \<Rightarrow> sla_entity" where
  "mirror_due timers r = fold (\<lambda>t. set_due (st_timer_type t) (Some (st_due_at t))) timers
     (r\<lparr>en_sla_paused := False, en_sla_paused_at := None\<rparr>)"

definition resumeTimers :: "sla_env \<Rightarrow> int \<Rightarrow> ident \<Rightarrow> ident \<Rightarrow> (sla_db, unit) op" where
  "resumeTimers env now ticketId tenantId db =
     op_then (each_op (resume_timer env now)
       (filter (\<lambda>r. timer_of ticketId tenantId r \<and> st_paused r \<and> active r) (sd_timers db))) (\<lambda>_ db.
       updateTicketOrWorkOrder ticketId
         (mirror_due (filter (\<lambda>r. timer_of ticketId tenantId r \<and> active r) (sd_timers db))) tenantId db) db"

definition completeTimers :: "int \<Rightarrow> ident \<Rightarrow> ident \<Rightarrow> TimerType option \<Rightarrow> sla_db \<Rightarrow> sla_db" where
  "completeTimers now ticketId tenantId timerType =
     update_timers (\<lambda>r. timer_of ticketId tenantId r \<and> active r \<and> (timerType = None \<or> timerType = Some (st_timer_type r)))
       (\<lambda>r. r\<lparr>st_completed_at := Some now\<rparr>)"

definition should_pause :: "string list \<Rightarrow> sla_entity \<Rightarrow> bool" where
  "should_pause pauseReasons s \<longleftrightarrow> en_status_category s = ''waiting'' \<and> truthy (en_waiting_reason s) \<and>
     the (en_waiting_reason s) \<in> set pauseReasons"

definition applyWaitingStateTransition ::
    "sla_env \<Rightarrow> int \<Rightarrow> ident \<Rightarrow> ident \<Rightarrow> sla_entity \<Rightarrow> sla_entity \<Rightarrow> (sla_db, unit) op" where
  "applyWaitingStateTransition env now entityId tenantId before after db =
     (let slaPolicyId = nullish (en_sla_id after) (en_sla_id before)
      in if \<not> truthy slaPolicyId then (Inr (), db)
         else let policy = find_policy (the slaPolicyId) tenantId db;
                  pauseReasons = (case Option.bind policy sp_pause_on_waiting_reasons of None \<Rightarrow> [] | Some rs \<Rightarrow> rs);
                  wasPaused = should_pause pauseReasons before;
                  isPaused = should_pause pauseReasons after
              in if \<not> wasPaused \<and> isPaused then pauseTimers now entityId tenantId db
                 else if wasPaused \<and> \<not> isPaused then resumeTimers env now entityId tenantId db
                 else (Inr (), db))"

definition clear_sla :: "sla_entity \<Rightarrow> sla_entity" where
  "clear_sla r = r\<lparr>en_response_due_at := None, en_resolution_due_at := None, en_response_breached_at := None,
     en_resolution_breached_at := None, en_at_risk := False, en_sla_paused := False, en_sla_paused_at := None\<rparr>"

definition restartTimers ::
    "sla_env \<Rightarrow> (TimerType \<Rightarrow> ident) \<Rightarrow> int \<Rightarrow> ident \<Rightarrow> ident \<Rightarrow> ident_opt \<Rightarrow> (sla_db, unit) op" where
  "restartTimers env gen now ticketId tenantId newSlaPolicyId db =
     op_then (updateTicketOrWorkOrder ticketId clear_sla tenantId) (\<lambda>_.
       if truthy newSlaPolicyId then startTimers env gen now ticketId tenantId (the newSlaPolicyId) else op_return ())
       (completeTimers now ticketId tenantId None db)"

subsection \<open>The breach pass\<close>

definition watched :: "SlaTimerRow \<Rightarrow> bool" where
  "watched r \<longleftrightarrow> \<not> st_breached r \<and> \<not> st_paused r \<and> active r"

definition stamp_breach :: "int \<Rightarrow> SlaTimerRow list \<Rightarrow> sla_entity \<Rightarrow> sla_entity" where
  "stamp_breach now marked r =
     (let stamp = (\<lambda>ty old. if old = None \<and> (\<exists>t\<in>set marked. st_timer_type t = ty \<and> st_ticket_id t = en_id r) then Some now else old)
      in r\<lparr>en_response_breached_at := stamp Response (en_response_breached_at r),
           en_resolution_breached_at := stamp Resolution (en_resolution_breached_at r)\<rparr>)"

definition breach_event :: "sla_db \<Rightarrow> SlaTimerRow \<Rightarrow> sla_event" where
  "breach_event db t =
     \<lparr>se_tenant_id = st_tenant_id t, se_event_type = ''sla_'' @ timer_name (st_timer_type t) @ ''_breached'',
      se_entity_type = (case st_entity_kind t of Some k \<Rightarrow> k
        | None \<Rightarrow> if st_ticket_id t \<in> en_id ` set (sd_work_orders db) then ''work_order'' else ''ticket''),
      se_entity_id = st_ticket_id t,
      se_payload = [(''timer_type'', JStr (timer_name (st_timer_type t))), (''due_at'', JNum (of_int (st_due_at t)))]\<rparr>"

definition mark_sla_breached_batch :: "ident list \<Rightarrow> int \<Rightarrow> sla_db \<Rightarrow> sla_db" where
  "mark_sla_breached_batch ids now db =
     (if ids = [] then db
      else let marked = filter (\<lambda>t. st_id t \<in> set ids) (sd_timers db);
               db1 = update_timers (\<lambda>t. st_id t \<in> set ids \<and> \<not> st_breached t)
                 (\<lambda>t. t\<lparr>st_breached := True, st_breached_at := Some now\<rparr>) db
           in db1\<lparr>sd_tickets := map (stamp_breach now marked) (sd_tickets db1),
                  sd_work_orders := map (stamp_breach now marked) (sd_work_orders db1),
                  sd_events := sd_events db1 @ map (breach_event db1) marked\<rparr>)"

definition at_risk :: "int \<Rightarrow> SlaTimerRow \<Rightarrow> bool" where
  "at_risk now t =
     (let elapsed = now - st_started_at t; tot = st_due_at t - st_started_at t
      in (if 0 < tot then (of_int elapsed :: rat) / of_int tot else 0) \<ge> 8 / 10)"

definition atRiskByTenant :: "int \<Rightarrow> SlaTimerRow list \<Rightarrow> (ident \<times> ident list) list" where
  "atRiskByTenant now timers =
     (let risky = filter (at_risk now) timers
      in map (\<lambda>tenant. (tenant, remdups (map st_ticket_id (filter (\<lambda>t. st_tenant_id t = tenant) risky))))
           (remdups (map st_tenant_id risky)))"

definition flag_at_risk :: "ident \<times> ident list \<Rightarrow> sla_db \<Rightarrow> sla_db" where
  "flag_at_risk entry db =
     (let P = (\<lambda>r. en_tenant_id r = fst entry \<and> en_id r \<in> set (snd entry) \<and> \<not> en_at_risk r);
          f = (\<lambda>r. r\<lparr>en_at_risk := True\<rparr>)
      in db\<lparr>sd_tickets := update_where P f (sd_tickets db), sd_work_orders := update_where P f (sd_work_orders db)\<rparr>)"

text \<open>
  The first two parts of \<open>runBreachCheck\<close>; the pass over the thresholds follows in \<open>Sla_Thresholds\<close>. The
  breach part is two round trips: the select (\<open>overdue\<close>) and the procedure on what it found (\<open>breach_batch\<close>), which
  runs on whatever the database has become by then. \<open>mark_breaches\<close> is their composition with nothing in between;
  \<open>stale_batch_marks_completed\<close> shows what a completion in between leads to.
\<close>

definition overdue :: "sla_env \<Rightarrow> int \<Rightarrow> sla_db \<Rightarrow> SlaTimerRow list" where
  "overdue env now db = sv_pick env 100 (filter (\<lambda>t. watched t \<and> st_due_at t < now) (sd_timers db))"

definition breach_batch :: "bool \<Rightarrow> int \<Rightarrow> SlaTimerRow list \<Rightarrow> sla_db \<Rightarrow> sla_db" where
  "breach_batch rpc_ok now timers db =
     (if timers \<noteq> [] \<and> rpc_ok then mark_sla_breached_batch (map st_id timers) now db else db)"

definition mark_breaches :: "sla_env \<Rightarrow> bool \<Rightarrow> int \<Rightarrow> sla_db \<Rightarrow> sla_db" where
  "mark_breaches env rpc_ok now db = breach_batch rpc_ok now (overdue env now db) db"

definition mark_at_risk :: "sla_env \<Rightarrow> int \<Rightarrow> sla_db \<Rightarrow> sla_db" where
  "mark_at_risk env now db =
     fold flag_at_risk
       (atRiskByTenant now (sv_pick env 200 (filter (\<lambda>t. watched t \<and> now < st_due_at t) (sd_timers db)))) db"

subsection \<open>A change of status\<close>

text \<open>
  \<open>outbox.emit\<close> (migration 00299): the same key with the same contents is the event already there, with other
  contents an error.
\<close>

definition outbox_emit ::
    "sla_env \<Rightarrow> ident \<Rightarrow> int \<Rightarrow> ident \<Rightarrow> string \<Rightarrow> string \<Rightarrow> ident \<Rightarrow> (string \<times> jsval) list \<Rightarrow> string \<Rightarrow> (sla_db, unit) op" where
  "outbox_emit env eid now tenantId eventType aggregateType aggregateId payload key db =
     (let e = \<lparr>ev_id = eid, ev_tenant_id = tenantId, ev_event_type = eventType, ev_event_version = 1,
               ev_aggregate_type = aggregateType, ev_aggregate_id = aggregateId, ev_payload = payload,
               ev_payload_hash = sv_md5 env payload, ev_idempotency_key = key, ev_enqueued_at = now, ev_available_at = now,
               ev_processed_at = None, ev_processed_reason = None, ev_claim_token = None, ev_claimed_at = None,
               ev_attempts = 0, ev_last_error = None, ev_dead_lettered_at = None\<rparr>
      in case find (\<lambda>q. ev_tenant_id q = tenantId \<and> ev_idempotency_key q = key) (sd_outbox db) of
           None \<Rightarrow> (Inr (), db\<lparr>sd_outbox := sd_outbox db @ [e]\<rparr>)
         | Some q \<Rightarrow> if ev_payload_hash q \<noteq> sv_md5 env payload then (Inl (PlainError ''outbox.emit: idempotency key collision''), db)
             else (Inr (), db))"

definition jopt :: "string option \<Rightarrow> jsval" where
  "jopt x = (case x of None \<Rightarrow> JNull | Some s \<Rightarrow> JStr s)"

definition terminal_category :: "string \<Rightarrow> bool" where
  "terminal_category c \<longleftrightarrow> c = ''resolved'' \<or> c = ''closed''"

definition entity_table :: "string \<Rightarrow> sla_db \<Rightarrow> sla_entity list" where
  "entity_table kind db = (if kind = ''case'' then sd_tickets db else sd_work_orders db)"

definition update_entity :: "string \<Rightarrow> ident \<Rightarrow> ident \<Rightarrow> (sla_entity \<Rightarrow> sla_entity) \<Rightarrow> sla_db \<Rightarrow> sla_db" where
  "update_entity kind i tenantId f db =
     (let P = (\<lambda>r. en_id r = i \<and> en_tenant_id r = tenantId)
      in if kind = ''case'' then db\<lparr>sd_tickets := update_where P f (sd_tickets db)\<rparr>
         else db\<lparr>sd_work_orders := update_where P f (sd_work_orders db)\<rparr>)"

definition patched :: "string option option \<Rightarrow> string \<Rightarrow> string option" where
  "patched p old = (case p of None \<Rightarrow> Some old | Some v \<Rightarrow> v)"

definition new_stamps :: "int \<Rightarrow> string \<Rightarrow> sla_entity \<Rightarrow> int option \<times> int option" where
  "new_stamps now category r =
     (if terminal_category (en_status_category r) \<and> \<not> terminal_category category then (None, None)
      else (if category = ''resolved'' \<and> en_status_category r \<noteq> ''resolved'' then nullish (en_resolved_at r) (Some now)
            else en_resolved_at r,
            if category = ''closed'' \<and> en_status_category r \<noteq> ''closed'' then nullish (en_closed_at r) (Some now)
            else en_closed_at r))"

definition sla_action :: "string list option \<Rightarrow> sla_entity \<Rightarrow> string \<Rightarrow> string option \<Rightarrow> string option" where
  "sla_action pauseReasons r category waitingReason =
     (if category = ''waiting'' \<and> (case waitingReason of None \<Rightarrow> False
          | Some w \<Rightarrow> (case pauseReasons of None \<Rightarrow> False | Some rs \<Rightarrow> w \<in> set rs))
      then Some ''pause''
      else if \<not> terminal_category (en_status_category r) \<and> en_status_category r = ''waiting'' \<and> category \<noteq> ''waiting''
      then Some ''resume''
      else if terminal_category category \<and> \<not> terminal_category (en_status_category r) then Some ''stop''
      else None)"

definition entity_pause_reasons :: "sla_entity \<Rightarrow> sla_db \<Rightarrow> string list option" where
  "entity_pause_reasons r db = Option.bind (en_sla_id r) (\<lambda>s. Option.bind (find_policy s (en_tenant_id r) db) sp_pause_on_waiting_reasons)"

definition recompute_payload :: "ident \<Rightarrow> string \<Rightarrow> string \<Rightarrow> string option \<Rightarrow> string \<Rightarrow> string \<Rightarrow> string \<Rightarrow> (string \<times> jsval) list" where
  "recompute_payload entityId kind action waitingReason prevStatus newStatus newCategory =
     [(''entity_id'', JStr entityId), (''entity_kind'', JStr kind), (''action'', JStr action),
      (''waiting_reason'', jopt waitingReason), (''previous_status'', JStr prevStatus),
      (''new_status'', JStr newStatus), (''new_status_category'', JStr newCategory)]"

definition recompute_timers ::
    "sla_env \<Rightarrow> ident \<Rightarrow> int \<Rightarrow> string \<Rightarrow> ident \<Rightarrow> ident \<Rightarrow> string \<Rightarrow> string option \<Rightarrow> (string \<times> jsval) list \<Rightarrow> (sla_db, unit) op" where
  "recompute_timers env eid now kind entityId tenantId key action payload db =
     (case action of None \<Rightarrow> (Inr (), db)
      | Some a \<Rightarrow> outbox_emit env eid now tenantId ''sla.timer_recompute_required'' kind entityId payload
          (''sla.timer_recompute_required:'' @ entityId @ '':'' @ key)
          (update_timers (\<lambda>t. timer_of entityId tenantId t \<and> active t) (\<lambda>t. t\<lparr>st_recompute_pending := True\<rparr>) db))"

definition status_changed :: "string \<times> string \<times> string option \<Rightarrow> jsval" where
  "status_changed s = (case s of (st, c, w) \<Rightarrow>
     JObj [(''status'', JStr st), (''status_category'', JStr c), (''waiting_reason'', jopt w)])"

definition actor_person :: "ident \<Rightarrow> ident_opt \<Rightarrow> sla_db \<Rightarrow> ident_opt" where
  "actor_person tenantId actor db = (if actor = None then None
     else Option.bind (find (\<lambda>u. us_tenant_id u = tenantId \<and> us_auth_uid u = actor) (sd_users db)) us_person_id)"

definition change_status ::
    "sla_env \<Rightarrow> ident \<times> ident \<Rightarrow> int \<Rightarrow> string \<Rightarrow> ident \<Rightarrow> ident \<Rightarrow> ident_opt \<Rightarrow> string \<Rightarrow> sla_entity \<Rightarrow>
     string \<times> string \<times> string option \<Rightarrow> (sla_db, unit) op" where
  "change_status env eids now kind entityId tenantId actor key r new db =
     (case new of (status, category, waitingReason) \<Rightarrow>
        let stamps = new_stamps now category r;
            prev = (en_status r, en_status_category r, en_waiting_reason r);
            db1 = update_entity kind entityId tenantId
              (\<lambda>r. r\<lparr>en_status := status, en_status_category := category, en_waiting_reason := waitingReason,
                      en_resolved_at := fst stamps, en_closed_at := snd stamps\<rparr>) db;
            action = sla_action (entity_pause_reasons r db) r category waitingReason
        in op_then (recompute_timers env (fst eids) now kind entityId tenantId key action
             (recompute_payload entityId kind (case action of None \<Rightarrow> [] | Some a \<Rightarrow> a) waitingReason (en_status r) status category)) (\<lambda>_.
           op_then (op_do (\<lambda>db. db\<lparr>sd_activities := sd_activities db @
             [\<lparr>ac_tenant_id = tenantId, ac_ticket_id = entityId, ac_author_person_id = actor_person tenantId actor db,
               ac_metadata = [(''event'', JStr ''status_changed''), (''previous'', status_changed prev),
                 (''next'', status_changed (status, category, waitingReason))]\<rparr>]\<rparr>)) (\<lambda>_.
           outbox_emit env (snd eids) now tenantId
             (if kind = ''case'' then ''ticket_status_changed'' else ''work_order_status_changed'') kind entityId
             [(''entity_id'', JStr entityId), (''entity_kind'', JStr kind), (''previous_status'', JStr (en_status r)),
              (''new_status'', JStr status), (''previous_status_category'', JStr (en_status_category r)),
              (''new_status_category'', JStr category), (''previous_waiting_reason'', jopt (en_waiting_reason r)),
              (''new_waiting_reason'', jopt waitingReason), (''actor_user_id'', jopt actor)]
             (key @ '':status_event''))) db1)"

definition transition_entity_status ::
    "sla_env \<Rightarrow> ident \<times> ident \<Rightarrow> int \<Rightarrow> ident \<Rightarrow> string \<Rightarrow> ident \<Rightarrow> ident_opt \<Rightarrow> string \<Rightarrow> status_patch \<Rightarrow>
     (sla_db, status_result) op" where
  "transition_entity_status env eids now entityId kind tenantId actor key payload = atomically (\<lambda>db.
     if key = [] then (Inl (PlainError ''transition_entity_status: p_idempotency_key required''), db)
     else if kind \<noteq> ''case'' \<and> kind \<noteq> ''work_order'' then (Inl (PlainError ''transition_entity_status.unknown_kind''), db)
     else case find (\<lambda>c. co_tenant_id c = tenantId \<and> co_key c = key) (sd_commands db) of
       Some c \<Rightarrow> if co_payload c = payload then (Inr (co_result c), db)
         else (Inl (PlainError ''command_operations.payload_mismatch''), db)
     | None \<Rightarrow>
       case find (\<lambda>r. en_id r = entityId \<and> en_tenant_id r = tenantId) (entity_table kind db) of
         None \<Rightarrow> (Inl (PlainError ''transition_entity_status.not_found''), db)
       | Some r \<Rightarrow>
         let status = patched (pl_status payload) (en_status r);
             category = patched (pl_status_category payload) (en_status_category r);
             waitingReason = (case pl_waiting_reason payload of None \<Rightarrow> en_waiting_reason r
               | Some w \<Rightarrow> if w = Some [] then None else w)
         in if \<not> truthy status then (Inl (PlainError ''transition_entity_status.invalid_status''), db)
            else if \<not> truthy category then (Inl (PlainError ''transition_entity_status.invalid_status_category''), db)
            else if kind = ''case'' \<and> terminal_category (the category) \<and> \<not> terminal_category (en_status_category r) \<and>
              (\<exists>w\<in>set (sd_work_orders db). en_parent_ticket_id w = Some entityId \<and> en_tenant_id w = tenantId \<and>
                 \<not> terminal_category (en_status_category w))
            then (Inl (PlainError ''transition_entity_status.has_open_children''), db)
            else let prev = (en_status r, en_status_category r, en_waiting_reason r);
                     new = (the status, the category, waitingReason);
                     result = \<lparr>sr_previous = prev, sr_new = new, sr_noop = (new = prev)\<rparr>;
                     done_with = (\<lambda>db. db\<lparr>sd_commands := sd_commands db @
                       [\<lparr>co_tenant_id = tenantId, co_key = key, co_payload = payload, co_result = result\<rparr>]\<rparr>)
                 in op_then (if new = prev then op_return ()
                             else change_status env eids now kind entityId tenantId actor key r new) (\<lambda>_.
                    op_then (op_do done_with) (\<lambda>_. op_return result)) db)"

subsection \<open>The handlers of timer events\<close>

definition rpc_timer :: "(TimerType \<Rightarrow> ident) \<Rightarrow> int \<Rightarrow> ident \<Rightarrow> ident \<Rightarrow> ident \<Rightarrow> timer_draft \<Rightarrow> SlaTimerRow" where
  "rpc_timer gen started ticketId tenantId policyId d =
     \<lparr>st_id = gen (td_timer_type d), st_tenant_id = tenantId, st_ticket_id = ticketId, st_policy_id = policyId,
      st_timer_type = td_timer_type d, st_target_minutes = td_target_minutes d, st_started_at = started,
      st_due_at = td_due_at d, st_calendar_id = td_calendar_id d,
      st_paused = False, st_paused_at = None, st_total_paused_minutes = 0, st_recompute_pending = False,
      st_breached = False, st_breached_at = None, st_completed_at = None, st_stopped_at = None,
      st_stopped_reason = None, st_entity_kind = Some ''case''\<rparr>"

text \<open>\<open>ON CONFLICT DO NOTHING\<close> on the unique index skips a row; the primary keys are new.\<close>

definition insert_new_timers :: "SlaTimerRow list \<Rightarrow> sla_db \<Rightarrow> sla_db" where
  "insert_new_timers rows db =
     fold (\<lambda>r db. if \<forall>q\<in>set (sd_timers db). \<not> same_active r q then db\<lparr>sd_timers := sd_timers db @ [r]\<rparr> else db) rows db"

definition active_due :: "ident \<Rightarrow> ident \<Rightarrow> ident \<Rightarrow> TimerType \<Rightarrow> sla_db \<Rightarrow> int option" where
  "active_due ticketId tenantId policyId ty db =
     (case sort_key (\<lambda>t. - st_started_at t) (filter (\<lambda>t. timer_of ticketId tenantId t \<and> st_policy_id t = policyId \<and>
         st_timer_type t = ty \<and> active t) (sd_timers db)) of [] \<Rightarrow> None | t # _ \<Rightarrow> Some (st_due_at t))"

definition has_ticket :: "ident \<Rightarrow> ident \<Rightarrow> sla_db \<Rightarrow> bool" where
  "has_ticket ticketId tenantId db \<longleftrightarrow> (\<exists>r\<in>set (sd_tickets db). en_id r = ticketId \<and> en_tenant_id r = tenantId)"

definition start_sla_timers ::
    "(TimerType \<Rightarrow> ident) \<Rightarrow> ident \<Rightarrow> ident \<Rightarrow> ident \<Rightarrow> timer_draft list \<Rightarrow> int \<Rightarrow> (sla_db, unit) op" where
  "start_sla_timers gen tenantId ticketId policyId timers started db =
     (if timers = [] then (Inl (PlainError ''start_sla_timers.timers_required''), db)
      else if find_policy policyId tenantId db = None
      then (Inl (PlainError ''validate_entity_in_tenant.sla_policy_not_in_tenant''), db)
      else if \<not> has_ticket ticketId tenantId db then (Inl (PlainError ''start_sla_timers.ticket_not_found''), db)
      else let db1 = insert_new_timers (map (rpc_timer gen started ticketId tenantId policyId) timers) db;
               due = (\<lambda>ty. active_due ticketId tenantId policyId ty db1)
           in (Inr (), update_entity ''case'' ticketId tenantId
             (\<lambda>r. r\<lparr>en_response_due_at := nullish (due Response) (en_response_due_at r),
                     en_resolution_due_at := nullish (due Resolution) (en_resolution_due_at r)\<rparr>) db1))"

definition repoint_sla_timer ::
    "(TimerType \<Rightarrow> ident) \<Rightarrow> int \<Rightarrow> ident \<Rightarrow> ident \<Rightarrow> ident \<Rightarrow> timer_draft list \<Rightarrow> string \<Rightarrow> int \<Rightarrow> (sla_db, unit) op" where
  "repoint_sla_timer gen now tenantId ticketId policyId timers reason started db =
     (if timers = [] then (Inl (PlainError ''repoint_sla_timer.timers_required''), db)
      else if find_policy policyId tenantId db = None
      then (Inl (PlainError ''validate_entity_in_tenant.sla_policy_not_in_tenant''), db)
      else if \<not> has_ticket ticketId tenantId db then (Inl (PlainError ''repoint_sla_timer.ticket_not_found''), db)
      else if \<exists>t\<in>set (sd_timers db). timer_of ticketId tenantId t \<and> st_policy_id t = policyId \<and> active t
      then (Inr (), db)
      else let db1 = update_timers (\<lambda>t. timer_of ticketId tenantId t \<and> st_policy_id t \<noteq> policyId \<and> active t)
                 (\<lambda>t. t\<lparr>st_stopped_at := Some now, st_stopped_reason := Some reason\<rparr>) db;
               db2 = insert_new_timers (map (rpc_timer gen started ticketId tenantId policyId) timers) db1;
               due = (\<lambda>ty. active_due ticketId tenantId policyId ty db2)
           in (Inr (), update_entity ''case'' ticketId tenantId
             (\<lambda>r. r\<lparr>en_response_due_at := due Response, en_resolution_due_at := due Resolution\<rparr>) db2))"

definition handler_drafts ::
    "sla_env \<Rightarrow> int \<Rightarrow> SlaPolicy \<Rightarrow> BusinessHoursCalendar option \<Rightarrow> TimerType \<Rightarrow> timer_draft list result" where
  "handler_drafts env started p calendar ty =
     (if positive_target (target_minutes ty p) then draft_timer env started p calendar ty else Inr [])"

definition rpc_outcome :: "string \<Rightarrow> unit result \<times> sla_db \<Rightarrow> handler_outcome \<times> sla_db" where
  "rpc_outcome name r = (case r of (Inl _, db) \<Rightarrow> (HandlerDeadLetter (name @ '' terminal error''), db) | (Inr _, db) \<Rightarrow> (HandlerOk, db))"

text \<open>
  The two handlers differ in the procedure they call. Every error that the procedures of the model raise is in
  the list of terminal errors of the handlers, so it dead-letters the event.
\<close>

definition handle_timer_event ::
    "string \<Rightarrow> (ident \<Rightarrow> ident \<Rightarrow> ident \<Rightarrow> timer_draft list \<Rightarrow> int \<Rightarrow> (sla_db, unit) op) \<Rightarrow> sla_env \<Rightarrow> int \<Rightarrow> OutboxEvent \<Rightarrow>
     sla_db \<Rightarrow> handler_outcome \<times> sla_db" where
  "handle_timer_event name rpc env now event db =
     (let field = obj_get (ev_payload event); tenant = ev_tenant_id event
      in if field ''tenant_id'' \<noteq> JStr tenant then (HandlerDeadLetter (name @ ''.tenant_mismatch''), db)
         else case field ''ticket_id'' of
           JStr ticketId \<Rightarrow>
             (case find (\<lambda>r. en_id r = ticketId \<and> en_tenant_id r = tenant) (sd_tickets db) of
                None \<Rightarrow> (HandlerOk, db)
              | Some ticket \<Rightarrow>
                  if \<not> truthy (en_sla_id ticket) then (HandlerOk, db)
                  else if field ''sla_policy_id'' \<noteq> JStr (the (en_sla_id ticket)) then (HandlerOk, db)
                  else (case find_policy (the (en_sla_id ticket)) tenant db of
                     None \<Rightarrow> (HandlerDeadLetter (name @ ''.policy_not_found_in_tenant''), db)
                   | Some p \<Rightarrow>
                       let calendar = (if truthy (sp_calendar_id p)
                             then map_option ca_calendar (find (\<lambda>c. Some (ca_id c) = sp_calendar_id p \<and> ca_tenant_id c = tenant)
                               (sd_calendars db)) else None)
                       in case (if truthy_val (field ''started_at'') then sv_date env (field ''started_at'') else Some now) of
                            None \<Rightarrow> (HandlerDeadLetter (name @ ''.started_at_invalid''), db)
                          | Some started \<Rightarrow>
                              (case and_then (handler_drafts env started p calendar Response) (\<lambda>us.
                                    and_then (handler_drafts env started p calendar Resolution) (\<lambda>vs. Inr (us @ vs))) of
                                 Inl _ \<Rightarrow> (HandlerError name, db)
                               | Inr [] \<Rightarrow> (HandlerDeadLetter (name @ ''.policy_has_no_targets''), db)
                               | Inr timers \<Rightarrow> rpc_outcome name (rpc tenant ticketId (sp_id p) timers started db))))
         | _ \<Rightarrow> (HandlerError (name @ ''.ticket_read_failed''), db))"

definition handle_recompute ::
    "sla_env \<Rightarrow> (TimerType \<Rightarrow> ident) \<Rightarrow> int \<Rightarrow> OutboxEvent \<Rightarrow> sla_db \<Rightarrow> handler_outcome \<times> sla_db" where
  "handle_recompute env gen now =
     handle_timer_event ''sla_timer'' (\<lambda>tenantId ticketId policyId timers started.
       start_sla_timers gen tenantId ticketId policyId timers started) env now"

definition handle_repoint ::
    "sla_env \<Rightarrow> (TimerType \<Rightarrow> ident) \<Rightarrow> int \<Rightarrow> OutboxEvent \<Rightarrow> sla_db \<Rightarrow> handler_outcome \<times> sla_db" where
  "handle_repoint env gen now =
     handle_timer_event ''sla_timer_repoint'' (\<lambda>tenantId ticketId policyId timers started.
       repoint_sla_timer gen now tenantId ticketId policyId timers ''reclassified'' started) env now"

subsection \<open>Any sequence of operations\<close>

datatype sla_op =
    OpStart "TimerType \<Rightarrow> ident" int ident ident ident
  | OpPause int ident ident
  | OpResume int ident ident
  | OpStop int ident ident string
  | OpComplete int ident ident "TimerType option"
  | OpApply int ident ident sla_entity sla_entity
  | OpRestart "TimerType \<Rightarrow> ident" int ident ident ident_opt
  | OpTransition "ident \<times> ident" int ident string ident ident_opt string status_patch
  | OpRecompute "TimerType \<Rightarrow> ident" int OutboxEvent
  | OpRepoint "TimerType \<Rightarrow> ident" int OutboxEvent
  | OpBreaches bool int
  | OpAtRisk int

text \<open>Generated ids are new; an operation with ids that are not does not occur.\<close>

definition fresh_ids :: "(TimerType \<Rightarrow> ident) \<Rightarrow> sla_db \<Rightarrow> bool" where
  "fresh_ids gen db \<longleftrightarrow> gen Response \<noteq> gen Resolution \<and> gen Response \<notin> st_id ` set (sd_timers db) \<and>
     gen Resolution \<notin> st_id ` set (sd_timers db)"

fun run_sla :: "sla_env \<Rightarrow> sla_op \<Rightarrow> sla_db \<Rightarrow> sla_db" where
  "run_sla env (OpStart gen now i tenant policy) db =
     (if fresh_ids gen db then snd (startTimers env gen now i tenant policy db) else db)"
| "run_sla env (OpPause now i tenant) db = snd (pauseTimers now i tenant db)"
| "run_sla env (OpResume now i tenant) db = snd (resumeTimers env now i tenant db)"
| "run_sla env (OpStop now i tenant reason) db = stopTimers now i tenant reason db"
| "run_sla env (OpComplete now i tenant ty) db = completeTimers now i tenant ty db"
| "run_sla env (OpApply now i tenant before after) db = snd (applyWaitingStateTransition env now i tenant before after db)"
| "run_sla env (OpRestart gen now i tenant policy) db =
     (if fresh_ids gen db then snd (restartTimers env gen now i tenant policy db) else db)"
| "run_sla env (OpTransition eids now i kind tenant actor key payload) db =
     snd (transition_entity_status env eids now i kind tenant actor key payload db)"
| "run_sla env (OpRecompute gen now event) db =
     (if fresh_ids gen db then snd (handle_recompute env gen now event db) else db)"
| "run_sla env (OpRepoint gen now event) db =
     (if fresh_ids gen db then snd (handle_repoint env gen now event db) else db)"
| "run_sla env (OpBreaches ok now) db = mark_breaches env ok now db"
| "run_sla env (OpAtRisk now) db = mark_at_risk env now db"

definition timer_wf :: "SlaTimerRow \<Rightarrow> bool" where
  "timer_wf t \<longleftrightarrow> st_paused t = (st_paused_at t \<noteq> None) \<and> st_breached t = (st_breached_at t \<noteq> None)"

definition timers_ok :: "SlaTimerRow list \<Rightarrow> bool" where
  "timers_ok ts \<longleftrightarrow> distinct (map st_id ts) \<and> (\<forall>t\<in>set ts. timer_wf t) \<and>
     (\<forall>t\<in>set ts. \<forall>q\<in>set ts. same_active t q \<longrightarrow> t = q)"

text \<open>A step keeps the timers consistent and every completed or stopped timer as it is.\<close>

definition timers_step :: "SlaTimerRow list \<Rightarrow> SlaTimerRow list \<Rightarrow> bool" where
  "timers_step ts ts' \<longleftrightarrow> timers_ok ts' \<and> (\<forall>t\<in>set ts. \<not> active t \<longrightarrow> t \<in> set ts')"

text \<open>What the database promises of a query with a limit: rows of the result, all of them when they are few.\<close>

definition pick_law :: "sla_env \<Rightarrow> bool" where
  "pick_law env \<longleftrightarrow> (\<forall>n ts. set (sv_pick env n ts) \<subseteq> set ts \<and> (length ts \<le> n \<longrightarrow> set (sv_pick env n ts) = set ts))"

lemma timers_step_refl: "timers_ok ts \<Longrightarrow> timers_step ts ts"
  by (simp add: timers_step_def)

lemma timers_step_trans: "timers_step ts us \<Longrightarrow> timers_step us vs \<Longrightarrow> timers_step ts vs"
  by (auto simp: timers_step_def)

definition gentle :: "(SlaTimerRow \<Rightarrow> SlaTimerRow) \<Rightarrow> SlaTimerRow \<Rightarrow> bool" where
  "gentle f t \<longleftrightarrow> active t \<and> st_id (f t) = st_id t \<and> st_tenant_id (f t) = st_tenant_id t \<and> st_ticket_id (f t) = st_ticket_id t \<and>
     st_policy_id (f t) = st_policy_id t \<and> st_timer_type (f t) = st_timer_type t \<and> (timer_wf t \<longrightarrow> timer_wf (f t))"

lemma update_step:
  assumes "timers_ok ts" "\<And>t. t \<in> set ts \<Longrightarrow> P t \<Longrightarrow> gentle f t"
  shows "timers_step ts (update_where P f ts)"
proof -
  define g where "g = (\<lambda>t. if P t then f t else t)"
  have g: "st_id (g t) = st_id t" "st_tenant_id (g t) = st_tenant_id t" "st_ticket_id (g t) = st_ticket_id t"
    "st_policy_id (g t) = st_policy_id t" "st_timer_type (g t) = st_timer_type t" "timer_wf t \<longrightarrow> timer_wf (g t)"
    "\<not> active t \<longrightarrow> g t = t" if "t \<in> set ts" for t
    using assms(2) [OF that] by (simp_all add: g_def gentle_def)
  have sim: "same_active t q" if "t \<in> set ts" "q \<in> set ts" "same_active (g t) (g q)" for t q
    using that(3) g(2-5,7) [OF that(1)] g(2-5,7) [OF that(2)] by (auto simp: same_active_def)
  have set_g: "set (update_where P f ts) = g ` set ts" by (simp only: set_update_where g_def)
  have "map st_id (update_where P f ts) = map st_id ts" using g(1) by (simp add: update_where_def g_def)
  with assms(1) have "distinct (map st_id (update_where P f ts))" by (simp only: timers_ok_def)
  moreover have "\<forall>t\<in>set (update_where P f ts). timer_wf t"
    using g(6) assms(1) by (simp add: set_g timers_ok_def)
  moreover have "\<forall>t\<in>set (update_where P f ts). \<forall>q\<in>set (update_where P f ts). same_active t q \<longrightarrow> t = q"
    using sim assms(1) unfolding set_g timers_ok_def by blast
  moreover have "\<forall>t\<in>set ts. \<not> active t \<longrightarrow> t \<in> set (update_where P f ts)"
    using g(7) unfolding set_g by force
  ultimately show ?thesis by (simp add: timers_step_def timers_ok_def)
qed

lemma append_step:
  assumes "timers_ok ts" "st_id r \<notin> st_id ` set ts" "timer_wf r" "\<forall>q\<in>set ts. \<not> same_active r q"
  shows "timers_step ts (ts @ [r])"
  using assms by (auto simp: timers_step_def timers_ok_def same_active_def)

lemma update_timers_step:
  assumes "timers_ok (sd_timers db)" "\<And>t. t \<in> set (sd_timers db) \<Longrightarrow> P t \<Longrightarrow> gentle f t"
  shows "timers_step (sd_timers db) (sd_timers (update_timers P f db))"
  using update_step [OF assms] by (simp add: update_timers_def)

lemma timers_same [simp]:
  "sd_timers (snd (updateTicketOrWorkOrder i patch tenantId db)) = sd_timers db"
  "sd_timers (update_entity kind i tenantId g db) = sd_timers db"
  "sd_timers (snd (outbox_emit env eid now tenantId ty agg aid payload key db)) = sd_timers db"
  "sd_timers (flag_at_risk entry db) = sd_timers db"
  by (simp_all add: updateTicketOrWorkOrder_def update_entity_def outbox_emit_def flag_at_risk_def Let_def split: option.split)

lemma snd_op_then: "snd (op_then m f w) = (case fst (m w) of Inl _ \<Rightarrow> snd (m w) | Inr a \<Rightarrow> snd (f a (snd (m w))))"
  by (simp add: op_then_def split: prod.split sum.split)

lemma fst_op_then: "fst (op_then m f w) = (case fst (m w) of Inl e \<Rightarrow> Inl e | Inr a \<Rightarrow> fst (f a (snd (m w))))"
  by (simp add: op_then_def split: prod.split sum.split)

lemma op_simps [simp]:
  "op_return a w = (Inr a, w)" "op_of r w = (r, w)" "op_do g w = (Inr (), g w)"
  by (simp_all add: op_return_def op_of_def op_do_def)

lemma insert_timers_step:
  assumes "timers_ok (sd_timers db)" "\<forall>r\<in>set rows. timer_wf r" "insert_timers rows db = Some db'"
  shows "timers_step (sd_timers db) (sd_timers db')"
  using assms
proof (induction rows arbitrary: db)
  case Nil
  then show ?case by (simp add: timers_step_refl)
next
  case (Cons r rs)
  let ?db = "db\<lparr>sd_timers := sd_timers db @ [derive_kind db r]\<rparr>"
  from Cons.prems have ins: "insertable db (derive_kind db r)" "insert_timers rs ?db = Some db'" by (auto split: if_splits)
  have "timer_wf (derive_kind db r)" using Cons.prems(2) by (auto simp: derive_kind_def timer_wf_def split: option.split)
  with Cons.prems(1) ins(1) have first: "timers_step (sd_timers db) (sd_timers ?db)"
    by (auto simp: insertable_def intro: append_step)
  with Cons.IH [of ?db] Cons.prems(2) ins(2) show ?case
    by (auto simp: timers_step_def)
qed

lemma start_timer_timers:
  "sd_timers (snd (start_timer env gen now p cal i tenant ty ts db)) = sd_timers db"
  "fst (start_timer env gen now p cal i tenant ty ts db) = Inr us \<Longrightarrow> \<forall>t\<in>set ts. timer_wf t \<Longrightarrow> \<forall>t\<in>set us. timer_wf t"
  by (auto simp: start_timer_def snd_op_then fst_op_then new_timer_def timer_wf_def split: sum.splits if_splits)

lemma startTimers_step:
  assumes "timers_ok (sd_timers db)"
  shows "timers_step (sd_timers db) (sd_timers (snd (startTimers env gen now i tenant policy db)))"
proof (cases "find_policy policy tenant db")
  case (Some p)
  let ?cal = "loadCalendar (sp_calendar_id p) db"
  let ?m = "start_timer env gen now p ?cal i tenant"
  show ?thesis
  proof (cases "fst (?m Response [] db)")
    case (Inr us)
    let ?db = "snd (?m Response [] db)"
    have us: "\<forall>t\<in>set us. timer_wf t" using start_timer_timers(2) [OF Inr] by simp
    show ?thesis
    proof (cases "fst (?m Resolution us ?db)")
      case (Inr vs)
      let ?db' = "snd (?m Resolution us ?db)"
      have same: "sd_timers ?db' = sd_timers db" by (simp add: start_timer_timers(1))
      have "timers_step (sd_timers db) (sd_timers (case insert_timers vs ?db' of None \<Rightarrow> ?db' | Some d \<Rightarrow> d))"
        using insert_timers_step [of ?db' vs] start_timer_timers(2) [OF Inr us] assms
        by (auto simp: same timers_step_refl split: option.split)
      with Some Inr \<open>fst (?m Response [] db) = Inr us\<close> show ?thesis
        by (simp add: startTimers_def Let_def snd_op_then)
    qed (use Some Inr assms in \<open>simp add: startTimers_def Let_def snd_op_then start_timer_timers(1) timers_step_refl\<close>)
  qed (use Some assms in \<open>simp add: startTimers_def Let_def snd_op_then start_timer_timers(1) timers_step_refl\<close>)
qed (simp add: startTimers_def assms timers_step_refl)

lemma pauseTimers_step:
  "timers_ok (sd_timers db) \<Longrightarrow> timers_step (sd_timers db) (sd_timers (snd (pauseTimers now i tenant db)))"
  unfolding pauseTimers_def timers_same by (rule update_timers_step) (auto simp: gentle_def timer_wf_def)

lemma stopTimers_step:
  "timers_ok (sd_timers db) \<Longrightarrow> timers_step (sd_timers db) (sd_timers (stopTimers now i tenant reason db))"
  unfolding stopTimers_def by (rule update_timers_step) (auto simp: gentle_def timer_wf_def)

lemma completeTimers_step:
  "timers_ok (sd_timers db) \<Longrightarrow> timers_step (sd_timers db) (sd_timers (completeTimers now i tenant ty db))"
  unfolding completeTimers_def by (rule update_timers_step) (auto simp: gentle_def timer_wf_def)

lemma restartTimers_step:
  assumes "timers_ok (sd_timers db)"
  shows "timers_step (sd_timers db) (sd_timers (snd (restartTimers env gen now i tenant policy db)))"
proof -
  let ?db = "completeTimers now i tenant None db"
  note first = completeTimers_step [OF assms, of now i tenant None]
  then have ok: "timers_ok (sd_timers ?db)" by (simp add: timers_step_def)
  let ?db' = "snd (updateTicketOrWorkOrder i clear_sla tenant ?db)"
  have "timers_step (sd_timers ?db) (sd_timers (snd (restartTimers env gen now i tenant policy db)))"
    using startTimers_step [of ?db'] ok
    by (auto simp: restartTimers_def snd_op_then timers_step_refl split: sum.split)
  with first show ?thesis by (rule timers_step_trans)
qed

text \<open>The rows that a resumption writes are active.\<close>

definition active_row :: "SlaTimerRow list \<Rightarrow> SlaTimerRow \<Rightarrow> bool" where
  "active_row ts timer \<longleftrightarrow> (\<forall>t\<in>set ts. st_id t = st_id timer \<longrightarrow> active t)"

lemma resume_timer_step:
  assumes "timers_ok (sd_timers db)" "active_row (sd_timers db) timer"
  shows "timers_step (sd_timers db) (sd_timers (snd (resume_timer env now timer db)))" (is ?step)
    and "active_row (sd_timers db) t \<longrightarrow> active_row (sd_timers (snd (resume_timer env now timer db))) t" (is ?keeps)
proof -
  have "timers_step (sd_timers db) (sd_timers (update_timers (\<lambda>r. st_id r = st_id timer)
      (\<lambda>r. r\<lparr>st_paused := False, st_paused_at := None, st_total_paused_minutes := m, st_due_at := d\<rparr>) db))" for m d
    using assms by (intro update_timers_step) (auto simp: gentle_def timer_wf_def active_row_def)
  moreover have "active_row (sd_timers db) t \<longrightarrow> active_row (sd_timers (update_timers (\<lambda>r. st_id r = st_id timer)
      (\<lambda>r. r\<lparr>st_paused := False, st_paused_at := None, st_total_paused_minutes := m, st_due_at := d\<rparr>) db)) t" for m d
    by (auto simp: active_row_def update_timers_def set_update_where active_def)
  ultimately show ?step ?keeps
    using assms(1) by (simp_all add: resume_timer_def Let_def snd_op_then timers_step_refl split: sum.split)
qed

lemma resume_each_step:
  assumes "timers_ok (sd_timers db)" "\<forall>t\<in>set rows. active_row (sd_timers db) t"
  shows "timers_step (sd_timers db) (sd_timers (snd (each_op (resume_timer env now) rows db)))"
  using assms
proof (induction rows arbitrary: db)
  case (Cons r rs)
  note first = resume_timer_step [OF Cons.prems(1), where timer = r and env = env and now = now]
  from Cons.prems(2) have r: "active_row (sd_timers db) r" by simp
  let ?db = "snd (resume_timer env now r db)"
  have ok: "timers_ok (sd_timers ?db)" "\<forall>t\<in>set rs. active_row (sd_timers ?db) t"
    using first(1) [OF r] first(2) [OF r] Cons.prems(2) by (auto simp: timers_step_def)
  from timers_step_trans [OF first(1) [OF r] Cons.IH [OF ok]] first(1) [OF r]
  show ?case by (auto simp: snd_op_then split: sum.split)
qed (simp add: timers_step_refl)

lemma resumeTimers_step:
  assumes "timers_ok (sd_timers db)"
  shows "timers_step (sd_timers db) (sd_timers (snd (resumeTimers env now i tenant db)))"
proof -
  let ?rows = "filter (\<lambda>r. timer_of i tenant r \<and> st_paused r \<and> active r) (sd_timers db)"
  have "active_row (sd_timers db) r" if "r \<in> set ?rows" for r
    using that assms key_inj [of st_id "sd_timers db"] by (auto simp: active_row_def timers_ok_def)
  then have "timers_step (sd_timers db) (sd_timers (snd (each_op (resume_timer env now) ?rows db)))"
    by (intro resume_each_step [OF assms]) blast
  then show ?thesis by (simp add: resumeTimers_def snd_op_then split: sum.split)
qed

lemma apply_step:
  "timers_ok (sd_timers db) \<Longrightarrow>
     timers_step (sd_timers db) (sd_timers (snd (applyWaitingStateTransition env now i tenant before after db)))"
  by (simp add: applyWaitingStateTransition_def Let_def timers_step_refl pauseTimers_step resumeTimers_step)

lemma atomically_cases:
  "snd (atomically m w) = (case fst (m w) of Inl _ \<Rightarrow> w | Inr _ \<Rightarrow> snd (m w))" "fst (atomically m w) = fst (m w)"
  by (simp_all add: atomically_def split: prod.split sum.split)

lemma recompute_timers_step:
  "timers_ok (sd_timers db) \<Longrightarrow>
     timers_step (sd_timers db) (sd_timers (snd (recompute_timers env eid now kind i tenant key action payload db)))"
  unfolding recompute_timers_def
  by (cases action) (auto intro!: update_timers_step timers_step_refl simp: gentle_def timer_wf_def active_def)

definition keeps :: "sla_db \<Rightarrow> 'a \<times> sla_db \<Rightarrow> bool" where
  "keeps db r \<longleftrightarrow> timers_step (sd_timers db) (sd_timers (snd r))"

lemma keeps_if: "keeps db a \<Longrightarrow> keeps db b \<Longrightarrow> keeps db (if c then a else b)"
  by simp

lemma keeps_option: "keeps db a \<Longrightarrow> (\<And>x. keeps db (f x)) \<Longrightarrow> keeps db (case v of None \<Rightarrow> a | Some x \<Rightarrow> f x)"
  by (simp split: option.split)

lemma keeps_refl: "timers_ok (sd_timers db) \<Longrightarrow> keeps db (a, db)"
  by (simp add: keeps_def timers_step_refl)

lemma keeps_then:
  assumes "keeps db (m w)" "\<And>a v. sd_timers (snd (f a v)) = sd_timers v"
  shows "keeps db (op_then m f w)"
  using assms by (simp add: keeps_def snd_op_then split: sum.split)

lemma keeps_atomically: "keeps db (m db) \<Longrightarrow> timers_ok (sd_timers db) \<Longrightarrow> keeps db (atomically m db)"
  by (simp add: keeps_def atomically_cases timers_step_refl split: sum.split)

lemma same_timers_then:
  "(\<And>a v. sd_timers (snd (f a v)) = sd_timers v) \<Longrightarrow> sd_timers (snd (op_then (op_do g) f w)) = sd_timers (g w)"
  by (simp add: snd_op_then)

lemma change_status_keeps:
  assumes "timers_ok (sd_timers db)"
  shows "keeps db (change_status env eids now kind i tenant actor key r new db)"
proof -
  obtain a b c where new: "new = (a, b, c)" by (cases new)
  have "keeps db (recompute_timers env e now kind i tenant key act pay (update_entity kind i tenant g db))" for e act pay g
    using recompute_timers_step [of "update_entity kind i tenant g db"] assms by (simp add: keeps_def)
  then show ?thesis
    unfolding change_status_def new prod.case Let_def
    by (rule keeps_then) (subst same_timers_then; simp)
qed

lemma transition_keeps:
  assumes "timers_ok (sd_timers db)"
  shows "keeps db (transition_entity_status env eids now i kind tenant actor key payload db)"
proof -
  have change: "keeps db (op_then (if b then op_return () else change_status env eids now kind i tenant actor key r new)
      (\<lambda>_. op_then (op_do (\<lambda>db. db\<lparr>sd_commands := sd_commands db @ cs\<rparr>)) (\<lambda>_. op_return a)) db)" for b r new cs a
    by (rule keeps_then; cases b)
      (simp_all add: keeps_refl assms change_status_keeps snd_op_then)
  show ?thesis
    unfolding transition_entity_status_def
    by (rule keeps_atomically [OF _ assms], unfold Let_def)
      (intro keeps_if keeps_option keeps_refl assms change)
qed

lemma insert_new_timers_step:
  assumes "timers_ok (sd_timers db)" "distinct (map st_id rows)"
    "\<forall>r\<in>set rows. timer_wf r \<and> st_id r \<notin> st_id ` set (sd_timers db)"
  shows "timers_step (sd_timers db) (sd_timers (insert_new_timers rows db))"
  using assms
proof (induction rows arbitrary: db)
  case (Cons r rs)
  define db' where "db' = (if \<forall>q\<in>set (sd_timers db). \<not> same_active r q then db\<lparr>sd_timers := sd_timers db @ [r]\<rparr> else db)"
  have first: "timers_step (sd_timers db) (sd_timers db')"
    using append_step [of "sd_timers db" r] Cons.prems by (simp add: timers_step_refl db'_def)
  have ids: "st_id ` set (sd_timers db') \<subseteq> insert (st_id r) (st_id ` set (sd_timers db))" by (auto simp: db'_def)
  have "timers_step (sd_timers db') (sd_timers (insert_new_timers rs db'))"
  proof (rule Cons.IH)
    show "timers_ok (sd_timers db')" using first by (simp add: timers_step_def)
    show "distinct (map st_id rs)" using Cons.prems(2) by simp
    show "\<forall>r\<in>set rs. timer_wf r \<and> st_id r \<notin> st_id ` set (sd_timers db')"
    proof (intro ballI conjI)
      fix q assume q: "q \<in> set rs"
      with Cons.prems(3) show "timer_wf q" by simp
      from q Cons.prems(2) have "st_id q \<noteq> st_id r" by (auto intro: rev_image_eqI)
      with q Cons.prems(3) ids show "st_id q \<notin> st_id ` set (sd_timers db')" by auto
    qed
  qed
  from timers_step_trans [OF first this] show ?case by (simp add: insert_new_timers_def db'_def)
qed (simp add: insert_new_timers_def timers_step_refl)

text \<open>The timers that the handlers ask for: at most one of each kind.\<close>

definition drafts_ok :: "timer_draft list \<Rightarrow> bool" where
  "drafts_ok ds \<longleftrightarrow> distinct (map td_timer_type ds)"

lemma rpc_rows_step:
  assumes "timers_ok (sd_timers db)" "fresh_ids gen db" "drafts_ok ds"
  shows "timers_step (sd_timers db)
    (sd_timers (insert_new_timers (map (rpc_timer gen started ticketId tenantId policyId) ds) db))"
proof (rule insert_new_timers_step [OF assms(1)])
  have "inj gen" using assms(2) by (auto simp: fresh_ids_def inj_def intro: TimerType.exhaust) (metis TimerType.exhaust)
  with assms(3) show "distinct (map st_id (map (rpc_timer gen started ticketId tenantId policyId) ds))"
    by (simp add: drafts_ok_def rpc_timer_def comp_def distinct_map inj_on_def inj_def)
  show "\<forall>r\<in>set (map (rpc_timer gen started ticketId tenantId policyId) ds). timer_wf r \<and> st_id r \<notin> st_id ` set (sd_timers db)"
    using assms(2) TimerType.exhaust by (auto simp: fresh_ids_def rpc_timer_def timer_wf_def) (metis (full_types) TimerType.exhaust image_eqI)
qed

lemma start_sla_timers_step:
  assumes "timers_ok (sd_timers db)" "fresh_ids gen db" "drafts_ok ds"
  shows "timers_step (sd_timers db) (sd_timers (snd (start_sla_timers gen tenant ticketId policyId ds started db)))"
  using rpc_rows_step [OF assms] by (simp add: start_sla_timers_def Let_def timers_step_refl [OF assms(1)])

lemma repoint_sla_timer_step:
  assumes "timers_ok (sd_timers db)" "fresh_ids gen db" "drafts_ok ds"
  shows "timers_step (sd_timers db)
    (sd_timers (snd (repoint_sla_timer gen now tenant ticketId policyId ds reason started db)))"
proof -
  let ?db = "update_timers (\<lambda>t. timer_of ticketId tenant t \<and> st_policy_id t \<noteq> policyId \<and> active t)
    (\<lambda>t. t\<lparr>st_stopped_at := Some now, st_stopped_reason := Some reason\<rparr>) db"
  have first: "timers_step (sd_timers db) (sd_timers ?db)"
    by (rule update_timers_step [OF assms(1)]) (simp add: gentle_def timer_wf_def)
  have "map st_id (sd_timers ?db) = map st_id (sd_timers db)" by (simp add: update_timers_def)
  then have "st_id ` set (sd_timers ?db) = st_id ` set (sd_timers db)" by (metis image_set)
  then have "fresh_ids gen ?db" using assms(2) by (simp add: fresh_ids_def)
  with first assms(3) have "timers_step (sd_timers ?db)
      (sd_timers (insert_new_timers (map (rpc_timer gen started ticketId tenant policyId) ds) ?db))"
    by (intro rpc_rows_step) (simp_all add: timers_step_def)
  with first have "timers_step (sd_timers db)
      (sd_timers (insert_new_timers (map (rpc_timer gen started ticketId tenant policyId) ds) ?db))"
    by (rule timers_step_trans)
  then show ?thesis by (simp add: repoint_sla_timer_def Let_def timers_step_refl [OF assms(1)])
qed

lemma handler_drafts_ok:
  assumes "handler_drafts env started p cal Response = Inr us" "handler_drafts env started p cal Resolution = Inr vs"
  shows "drafts_ok (us @ vs)"
proof -
  have "set (map td_timer_type ds) \<subseteq> {ty}" "length ds \<le> 1" if "handler_drafts env started p cal ty = Inr ds" for ty ds
    using that by (auto simp: handler_drafts_def draft_timer_def and_then_Inr_iff split: if_splits)
  from this [OF assms(1)] this [OF assms(2)] show ?thesis
    by (cases us; cases vs) (auto simp: drafts_ok_def)
qed

definition timer_rpc :: "(ident \<Rightarrow> ident \<Rightarrow> ident \<Rightarrow> timer_draft list \<Rightarrow> int \<Rightarrow> (sla_db, unit) op) \<Rightarrow> sla_db \<Rightarrow> bool" where
  "timer_rpc rpc db \<longleftrightarrow> (\<forall>tenant ticketId policyId ds started. drafts_ok ds \<longrightarrow>
     timers_step (sd_timers db) (sd_timers (snd (rpc tenant ticketId policyId ds started db))))"

lemma rpc_outcome_db: "snd (rpc_outcome name r) = snd r"
  by (simp add: rpc_outcome_def split: prod.split sum.split)

lemma handle_timer_event_step:
  assumes "timers_ok (sd_timers db)" "timer_rpc rpc db"
  shows "keeps db (handle_timer_event name rpc env now event db)"
proof -
  have rpc: "keeps db (rpc_outcome name (rpc tenant ticketId policyId ds started db))" if "drafts_ok ds"
    for tenant ticketId policyId ds started
    using assms(2) that by (simp add: keeps_def rpc_outcome_db timer_rpc_def)
  have "keeps db (case and_then (handler_drafts env started p cal Response) (\<lambda>us.
          and_then (handler_drafts env started p cal Resolution) (\<lambda>vs. Inr (us @ vs))) of
       Inl _ \<Rightarrow> (HandlerError name, db)
     | Inr [] \<Rightarrow> (HandlerDeadLetter x, db)
     | Inr timers \<Rightarrow> rpc_outcome name (rpc tenant ticketId policyId timers started db))" for started p cal x tenant ticketId policyId
  proof (cases "handler_drafts env started p cal Response"; cases "handler_drafts env started p cal Resolution")
    fix us vs
    assume "handler_drafts env started p cal Response = Inr us" "handler_drafts env started p cal Resolution = Inr vs"
    with rpc [OF handler_drafts_ok [OF this]] show ?thesis
      by (cases "us @ vs") (simp_all add: keeps_refl [OF assms(1)])
  qed (simp_all add: keeps_refl [OF assms(1)])
  note calls = this
  show ?thesis
    unfolding handle_timer_event_def Let_def
    by (rule keeps_if [OF keeps_refl [OF assms(1)]])
      (cases "obj_get (ev_payload event) ''ticket_id''"; simp only: jsval.case;
        intro keeps_if keeps_option keeps_refl [OF assms(1)] calls)
qed

lemma handlers_step:
  assumes "timers_ok (sd_timers db)" "fresh_ids gen db"
  shows "timers_step (sd_timers db) (sd_timers (snd (handle_recompute env gen now event db)))"
    "timers_step (sd_timers db) (sd_timers (snd (handle_repoint env gen now event db)))"
proof -
  have "timer_rpc (\<lambda>tenant ticketId policyId ds started. start_sla_timers gen tenant ticketId policyId ds started) db"
    "timer_rpc (\<lambda>tenant ticketId policyId ds started. repoint_sla_timer gen now tenant ticketId policyId ds ''reclassified'' started) db"
    using start_sla_timers_step [OF assms] repoint_sla_timer_step [OF assms] by (simp_all add: timer_rpc_def)
  from handle_timer_event_step [OF assms(1) this(1)] handle_timer_event_step [OF assms(1) this(2)]
  show "timers_step (sd_timers db) (sd_timers (snd (handle_recompute env gen now event db)))"
    "timers_step (sd_timers db) (sd_timers (snd (handle_repoint env gen now event db)))"
    by (simp_all only: keeps_def handle_recompute_def handle_repoint_def)
qed

lemma overdue_watched:
  assumes "pick_law env" "t \<in> set (overdue env now db)"
  shows "t \<in> set (sd_timers db)" "watched t" "st_due_at t < now"
proof -
  from assms have "t \<in> set (filter (\<lambda>t. watched t \<and> st_due_at t < now) (sd_timers db))"
    unfolding overdue_def pick_law_def by blast
  then show "t \<in> set (sd_timers db)" "watched t" "st_due_at t < now" by simp_all
qed

lemma sd_timers_batch:
  "sd_timers (mark_sla_breached_batch ids now db) = (if ids = [] then sd_timers db
     else update_where (\<lambda>t. st_id t \<in> set ids \<and> \<not> st_breached t)
       (\<lambda>t. t\<lparr>st_breached := True, st_breached_at := Some now\<rparr>) (sd_timers db))"
  by (simp add: mark_sla_breached_batch_def update_timers_def Let_def)

lemma mark_breaches_step:
  assumes "timers_ok (sd_timers db)" "pick_law env"
  shows "timers_step (sd_timers db) (sd_timers (mark_breaches env ok now db))"
proof -
  have "active t" if "t \<in> set (sd_timers db)" "st_id t \<in> set (map st_id (overdue env now db))" for t
  proof -
    from that(2) obtain u where u: "u \<in> set (overdue env now db)" "st_id t = st_id u" by auto
    note w = overdue_watched [OF assms(2) u(1)]
    from assms(1) have "distinct (map st_id (sd_timers db))" by (simp add: timers_ok_def)
    from key_inj [OF this that(1) w(1) u(2)] w(2) show ?thesis by (simp add: watched_def)
  qed
  then have "timers_step (sd_timers db) (sd_timers (mark_sla_breached_batch (map st_id (overdue env now db)) now db))"
    using assms(1) by (auto simp: sd_timers_batch timers_step_refl gentle_def timer_wf_def intro!: update_step)
  then show ?thesis using assms(1) by (simp add: mark_breaches_def breach_batch_def timers_step_refl)
qed

lemma mark_at_risk_timers: "sd_timers (mark_at_risk env now db) = sd_timers db"
proof -
  have "sd_timers (fold flag_at_risk xs d) = sd_timers d" for xs d by (induction xs arbitrary: d) simp_all
  then show ?thesis by (simp add: mark_at_risk_def)
qed

lemma run_sla_step:
  assumes "timers_ok (sd_timers db)" "pick_law env"
  shows "timers_step (sd_timers db) (sd_timers (run_sla env x db))"
  using assms
  by (cases x) (simp_all add: timers_step_refl startTimers_step pauseTimers_step resumeTimers_step stopTimers_step
      completeTimers_step apply_step restartTimers_step transition_keeps [unfolded keeps_def] handlers_step
      mark_breaches_step mark_at_risk_timers)

text \<open>The services are a client of the database in the sense of the two interfaces of \<open>Db_Tx\<close>.\<close>

definition sla_rel :: "sla_db \<Rightarrow> sla_db \<Rightarrow> bool" where
  "sla_rel db db' \<longleftrightarrow> (timers_ok (sd_timers db) \<longrightarrow> timers_step (sd_timers db) (sd_timers db'))"

text \<open>An environment whose choice does not keep the promise of the database does not occur.\<close>

definition run_lawful :: "sla_env \<Rightarrow> sla_op \<Rightarrow> sla_db \<Rightarrow> sla_db" where
  "run_lawful env x db = (if pick_law env then run_sla env x db else db)"

interpretation sla: op_invariant "run_lawful env" "\<lambda>db. timers_ok (sd_timers db)" for env
  by unfold_locales (use run_sla_step in \<open>auto simp: run_lawful_def timers_step_def\<close>)

interpretation sla_evolves: op_evolution "run_lawful env" sla_rel for env
proof
  show "sla_rel w w" for w by (simp add: sla_rel_def timers_step_refl)
  show "sla_rel u v \<Longrightarrow> sla_rel v w \<Longrightarrow> sla_rel u w" for u v w
    by (auto simp: sla_rel_def timers_step_def)
  show "sla_rel w (run_lawful env x w)" for w x
    using run_sla_step by (auto simp: sla_rel_def run_lawful_def timers_step_refl)
qed

lemma run_lawful_eq: "pick_law env \<Longrightarrow> run_lawful env = run_sla env"
  by (simp add: run_lawful_def fun_eq_iff)

subsection \<open>Pausing and resuming\<close>

text \<open>What a resumption makes of a paused timer: the pause in business minutes, added to the total and to the due date.\<close>

definition pause_of :: "sla_env \<Rightarrow> sla_db \<Rightarrow> int \<Rightarrow> int \<Rightarrow> SlaTimerRow \<Rightarrow> int \<Rightarrow> int \<Rightarrow> bool" where
  "pause_of env db from now t minutes due \<longleftrightarrow>
     businessMinutesBetween (sv_zones env) (loadCalendar (st_calendar_id t) db) from now = Inr minutes \<and> 0 \<le> minutes \<and>
     (if 0 < minutes then addBusinessMinutes (sv_zones env) (loadCalendar (st_calendar_id t) db) (st_due_at t) minutes = Inr due
      else due = st_due_at t)"

definition shifted :: "SlaTimerRow \<Rightarrow> int \<Rightarrow> int \<Rightarrow> SlaTimerRow" where
  "shifted t minutes due = t\<lparr>st_paused := False, st_paused_at := None,
     st_total_paused_minutes := st_total_paused_minutes t + minutes, st_due_at := due\<rparr>"

definition calendars_lawful :: "sla_env \<Rightarrow> sla_db \<Rightarrow> bool" where
  "calendars_lawful env db \<longleftrightarrow> (\<forall>c\<in>set (sd_calendars db). lawful (sv_zones env) (ca_calendar c))"

lemma loaded_lawful:
  "calendars_lawful env db \<Longrightarrow> loadCalendar i db = Some c \<Longrightarrow> lawful (sv_zones env) c"
  by (auto simp: calendars_lawful_def loadCalendar_def find_Some_iff split: if_splits)

lemma loadCalendar_timers [simp]: "loadCalendar i (db\<lparr>sd_timers := ts\<rparr>) = loadCalendar i db"
  by (simp add: loadCalendar_def)

lemma id_shifted [simp]: "st_id (shifted t m d) = st_id t"
  by (simp add: shifted_def)

lemma resume_timer_returns:
  assumes "calendars_lawful env db" "distinct (map st_id (sd_timers db))" "t \<in> set (sd_timers db)" "st_paused_at t = Some from"
  obtains minutes due where "pause_of env db from now t minutes due"
    "resume_timer env now t db = (Inr (), db\<lparr>sd_timers := update_where (\<lambda>r. st_id r = st_id t)
       (\<lambda>r. shifted t minutes due) (sd_timers db)\<rparr>)"
proof -
  let ?cal = "loadCalendar (st_calendar_id t) db"
  obtain m where m: "businessMinutesBetween (sv_zones env) ?cal from now = Inr m" "0 \<le> m"
    using businessMinutesBetween_returns loaded_lawful [OF assms(1)] by blast
  obtain d where d: "addBusinessMinutes (sv_zones env) ?cal (st_due_at t) m = Inr d"
    using addBusinessMinutes_returns loaded_lawful [OF assms(1)] by blast
  define due where "due = (if 0 < m then d else st_due_at t)"
  have add: "(if 0 < m then addBusinessMinutes (sv_zones env) ?cal (st_due_at t) m else Inr (st_due_at t)) = Inr due"
    using d by (simp add: due_def)
  have p: "pause_of env db from now t m due" using m d by (simp add: pause_of_def due_def)
  have "r\<lparr>st_paused := False, st_paused_at := None, st_total_paused_minutes := st_total_paused_minutes t + m,
      st_due_at := due\<rparr> = shifted t m due" if "r \<in> set (sd_timers db)" "st_id r = st_id t" for r
    using key_inj [OF assms(2) that(1) assms(3) that(2)] by (cases t) (simp add: shifted_def)
  then have "update_timers (\<lambda>r. st_id r = st_id t) (\<lambda>r. r\<lparr>st_paused := False, st_paused_at := None,
        st_total_paused_minutes := st_total_paused_minutes t + m, st_due_at := due\<rparr>) db =
      db\<lparr>sd_timers := update_where (\<lambda>r. st_id r = st_id t) (\<lambda>r. shifted t m due) (sd_timers db)\<rparr>"
    by (simp add: update_timers_def update_where_def)
  then have "resume_timer env now t db = (Inr (), db\<lparr>sd_timers := update_where (\<lambda>r. st_id r = st_id t)
      (\<lambda>r. shifted t m due) (sd_timers db)\<rparr>)"
    using m(1) add assms(4) by (simp add: resume_timer_def op_then_def)
  with p show ?thesis by (rule that)
qed

lemma resume_each_returns:
  assumes "calendars_lawful env db" "distinct (map st_id (sd_timers db))" "distinct (map st_id rows)"
    "set rows \<subseteq> set (sd_timers db)" "\<forall>t\<in>set rows. st_paused_at t \<noteq> None"
  shows "\<exists>ts. each_op (resume_timer env now) rows db = (Inr (), db\<lparr>sd_timers := ts\<rparr>) \<and>
    map st_id ts = map st_id (sd_timers db) \<and>
    (\<forall>t\<in>set (sd_timers db). st_id t \<notin> st_id ` set rows \<longrightarrow> t \<in> set ts) \<and>
    (\<forall>t\<in>set rows. \<exists>m d. pause_of env db (the (st_paused_at t)) now t m d \<and> shifted t m d \<in> set ts)"
  using assms
proof (induction rows arbitrary: db)
  case Nil
  show ?case by (rule exI [of _ "sd_timers db"]) simp
next
  case (Cons r rs)
  from Cons.prems(4,5) obtain "from" where r: "r \<in> set (sd_timers db)" "st_paused_at r = Some from" by auto
  obtain m d where p: "pause_of env db from now r m d" and
    run: "resume_timer env now r db = (Inr (), db\<lparr>sd_timers := update_where (\<lambda>q. st_id q = st_id r)
       (\<lambda>q. shifted r m d) (sd_timers db)\<rparr>)"
    by (rule resume_timer_returns [OF Cons.prems(1,2) r])
  let ?ts = "update_where (\<lambda>q. st_id q = st_id r) (\<lambda>q. shifted r m d) (sd_timers db)"
  let ?db = "db\<lparr>sd_timers := ?ts\<rparr>"
  have ids: "map st_id ?ts = map st_id (sd_timers db)" by (simp add: update_where_def shifted_def)
  have other: "t \<in> set ?ts" if "t \<in> set (sd_timers db)" "st_id t \<noteq> st_id r" for t
    using that by (force simp: set_update_where)
  have new: "shifted r m d \<in> set ?ts" using r(1) by (force simp: set_update_where)
  have rs: "st_id t \<noteq> st_id r" if "t \<in> set rs" for t using Cons.prems(3) that by (auto intro: rev_image_eqI)
  have same: "pause_of env ?db = pause_of env db" by (simp add: pause_of_def fun_eq_iff)
  have "\<exists>ts. each_op (resume_timer env now) rs ?db = (Inr (), ?db\<lparr>sd_timers := ts\<rparr>) \<and>
    map st_id ts = map st_id (sd_timers ?db) \<and>
    (\<forall>t\<in>set (sd_timers ?db). st_id t \<notin> st_id ` set rs \<longrightarrow> t \<in> set ts) \<and>
    (\<forall>t\<in>set rs. \<exists>m d. pause_of env ?db (the (st_paused_at t)) now t m d \<and> shifted t m d \<in> set ts)"
    using Cons.prems other rs by (intro Cons.IH) (auto simp: calendars_lawful_def ids simp del: map_map)
  then obtain ts where ts: "each_op (resume_timer env now) rs ?db = (Inr (), db\<lparr>sd_timers := ts\<rparr>)"
    "map st_id ts = map st_id ?ts" "\<forall>t\<in>set ?ts. st_id t \<notin> st_id ` set rs \<longrightarrow> t \<in> set ts"
    "\<forall>t\<in>set rs. \<exists>m d. pause_of env db (the (st_paused_at t)) now t m d \<and> shifted t m d \<in> set ts"
    unfolding same by auto
  have "st_id (shifted r m d) \<notin> st_id ` set rs" using rs by (metis imageE id_shifted)
  with ts(3) new have "shifted r m d \<in> set ts" by blast
  moreover have "each_op (resume_timer env now) (r # rs) db = (Inr (), db\<lparr>sd_timers := ts\<rparr>)"
    using run ts(1) by (simp add: op_then_def)
  ultimately show ?case using ts ids p r(2) other by fastforce
qed

definition known_entity :: "ident \<Rightarrow> ident \<Rightarrow> sla_db \<Rightarrow> bool" where
  "known_entity i tenant db \<longleftrightarrow> (\<exists>r\<in>set (sd_tickets db) \<union> set (sd_work_orders db). entity_hit i tenant r)"

lemma updateTicketOrWorkOrder_ok:
  assumes "known_entity i tenant db"
  shows "fst (updateTicketOrWorkOrder i patch tenant db) = Inr ()"
  using assms by (auto simp: updateTicketOrWorkOrder_def known_entity_def)

lemma known_entity_patch:
  assumes "known_entity i tenant db" "\<And>r. entity_hit i tenant (patch r) = entity_hit i tenant r"
  shows "known_entity i tenant (snd (updateTicketOrWorkOrder i patch tenant db))"
  using assms by (auto simp: updateTicketOrWorkOrder_def known_entity_def set_update_where)

lemma sd_calendars_update [simp]: "sd_calendars (snd (updateTicketOrWorkOrder i patch tenant db)) = sd_calendars db"
  by (simp add: updateTicketOrWorkOrder_def)

lemma pause_then_resume:
  assumes "timers_ok (sd_timers db)" "calendars_lawful env db" "known_entity i tenant db"
    "t \<in> set (sd_timers db)" "timer_of i tenant t" "active t" "\<not> st_paused t"
  shows "\<exists>m d. pause_of env db t0 t1 t m d \<and>
    fst (resumeTimers env t1 i tenant (snd (pauseTimers t0 i tenant db))) = Inr () \<and>
    shifted t m d \<in> set (sd_timers (snd (resumeTimers env t1 i tenant (snd (pauseTimers t0 i tenant db)))))"
proof -
  define f :: "SlaTimerRow \<Rightarrow> SlaTimerRow" where "f = (\<lambda>r. r\<lparr>st_paused := True, st_paused_at := Some t0\<rparr>)"
  define P where "P = (\<lambda>r. timer_of i tenant r \<and> \<not> st_paused r \<and> active r)"
  define db1 where "db1 = snd (pauseTimers t0 i tenant db)"
  define rows where "rows = filter (\<lambda>r. timer_of i tenant r \<and> st_paused r \<and> active r) (sd_timers db1)"
  have ok: "timers_ok (sd_timers db1)" using pauseTimers_step [OF assms(1)] by (simp add: timers_step_def db1_def)
  have timers: "sd_timers db1 = update_where P f (sd_timers db)"
    by (simp add: db1_def pauseTimers_def update_timers_def P_def f_def)
  have cal: "sd_calendars db1 = sd_calendars db" by (simp add: db1_def pauseTimers_def update_timers_def)
  have known: "known_entity i tenant db1"
    unfolding db1_def pauseTimers_def
    by (rule known_entity_patch) (use assms(3) in \<open>simp_all add: known_entity_def update_timers_def entity_hit_def\<close>)
  have "\<exists>ts. each_op (resume_timer env t1) rows db1 = (Inr (), db1\<lparr>sd_timers := ts\<rparr>) \<and>
    map st_id ts = map st_id (sd_timers db1) \<and>
    (\<forall>t\<in>set (sd_timers db1). st_id t \<notin> st_id ` set rows \<longrightarrow> t \<in> set ts) \<and>
    (\<forall>t\<in>set rows. \<exists>m d. pause_of env db1 (the (st_paused_at t)) t1 t m d \<and> shifted t m d \<in> set ts)"
  proof (rule resume_each_returns)
    show "calendars_lawful env db1" using assms(2) by (simp add: calendars_lawful_def cal)
    show "distinct (map st_id (sd_timers db1))" using ok by (simp add: timers_ok_def)
    then show "distinct (map st_id rows)" unfolding rows_def by (simp add: distinct_map_filter)
    show "set rows \<subseteq> set (sd_timers db1)" by (simp add: rows_def)
    show "\<forall>t\<in>set rows. st_paused_at t \<noteq> None" using ok by (auto simp: rows_def timers_ok_def timer_wf_def)
  qed
  then obtain ts where ts: "each_op (resume_timer env t1) rows db1 = (Inr (), db1\<lparr>sd_timers := ts\<rparr>)"
    "\<forall>t\<in>set rows. \<exists>m d. pause_of env db1 (the (st_paused_at t)) t1 t m d \<and> shifted t m d \<in> set ts" by blast
  have "f t \<in> set rows"
    using assms(4-7) by (force simp: rows_def timers set_update_where P_def f_def timer_of_def active_def)
  with ts(2) obtain m d where md: "pause_of env db1 t0 t1 (f t) m d" "shifted (f t) m d \<in> set ts"
    by (force simp: f_def)
  have load: "loadCalendar x db1 = loadCalendar x db" for x by (simp add: loadCalendar_def cal)
  have "pause_of env db t0 t1 t m d" using md(1) by (cases "0 < m") (simp_all add: pause_of_def f_def load)
  moreover have "shifted t m d \<in> set ts" using md(2) by (simp add: f_def shifted_def)
  moreover have "known_entity i tenant (db1\<lparr>sd_timers := ts\<rparr>)" using known by (simp add: known_entity_def)
  ultimately show ?thesis
    using ts(1) by (fold db1_def) (auto simp: resumeTimers_def op_then_def rows_def updateTicketOrWorkOrder_ok)
qed

subsection \<open>Changes of status do not reach the timers\<close>

definition unpend :: "SlaTimerRow \<Rightarrow> SlaTimerRow" where
  "unpend t = t\<lparr>st_recompute_pending := False\<rparr>"

text \<open>What a status change appends to the outbox: no timer event names its tenant.\<close>

definition nameless :: "OutboxEvent \<Rightarrow> bool" where
  "nameless e \<longleftrightarrow> (ev_event_type e = ''sla.timer_recompute_required'' \<longrightarrow> obj_get (ev_payload e) ''tenant_id'' = JUndef)"

definition sla_quiet :: "sla_db \<Rightarrow> 'a \<times> sla_db \<Rightarrow> bool" where
  "sla_quiet db r \<longleftrightarrow> map unpend (sd_timers (snd r)) = map unpend (sd_timers db) \<and>
     (\<forall>e\<in>set (sd_outbox (snd r)). e \<in> set (sd_outbox db) \<or> nameless e)"

lemma sla_quiet_refl: "sla_quiet db (a, db)"
  by (simp add: sla_quiet_def)

lemma sla_quiet_trans: "sla_quiet db (a, v) \<Longrightarrow> sla_quiet v r \<Longrightarrow> sla_quiet db r"
  by (auto simp: sla_quiet_def)

lemma sla_quiet_then:
  assumes "sla_quiet db (m w)" "\<And>a v. sla_quiet v (f a v)"
  shows "sla_quiet db (op_then m f w)"
proof (cases "m w")
  case (Pair r v)
  with assms(1) assms(2) [of v] show ?thesis
    by (cases r) (auto simp: op_then_def sla_quiet_def)
qed

lemma sla_quiet_emit: "ty \<noteq> ''sla.timer_recompute_required'' \<or> obj_get payload ''tenant_id'' = JUndef \<Longrightarrow>
    sla_quiet db (outbox_emit env eid now tenant ty agg aid payload key db)"
  by (auto simp: outbox_emit_def sla_quiet_def nameless_def Let_def split: option.split)

lemma sla_quiet_recompute:
  "sla_quiet db (recompute_timers env eid now kind i tenant key action (recompute_payload i kind a w s s' c) db)"
proof -
  have "map unpend (sd_timers (update_timers P (\<lambda>t. t\<lparr>st_recompute_pending := True\<rparr>) db)) = map unpend (sd_timers db)" for P
    by (simp add: update_timers_def update_where_def unpend_def)
  then have "sla_quiet db ((), update_timers P (\<lambda>t. t\<lparr>st_recompute_pending := True\<rparr>) db)" for P
    by (simp add: sla_quiet_def update_timers_def)
  from sla_quiet_trans [OF this sla_quiet_emit] show ?thesis
    by (simp add: recompute_timers_def sla_quiet_refl recompute_payload_def split: option.split)
qed

lemma sla_quiet_change_status: "sla_quiet db (change_status env eids now kind i tenant actor key r new db)"
proof -
  obtain a b c where new: "new = (a, b, c)" by (cases new)
  have upd: "sla_quiet db ((), update_entity kind i tenant g db)" for g
    by (simp add: sla_quiet_def update_entity_def Let_def)
  note first = sla_quiet_trans [OF upd sla_quiet_recompute]
  show ?thesis
    unfolding change_status_def new prod.case Let_def
    by (rule sla_quiet_then, rule first, rule sla_quiet_then, simp add: sla_quiet_def, rule sla_quiet_emit) (cases "kind = ''case''"; simp)
qed

lemma sla_quiet_transition: "sla_quiet db (transition_entity_status env eids now i kind tenant actor key payload db)"
proof -
  have at: "sla_quiet db (atomically m db)" if "sla_quiet db (m db)" for m :: "(sla_db, status_result) op"
    using that by (simp add: sla_quiet_def atomically_cases split: sum.split)
  have change: "sla_quiet db (op_then (if b then op_return () else change_status env eids now kind i tenant actor key r new)
      (\<lambda>_. op_then (op_do (\<lambda>db. db\<lparr>sd_commands := sd_commands db @ cs\<rparr>)) (\<lambda>_. op_return a)) db)" for b r new cs a
    by (rule sla_quiet_then; cases b) (simp_all add: sla_quiet_refl sla_quiet_change_status op_then_def, simp_all add: sla_quiet_def)
  have ifs: "sla_quiet db x \<Longrightarrow> sla_quiet db y \<Longrightarrow> sla_quiet db (if c then x else y)" for x y :: "status_result result \<times> sla_db" and c
    by simp
  have opts: "sla_quiet db x \<Longrightarrow> (\<And>z. sla_quiet db (g z)) \<Longrightarrow> sla_quiet db (case v of None \<Rightarrow> x | Some z \<Rightarrow> g z)"
    for x :: "status_result result \<times> sla_db" and g :: "sla_entity \<Rightarrow> _" and v by (simp split: option.split)
  have opts': "sla_quiet db x \<Longrightarrow> (\<And>z. sla_quiet db (g z)) \<Longrightarrow> sla_quiet db (case v of None \<Rightarrow> x | Some z \<Rightarrow> g z)"
    for x :: "status_result result \<times> sla_db" and g :: "(status_patch, status_result) command_row \<Rightarrow> _" and v by (simp split: option.split)
  show ?thesis
    unfolding transition_entity_status_def
    by (rule at, unfold Let_def) (intro ifs opts opts' sla_quiet_refl change)
qed

lemma handle_nameless:
  assumes "nameless e" "ev_event_type e = ''sla.timer_recompute_required''"
  shows "handle_recompute env gen now e db = (HandlerDeadLetter ''sla_timer.tenant_mismatch'', db)"
  using assms by (simp add: handle_recompute_def handle_timer_event_def nameless_def)

lemma mark_breaches_marks:
  assumes "pick_law env" "t \<in> set (sd_timers db)" "watched t" "st_due_at t < now"
    "length (filter (\<lambda>t. watched t \<and> st_due_at t < now) (sd_timers db)) \<le> 100"
  shows "t\<lparr>st_breached := True, st_breached_at := Some now\<rparr> \<in> set (sd_timers (mark_breaches env True now db))"
proof -
  let ?due = "filter (\<lambda>t. watched t \<and> st_due_at t < now) (sd_timers db)"
  have "set (overdue env now db) = set ?due" using assms(1,5) unfolding overdue_def pick_law_def by blast
  with assms(2-4) have t: "t \<in> set (overdue env now db)" by simp
  then have "overdue env now db \<noteq> []" "st_id t \<in> set (map st_id (overdue env now db))" by auto
  with t assms(2,3) show ?thesis
    by (force simp: mark_breaches_def breach_batch_def sd_timers_batch set_update_where watched_def)
qed

text \<open>
  The procedure filters on \<open>breached = false\<close> only. A timer that the select found and that was completed or stopped
  before the procedure ran is marked breached by it, and its breach event is written.
\<close>

lemma stale_batch_marks:
  assumes "u \<in> set found" "t \<in> set (sd_timers db)" "st_id t = st_id u" "\<not> st_breached t"
  shows "t\<lparr>st_breached := True, st_breached_at := Some now\<rparr> \<in> set (sd_timers (breach_batch True now found db))"
  using assms by (force simp: breach_batch_def sd_timers_batch set_update_where)

lemma stale_batch_marks_completed:
  assumes "t \<in> set (overdue env now db)" "t' \<in> set (sd_timers db')" "st_id t' = st_id t" "\<not> st_breached t'" "\<not> active t'"
  shows "\<exists>q\<in>set (sd_timers (breach_batch True now (overdue env now db) db')). st_id q = st_id t \<and> \<not> active q \<and> st_breached q"
  by (rule bexI [OF _ stale_batch_marks [OF assms(1-4)]]) (use assms(3,5) in \<open>simp add: active_def\<close>)

subsection \<open>An example\<close>

definition ex_sla_env :: sla_env where
  "ex_sla_env = \<lparr>sv_zones = \<lambda>_. utc_zone, sv_date = \<lambda>_. None, sv_md5 = \<lambda>_. [], sv_pick = take\<rparr>"

definition ex_timer :: SlaTimerRow where
  "ex_timer = \<lparr>st_id = ''timer'', st_tenant_id = ''t1'', st_ticket_id = ''case'', st_policy_id = ''gold'', st_timer_type = Resolution,
     st_target_minutes = 100, st_started_at = ex_friday, st_due_at = ex_friday + 6000000, st_calendar_id = Some ''cal'',
     st_paused = False, st_paused_at = None, st_total_paused_minutes = 0, st_recompute_pending = False,
     st_breached = False, st_breached_at = None, st_completed_at = None, st_stopped_at = None,
     st_stopped_reason = None, st_entity_kind = Some ''case''\<rparr>"

definition ex_case :: sla_entity where
  "ex_case = \<lparr>en_id = ''case'', en_tenant_id = ''t1'', en_title = ''Broken chair'', en_status = ''assigned'',
     en_status_category = ''assigned'', en_waiting_reason = None, en_resolved_at = None, en_closed_at = None,
     en_parent_ticket_id = None, en_sla_id = Some ''gold'', en_assigned_user_id = Some ''u1'', en_assigned_team_id = None,
     en_requester_person_id = Some ''p1'', en_watchers = None, en_sla_paused = False, en_sla_paused_at = None,
     en_response_due_at = None, en_resolution_due_at = Some (ex_friday + 6000000), en_response_breached_at = None,
     en_resolution_breached_at = None, en_at_risk = False\<rparr>"

definition ex_policy :: SlaPolicy where
  "ex_policy = \<lparr>sp_id = ''gold'', sp_tenant_id = ''t1'', sp_name = ''Gold'', sp_response_time_minutes = None,
     sp_resolution_time_minutes = Some 100, sp_calendar_id = Some ''cal'',
     sp_pause_on_waiting_reasons = Some [''requester''],
     sp_escalation_thresholds = Some
       [\<lparr>th_at_percent = 80, th_timer_type = BothTimers, th_action = Notify, th_target_type = TargetUser, th_target_id = Some ''p2''\<rparr>,
        \<lparr>th_at_percent = 120, th_timer_type = OneTimer Resolution, th_action = Escalate, th_target_type = TargetTeam,
         th_target_id = Some ''team''\<rparr>]\<rparr>"

definition ex_sla_db :: sla_db where
  "ex_sla_db = \<lparr>sd_timers = [ex_timer], sd_tickets = [ex_case], sd_work_orders = [], sd_policies = [ex_policy],
     sd_calendars = [\<lparr>ca_id = ''cal'', ca_tenant_id = ''t1'', ca_calendar = ex_calendar\<rparr>],
     sd_users = [], sd_persons = [], sd_teams = [], sd_events = [], sd_activities = [], sd_crossings = [],
     sd_commands = [], sd_outbox = []\<rparr>"

lemma ex_pick_law: "pick_law ex_sla_env"
  by (auto simp: pick_law_def ex_sla_env_def dest: in_set_takeD)

lemma ex_timers_ok: "timers_ok (sd_timers ex_sla_db)"
  by (simp add: timers_ok_def timer_wf_def ex_sla_db_def ex_timer_def same_active_def)

lemma ex_calendars_lawful: "calendars_lawful ex_sla_env ex_sla_db"
proof -
  have "hours_ok ex_calendar" by code_simp
  then show ?thesis
    by (simp add: calendars_lawful_def ex_sla_db_def ex_sla_env_def lawful_def zone_of_def utc.zone_laws_axioms)
qed

definition ex_wait_patch :: status_patch where
  "ex_wait_patch = \<lparr>pl_status = Some (Some ''waiting''), pl_status_category = Some (Some ''waiting''),
     pl_waiting_reason = Some (Some ''requester'')\<rparr>"

definition ex_sla_waiting :: "status_result result \<times> sla_db" where
  "ex_sla_waiting = transition_entity_status ex_sla_env (''e1'', ''e2'') ex_friday ''case'' ''case'' ''t1'' None ''key'' ex_wait_patch ex_sla_db"

lemma ex_sla_waiting_events:
  "fst ex_sla_waiting = Inr \<lparr>sr_previous = (''assigned'', ''assigned'', None), sr_new = (''waiting'', ''waiting'', Some ''requester''),
     sr_noop = False\<rparr>"
  "map ev_event_type (sd_outbox (snd ex_sla_waiting)) = [''sla.timer_recompute_required'', ''ticket_status_changed'']"
  by code_simp+

subsection \<open>Properties\<close>

text \<open>
  C3. Over any sequence of starts, pauses, resumptions, stops, completions, restarts, status changes, timer
  events and breach passes: the ids of the stored timers are distinct (so no row is stored twice), an entity has at
  most one active timer of each kind under a policy, and a timer has a pause instant exactly while it is paused and a breach instant exactly when it is breached.
\<close>

theorem timers_consistent:
  assumes "pick_law env" "timers_ok (sd_timers db)"
  shows "let ts = sd_timers (run_all (run_sla env) ops db) in
    distinct (map st_id ts) \<and> (\<forall>t\<in>set ts. \<forall>q\<in>set ts. same_active t q \<longrightarrow> t = q) \<and>
    (\<forall>t\<in>set ts. st_paused t = (st_paused_at t \<noteq> None) \<and> st_breached t = (st_breached_at t \<noteq> None))"
  using sla.run_all_inv [OF assms(2), of env ops]
  by (simp add: run_lawful_eq [OF assms(1)] timers_ok_def timer_wf_def Let_def)

theorem timers_consistent_witness:
  "let ts = sd_timers (run_all (run_sla ex_sla_env)
      [OpPause ex_friday ''case'' ''t1'', OpResume (ex_friday + 60000) ''case'' ''t1'', OpBreaches True (ex_friday + 9000000)] ex_sla_db) in
    distinct (map st_id ts) \<and> (\<forall>t\<in>set ts. \<forall>q\<in>set ts. same_active t q \<longrightarrow> t = q) \<and>
    (\<forall>t\<in>set ts. st_paused t = (st_paused_at t \<noteq> None) \<and> st_breached t = (st_breached_at t \<noteq> None))"
  by (rule timers_consistent [OF ex_pick_law ex_timers_ok])

text \<open>
  C13. A completed or stopped timer is never changed again, by whatever sequence of operations, each taken as a whole.
\<close>

theorem settled_timers_final:
  assumes "pick_law env" "timers_ok (sd_timers db)" "t \<in> set (sd_timers (run_all (run_sla env) us db))" "\<not> active t"
  shows "t \<in> set (sd_timers (run_all (run_sla env) (us @ vs) db))"
  using sla_evolves.run_all_rel [of "run_all (run_sla env) us db" env vs] sla.run_all_inv [OF assms(2), of env us] assms(3,4)
  by (simp add: run_lawful_eq [OF assms(1)] sla_rel_def timers_step_def)

theorem settled_timers_final_witness:
  "ex_timer\<lparr>st_stopped_at := Some 5, st_stopped_reason := Some ''moved''\<rparr> \<in> set (sd_timers (run_all (run_sla ex_sla_env)
     ([OpStop 5 ''case'' ''t1'' ''moved''] @ [OpResume 6 ''case'' ''t1'', OpBreaches True (ex_friday + 9000000)]) ex_sla_db))"
proof (rule settled_timers_final [OF ex_pick_law ex_timers_ok])
  show "ex_timer\<lparr>st_stopped_at := Some 5, st_stopped_reason := Some ''moved''\<rparr> \<in>
      set (sd_timers (run_all (run_sla ex_sla_env) [OpStop 5 ''case'' ''t1'' ''moved''] ex_sla_db))"
    by (simp add: stopTimers_def update_timers_def update_where_def ex_sla_db_def timer_of_def active_def ex_timer_def)
qed (simp add: active_def)

text \<open>
  C14. A pause moves the due date by the business minutes it lasted, when the calendars are lawful: windows that begin
  and end between 00:00 and 23:59, at times that are one instant on every day of the zone. A timer that runs when its
  entity is paused at one instant and resumed at another has, afterwards, these minutes on its total and on its due
  date: without a calendar as minutes of the clock, on a calendar so that the business minutes from the old due date to
  the new one are those of the pause, provided that the 200 days from the old due date on offer as many.
\<close>

theorem pause_moves_due_date:
  assumes "timers_ok (sd_timers db)" "calendars_lawful env db" "known_entity i tenant db"
    "t \<in> set (sd_timers db)" "timer_of i tenant t" "active t" "\<not> st_paused t"
  shows "\<exists>minutes due. let calendar = loadCalendar (st_calendar_id t) db;
      after = resumeTimers env t1 i tenant (snd (pauseTimers t0 i tenant db))
    in fst after = Inr () \<and> shifted t minutes due \<in> set (sd_timers (snd after)) \<and>
       businessMinutesBetween (sv_zones env) calendar t0 t1 = Inr minutes \<and>
       (case calendar of None \<Rightarrow> due = st_due_at t + minutes * 60000
        | Some c \<Rightarrow> \<forall>N\<le>200. minutes \<le> (\<Sum>k<N. day_minutes (zone_of (sv_zones env) c) c
              ((zn_next (zone_of (sv_zones env) c) ^^ k) (st_due_at t))) \<longrightarrow>
            businessMinutesBetween (sv_zones env) calendar (st_due_at t) due = Inr minutes)"
proof -
  let ?cal = "loadCalendar (st_calendar_id t) db"
  obtain m d where md: "pause_of env db t0 t1 t m d"
    "fst (resumeTimers env t1 i tenant (snd (pauseTimers t0 i tenant db))) = Inr ()"
    "shifted t m d \<in> set (sd_timers (snd (resumeTimers env t1 i tenant (snd (pauseTimers t0 i tenant db)))))"
    using pause_then_resume [OF assms, of t0 t1] by blast
  have counted: "businessMinutesBetween (sv_zones env) ?cal (st_due_at t) d = Inr m"
    if c: "?cal = Some c" and N: "N \<le> 200" "m \<le> (\<Sum>k<N. day_minutes (zone_of (sv_zones env) c) c
       ((zn_next (zone_of (sv_zones env) c) ^^ k) (st_due_at t)))" for c N
  proof (cases "0 < m")
    case True
    from loaded_lawful [OF assms(2) c] have "hours_ok c" "zone_laws (zone_of (sv_zones env) c) c" by (simp_all add: lawful_def)
    from zone_laws.add_then_count [OF this(2) refl this(1) True N] md(1) c True show ?thesis
      by (auto simp: pause_of_def)
  next
    case False
    with md(1) show ?thesis by (auto simp: pause_of_def businessMinutesBetween_def)
  qed
  have "d = st_due_at t + m * 60000" if "?cal = None"
    using md(1) that by (auto simp: pause_of_def addBusinessMinutes_def split: if_splits)
  with md counted show ?thesis
    by (intro exI [of _ m] exI [of _ d]) (auto simp: Let_def pause_of_def split: option.split)
qed

theorem pause_moves_due_date_witness:
  "\<exists>minutes due. shifted ex_timer minutes due \<in> set (sd_timers (snd (resumeTimers ex_sla_env (ex_friday + 86400000) ''case'' ''t1''
      (snd (pauseTimers ex_friday ''case'' ''t1'' ex_sla_db))))) \<and>
    businessMinutesBetween (\<lambda>_. utc_zone) (Some ex_calendar) ex_friday (ex_friday + 86400000) = Inr minutes"
proof -
  have cal: "loadCalendar (st_calendar_id ex_timer) ex_sla_db = Some ex_calendar"
    by (simp add: loadCalendar_def ex_timer_def ex_sla_db_def)
  show ?thesis
    using pause_moves_due_date [OF ex_timers_ok ex_calendars_lawful, of "''case''" "''t1''" ex_timer "ex_friday + 86400000" ex_friday] cal
    by (auto simp: known_entity_def entity_hit_def ex_sla_db_def ex_case_def ex_timer_def timer_of_def active_def Let_def ex_sla_env_def)
qed

text \<open>
  C16. A status change reaches no timer. Whatever transition the procedure performs, into waiting, out of
  it or to a resolved or closed entity, the timers differ at most in their pending flag; the event that asks for the
  recomputation names no tenant, so its handler dead-letters it in every database; and the next breach pass after
  the due date marks the timer, flag or not, although the entity waits or is resolved.
\<close>

theorem status_change_misses_timers:
  assumes "pick_law env" "transition_entity_status env eids now i kind tenant actor key payload db = (Inr result, db')"
  shows "map unpend (sd_timers db') = map unpend (sd_timers db) \<and>
    (\<forall>e\<in>set (sd_outbox db') - set (sd_outbox db). ev_event_type e = ''sla.timer_recompute_required'' \<longrightarrow>
       (\<forall>gen later v. handle_recompute env gen later e v = (HandlerDeadLetter ''sla_timer.tenant_mismatch'', v))) \<and>
    (\<forall>t\<in>set (sd_timers db'). \<forall>later. watched t \<and> st_due_at t < later \<and>
       length (filter (\<lambda>t. watched t \<and> st_due_at t < later) (sd_timers db')) \<le> 100 \<longrightarrow>
       t\<lparr>st_breached := True, st_breached_at := Some later\<rparr> \<in> set (sd_timers (mark_breaches env True later db')))"
  using sla_quiet_transition [of db env eids now i kind tenant actor key payload] assms(2)
    handle_nameless mark_breaches_marks [OF assms(1)]
  by (auto simp: sla_quiet_def)

theorem status_change_misses_timers_witness:
  "\<exists>e\<in>set (sd_outbox (snd ex_sla_waiting)). ev_event_type e = ''sla.timer_recompute_required'' \<and>
     handle_recompute ex_sla_env (\<lambda>_. []) 0 e ex_sla_db = (HandlerDeadLetter ''sla_timer.tenant_mismatch'', ex_sla_db)"
proof -
  define db' where "db' = snd ex_sla_waiting"
  obtain r where run: "ex_sla_waiting = (Inr r, db')" using ex_sla_waiting_events(1) unfolding db'_def by (metis prod.collapse)
  obtain e es where "sd_outbox db' = e # es" "ev_event_type e = ''sla.timer_recompute_required''"
    using ex_sla_waiting_events(2) by (auto simp: db'_def)
  then have e: "e \<in> set (sd_outbox db')" "ev_event_type e = ''sla.timer_recompute_required''" by simp_all
  have "e \<notin> set (sd_outbox ex_sla_db)" by (simp add: ex_sla_db_def)
  with e status_change_misses_timers [OF ex_pick_law run [unfolded ex_sla_waiting_def]]
  have "handle_recompute ex_sla_env (\<lambda>_. []) 0 e ex_sla_db = (HandlerDeadLetter ''sla_timer.tenant_mismatch'', ex_sla_db)"
    by blast
  with e show ?thesis unfolding db'_def by blast
qed

end
