(* ===== verification/Sla_Thresholds.thy ===== *)
theory Sla_Thresholds
  imports Sla_Timers
begin

section \<open>Escalation thresholds\<close>

text \<open>
  The third part of the breach pass of \<open>modules/sla/sla.service.ts\<close> with \<open>sla-threshold.helpers.ts\<close>, the validator of
  \<open>sla-policy.controller.ts\<close> and \<open>send\<close> and \<open>sendToTeam\<close> of \<open>modules/notification/notification.service.ts\<close>.

  A threshold fires in three phases: an escalation assigns the entity, the crossing row is claimed, and who won the
  claim sends the notification and the event. The state is the database with the notifications sent and the keys of the
  committed commands. The two procedures that write the assignment and the watchers (\<open>set_entity_assignment\<close>,
  \<open>update_entity_combined\<close>) are arguments, as are the notification preferences and the members of a team. A notification
  carries the key of its crossing, which the program does not store.
\<close>

subsection \<open>Percentages and selection\<close>

definition percentElapsed :: "SlaTimerRow \<Rightarrow> int \<Rightarrow> rat" where
  "percentElapsed timer now =
     (let tot = st_due_at timer - st_started_at timer
      in if tot \<le> 0 then 0 else of_int (now - st_started_at timer) / of_int tot * 100)"

text \<open>The three parts of the key; the program joins them with bars, which no id contains.\<close>

type_synonym crossing_key = "ident \<times> int \<times> TimerType"

definition matches_timer :: "TimerType \<Rightarrow> EscalationThreshold \<Rightarrow> bool" where
  "matches_timer ty t \<longleftrightarrow> th_timer_type t = OneTimer ty \<or> th_timer_type t = BothTimers"

definition selectApplicableThresholds ::
    "rat \<Rightarrow> TimerType \<Rightarrow> ident \<Rightarrow> EscalationThreshold list \<Rightarrow> crossing_key set \<Rightarrow> EscalationThreshold list" where
  "selectApplicableThresholds percent ty timerId thresholds firedKeys =
     filter (\<lambda>t. matches_timer ty t \<and> \<not> percent < of_int (th_at_percent t) \<and> (timerId, th_at_percent t, ty) \<notin> firedKeys)
       thresholds"

subsection \<open>State\<close>

datatype fire_target = ToPerson ident | ToTeam ident

record sent_notification =
  nt_tenant_id :: ident
  nt_channel :: string
  nt_person_id :: ident
  nt_team_id :: ident_opt
  nt_entity_id :: ident
  nt_subject :: string
  nt_body :: string
  nt_key :: crossing_key

record fire_state =
  fs_db :: sla_db
  fs_sent :: "sent_notification list"
  fs_done :: "(ident \<times> string) list"

record assignment_call =
  as_entity_id :: ident
  as_kind :: string
  as_tenant_id :: ident
  as_key :: string
  as_team :: "ident_opt option"
  as_user :: "ident_opt option"
  as_reason :: string
  as_watchers :: "ident list option"

record fire_env =
  fe_tenant :: "TenantInfo option"
  fe_iso :: "int \<Rightarrow> string"
  fe_assign :: "assignment_call \<Rightarrow> fire_state \<Rightarrow> fire_state option"
  fe_watch :: "assignment_call \<Rightarrow> fire_state \<Rightarrow> fire_state option"
  fe_channels :: "ident \<Rightarrow> ident \<Rightarrow> string list"
  fe_members :: "ident \<Rightarrow> ident \<Rightarrow> ident list"
  fe_notification_id :: "nat \<Rightarrow> ident"

definition percent_text :: "int \<Rightarrow> string" where
  "percent_text p = nat_string (nat p)"

definition buildSlaEscalationIdempotencyKey :: "ident \<Rightarrow> int \<Rightarrow> TimerType \<Rightarrow> string" where
  "buildSlaEscalationIdempotencyKey timerId p ty = ''sla:escalation:'' @ timerId @ '':'' @ percent_text p @ '':'' @ timer_name ty"

subsection \<open>Reads\<close>

definition row_in_tenant :: "ident \<Rightarrow> ident \<Rightarrow> sla_entity list \<Rightarrow> sla_entity option" where
  "row_in_tenant i tenant rows = find (\<lambda>r. en_id r = i \<and> en_tenant_id r = tenant) rows"

definition resolveTarget :: "EscalationThreshold \<Rightarrow> ident \<Rightarrow> ident \<Rightarrow> sla_db \<Rightarrow> fire_target option" where
  "resolveTarget t ticketId tenant db =
     (if th_target_type t = TargetUser \<and> truthy (th_target_id t) then Some (ToPerson (the (th_target_id t)))
      else if th_target_type t = TargetTeam \<and> truthy (th_target_id t) then Some (ToTeam (the (th_target_id t)))
      else if th_target_type t = TargetManager
      then let own = Option.bind (row_in_tenant ticketId tenant (sd_tickets db)) en_requester_person_id;
               requester = (if truthy own then own
                 else Option.bind (row_in_tenant ticketId tenant (sd_work_orders db)) en_requester_person_id)
           in if \<not> truthy requester then None
              else (case find (\<lambda>p. Some (ps_id p) = requester \<and> ps_tenant_id p = tenant) (sd_persons db) of
                 None \<Rightarrow> None
               | Some p \<Rightarrow> if truthy (ps_manager_person_id p) then Some (ToPerson (the (ps_manager_person_id p))) else None)
      else None)"

definition loadTicketForFire :: "ident \<Rightarrow> ident \<Rightarrow> sla_db \<Rightarrow> (sla_entity \<times> string) result" where
  "loadTicketForFire ticketId tenant db =
     (case row_in_tenant ticketId tenant (sd_tickets db) of
        Some r \<Rightarrow> Inr (r, ''case'')
      | None \<Rightarrow> (case row_in_tenant ticketId tenant (sd_work_orders db) of
           Some r \<Rightarrow> Inr (r, ''work_order'')
         | None \<Rightarrow> Inl (ServerError ''sla.target_missing'')))"

definition loadPolicyName :: "ident \<Rightarrow> ident \<Rightarrow> sla_db \<Rightarrow> string" where
  "loadPolicyName policyId tenant db =
     (case find_policy policyId tenant db of None \<Rightarrow> ''SLA policy'' | Some p \<Rightarrow> sp_name p)"

definition or_text :: "string \<Rightarrow> string \<Rightarrow> string" where
  "or_text s d = (if s = [] then d else s)"

definition resolveTargetName :: "fire_target \<Rightarrow> ident \<Rightarrow> sla_db \<Rightarrow> string" where
  "resolveTargetName target tenant db =
     (case target of
        ToPerson i \<Rightarrow> (case find (\<lambda>p. ps_id p = i \<and> ps_tenant_id p = tenant) (sd_persons db) of
            None \<Rightarrow> ''person'' | Some p \<Rightarrow> or_text (js_trim (ps_first_name p @ '' '' @ ps_last_name p)) ''person'')
      | ToTeam i \<Rightarrow> (case find (\<lambda>t. tm_id t = i \<and> tm_tenant_id t = tenant) (sd_teams db) of
            None \<Rightarrow> ''team'' | Some t \<Rightarrow> tm_name t))"

definition buildNotificationCopy ::
    "ident \<Rightarrow> string \<Rightarrow> int \<Rightarrow> TimerType \<Rightarrow> string \<Rightarrow> string \<Rightarrow> string \<Rightarrow> string \<Rightarrow> string \<times> string" where
  "buildNotificationCopy ticketId title atPercent ty policyName verb targetName dueAt =
     (''[Ticket '' @ take 8 ticketId @ ''] SLA '' @ timer_name ty @ '' at '' @ percent_text atPercent @ ''%'',
      ''Ticket '' @ [CHR 0x22] @ title @ [CHR 0x22] @ '' has reached '' @ percent_text atPercent @ ''% of its '' @ timer_name ty @
      '' SLA ('' @ policyName @ ''). '' @ verb @ '' '' @ targetName @ ''. Target: '' @ dueAt @ ''.'')"

definition resolvePersonIdForUser :: "ident \<Rightarrow> ident \<Rightarrow> sla_db \<Rightarrow> ident_opt" where
  "resolvePersonIdForUser userId tenant db =
     Option.bind (find (\<lambda>u. us_id u = userId \<and> us_tenant_id u = tenant) (sd_users db)) us_person_id"

subsection \<open>Writes\<close>

definition in_db :: "(sla_db \<Rightarrow> sla_db) \<Rightarrow> fire_state \<Rightarrow> fire_state" where
  "in_db f st = st\<lparr>fs_db := f (fs_db st)\<rparr>"

definition emitSlaEvent :: "ident \<Rightarrow> ident \<Rightarrow> string \<Rightarrow> (string \<times> jsval) list \<Rightarrow> fire_state \<Rightarrow> fire_state" where
  "emitSlaEvent tenant ticketId eventType payload = in_db (\<lambda>db. db\<lparr>sd_events := sd_events db @
     [\<lparr>se_tenant_id = tenant, se_event_type = eventType, se_entity_type = ''ticket'', se_entity_id = ticketId,
       se_payload = payload\<rparr>]\<rparr>)"

definition key_of :: "crossing_row \<Rightarrow> crossing_key" where
  "key_of r = (cr_timer_id r, cr_at_percent r, cr_timer_type r)"

text \<open>The unique constraint of migration 00043 makes the second insert of a key lose; its check bounds the percentage.\<close>

definition writeCrossing :: "crossing_row \<Rightarrow> (fire_state, bool) op" where
  "writeCrossing row st =
     (if cr_at_percent row < 1 \<or> 200 < cr_at_percent row then (Inl (ServerError ''sla.crossing_write_failed''), st)
      else if key_of row \<in> key_of ` set (sd_crossings (fs_db st)) then (Inr False, st)
      else (Inr True, in_db (\<lambda>db. db\<lparr>sd_crossings := sd_crossings db @ [row]\<rparr>) st))"

text \<open>\<open>NotificationService\<close> takes the tenant from the context of the caller and throws when there is none.\<close>

definition send_notification ::
    "fire_env \<Rightarrow> crossing_key \<Rightarrow> ident \<Rightarrow> ident_opt \<Rightarrow> ident \<Rightarrow> string \<times> string \<Rightarrow> (fire_state, ident list) op" where
  "send_notification env key personId teamId entityId copy st =
     (case fe_tenant env of
        None \<Rightarrow> (Inl (PlainError ''No tenant context''), st)
      | Some tenant \<Rightarrow>
          let rows = map (\<lambda>channel. \<lparr>nt_tenant_id = ti_id tenant, nt_channel = channel, nt_person_id = personId,
                nt_team_id = teamId, nt_entity_id = entityId, nt_subject = fst copy, nt_body = snd copy, nt_key = key\<rparr>)
                (fe_channels env (ti_id tenant) personId);
              n = length (fs_sent st)
          in (Inr (map (fe_notification_id env) [n..<n + length rows]), st\<lparr>fs_sent := fs_sent st @ rows\<rparr>))"

fun send_each ::
    "fire_env \<Rightarrow> crossing_key \<Rightarrow> ident list \<Rightarrow> ident \<Rightarrow> ident \<Rightarrow> string \<times> string \<Rightarrow> (fire_state, ident list) op" where
  "send_each env key [] teamId entityId copy st = (Inr [], st)"
| "send_each env key (p # ps) teamId entityId copy st =
     op_then (send_notification env key p (Some teamId) entityId copy) (\<lambda>us.
     op_then (send_each env key ps teamId entityId copy) (\<lambda>vs. op_return (us @ vs))) st"

definition sendToTeam ::
    "fire_env \<Rightarrow> crossing_key \<Rightarrow> ident \<Rightarrow> ident \<Rightarrow> string \<times> string \<Rightarrow> (fire_state, ident list) op" where
  "sendToTeam env key teamId entityId copy st =
     (case fe_tenant env of
        None \<Rightarrow> (Inl (PlainError ''No tenant context''), st)
      | Some tenant \<Rightarrow> send_each env key (fe_members env (ti_id tenant) teamId) teamId entityId copy st)"

subsection \<open>The reassignment\<close>

definition with_watcher :: "ident list option \<Rightarrow> ident \<Rightarrow> ident list" where
  "with_watcher watchers p = fold set_add ((case watchers of None \<Rightarrow> [] | Some ws \<Rightarrow> ws) @ [p]) []"

definition outgoing_person :: "sla_entity \<Rightarrow> sla_db \<Rightarrow> ident_opt" where
  "outgoing_person ticket db =
     (if truthy (en_assigned_user_id ticket)
      then (let p = resolvePersonIdForUser (the (en_assigned_user_id ticket)) (en_tenant_id ticket) db
            in if truthy p then p else None) else None)"

text \<open>The new assignee of the entity; \<open>None\<close> means that nothing changes. Several users of a person are an error of the query.\<close>

definition new_assignment ::
    "sla_entity \<Rightarrow> fire_target \<Rightarrow> sla_db \<Rightarrow> (ident_opt option \<times> ident_opt option) option result" where
  "new_assignment ticket target db =
     (case target of
        ToTeam team \<Rightarrow> Inr (if en_assigned_team_id ticket \<noteq> Some team then Some (Some (Some team), Some None) else None)
      | ToPerson p \<Rightarrow>
          let rows = filter (\<lambda>u. us_person_id u = Some p \<and> us_tenant_id u = en_tenant_id ticket) (sd_users db)
          in if 1 < length rows then Inl (PlainError ''multiple rows'')
             else Inr (case rows of [] \<Rightarrow> None
               | u # _ \<Rightarrow> if us_id u \<noteq> [] \<and> en_assigned_user_id ticket \<noteq> Some (us_id u)
                   then Some (None, Some (Some (us_id u))) else None))"

definition copy_watcher ::
    "fire_env \<Rightarrow> sla_entity \<Rightarrow> assignment_call \<Rightarrow> ident_opt \<Rightarrow> fire_state \<Rightarrow> fire_state" where
  "copy_watcher env ticket call outgoing st =
     (case outgoing of
        None \<Rightarrow> st
      | Some p \<Rightarrow>
          if p \<in> set (case en_watchers ticket of None \<Rightarrow> [] | Some ws \<Rightarrow> ws) then st
          else case fe_watch env (call\<lparr>as_key := as_key call @ '':watchers'', as_watchers := Some (with_watcher (en_watchers ticket) p)\<rparr>) st of
            Some st' \<Rightarrow> st'
          | None \<Rightarrow> emitSlaEvent (en_tenant_id ticket) (en_id ticket) ''sla_escalation_watcher_skipped''
              [(''idempotency_key'', JStr (as_key call @ '':watchers''))] st)"

definition applyReassignment ::
    "fire_env \<Rightarrow> sla_entity \<Rightarrow> string \<Rightarrow> fire_target \<Rightarrow> SlaTimerRow \<Rightarrow> EscalationThreshold \<Rightarrow> string \<Rightarrow> (fire_state, bool) op" where
  "applyReassignment env ticket kind target timer t policyName st =
     (let key = buildSlaEscalationIdempotencyKey (st_id timer) (th_at_percent t) (st_timer_type timer)
      in if (en_tenant_id ticket, key) \<in> set (fs_done st) then (Inr True, st)
         else case new_assignment ticket target (fs_db st) of
           Inl e \<Rightarrow> (Inl e, st)
         | Inr None \<Rightarrow> (Inr False, st)
         | Inr (Some (team, user)) \<Rightarrow>
             let outgoing = outgoing_person ticket (fs_db st);
                 call = \<lparr>as_entity_id = en_id ticket, as_kind = kind, as_tenant_id = en_tenant_id ticket, as_key = key,
                   as_team = team, as_user = user,
                   as_reason = ''SLA escalation: '' @ policyName @ '' at '' @ percent_text (th_at_percent t) @ ''% of '' @
                     timer_name (st_timer_type timer),
                   as_watchers = map_option (with_watcher (en_watchers ticket)) outgoing\<rparr>
             in case fe_assign env call st of
                  None \<Rightarrow> (Inl (PlainError ''set_entity_assignment''), st)
                | Some st' \<Rightarrow> (Inr True, copy_watcher env ticket call outgoing st'))"

subsection \<open>Firing a threshold\<close>

datatype fire_phase = FireAssign | FireClaim bool | FireEffects bool | FireDone | FireFailed app_error

record fire_job =
  fj_timer :: SlaTimerRow
  fj_threshold :: EscalationThreshold
  fj_ticket :: sla_entity
  fj_kind :: string
  fj_target :: "fire_target option"
  fj_policy_name :: string
  fj_target_name :: string
  fj_phase :: fire_phase

definition fire_load :: "SlaTimerRow \<Rightarrow> EscalationThreshold \<Rightarrow> sla_db \<Rightarrow> fire_job result" where
  "fire_load timer t db =
     and_then (loadTicketForFire (st_ticket_id timer) (st_tenant_id timer) db) (\<lambda>(ticket, kind).
       let target = resolveTarget t (en_id ticket) (st_tenant_id timer) db
       in Inr \<lparr>fj_timer = timer, fj_threshold = t, fj_ticket = ticket, fj_kind = kind, fj_target = target,
               fj_policy_name = loadPolicyName (st_policy_id timer) (st_tenant_id timer) db,
               fj_target_name = (case target of None \<Rightarrow> [] | Some x \<Rightarrow> resolveTargetName x (st_tenant_id timer) db),
               fj_phase = FireAssign\<rparr>)"

definition job_key :: "fire_job \<Rightarrow> crossing_key" where
  "job_key j = (st_id (fj_timer j), th_at_percent (fj_threshold j), st_timer_type (fj_timer j))"

definition target_ident :: "fire_target \<Rightarrow> ident" where
  "target_ident x = (case x of ToPerson i \<Rightarrow> i | ToTeam i \<Rightarrow> i)"

definition fire_assign :: "fire_env \<Rightarrow> fire_job \<Rightarrow> fire_state \<Rightarrow> fire_phase \<times> fire_state" where
  "fire_assign env j st =
     (case fj_target j of
        None \<Rightarrow> (FireClaim False, st)
      | Some target \<Rightarrow>
          if th_action (fj_threshold j) = Escalate
          then (case applyReassignment env (fj_ticket j) (fj_kind j) target (fj_timer j) (fj_threshold j) (fj_policy_name j) st of
              (Inl e, st') \<Rightarrow> (FireFailed e, st')
            | (Inr reassigned, st') \<Rightarrow> (FireClaim reassigned, st'))
          else (FireClaim False, st))"

definition crossing_of :: "fire_job \<Rightarrow> crossing_row" where
  "crossing_of j =
     \<lparr>cr_tenant_id = en_tenant_id (fj_ticket j), cr_timer_id = st_id (fj_timer j), cr_ticket_id = en_id (fj_ticket j),
      cr_at_percent = th_at_percent (fj_threshold j), cr_timer_type = st_timer_type (fj_timer j),
      cr_action = (case fj_target j of None \<Rightarrow> SkippedNoManager
        | Some _ \<Rightarrow> if th_action (fj_threshold j) = Escalate then DidEscalate else DidNotify),
      cr_target_type = th_target_type (fj_threshold j), cr_target_id = map_option target_ident (fj_target j),
      cr_notification_id = None\<rparr>"

definition fire_claim :: "bool \<Rightarrow> fire_job \<Rightarrow> fire_state \<Rightarrow> fire_phase \<times> fire_state" where
  "fire_claim reassigned j st =
     (case writeCrossing (crossing_of j) st of
        (Inl e, st') \<Rightarrow> (FireFailed e, st')
      | (Inr won, st') \<Rightarrow> (if won then FireEffects reassigned else FireDone, st'))"

definition action_name :: "crossing_action \<Rightarrow> string" where
  "action_name a = (case a of DidNotify \<Rightarrow> ''notify'' | DidEscalate \<Rightarrow> ''escalate'' | SkippedNoManager \<Rightarrow> ''skipped_no_manager'')"

definition target_type_name :: "ThresholdTargetType \<Rightarrow> string" where
  "target_type_name t = (case t of TargetUser \<Rightarrow> ''user'' | TargetTeam \<Rightarrow> ''team'' | TargetManager \<Rightarrow> ''manager_of_requester'')"

definition crossed_event :: "fire_job \<Rightarrow> (string \<times> jsval) list \<Rightarrow> fire_state \<Rightarrow> fire_state" where
  "crossed_event j extra = emitSlaEvent (en_tenant_id (fj_ticket j)) (en_id (fj_ticket j)) ''sla_threshold_crossed''
     ([(''timer_type'', JStr (timer_name (st_timer_type (fj_timer j)))),
      (''at_percent'', JNum (of_int (th_at_percent (fj_threshold j)))),
      (''action'', JStr (action_name (cr_action (crossing_of j)))),
      (''target_type'', JStr (target_type_name (th_target_type (fj_threshold j))))] @ extra)"

definition backfill :: "fire_job \<Rightarrow> ident \<Rightarrow> fire_state \<Rightarrow> fire_state" where
  "backfill j notificationId = in_db (\<lambda>db. db\<lparr>sd_crossings := update_where
     (\<lambda>r. cr_tenant_id r = en_tenant_id (fj_ticket j) \<and> key_of r = job_key j)
     (\<lambda>r. r\<lparr>cr_notification_id := Some notificationId\<rparr>) (sd_crossings db)\<rparr>)"

definition fire_copy :: "fire_env \<Rightarrow> fire_job \<Rightarrow> string \<times> string" where
  "fire_copy env j = buildNotificationCopy (en_id (fj_ticket j)) (en_title (fj_ticket j)) (th_at_percent (fj_threshold j))
     (st_timer_type (fj_timer j)) (fj_policy_name j)
     (if th_action (fj_threshold j) = Escalate then ''Escalated to'' else ''Notified'') (fj_target_name j)
     (fe_iso env (st_due_at (fj_timer j)))"

text \<open>What the winner of the claim does is best effort: an error is logged and the next part goes on.\<close>

definition fire_effects :: "fire_env \<Rightarrow> bool \<Rightarrow> fire_job \<Rightarrow> fire_state \<Rightarrow> fire_state" where
  "fire_effects env reassigned j st =
     (case fj_target j of
        None \<Rightarrow> crossed_event j [] st
      | Some target \<Rightarrow>
          let entity = en_id (fj_ticket j);
              sent = (case target of
                ToTeam team \<Rightarrow> sendToTeam env (job_key j) team entity (fire_copy env j) st
              | ToPerson p \<Rightarrow> send_notification env (job_key j) p None entity (fire_copy env j) st);
              first = (case fst sent of Inr (n # _) \<Rightarrow> Some n | _ \<Rightarrow> None);
              st1 = (if truthy first then backfill j (the first) (snd sent) else snd sent)
          in crossed_event j [(''target_id'', JStr (target_ident target)), (''reassigned'', JBool reassigned)] st1)"

definition fire_step :: "fire_env \<Rightarrow> fire_job \<Rightarrow> fire_state \<Rightarrow> fire_job \<times> fire_state" where
  "fire_step env j st =
     (case fj_phase j of
        FireAssign \<Rightarrow> (case fire_assign env j st of (ph, st') \<Rightarrow> (j\<lparr>fj_phase := ph\<rparr>, st'))
      | FireClaim b \<Rightarrow> (case fire_claim b j st of (ph, st') \<Rightarrow> (j\<lparr>fj_phase := ph\<rparr>, st'))
      | FireEffects b \<Rightarrow> (j\<lparr>fj_phase := FireDone\<rparr>, fire_effects env b j st)
      | _ \<Rightarrow> (j, st))"

definition fireThreshold :: "fire_env \<Rightarrow> SlaTimerRow \<Rightarrow> EscalationThreshold \<Rightarrow> (fire_state, unit) op" where
  "fireThreshold env timer t st =
     (case fire_load timer t (fs_db st) of
        Inl e \<Rightarrow> (Inl e, st)
      | Inr j \<Rightarrow>
          let (j1, st1) = fire_step env j st; (j2, st2) = fire_step env j1 st1; (j3, st3) = fire_step env j2 st2
          in ((case fj_phase j3 of FireFailed e \<Rightarrow> Inl e | _ \<Rightarrow> Inr ()), st3))"

subsection \<open>The pass\<close>

definition policy_thresholds :: "SlaTimerRow \<Rightarrow> sla_db \<Rightarrow> EscalationThreshold list" where
  "policy_thresholds timer db =
     (case find_policy (st_policy_id timer) (st_tenant_id timer) db of
        None \<Rightarrow> []
      | Some p \<Rightarrow> (case sp_escalation_thresholds p of None \<Rightarrow> [] | Some ts \<Rightarrow> ts))"

fun fire_all ::
    "fire_env \<Rightarrow> SlaTimerRow \<Rightarrow> EscalationThreshold list \<Rightarrow> crossing_key set \<Rightarrow> fire_state \<Rightarrow> crossing_key set \<times> fire_state" where
  "fire_all env timer [] fired st = (fired, st)"
| "fire_all env timer (t # ts) fired st =
     (case fireThreshold env timer t st of
        (Inr _, st') \<Rightarrow> fire_all env timer ts (insert (st_id timer, th_at_percent t, st_timer_type timer) fired) st'
      | (Inl _, st') \<Rightarrow> (fired, emitSlaEvent (st_tenant_id timer) (st_ticket_id timer) ''sla_threshold_fire_failed''
            [(''timer_id'', JStr (st_id timer))] st'))"

definition applicable :: "int \<Rightarrow> sla_db \<Rightarrow> crossing_key set \<Rightarrow> SlaTimerRow \<Rightarrow> EscalationThreshold list" where
  "applicable now db fired timer = sort_key th_at_percent
     (selectApplicableThresholds (percentElapsed timer now) (st_timer_type timer) (st_id timer) (policy_thresholds timer db) fired)"

fun process_timers ::
    "fire_env \<Rightarrow> int \<Rightarrow> sla_db \<Rightarrow> SlaTimerRow list \<Rightarrow> crossing_key set \<Rightarrow> fire_state \<Rightarrow> fire_state" where
  "process_timers env now db [] fired st = st"
| "process_timers env now db (timer # timers) fired st =
     (case fire_all env timer (applicable now db fired timer) fired st of
        (fired', st') \<Rightarrow> process_timers env now db timers fired' st')"

definition processThresholds :: "fire_env \<Rightarrow> int \<Rightarrow> fire_state \<Rightarrow> fire_state" where
  "processThresholds env now st =
     (let db = fs_db st;
          timers = take 500 (sort_key st_due_at (filter watched (sd_timers db)));
          fired = key_of ` {r \<in> set (sd_crossings db). cr_timer_id r \<in> st_id ` set timers}
      in process_timers env now db timers fired st)"

definition runBreachCheck :: "sla_env \<Rightarrow> fire_env \<Rightarrow> bool \<Rightarrow> int \<Rightarrow> fire_state \<Rightarrow> fire_state" where
  "runBreachCheck env fenv rpc_ok now st =
     processThresholds fenv now (in_db (\<lambda>db. mark_at_risk env now (mark_breaches env rpc_ok now db)) st)"

subsection \<open>Overlapping passes\<close>

text \<open>
  Several processes run the pass side by side. A job is one firing of a threshold with what it read; a step starts a job,
  runs the next phase of some job, or is anything else in the system, which leaves crossings and notifications alone.
\<close>

type_synonym fire_world = "fire_job list \<times> fire_state"

inductive fire_run :: "fire_env \<Rightarrow> fire_world \<Rightarrow> fire_world \<Rightarrow> bool" for env where
  start: "fire_load timer t (fs_db st) = Inr j \<Longrightarrow> fire_run env (jobs, st) (jobs @ [j], st)"
| phase: "k < length jobs \<Longrightarrow> fire_step env (jobs ! k) st = (j, st') \<Longrightarrow> fire_run env (jobs, st) (jobs[k := j], st')"
| other: "sd_crossings (fs_db st') = sd_crossings (fs_db st) \<Longrightarrow> fs_sent st' = fs_sent st \<Longrightarrow>
    fire_run env (jobs, st) (jobs, st')"

inductive_cases fire_runE: "fire_run env w w'"

text \<open>
  What the pass relies on in the two procedures: they leave crossings and notifications alone, and a committed
  assignment leaves its key.
\<close>

definition rpc_laws :: "fire_env \<Rightarrow> bool" where
  "rpc_laws env \<longleftrightarrow>
     (\<forall>call st st'. fe_assign env call st = Some st' \<longrightarrow> sd_crossings (fs_db st') = sd_crossings (fs_db st) \<and>
        fs_sent st' = fs_sent st \<and> (as_tenant_id call, as_key call) \<in> set (fs_done st')) \<and>
     (\<forall>call st st'. fe_watch env call st = Some st' \<longrightarrow> sd_crossings (fs_db st') = sd_crossings (fs_db st) \<and>
        fs_sent st' = fs_sent st \<and> set (fs_done st) \<subseteq> set (fs_done st'))"

definition crossing_keys :: "fire_state \<Rightarrow> crossing_key list" where
  "crossing_keys st = map key_of (sd_crossings (fs_db st))"


definition in_effects :: "crossing_key \<Rightarrow> fire_job \<Rightarrow> bool" where
  "in_effects k j \<longleftrightarrow> job_key j = k \<and> (case fj_phase j of FireEffects _ \<Rightarrow> True | _ \<Rightarrow> False)"

lemma in_db_simps [simp]:
  "fs_sent (in_db f st) = fs_sent st" "fs_done (in_db f st) = fs_done st" "fs_db (in_db f st) = f (fs_db st)"
  by (simp_all add: in_db_def)

lemma emitSlaEvent_simps [simp]:
  "fs_sent (emitSlaEvent a b c d st) = fs_sent st" "fs_done (emitSlaEvent a b c d st) = fs_done st"
  "sd_crossings (fs_db (emitSlaEvent a b c d st)) = sd_crossings (fs_db st)"
  by (simp_all add: emitSlaEvent_def)

lemma crossing_keys_simps [simp]:
  "crossing_keys (emitSlaEvent a b c d st) = crossing_keys st" "crossing_keys (crossed_event j e st) = crossing_keys st"
  "crossing_keys (backfill j n st) = crossing_keys st" "fs_sent (crossed_event j e st) = fs_sent st"
  "fs_sent (backfill j n st) = fs_sent st"
  by (simp_all add: crossing_keys_def crossed_event_def backfill_def update_where_def key_of_def comp_def)

lemma copy_watcher_keeps:
  assumes "rpc_laws env"
  shows "sd_crossings (fs_db (copy_watcher env ticket call out st)) = sd_crossings (fs_db st)"
    "fs_sent (copy_watcher env ticket call out st) = fs_sent st"
    "set (fs_done st) \<subseteq> set (fs_done (copy_watcher env ticket call out st))"
  using assms by (auto simp: copy_watcher_def rpc_laws_def split: option.split)

lemma applyReassignment_keeps:
  assumes "rpc_laws env"
  shows "sd_crossings (fs_db (snd (applyReassignment env ticket kind target timer t name st))) = sd_crossings (fs_db st)"
    "fs_sent (snd (applyReassignment env ticket kind target timer t name st)) = fs_sent st"
  using assms copy_watcher_keeps [OF assms]
  by (auto simp: applyReassignment_def Let_def rpc_laws_def split: sum.split option.split)

lemma fire_assign_keeps:
  assumes "rpc_laws env"
  shows "sd_crossings (fs_db (snd (fire_assign env j st))) = sd_crossings (fs_db st)"
    "fs_sent (snd (fire_assign env j st)) = fs_sent st" "\<not> in_effects k (j'\<lparr>fj_phase := fst (fire_assign env j st)\<rparr>)"
proof -
  have *: "sd_crossings (fs_db st') = sd_crossings (fs_db st)" "fs_sent st' = fs_sent st"
    if "applyReassignment env ticket kind target timer t name st = (r, st')" for ticket kind target timer t name r st'
    using applyReassignment_keeps [OF assms, of ticket kind target timer t name st] that by simp_all
  show "sd_crossings (fs_db (snd (fire_assign env j st))) = sd_crossings (fs_db st)"
    "fs_sent (snd (fire_assign env j st)) = fs_sent st" "\<not> in_effects k (j'\<lparr>fj_phase := fst (fire_assign env j st)\<rparr>)"
    by (auto simp: fire_assign_def in_effects_def * split: option.split prod.split sum.split)
qed

lemma fire_claim_cases:
  obtains "fst (fire_claim b j st) = FireEffects b" "job_key j \<notin> set (crossing_keys st)"
    "crossing_keys (snd (fire_claim b j st)) = crossing_keys st @ [job_key j]" "fs_sent (snd (fire_claim b j st)) = fs_sent st"
  | "fst (fire_claim b j st) = FireDone" "snd (fire_claim b j st) = st" "job_key j \<in> set (crossing_keys st)"
  | e where "fst (fire_claim b j st) = FireFailed e" "snd (fire_claim b j st) = st"
proof -
  have key: "key_of (crossing_of j) = job_key j" by (simp add: key_of_def crossing_of_def job_key_def)
  show ?thesis
    using that by (cases "writeCrossing (crossing_of j) st") (auto simp: fire_claim_def writeCrossing_def crossing_keys_def key split: if_splits)
qed

text \<open>Notifications of the effects phase carry the key of the job, one per recipient and channel.\<close>

definition recipients :: "fire_env \<Rightarrow> fire_job \<Rightarrow> (ident \<times> string) list" where
  "recipients env j = (case fe_tenant env of None \<Rightarrow> [] | Some tenant \<Rightarrow>
     (case fj_target j of
        None \<Rightarrow> []
      | Some (ToPerson p) \<Rightarrow> map (Pair p) (fe_channels env (ti_id tenant) p)
      | Some (ToTeam team) \<Rightarrow> concat (map (\<lambda>p. map (Pair p) (fe_channels env (ti_id tenant) p)) (fe_members env (ti_id tenant) team))))"

definition addressee :: "sent_notification \<Rightarrow> ident \<times> string" where
  "addressee n = (nt_person_id n, nt_channel n)"

lemma send_notification_sent:
  assumes "fe_tenant env = Some tenant"
  shows "\<exists>ns ids. send_notification env k p team e copy st = (Inr ids, st\<lparr>fs_sent := fs_sent st @ ns\<rparr>) \<and>
    map addressee ns = map (Pair p) (fe_channels env (ti_id tenant) p) \<and> (\<forall>n\<in>set ns. nt_key n = k)"
  using assms by (auto simp: send_notification_def Let_def addressee_def intro!: exI)

lemma send_each_sent:
  assumes "fe_tenant env = Some tenant"
  shows "\<exists>ns ids. send_each env k ps team e copy st = (Inr ids, st\<lparr>fs_sent := fs_sent st @ ns\<rparr>) \<and>
    map addressee ns = concat (map (\<lambda>p. map (Pair p) (fe_channels env (ti_id tenant) p)) ps) \<and> (\<forall>n\<in>set ns. nt_key n = k)"
proof (induction ps arbitrary: st)
  case Nil
  show ?case by (rule exI [of _ "[]"]) simp
next
  case (Cons p ps)
  obtain ns ids where one: "send_notification env k p (Some team) e copy st = (Inr ids, st\<lparr>fs_sent := fs_sent st @ ns\<rparr>)"
    "map addressee ns = map (Pair p) (fe_channels env (ti_id tenant) p)" "\<forall>n\<in>set ns. nt_key n = k"
    using send_notification_sent [OF assms] by blast
  obtain ms ids' where rest: "send_each env k ps team e copy (st\<lparr>fs_sent := fs_sent st @ ns\<rparr>) = (Inr ids', st\<lparr>fs_sent := (fs_sent st @ ns) @ ms\<rparr>)"
    "map addressee ms = concat (map (\<lambda>p. map (Pair p) (fe_channels env (ti_id tenant) p)) ps)" "\<forall>n\<in>set ms. nt_key n = k"
    using Cons.IH [of "st\<lparr>fs_sent := fs_sent st @ ns\<rparr>"] by auto
  show ?case
    by (rule exI [of _ "ns @ ms"]) (use one rest in \<open>auto simp: op_then_def\<close>)
qed

lemma fire_effects_sent:
  "\<exists>ns. fs_sent (fire_effects env b j st) = fs_sent st @ ns \<and> map addressee ns = recipients env j \<and>
    (\<forall>n\<in>set ns. nt_key n = job_key j)" "crossing_keys (fire_effects env b j st) = crossing_keys st"
proof -
  show "\<exists>ns. fs_sent (fire_effects env b j st) = fs_sent st @ ns \<and> map addressee ns = recipients env j \<and>
    (\<forall>n\<in>set ns. nt_key n = job_key j)"
  proof (cases "fj_target j")
    case (Some target)
    show ?thesis
    proof (cases "fe_tenant env")
      case None
      with Some show ?thesis
        by (auto simp: fire_effects_def Let_def recipients_def sendToTeam_def send_notification_def split: fire_target.split)
    next
      case tenant: (Some tn)
      then show ?thesis
      proof (cases target)
        case (ToPerson p)
        obtain ns ids where "send_notification env (job_key j) p None (en_id (fj_ticket j)) (fire_copy env j) st = (Inr ids, st\<lparr>fs_sent := fs_sent st @ ns\<rparr>)"
          "map addressee ns = map (Pair p) (fe_channels env (ti_id tn) p)" "\<forall>n\<in>set ns. nt_key n = job_key j"
          using send_notification_sent [OF tenant] by blast
        then show ?thesis using Some ToPerson tenant
          by (intro exI [of _ ns]) (simp add: fire_effects_def Let_def recipients_def)
      next
        case (ToTeam team)
        obtain ns ids where "send_each env (job_key j) (fe_members env (ti_id tn) team) team (en_id (fj_ticket j)) (fire_copy env j) st = (Inr ids, st\<lparr>fs_sent := fs_sent st @ ns\<rparr>)"
          "map addressee ns = concat (map (\<lambda>p. map (Pair p) (fe_channels env (ti_id tn) p)) (fe_members env (ti_id tn) team))"
          "\<forall>n\<in>set ns. nt_key n = job_key j"
          using send_each_sent [OF tenant] by blast
        then show ?thesis using Some ToTeam tenant
          by (intro exI [of _ ns]) (simp add: fire_effects_def Let_def recipients_def sendToTeam_def)
      qed
    qed
  qed (simp add: fire_effects_def recipients_def split: option.split)
next
  have "fs_db (snd (send_notification env k p team e copy st)) = fs_db st" for k p team e copy st
    by (simp add: send_notification_def Let_def split: option.split)
  moreover have "fs_db (snd (send_each env k ps team e copy st)) = fs_db st" for k ps team e copy
    using calculation by (induction ps arbitrary: st) (simp_all add: snd_op_then split: sum.split)
  ultimately have "crossing_keys (snd (send_notification env k p team e copy st)) = crossing_keys st"
    "crossing_keys (snd (sendToTeam env k tm e copy st)) = crossing_keys st" for k p team tm e copy
    by (simp_all add: crossing_keys_def sendToTeam_def split: option.split)
  then show "crossing_keys (fire_effects env b j st) = crossing_keys st"
    by (simp add: fire_effects_def Let_def split: option.split fire_target.split)
qed

text \<open>The notifications of a key are none, or those of one firing: its recipients, each once, in the order of the loop.\<close>

definition sent_by :: "fire_env \<Rightarrow> crossing_key \<Rightarrow> (ident \<times> string) list \<Rightarrow> fire_job \<Rightarrow> bool" where
  "sent_by env k as j \<longleftrightarrow> job_key j = k \<and> as = recipients env j"



declare split_paired_All [simp del]



text \<open>A phase keeps the key and the recipients of its job.\<close>

lemma job_phase [simp]: "job_key (j\<lparr>fj_phase := ph\<rparr>) = job_key j" "recipients env (j\<lparr>fj_phase := ph\<rparr>) = recipients env j"
  by (cases "fe_tenant env"; simp add: job_key_def recipients_def)+

lemma sent_by_phase [simp]: "sent_by env k as (j\<lparr>fj_phase := ph\<rparr>) \<longleftrightarrow> sent_by env k as j"
  by (simp add: sent_by_def)






lemma fire_step_simps:
  "fj_phase j = FireAssign \<Longrightarrow> fire_step env j st = (j\<lparr>fj_phase := fst (fire_assign env j st)\<rparr>, snd (fire_assign env j st))"
  "fj_phase j = FireClaim b \<Longrightarrow> fire_step env j st = (j\<lparr>fj_phase := fst (fire_claim b j st)\<rparr>, snd (fire_claim b j st))"
  "fj_phase j = FireEffects b \<Longrightarrow> fire_step env j st = (j\<lparr>fj_phase := FireDone\<rparr>, fire_effects env b j st)"
  "fj_phase j = FireDone \<Longrightarrow> fire_step env j st = (j, st)"
  "fj_phase j = FireFailed e \<Longrightarrow> fire_step env j st = (j, st)"
  by (simp_all add: fire_step_def split: prod.split)





subsection \<open>One pass\<close>

lemma fire_step_keys:
  assumes "rpc_laws env"
  shows "set (crossing_keys (snd (fire_step env j st))) \<subseteq> insert (job_key j) (set (crossing_keys st))"
    "job_key (fst (fire_step env j st)) = job_key j"
proof -
  have *: "crossing_keys (snd (fire_assign env j st)) = crossing_keys st"
    by (simp add: crossing_keys_def fire_assign_keeps [OF assms])
  have **: "set (crossing_keys (snd (fire_claim b j st))) \<subseteq> insert (job_key j) (set (crossing_keys st))" for b
    by (cases rule: fire_claim_cases [of b j st]) auto
  show "set (crossing_keys (snd (fire_step env j st))) \<subseteq> insert (job_key j) (set (crossing_keys st))"
    "job_key (fst (fire_step env j st)) = job_key j"
    using ** by (cases "fj_phase j"; auto simp: fire_step_simps * fire_effects_sent(2) job_key_def)+
qed

lemma fireThreshold_steps:
  "snd (fireThreshold env timer t st) = (case fire_load timer t (fs_db st) of Inl _ \<Rightarrow> st
     | Inr j \<Rightarrow> let r1 = fire_step env j st; r2 = fire_step env (fst r1) (snd r1) in snd (fire_step env (fst r2) (snd r2)))"
  by (simp add: fireThreshold_def Let_def split: sum.split prod.split)

lemma fire_load_job:
  assumes "fire_load timer t db = Inr j"
  shows "job_key j = (st_id timer, th_at_percent t, st_timer_type timer)" "fj_phase j = FireAssign" "fj_timer j = timer"
    "fj_threshold j = t"
  using assms by (auto simp: fire_load_def and_then_Inr_iff Let_def job_key_def)

lemma fireThreshold_keys:
  assumes "rpc_laws env"
  shows "set (crossing_keys (snd (fireThreshold env timer t st))) \<subseteq>
    insert (st_id timer, th_at_percent t, st_timer_type timer) (set (crossing_keys st))"
proof (cases "fire_load timer t (fs_db st)")
  case (Inr j)
  note k = fire_step_keys [OF assms]
  show ?thesis
    using k(1) [of j st] k(1) [of "fst (fire_step env j st)" "snd (fire_step env j st)"]
      k(1) [of "fst (fire_step env (fst (fire_step env j st)) (snd (fire_step env j st)))"
        "snd (fire_step env (fst (fire_step env j st)) (snd (fire_step env j st)))"] k(2)
      fire_load_job(1) [OF Inr]
    by (simp add: fireThreshold_steps Inr Let_def) blast
qed (auto simp: fireThreshold_steps)

lemma fire_all_keys:
  assumes "rpc_laws env"
  shows "set (crossing_keys (snd (fire_all env timer ts fired st))) \<subseteq>
    (\<lambda>t. (st_id timer, th_at_percent t, st_timer_type timer)) ` set ts \<union> set (crossing_keys st)"
proof (induction ts arbitrary: fired st)
  case (Cons t ts)
  obtain r st' where run: "fireThreshold env timer t st = (r, st')" by force
  with fireThreshold_keys [OF assms, of timer t st]
  have "set (crossing_keys st') \<subseteq> insert (st_id timer, th_at_percent t, st_timer_type timer) (set (crossing_keys st))" by simp
  with Cons.IH [of _ st'] run show ?case by (cases r) fastforce+
qed simp

lemma applicable_percent:
  "t \<in> set (applicable now db fired timer) \<Longrightarrow> of_int (th_at_percent t) \<le> percentElapsed timer now"
  by (simp add: applicable_def selectApplicableThresholds_def)

lemma process_timers_keys:
  assumes "rpc_laws env"
  shows "set (crossing_keys (process_timers env now db timers fired st)) \<subseteq> set (crossing_keys st) \<union>
    {k. \<exists>timer\<in>set timers. of_int (fst (snd k)) \<le> percentElapsed timer now}"
proof (induction timers arbitrary: fired st)
  case (Cons timer timers)
  obtain fired' st' where run: "fire_all env timer (applicable now db fired timer) fired st = (fired', st')" by force
  have "set (crossing_keys st') \<subseteq> set (crossing_keys st) \<union> {k. of_int (fst (snd k)) \<le> percentElapsed timer now}"
    using fire_all_keys [OF assms, of timer "applicable now db fired timer" fired st] run applicable_percent by force
  with Cons.IH [of fired' st'] run show ?case by (auto; blast)
qed simp

lemma percent_before_due:
  assumes "now \<le> st_due_at t"
  shows "percentElapsed t now \<le> 100"
proof (cases "st_due_at t - st_started_at t \<le> 0")
  case False
  let ?tot = "st_due_at t - st_started_at t"
  have "(of_int (now - st_started_at t) :: rat) \<le> of_int ?tot" using assms by (simp only: of_int_le_iff)
  then have "(of_int (now - st_started_at t) :: rat) / of_int ?tot \<le> 1" using False by simp
  then have "(of_int (now - st_started_at t) :: rat) / of_int ?tot * 100 \<le> 1 * 100" by (rule mult_right_mono) simp
  with False show ?thesis by (simp add: percentElapsed_def Let_def)
qed (simp add: percentElapsed_def Let_def)

lemma watched_not_due:
  assumes "pick_law env" "length (filter (\<lambda>t. watched t \<and> st_due_at t < now) (sd_timers db)) \<le> 100"
    "t \<in> set (sd_timers (mark_breaches env True now db))" "watched t"
  shows "now \<le> st_due_at t"
proof (rule ccontr)
  assume "\<not> now \<le> st_due_at t"
  then have due: "st_due_at t < now" by simp
  let ?due = "filter (\<lambda>t. watched t \<and> st_due_at t < now) (sd_timers db)"
  have all: "set (overdue env now db) = set ?due" using assms(1,2) unfolding overdue_def pick_law_def by blast
  show False
  proof (cases "overdue env now db = []")
    case True
    then have "t \<in> set (sd_timers db)" using assms(3) by (simp add: mark_breaches_def breach_batch_def)
    with due assms(4) all True show False by simp
  next
    case False
    let ?ids = "map st_id (overdue env now db)"
    from assms(3) False have "t \<in> set (update_where (\<lambda>t. st_id t \<in> set ?ids \<and> \<not> st_breached t)
        (\<lambda>t. t\<lparr>st_breached := True, st_breached_at := Some now\<rparr>) (sd_timers db))"
      by (simp add: mark_breaches_def breach_batch_def Let_def sd_timers_batch)
    then obtain u where u: "u \<in> set (sd_timers db)"
      "t = (if st_id u \<in> set ?ids \<and> \<not> st_breached u then u\<lparr>st_breached := True, st_breached_at := Some now\<rparr> else u)"
      unfolding set_update_where by blast
    with assms(4) have "t = u" "\<not> (st_id t \<in> set ?ids \<and> \<not> st_breached t)" by (auto simp: watched_def split: if_splits)
    with u(1) due assms(4) all show False by (auto simp: watched_def)
  qed
qed

lemma runBreachCheck_keys:
  assumes "pick_law env" "rpc_laws fenv" "length (filter (\<lambda>t. watched t \<and> st_due_at t < now) (sd_timers (fs_db st))) \<le> 100"
    "k \<in> set (crossing_keys (runBreachCheck env fenv True now st))" "k \<notin> set (crossing_keys st)"
  shows "fst (snd k) \<le> 100"
proof -
  define st1 where "st1 = in_db (\<lambda>db. mark_at_risk env now (mark_breaches env True now db)) st"
  have keys: "crossing_keys st1 = crossing_keys st"
  proof -
    have "sd_crossings (fold flag_at_risk xs d) = sd_crossings d" for xs d
      by (induction xs arbitrary: d) (simp_all add: flag_at_risk_def Let_def)
    then show ?thesis
      by (simp add: st1_def crossing_keys_def mark_at_risk_def mark_breaches_def breach_batch_def mark_sla_breached_batch_def update_timers_def Let_def)
  qed
  let ?timers = "take 500 (sort_key st_due_at (filter watched (sd_timers (fs_db st1))))"
  from assms(4) have "k \<in> set (crossing_keys st1) \<union> {k. \<exists>timer\<in>set ?timers. of_int (fst (snd k)) \<le> percentElapsed timer now}"
    using process_timers_keys [OF assms(2), of now "fs_db st1" ?timers _ st1]
    by (auto simp: runBreachCheck_def processThresholds_def Let_def st1_def [symmetric])
  with assms(5) keys obtain timer where t: "timer \<in> set ?timers" "of_int (fst (snd k)) \<le> percentElapsed timer now" by auto
  from t(1) have "timer \<in> set (sd_timers (fs_db st1))" "watched timer" by (auto dest: in_set_takeD)
  then have "now \<le> st_due_at timer"
    using watched_not_due [OF assms(1,3)] by (simp add: st1_def mark_at_risk_timers)
  from order_trans [OF t(2) percent_before_due [OF this]] show ?thesis by simp
qed

text \<open>Without a tenant context nothing is sent.\<close>

lemma fireThreshold_no_tenant:
  assumes "rpc_laws env" "fe_tenant env = None"
  shows "fs_sent (snd (fireThreshold env timer t st)) = fs_sent st"
proof -
  have "fs_sent (snd (fire_step env j st)) = fs_sent st" for j st
  proof (cases "fj_phase j")
    case (FireClaim b)
    then show ?thesis by (cases rule: fire_claim_cases [of b j st]) (simp_all add: fire_step_simps)
  next
    case (FireEffects b)
    with fire_effects_sent(1) [of env b j st] show ?thesis
      by (auto simp: fire_step_simps recipients_def assms(2))
  qed (simp_all add: fire_step_simps fire_assign_keeps [OF assms(1)])
  then show ?thesis by (simp add: fireThreshold_steps Let_def split: sum.split)
qed

lemma runBreachCheck_no_tenant:
  assumes "rpc_laws fenv" "fe_tenant fenv = None"
  shows "fs_sent (runBreachCheck env fenv ok now st) = fs_sent st"
proof -
  have all: "fs_sent (snd (fire_all fenv timer ts fired st)) = fs_sent st" for timer ts fired st
  proof (induction ts arbitrary: fired st)
    case (Cons t ts)
    obtain r st' where run: "fireThreshold fenv timer t st = (r, st')" by force
    with fireThreshold_no_tenant [OF assms, of timer t st] Cons.IH [of _ st'] show ?case by (cases r) simp_all
  qed simp
  have "fs_sent (process_timers fenv now db timers fired st) = fs_sent st" for db timers fired st
  proof (induction timers arbitrary: fired st)
    case (Cons timer timers)
    then show ?case using all by (simp split: prod.split) (metis snd_conv)
  qed simp
  then show ?thesis by (simp add: runBreachCheck_def processThresholds_def Let_def)
qed

subsection \<open>The validator of thresholds\<close>

definition is_hex :: "char \<Rightarrow> bool" where
  "is_hex c \<longleftrightarrow> (CHR ''0'' \<le> c \<and> c \<le> CHR ''9'') \<or> (CHR ''a'' \<le> c \<and> c \<le> CHR ''f'') \<or> (CHR ''A'' \<le> c \<and> c \<le> CHR ''F'')"

definition is_uuid :: "string \<Rightarrow> bool" where
  "is_uuid s \<longleftrightarrow> map length (split_on (CHR ''-'') s) = [8, 4, 4, 4, 12] \<and> list_all (list_all is_hex) (split_on (CHR ''-'') s)"

definition scope_of_text :: "jsval \<Rightarrow> ThresholdTimerScope option" where
  "scope_of_text v =
     (if v = JStr ''response'' then Some (OneTimer Response) else if v = JStr ''resolution'' then Some (OneTimer Resolution)
      else if v = JStr ''both'' then Some BothTimers else None)"

definition action_of_text :: "jsval \<Rightarrow> ThresholdAction option" where
  "action_of_text v = (if v = JStr ''notify'' then Some Notify else if v = JStr ''escalate'' then Some Escalate else None)"

definition target_of_text :: "jsval \<Rightarrow> ThresholdTargetType option" where
  "target_of_text v =
     (if v = JStr ''user'' then Some TargetUser else if v = JStr ''team'' then Some TargetTeam
      else if v = JStr ''manager_of_requester'' then Some TargetManager else None)"

definition percent_of :: "jsval \<Rightarrow> int option" where
  "percent_of v = (case v of JNum q \<Rightarrow> if isInteger q \<and> 1 \<le> q \<and> q \<le> 200 then Some \<lfloor>q\<rfloor> else None | _ \<Rightarrow> None)"

definition target_id_of :: "ThresholdTargetType \<Rightarrow> jsval \<Rightarrow> ident_opt option" where
  "target_id_of ty v =
     (if ty = TargetManager then (if is_nullish v then Some None else None)
      else (case v of JStr s \<Rightarrow> if is_uuid s then Some (Some s) else None | _ \<Rightarrow> None))"

definition read_threshold :: "jsval \<Rightarrow> EscalationThreshold option" where
  "read_threshold raw =
     (case raw of
        JObj fs \<Rightarrow>
          Option.bind (percent_of (obj_get fs ''at_percent'')) (\<lambda>p.
          Option.bind (scope_of_text (obj_get fs ''timer_type'')) (\<lambda>sc.
          Option.bind (action_of_text (obj_get fs ''action'')) (\<lambda>a.
          Option.bind (target_of_text (obj_get fs ''target_type'')) (\<lambda>ty.
          Option.bind (target_id_of ty (obj_get fs ''target_id'')) (\<lambda>i.
            Some \<lparr>th_at_percent = p, th_timer_type = sc, th_action = a, th_target_type = ty, th_target_id = i\<rparr>)))))
      | _ \<Rightarrow> None)"

fun read_thresholds :: "jsval list \<Rightarrow> EscalationThreshold list \<Rightarrow> EscalationThreshold list result" where
  "read_thresholds [] out = Inr out"
| "read_thresholds (raw # raws) out =
     (case read_threshold raw of
        None \<Rightarrow> Inl (ValidationFailed ''sla.threshold_invalid'')
      | Some t \<Rightarrow>
          if (th_at_percent t, th_timer_type t) \<in> (\<lambda>u. (th_at_percent u, th_timer_type u)) ` set out
          then Inl (ValidationFailed ''sla.threshold_invalid'')
          else read_thresholds raws (out @ [t]))"

definition validateEscalationThresholds :: "jsval \<Rightarrow> EscalationThreshold list result" where
  "validateEscalationThresholds input =
     (if is_nullish input then Inr []
      else (case input of JArr raws \<Rightarrow> read_thresholds raws [] | _ \<Rightarrow> Inl (ValidationFailed ''sla.threshold_invalid'')))"

definition threshold_ok :: "EscalationThreshold \<Rightarrow> bool" where
  "threshold_ok t \<longleftrightarrow> 1 \<le> th_at_percent t \<and> th_at_percent t \<le> 200 \<and>
     (case th_target_id t of None \<Rightarrow> th_target_type t = TargetManager | Some i \<Rightarrow> th_target_type t \<noteq> TargetManager \<and> is_uuid i)"

lemma percent_of_range: "percent_of v = Some p \<Longrightarrow> 1 \<le> p \<and> p \<le> 200"
  by (cases v) (auto simp: percent_of_def le_floor_iff floor_le_iff split: if_splits)

lemma target_id_of_ok:
  "target_id_of ty v = Some i \<Longrightarrow> (case i of None \<Rightarrow> ty = TargetManager | Some x \<Rightarrow> ty \<noteq> TargetManager \<and> is_uuid x)"
  by (cases v) (auto simp: target_id_of_def split: if_splits)

lemma read_threshold_ok:
  assumes "read_threshold raw = Some t"
  shows "threshold_ok t"
proof (cases raw)
  case (JObj fs)
  from assms obtain p sc a ty i where parts: "percent_of (obj_get fs ''at_percent'') = Some p"
    "target_id_of ty (obj_get fs ''target_id'') = Some i"
    "t = \<lparr>th_at_percent = p, th_timer_type = sc, th_action = a, th_target_type = ty, th_target_id = i\<rparr>"
    unfolding read_threshold_def JObj jsval.case bind_eq_Some_conv by blast
  from percent_of_range [OF parts(1)] target_id_of_ok [OF parts(2)] show ?thesis
    by (cases i) (simp_all add: parts(3) threshold_ok_def)
qed (use assms in \<open>simp_all add: read_threshold_def\<close>)

lemma read_thresholds_ok:
  assumes "read_thresholds raws out = Inr ts" "\<forall>t\<in>set out. threshold_ok t"
    "distinct (map (\<lambda>u. (th_at_percent u, th_timer_type u)) out)"
  shows "(\<forall>t\<in>set ts. threshold_ok t) \<and> distinct (map (\<lambda>u. (th_at_percent u, th_timer_type u)) ts)"
  using assms
proof (induction raws arbitrary: out)
  case (Cons raw raws)
  obtain t where t: "read_threshold raw = Some t"
    "(th_at_percent t, th_timer_type t) \<notin> (\<lambda>u. (th_at_percent u, th_timer_type u)) ` set out"
    "read_thresholds raws (out @ [t]) = Inr ts"
    using Cons.prems(1) by (cases "read_threshold raw") (simp_all split: if_split_asm)
  have "\<forall>u\<in>set (out @ [t]). threshold_ok u"
    using Cons.prems(2) read_threshold_ok [OF t(1)] by simp
  moreover have "distinct (map (\<lambda>u. (th_at_percent u, th_timer_type u)) (out @ [t]))"
    using Cons.prems(3) t(2) by simp
  ultimately show ?case by (rule Cons.IH [OF t(3)])
qed simp

subsection \<open>An example\<close>

definition ex_fire_env :: "TenantInfo option \<Rightarrow> fire_env" where
  "ex_fire_env tenant = \<lparr>fe_tenant = tenant, fe_iso = \<lambda>_. ''due'',
     fe_assign = \<lambda>call st. Some (st\<lparr>fs_done := (as_tenant_id call, as_key call) # fs_done st\<rparr>), fe_watch = \<lambda>_ st. Some st,
     fe_channels = \<lambda>_ _. [''email'', ''in_app''], fe_members = \<lambda>_ _. [''p3''], fe_notification_id = \<lambda>_. ''n''\<rparr>"

definition ex_fire_state :: fire_state where
  "ex_fire_state = \<lparr>fs_db = ex_sla_db, fs_sent = [], fs_done = []\<rparr>"

definition ex_tenant :: TenantInfo where
  "ex_tenant = \<lparr>ti_id = ''t1'', ti_slug = ''acme'', ti_tier = Standard\<rparr>"

lemma ex_rpc_laws: "rpc_laws (ex_fire_env tenant)"
  by (auto simp: rpc_laws_def ex_fire_env_def)

subsection \<open>The pass as a run\<close>

lemma run_trans: "(fire_run env)\<^sup>*\<^sup>* w v \<Longrightarrow> fire_run env v u \<Longrightarrow> (fire_run env)\<^sup>*\<^sup>* w u"
  by (rule rtranclp.rtrancl_into_rtrancl)

lemma phase_last:
  assumes "fire_step env j st = (j', st')"
  shows "fire_run env (jobs @ [j], st) (jobs @ [j'], st')"
  using fire_run.phase [of "length jobs" "jobs @ [j]" env st j' st'] assms by (simp add: nth_append)

lemma firing_is_run: "\<exists>jobs'. (fire_run env)\<^sup>*\<^sup>* (jobs, st) (jobs', snd (fireThreshold env timer t st))"
proof (cases "fire_load timer t (fs_db st)")
  case (Inr j)
  obtain j1 st1 j2 st2 j3 st3 where steps: "fire_step env j st = (j1, st1)" "fire_step env j1 st1 = (j2, st2)"
    "fire_step env j2 st2 = (j3, st3)" by (meson surj_pair)
  have "(fire_run env)\<^sup>*\<^sup>* (jobs, st) (jobs @ [j3], st3)"
    using fire_run.start [OF Inr, of env jobs] steps [THEN phase_last, of jobs]
    by (meson r_into_rtranclp run_trans)
  with steps show ?thesis by (auto simp: fireThreshold_def Inr)
qed (auto simp: fireThreshold_def)

lemma fire_all_is_run: "\<exists>jobs'. (fire_run env)\<^sup>*\<^sup>* (jobs, st) (jobs', snd (fire_all env timer ts fired st))"
proof (induction ts arbitrary: fired st jobs)
  case (Cons t ts)
  obtain r st' where run: "fireThreshold env timer t st = (r, st')" by force
  with firing_is_run [of env jobs st timer t] obtain jobs' where first: "(fire_run env)\<^sup>*\<^sup>* (jobs, st) (jobs', st')" by auto
  show ?case
  proof (cases r)
    case (Inl e)
    have "fire_run env (jobs', st') (jobs', snd (fire_all env timer (t # ts) fired st))"
      by (rule fire_run.other) (simp_all add: run Inl)
    with first show ?thesis by (meson run_trans)
  next
    case (Inr u)
    with run Cons.IH [where jobs = jobs' and st = st'] first show ?thesis by simp (meson rtranclp_trans)
  qed
qed auto

lemma process_timers_is_run:
  "\<exists>jobs'. (fire_run env)\<^sup>*\<^sup>* (jobs, st) (jobs', process_timers env now db timers fired st)"
proof (induction timers arbitrary: fired st jobs)
  case (Cons timer timers)
  obtain fired' st' where run: "fire_all env timer (applicable now db fired timer) fired st = (fired', st')" by force
  with fire_all_is_run [of env jobs st timer "applicable now db fired timer" fired]
  obtain jobs' where "(fire_run env)\<^sup>*\<^sup>* (jobs, st) (jobs', st')" by auto
  with run Cons.IH [where jobs = jobs' and st = st' and fired = fired'] show ?case by simp (meson rtranclp_trans)
qed auto

lemma marks_keep_crossings: "sd_crossings (mark_at_risk env now (mark_breaches env ok now db)) = sd_crossings db"
proof -
  have "sd_crossings (fold flag_at_risk xs d) = sd_crossings d" for xs d
    by (induction xs arbitrary: d) (simp_all add: flag_at_risk_def Let_def)
  then show ?thesis
    by (simp add: mark_at_risk_def mark_breaches_def breach_batch_def mark_sla_breached_batch_def update_timers_def Let_def)
qed

text \<open>A pass is a run of the step relation, so what holds of all runs holds of passes, overlapping or not.\<close>

lemma pass_is_run: "\<exists>jobs'. (fire_run fenv)\<^sup>*\<^sup>* (jobs, st) (jobs', runBreachCheck env fenv ok now st)"
proof -
  define st1 where "st1 = in_db (\<lambda>db. mark_at_risk env now (mark_breaches env ok now db)) st"
  have "fire_run fenv (jobs, st) (jobs, st1)"
    by (rule fire_run.other) (simp_all add: st1_def marks_keep_crossings)
  moreover obtain jobs' where "(fire_run fenv)\<^sup>*\<^sup>* (jobs, st1) (jobs', runBreachCheck env fenv ok now st)"
    using process_timers_is_run unfolding runBreachCheck_def processThresholds_def Let_def st1_def by blast
  ultimately show ?thesis by (meson converse_rtranclp_into_rtranclp)
qed




definition ex_job :: fire_job where
  "ex_job = (case fire_load ex_timer (hd (policy_thresholds ex_timer ex_sla_db)) ex_sla_db of Inr j \<Rightarrow> j)"

lemma ex_threshold:
  "policy_thresholds ex_timer ex_sla_db = the (sp_escalation_thresholds ex_policy)"
  by (simp add: policy_thresholds_def find_policy_def ex_sla_db_def ex_policy_def ex_timer_def)

lemma ex_job_loads:
  "fire_load ex_timer (hd (policy_thresholds ex_timer ex_sla_db)) ex_sla_db =
    Inr \<lparr>fj_timer = ex_timer, fj_threshold = hd (the (sp_escalation_thresholds ex_policy)), fj_ticket = ex_case, fj_kind = ''case'',
     fj_target = Some (ToPerson ''p2''), fj_policy_name = ''Gold'', fj_target_name = ''person'', fj_phase = FireAssign\<rparr>"
  unfolding ex_threshold
  by (simp add: fire_load_def loadTicketForFire_def row_in_tenant_def ex_sla_db_def ex_timer_def ex_case_def resolveTarget_def
    ex_policy_def loadPolicyName_def find_policy_def resolveTargetName_def)

lemma ex_job_simp:
  "ex_job = \<lparr>fj_timer = ex_timer, fj_threshold = hd (the (sp_escalation_thresholds ex_policy)), fj_ticket = ex_case, fj_kind = ''case'',
     fj_target = Some (ToPerson ''p2''), fj_policy_name = ''Gold'', fj_target_name = ''person'', fj_phase = FireAssign\<rparr>"
  unfolding ex_job_def ex_job_loads by simp



text \<open>
  C36. A failed firing leaves no crossing. When firing a threshold fails (the assignment is refused, the ticket is gone,
  the row cannot be written) the recorded crossings are those from before. A later pass can therefore fire it, but only
  while that pass still reads the timer: once the timer is marked breached it is read no more.
\<close>

theorem failed_firing_not_recorded:
  assumes "rpc_laws env" "fst (fireThreshold env timer t st) = Inl e"
  shows "crossing_keys (snd (fireThreshold env timer t st)) = crossing_keys st"
proof (cases "fire_load timer t (fs_db st)")
  case (Inr j)
  obtain j1 st1 where one: "fire_step env j st = (j1, st1)" by force
  have assign: "j1 = j\<lparr>fj_phase := fst (fire_assign env j st)\<rparr>" "crossing_keys st1 = crossing_keys st"
    using one fire_load_job(2) [OF Inr] fire_assign_keeps(1) [OF assms(1), of j st]
    by (auto simp: fire_step_simps crossing_keys_def)
  show ?thesis
  proof (cases "fj_phase j1")
    case (FireClaim b)
    show ?thesis
    proof (cases rule: fire_claim_cases [of b j1 st1])
      case 1
      with assms(2) one FireClaim show ?thesis by (simp add: fireThreshold_def Inr fire_step_simps)
    next
      case 2
      with assms(2) one FireClaim show ?thesis by (simp add: fireThreshold_def Inr fire_step_simps)
    next
      case (3 e)
      with one FireClaim assign(2) show ?thesis by (simp add: fireThreshold_def Inr fire_step_simps)
    qed
  next
    case (FireFailed e)
    with one assign(2) show ?thesis by (simp add: fireThreshold_def Inr fire_step_simps)
  qed (use assign(1) in \<open>auto simp: fire_assign_def split: option.splits if_splits prod.splits sum.splits\<close>)
qed (simp add: fireThreshold_def)

definition ex_escalation :: EscalationThreshold where
  "ex_escalation = \<lparr>th_at_percent = 80, th_timer_type = OneTimer Resolution, th_action = Escalate, th_target_type = TargetTeam,
     th_target_id = Some ''team''\<rparr>"

lemmas ex_fire_simps = fire_load_def loadTicketForFire_def row_in_tenant_def ex_sla_db_def ex_timer_def ex_case_def
  resolveTarget_def ex_escalation_def loadPolicyName_def find_policy_def resolveTargetName_def ex_fire_state_def ex_policy_def

lemma failed_firing_not_recorded_witness:
  "crossing_keys (snd (fireThreshold ((ex_fire_env None)\<lparr>fe_assign := \<lambda>_ _. None\<rparr>) ex_timer ex_escalation ex_fire_state)) = []"
proof -
  let ?env = "(ex_fire_env None)\<lparr>fe_assign := \<lambda>_ _. None\<rparr>"
  have "rpc_laws ?env" by (simp add: rpc_laws_def ex_fire_env_def)
  moreover have "fst (fireThreshold ?env ex_timer ex_escalation ex_fire_state) = Inl (PlainError ''set_entity_assignment'')"
    by (simp add: fireThreshold_def ex_fire_simps fire_step_def fire_assign_def applyReassignment_def Let_def new_assignment_def
      outgoing_person_def resolvePersonIdForUser_def ex_fire_env_def)
  ultimately have "crossing_keys (snd (fireThreshold ?env ex_timer ex_escalation ex_fire_state)) = crossing_keys ex_fire_state"
    by (rule failed_firing_not_recorded)
  then show ?thesis by (simp add: crossing_keys_def ex_fire_state_def ex_sla_db_def)
qed

text \<open>
  C37. An escalation behind a notification. A firing that finds its crossing taken, by another pass or by another
  threshold with the same percentage (the validator accepts one for both timers beside one for this timer), still
  assigns the entity, and this assignment is all it does: no crossing, no notification and no event tell of it.
\<close>

theorem lost_claim_silent:
  assumes "rpc_laws env" "fire_load timer t (fs_db st) = Inr j" "job_key j \<in> set (crossing_keys st)"
  shows "snd (fireThreshold env timer t st) = snd (fire_assign env j st)"
proof -
  obtain j1 st1 where one: "fire_step env j st = (j1, st1)" by force
  have assign: "j1 = j\<lparr>fj_phase := fst (fire_assign env j st)\<rparr>" "st1 = snd (fire_assign env j st)" "crossing_keys st1 = crossing_keys st"
    using one fire_load_job(2) [OF assms(2)] fire_assign_keeps(1) [OF assms(1), of j st]
    by (auto simp: fire_step_simps crossing_keys_def)
  have key: "job_key j1 \<in> set (crossing_keys st1)" using assign assms(3) by (simp add: job_key_def)
  show ?thesis
  proof (cases "fj_phase j1")
    case (FireClaim b)
    show ?thesis
    proof (cases rule: fire_claim_cases [of b j1 st1])
      case 1
      with key show ?thesis by simp
    next
      case 2
      with one FireClaim assign(2) show ?thesis by (simp add: fireThreshold_def assms(2) fire_step_simps)
    next
      case (3 e)
      with one FireClaim assign(2) show ?thesis by (simp add: fireThreshold_def assms(2) fire_step_simps)
    qed
  next
    case (FireFailed e)
    with one assign(2) show ?thesis by (simp add: fireThreshold_def assms(2) fire_step_simps)
  qed (use assign(1) in \<open>auto simp: fire_assign_def split: option.splits if_splits prod.splits sum.splits\<close>)
qed

definition ex_crossed :: fire_state where
  "ex_crossed = ex_fire_state\<lparr>fs_db := ex_sla_db\<lparr>sd_crossings := [crossing_of ex_job]\<rparr>\<rparr>"

lemma lost_claim_silent_witness:
  "fs_done (snd (fireThreshold (ex_fire_env (Some ex_tenant)) ex_timer ex_escalation ex_crossed)) =
     [(''t1'', buildSlaEscalationIdempotencyKey ''timer'' 80 Resolution)] \<and>
   fs_sent (snd (fireThreshold (ex_fire_env (Some ex_tenant)) ex_timer ex_escalation ex_crossed)) = []"
proof -
  let ?env = "ex_fire_env (Some ex_tenant)"
  have "\<exists>j. fire_load ex_timer ex_escalation (fs_db ex_crossed) = Inr j \<and> job_key j \<in> set (crossing_keys ex_crossed) \<and>
    fs_done (snd (fire_assign ?env j ex_crossed)) = [(''t1'', buildSlaEscalationIdempotencyKey ''timer'' 80 Resolution)] \<and>
    fs_sent (snd (fire_assign ?env j ex_crossed)) = []"
    by (simp add: ex_crossed_def ex_job_simp ex_fire_simps crossing_keys_def job_key_def key_of_def crossing_of_def fire_assign_def
      applyReassignment_def Let_def new_assignment_def outgoing_person_def resolvePersonIdForUser_def ex_fire_env_def copy_watcher_def)
  then show ?thesis using lost_claim_silent [OF ex_rpc_laws, of ex_timer ex_escalation ex_crossed] by metis
qed

text \<open>
  C38. Thresholds past the deadline. A pass that gets to mark all that is overdue never records a crossing above a
  hundred percent: the timers that could have one are marked as breached before the thresholds are read, and the
  reading leaves breached timers out. The validator accepts thresholds up to two hundred percent.
\<close>

theorem late_thresholds_never_fire:
  assumes "pick_law env" "rpc_laws fenv" "length (filter (\<lambda>t. watched t \<and> st_due_at t < now) (sd_timers (fs_db st))) \<le> 100"
    "100 < fst (snd k)" "k \<notin> set (crossing_keys st)"
  shows "k \<notin> set (crossing_keys (runBreachCheck env fenv True now st))"
  using runBreachCheck_keys [OF assms(1-3), of k] assms(4,5) by fastforce

lemma late_thresholds_never_fire_witness:
  "percentElapsed ex_timer (ex_friday + 12000000) = 200 \<and> th_at_percent (policy_thresholds ex_timer ex_sla_db ! 1) = 120 \<and>
   (''timer'', 120, Resolution) \<notin>
     set (crossing_keys (runBreachCheck ex_sla_env (ex_fire_env (Some ex_tenant)) True (ex_friday + 12000000) ex_fire_state))"
proof -
  have "(''timer'', 120, Resolution) \<notin>
     set (crossing_keys (runBreachCheck ex_sla_env (ex_fire_env (Some ex_tenant)) True (ex_friday + 12000000) ex_fire_state))"
    by (rule late_thresholds_never_fire [OF ex_pick_law ex_rpc_laws])
      (simp_all add: ex_fire_state_def ex_sla_db_def crossing_keys_def)
  moreover have "th_at_percent (policy_thresholds ex_timer ex_sla_db ! 1) = 120"
    unfolding ex_threshold by (simp add: ex_policy_def)
  moreover have "percentElapsed ex_timer (ex_friday + 12000000) = 200"
    by (simp add: percentElapsed_def ex_timer_def)
  ultimately show ?thesis by blast
qed

fun run_ticks :: "sla_env \<Rightarrow> fire_env \<Rightarrow> (bool \<times> int) list \<Rightarrow> fire_state \<Rightarrow> fire_state" where
  "run_ticks env fenv [] st = st"
| "run_ticks env fenv ((ok, now) # ticks) st = run_ticks env fenv ticks (runBreachCheck env fenv ok now st)"

text \<open>
  C39. Notifications from the schedule. The scheduled passes run without a tenant context, and however often they run
  they send no notification, while the crossings they record keep later passes from trying again.
\<close>

theorem cron_sends_nothing:
  assumes "rpc_laws fenv" "fe_tenant fenv = None"
  shows "fs_sent (run_ticks env fenv ticks st) = fs_sent st"
  by (induction ticks arbitrary: st) (auto simp: runBreachCheck_no_tenant [OF assms])

lemma ex_tick:
  "crossing_keys (runBreachCheck ex_sla_env (ex_fire_env None) True (ex_friday + 5100000) ex_fire_state) = [(''timer'', 80, Resolution)]"
proof -
  let ?now = "ex_friday + 5100000"
  define st1 where "st1 = in_db (\<lambda>db. mark_at_risk ex_sla_env ?now (mark_breaches ex_sla_env True ?now db)) ex_fire_state"
  have marked: "fs_db st1 = ex_sla_db\<lparr>sd_tickets := [ex_case\<lparr>en_at_risk := True\<rparr>]\<rparr>"
    by (simp add: st1_def ex_fire_state_def mark_breaches_def breach_batch_def overdue_def ex_sla_db_def ex_timer_def watched_def active_def ex_sla_env_def
      mark_at_risk_def atRiskByTenant_def at_risk_def flag_at_risk_def update_where_def ex_case_def Let_def)
  have thresholds: "policy_thresholds ex_timer (fs_db st1) = the (sp_escalation_thresholds ex_policy)"
    unfolding ex_threshold [symmetric] by (simp add: marked policy_thresholds_def find_policy_def)
  have percent: "percentElapsed ex_timer ?now = 85" by (simp add: percentElapsed_def ex_timer_def)
  have due: "applicable ?now (fs_db st1) {} ex_timer = [hd (the (sp_escalation_thresholds ex_policy))]"
    unfolding applicable_def thresholds percent selectApplicableThresholds_def
    by (simp add: ex_policy_def matches_timer_def ex_timer_def)
  have load: "fire_load ex_timer (hd (the (sp_escalation_thresholds ex_policy))) (fs_db st1) =
      Inr (ex_job\<lparr>fj_ticket := ex_case\<lparr>en_at_risk := True\<rparr>\<rparr>)"
    unfolding ex_job_simp marked
    by (simp add: fire_load_def loadTicketForFire_def row_in_tenant_def ex_sla_db_def ex_timer_def ex_case_def resolveTarget_def
      ex_policy_def loadPolicyName_def find_policy_def resolveTargetName_def)
  have fired: "\<exists>st2. fireThreshold (ex_fire_env None) ex_timer (hd (the (sp_escalation_thresholds ex_policy))) st1 = (Inr (), st2) \<and>
      crossing_keys st2 = [(''timer'', 80, Resolution)]"
    unfolding fireThreshold_def load
    by (simp add: fire_step_def ex_job_simp fire_assign_def ex_policy_def fire_claim_def writeCrossing_def
      crossing_of_def marked ex_sla_db_def fire_effects_def Let_def send_notification_def ex_fire_env_def crossing_keys_def
      key_of_def crossed_event_def ex_timer_def)
  have timers: "take 500 (sort_key st_due_at (filter watched (sd_timers (fs_db st1)))) = [ex_timer]"
    "sd_crossings (fs_db st1) = []"
    by (simp_all add: marked ex_sla_db_def watched_def active_def ex_timer_def)
  show ?thesis
    using fired by (auto simp: runBreachCheck_def st1_def [symmetric] processThresholds_def Let_def timers due)
qed

lemma cron_sends_nothing_witness:
  "fs_sent (run_ticks ex_sla_env (ex_fire_env None) [(True, ex_friday + 5100000)] ex_fire_state) = [] \<and>
   crossing_keys (run_ticks ex_sla_env (ex_fire_env None) [(True, ex_friday + 5100000)] ex_fire_state) = [(''timer'', 80, Resolution)]"
proof -
  have "fs_sent (run_ticks ex_sla_env (ex_fire_env None) [(True, ex_friday + 5100000)] ex_fire_state) = fs_sent ex_fire_state"
    by (rule cron_sends_nothing [OF ex_rpc_laws]) (simp add: ex_fire_env_def)
  then show ?thesis using ex_tick by (simp add: ex_fire_state_def)
qed

text \<open>The JSON of a threshold.\<close>

definition threshold_json :: "EscalationThreshold \<Rightarrow> jsval" where
  "threshold_json t = JObj
     [(''at_percent'', JNum (of_int (th_at_percent t))),
      (''timer_type'', JStr (case th_timer_type t of OneTimer ty \<Rightarrow> timer_name ty | BothTimers \<Rightarrow> ''both'')),
      (''action'', JStr (case th_action t of Notify \<Rightarrow> ''notify'' | Escalate \<Rightarrow> ''escalate'')),
      (''target_type'', JStr (target_type_name (th_target_type t))),
      (''target_id'', (case th_target_id t of None \<Rightarrow> JNull | Some i \<Rightarrow> JStr i))]"

lemma read_back_timer: "scope_of_text (JStr (timer_name ty)) = Some (OneTimer ty)"
  by (cases ty) (simp_all add: scope_of_text_def)

lemma read_back_parts:
  "scope_of_text (JStr (case s of OneTimer ty \<Rightarrow> timer_name ty | BothTimers \<Rightarrow> ''both'')) = Some s"
  "action_of_text (JStr (case a of Notify \<Rightarrow> ''notify'' | Escalate \<Rightarrow> ''escalate'')) = Some a"
  "target_of_text (JStr (target_type_name ty)) = Some ty"
  "percent_of (JNum (of_int p)) = (if 1 \<le> p \<and> p \<le> 200 then Some p else None)"
  subgoal by (cases s) (simp_all add: read_back_timer, simp add: scope_of_text_def)
  by (auto simp: action_of_text_def target_of_text_def target_type_name_def percent_of_def isInteger_def
      split: ThresholdAction.splits ThresholdTargetType.splits)

lemma read_back_target:
  "target_id_of ty (case i of None \<Rightarrow> JNull | Some x \<Rightarrow> JStr x) =
     (if (case i of None \<Rightarrow> ty = TargetManager | Some x \<Rightarrow> ty \<noteq> TargetManager \<and> is_uuid x) then Some i else None)"
  by (cases i) (simp_all add: target_id_of_def is_nullish_def)

lemma read_threshold_json: "read_threshold (threshold_json t) = (if threshold_ok t then Some t else None)"
proof -
  have "read_threshold (threshold_json t) =
      Option.bind (percent_of (JNum (of_int (th_at_percent t)))) (\<lambda>p.
      Option.bind (target_id_of (th_target_type t) (case th_target_id t of None \<Rightarrow> JNull | Some x \<Rightarrow> JStr x)) (\<lambda>i.
        Some (t\<lparr>th_at_percent := p, th_target_id := i\<rparr>)))"
    by (cases t) (simp add: read_threshold_def threshold_json_def read_back_parts)
  then show ?thesis by (simp add: read_back_parts read_back_target threshold_ok_def)
qed

lemma read_thresholds_json:
  "read_thresholds (map threshold_json ts) out = Inr (out @ ts) \<longleftrightarrow> list_all threshold_ok ts \<and>
     (let pair = (\<lambda>u. (th_at_percent u, th_timer_type u))
      in distinct (map pair ts) \<and> set (map pair ts) \<inter> pair ` set out = {})"
proof (induction ts arbitrary: out)
  case (Cons t ts)
  show ?case
  proof (cases "threshold_ok t \<and> (th_at_percent t, th_timer_type t) \<notin> (\<lambda>u. (th_at_percent u, th_timer_type u)) ` set out")
    case True
    then have "read_thresholds (map threshold_json (t # ts)) out = read_thresholds (map threshold_json ts) (out @ [t])"
      by (simp add: read_threshold_json)
    then show ?thesis using Cons.IH [of "out @ [t]"] True by (auto simp: Let_def)
  next
    case False
    then show ?thesis by (auto simp: read_threshold_json Let_def)
  qed
qed simp

text \<open>
  C40. The validator of thresholds. Sent as JSON, a list of thresholds comes back as it is if and only if each has a
  percentage from 1 to 200 and a target that fits its type and no two have the same percentage and timers.
\<close>

theorem thresholds_round_trip:
  "validateEscalationThresholds (JArr (map threshold_json ts)) = Inr ts \<longleftrightarrow>
     list_all threshold_ok ts \<and> distinct (map (\<lambda>u. (th_at_percent u, th_timer_type u)) ts)"
  using read_thresholds_json [of ts "[]"] by (simp add: validateEscalationThresholds_def is_nullish_def Let_def)

end
