(* ===== verification/Routing_Resolver.thy ===== *)
theory Routing_Resolver
  imports Js_Value
begin

section \<open>The assignment resolver and its repository\<close>

text \<open>
  The model of \<open>apps/api/src/modules/routing\<close>: \<open>resolver.types.ts\<close>,
  \<open>resolver-repository.ts\<close>, \<open>scope-override-resolver.service.ts\<close> and
  \<open>resolver.service.ts\<close>. The database tables the repository reads are lists of rows in
  the record \<open>routing_db\<close>; a query is a filter over its table. The scope-override
  procedure of the database is an argument (\<open>scope_rpc\<close>), since it is a stored procedure.
  A decision carries the trace of the steps that led to it.
\<close>

subsection \<open>Types\<close>

datatype FulfillmentShape = ShapeAsset | ShapeLocation | ShapeFixed | ShapeAuto

datatype Strategy = StrategyShape FulfillmentShape | StrategyRule

datatype AssignmentTarget = TeamTarget ident | UserTarget ident | VendorTarget ident

datatype ChosenBy =
    ByRule | AssetOverride | AssetTypeDefault | LocationTeam | ParentLocationTeam
  | SpaceGroupTeam | DomainFallback | RequestTypeDefault | ScopeOverride
  | ScopeOverrideUnassigned | PolicyRow | PolicyDefault | Unassigned

record TraceEntry =
  te_step :: ChosenBy
  te_matched :: bool
  te_reason :: string
  te_target :: "AssignmentTarget option"

record ResolverContext =
  ctx_tenant_id :: ident
  ctx_ticket_id :: ident
  ctx_request_type_id :: ident_opt
  ctx_domain :: ident_opt
  ctx_priority :: ident_opt
  ctx_asset_id :: ident_opt
  ctx_location_id :: ident_opt
  ctx_excluded_rule_ids :: "ident list"

record LoadedRequestType =
  rt_id :: ident
  rt_tenant_id :: ident
  rt_domain :: ident_opt
  rt_domain_id :: ident_opt
  rt_fulfillment_strategy :: FulfillmentShape
  rt_default_team_id :: ident_opt
  rt_default_vendor_id :: ident_opt
  rt_asset_type_filter :: "ident list"
  rt_case_owner_policy_entity_id :: ident_opt
  rt_child_dispatch_policy_entity_id :: ident_opt

record AssetType =
  aty_id :: ident
  aty_default_team_id :: ident_opt
  aty_default_vendor_id :: ident_opt

record LoadedAsset =
  as_id :: ident
  as_tenant_id :: ident
  as_asset_type_id :: ident
  as_assigned_space_id :: ident_opt
  as_override_team_id :: ident_opt
  as_override_vendor_id :: ident_opt
  as_type :: AssetType

record RuleCondition =
  rc_field :: string
  rc_operator :: string
  rc_value :: jsval

record RoutingRuleRecord =
  rr_id :: ident
  rr_tenant_id :: ident
  rr_name :: string
  rr_priority :: int
  rr_active :: bool
  rr_conditions :: "RuleCondition list"
  rr_action_assign_team_id :: ident_opt
  rr_action_assign_user_id :: ident_opt

record LocationTeamHit =
  lt_team_id :: ident_opt
  lt_vendor_id :: ident_opt

record ResolverDecision =
  rd_target :: "AssignmentTarget option"
  rd_chosen_by :: ChosenBy
  rd_strategy :: Strategy
  rd_rule_id :: ident_opt
  rd_rule_name :: "string option"
  rd_trace :: "TraceEntry list"

datatype HandlerKind = HandlerTeam | HandlerVendor | HandlerNone

record EffectiveScopeOverride =
  so_id :: ident
  so_handler_kind :: "HandlerKind option"
  so_handler_team_id :: ident_opt
  so_handler_vendor_id :: ident_opt
  so_workflow_definition_id :: ident_opt
  so_case_sla_policy_id :: ident_opt
  so_case_owner_policy_entity_id :: ident_opt
  so_child_dispatch_policy_entity_id :: ident_opt
  so_executor_sla_policy_id :: ident_opt
  so_precedence :: string

subsection \<open>Tables\<close>

record SpaceRow =
  sp_id :: ident
  sp_tenant_id :: ident
  sp_parent_id :: ident_opt

record LocationTeamRow =
  ltr_tenant_id :: ident
  ltr_space_id :: ident_opt
  ltr_space_group_id :: ident_opt
  ltr_domain :: ident
  ltr_hit :: LocationTeamHit

record SpaceGroupMemberRow =
  sgm_tenant_id :: ident
  sgm_space_id :: ident
  sgm_space_group_id :: ident

record DomainParentRow =
  dp_tenant_id :: ident
  dp_domain :: ident
  dp_parent_domain :: ident

record routing_db =
  t_request_types :: "LoadedRequestType list"
  t_assets :: "LoadedAsset list"
  t_spaces :: "SpaceRow list"
  t_location_teams :: "LocationTeamRow list"
  t_space_group_members :: "SpaceGroupMemberRow list"
  t_domain_parents :: "DomainParentRow list"
  t_routing_rules :: "RoutingRuleRecord list"

type_synonym scope_rpc =
  "ident \<Rightarrow> ident \<Rightarrow> ident_opt \<Rightarrow> EffectiveScopeOverride option result"

subsection \<open>Repository\<close>

definition loadRequestType :: "routing_db \<Rightarrow> ident \<Rightarrow> ident \<Rightarrow> LoadedRequestType option" where
  "loadRequestType db i tenantId =
     maybe_single (filter (\<lambda>r. rt_id r = i \<and> rt_tenant_id r = tenantId) (t_request_types db))"

definition loadAsset :: "routing_db \<Rightarrow> ident \<Rightarrow> ident \<Rightarrow> LoadedAsset option" where
  "loadAsset db i tenantId =
     maybe_single (filter (\<lambda>a. as_id a = i \<and> as_tenant_id a = tenantId) (t_assets db))"

definition space_parent :: "routing_db \<Rightarrow> ident \<Rightarrow> ident \<Rightarrow> ident_opt" where
  "space_parent db tenantId i =
     Option.bind
       (maybe_single (filter (\<lambda>s. sp_id s = i \<and> sp_tenant_id s = tenantId) (t_spaces db)))
       sp_parent_id"

definition locationChain :: "routing_db \<Rightarrow> ident \<Rightarrow> ident \<Rightarrow> ident list" where
  "locationChain db spaceId tenantId =
     parent_walk (space_parent db tenantId) 10 (Some spaceId)"

definition locationTeam ::
  "routing_db \<Rightarrow> ident \<Rightarrow> ident \<Rightarrow> ident \<Rightarrow> LocationTeamHit option" where
  "locationTeam db spaceId domain tenantId =
     map_option ltr_hit
       (maybe_single (filter (\<lambda>r. ltr_space_id r = Some spaceId \<and> ltr_domain r = domain
          \<and> ltr_tenant_id r = tenantId) (t_location_teams db)))"

definition spaceGroupTeam ::
  "routing_db \<Rightarrow> ident \<Rightarrow> ident \<Rightarrow> ident \<Rightarrow> LocationTeamHit option" where
  "spaceGroupTeam db spaceId domain tenantId =
     (let groupIds = map sgm_space_group_id
            (filter (\<lambda>m. sgm_space_id m = spaceId \<and> sgm_tenant_id m = tenantId)
              (t_space_group_members db))
      in if groupIds = [] then None
         else map_option ltr_hit
           (maybe_single (take 1 (filter (\<lambda>r. ltr_space_group_id r \<in> Some ` set groupIds
              \<and> ltr_domain r = domain \<and> ltr_tenant_id r = tenantId) (t_location_teams db)))))"

definition domain_parent :: "routing_db \<Rightarrow> ident \<Rightarrow> ident \<Rightarrow> ident_opt" where
  "domain_parent db tenantId domain =
     map_option dp_parent_domain
       (maybe_single (filter (\<lambda>r. dp_tenant_id r = tenantId \<and> dp_domain r = domain)
          (t_domain_parents db)))"

text \<open>The loop of \<open>domainChain\<close>, with the chain built so far.\<close>

fun domain_walk :: "(ident \<Rightarrow> ident_opt) \<Rightarrow> nat \<Rightarrow> ident list \<Rightarrow> ident \<Rightarrow> ident list" where
  "domain_walk par 0 chain current = chain"
| "domain_walk par (Suc n) chain current =
     (case par current of
        None \<Rightarrow> chain
      | Some parent \<Rightarrow>
          if parent = [] \<or> parent \<in> set chain then chain
          else domain_walk par n (chain @ [parent]) parent)"

definition domainChain :: "routing_db \<Rightarrow> ident \<Rightarrow> ident \<Rightarrow> ident list" where
  "domainChain db tenantId domain = domain_walk (domain_parent db tenantId) 10 [domain] domain"

definition loadRoutingRules :: "routing_db \<Rightarrow> ident \<Rightarrow> RoutingRuleRecord list" where
  "loadRoutingRules db tenantId =
     sort_key (\<lambda>r. - rr_priority r)
       (filter (\<lambda>r. rr_tenant_id r = tenantId \<and> rr_active r) (t_routing_rules db))"

subsection \<open>Scope overrides\<close>

definition deriveEffectiveLocation ::
  "routing_db \<Rightarrow> ident \<Rightarrow> ident_opt \<Rightarrow> ident_opt \<Rightarrow> ident_opt" where
  "deriveEffectiveLocation db tenantId locationId assetId =
     (if truthy locationId then locationId
      else case assetId of
          None \<Rightarrow> None
        | Some a \<Rightarrow> if a = [] then None
            else Option.bind (loadAsset db a tenantId) as_assigned_space_id)"

definition scope_override_resolve ::
  "routing_db \<Rightarrow> scope_rpc \<Rightarrow> ident \<Rightarrow> ident \<Rightarrow> ident_opt \<Rightarrow> ident_opt
     \<Rightarrow> EffectiveScopeOverride option result" where
  "scope_override_resolve db rpc tenantId requestTypeId locationId assetId =
     rpc tenantId requestTypeId (deriveEffectiveLocation db tenantId locationId assetId)"

subsection \<open>Resolver service\<close>

abbreviation trace_hit :: "ChosenBy \<Rightarrow> string \<Rightarrow> AssignmentTarget option \<Rightarrow> TraceEntry" where
  "trace_hit step reason target \<equiv>
     \<lparr>te_step = step, te_matched = True, te_reason = reason, te_target = target\<rparr>"

abbreviation trace_miss :: "ChosenBy \<Rightarrow> string \<Rightarrow> TraceEntry" where
  "trace_miss step reason \<equiv>
     \<lparr>te_step = step, te_matched = False, te_reason = reason, te_target = None\<rparr>"

fun pickTarget :: "ident_opt \<Rightarrow> ident_opt \<Rightarrow> AssignmentTarget option" where
  "pickTarget team_id vendor_id =
     (if truthy team_id then map_option TeamTarget team_id
      else if truthy vendor_id then map_option VendorTarget vendor_id
      else None)"

fun fromHit :: "LocationTeamHit option \<Rightarrow> AssignmentTarget option" where
  "fromHit None = None"
| "fromHit (Some hit) = pickTarget (lt_team_id hit) (lt_vendor_id hit)"

text \<open>
  \<open>compareOrdinal\<close>: numbers by difference, strings by order, \<open>None\<close> (\<open>NaN\<close>) for
  anything else.
\<close>

fun compareOrdinal :: "jsval \<Rightarrow> jsval \<Rightarrow> rat option" where
  "compareOrdinal (JNum a) (JNum b) = Some (a - b)"
| "compareOrdinal (JStr a) (JStr b) = Some (if a < b then -1 else if b < a then 1 else 0)"
| "compareOrdinal _ _ = None"

definition ordinal_op :: "(rat \<Rightarrow> bool) \<Rightarrow> jsval \<Rightarrow> jsval \<Rightarrow> bool" where
  "ordinal_op p a b = (case compareOrdinal a b of None \<Rightarrow> False | Some c \<Rightarrow> p c)"

definition matchesCondition :: "(string \<times> jsval) list \<Rightarrow> RuleCondition \<Rightarrow> bool" where
  "matchesCondition context c =
     (let actual = obj_get context (rc_field c); value = rc_value c; op = rc_operator c
      in if op = ''equals'' then strict_eq actual value
         else if op = ''not_equals'' then \<not> strict_eq actual value
         else if op = ''in'' then
           (case value of JArr vs \<Rightarrow> js_includes vs actual | _ \<Rightarrow> False)
         else if op = ''not_in'' then
           (case value of JArr vs \<Rightarrow> \<not> js_includes vs actual | _ \<Rightarrow> False)
         else if op = ''exists'' then \<not> is_nullish actual
         else if op = ''gt'' then ordinal_op (\<lambda>d. d > 0) actual value
         else if op = ''lt'' then ordinal_op (\<lambda>d. d < 0) actual value
         else if op = ''gte'' then ordinal_op (\<lambda>d. d \<ge> 0) actual value
         else if op = ''lte'' then ordinal_op (\<lambda>d. d \<le> 0) actual value
         else if op = ''contains'' then
           (case actual of
              JStr a \<Rightarrow> (case value of JStr v \<Rightarrow> str_includes a v | _ \<Rightarrow> False)
            | JArr as \<Rightarrow> js_includes as value
            | _ \<Rightarrow> False)
         else False)"

definition matchesConditions :: "RuleCondition list \<Rightarrow> (string \<times> jsval) list \<Rightarrow> bool" where
  "matchesConditions conditions context =
     (if conditions = [] then True else list_all (matchesCondition context) conditions)"

definition rule_context :: "ResolverContext \<Rightarrow> (string \<times> jsval) list" where
  "rule_context context =
     [(''ticket_type_id'', of_str_opt (ctx_request_type_id context)),
      (''request_type_id'', of_str_opt (ctx_request_type_id context)),
      (''domain'', of_str_opt (ctx_domain context)),
      (''location_id'', of_str_opt (ctx_location_id context)),
      (''priority'', of_str_opt (ctx_priority context)),
      (''asset_id'', of_str_opt (ctx_asset_id context))]"

fun rule_target :: "RoutingRuleRecord \<Rightarrow> AssignmentTarget option" where
  "rule_target rule =
     (if truthy (rr_action_assign_team_id rule)
        then map_option TeamTarget (rr_action_assign_team_id rule)
      else if truthy (rr_action_assign_user_id rule)
        then map_option UserTarget (rr_action_assign_user_id rule)
      else None)"

definition rule_hit ::
  "(string \<times> jsval) list \<Rightarrow> RoutingRuleRecord \<Rightarrow> (RoutingRuleRecord \<times> AssignmentTarget) option"
where
  "rule_hit ruleCtx rule =
     (if \<not> matchesConditions (rr_conditions rule) ruleCtx then None
      else map_option (\<lambda>t. (rule, t)) (rule_target rule))"

definition candidate_rules :: "routing_db \<Rightarrow> ResolverContext \<Rightarrow> RoutingRuleRecord list" where
  "candidate_rules db context =
     (let allRules = loadRoutingRules db (ctx_tenant_id context);
          excluded = ctx_excluded_rule_ids context
      in if excluded \<noteq> [] then filter (\<lambda>r. rr_id r \<notin> set excluded) allRules else allRules)"

definition tryRules ::
  "routing_db \<Rightarrow> ResolverContext \<Rightarrow> TraceEntry list \<Rightarrow> ResolverDecision option" where
  "tryRules db context trace =
     (case first_some (rule_hit (rule_context context)) (candidate_rules db context) of
        None \<Rightarrow> None
      | Some (rule, target) \<Rightarrow>
          Some \<lparr>rd_target = Some target, rd_chosen_by = ByRule, rd_strategy = StrategyRule,
            rd_rule_id = Some (rr_id rule), rd_rule_name = Some (rr_name rule),
            rd_trace = trace @ [trace_hit ByRule (''rule '' @ rr_name rule) (Some target)]\<rparr>)"

type_synonym step_hit = "(ChosenBy \<times> AssignmentTarget) option \<times> TraceEntry list"

fun tryAsset :: "LoadedAsset option \<Rightarrow> TraceEntry list \<Rightarrow> step_hit" where
  "tryAsset None trace = (None, trace @ [trace_miss AssetOverride ''no asset in context''])"
| "tryAsset (Some asset) trace =
     (case pickTarget (as_override_team_id asset) (as_override_vendor_id asset) of
        Some override \<Rightarrow>
          (Some (AssetOverride, override),
           trace @ [trace_hit AssetOverride ''asset override'' (Some override)])
      | None \<Rightarrow>
          let trace = trace @ [trace_miss AssetOverride ''no asset override'']
          in (case pickTarget (aty_default_team_id (as_type asset))
                     (aty_default_vendor_id (as_type asset)) of
                Some typeDefault \<Rightarrow>
                  (Some (AssetTypeDefault, typeDefault),
                   trace @ [trace_hit AssetTypeDefault
                     (''asset type '' @ as_asset_type_id asset) (Some typeDefault)])
              | None \<Rightarrow>
                  (None, trace @ [trace_miss AssetTypeDefault
                     (''asset type '' @ as_asset_type_id asset @ '' has no default'')])))"

text \<open>One cell of the walk: domain number \<open>d\<close> and space number \<open>s\<close> of the two chains.\<close>

definition location_cell ::
  "routing_db \<Rightarrow> ident \<Rightarrow> (nat \<times> ident) \<times> (nat \<times> ident)
     \<Rightarrow> (ChosenBy \<times> string \<times> AssignmentTarget) option" where
  "location_cell db tenantId cell =
     (let ((d, domain), (s, spaceId)) = cell
      in case fromHit (locationTeam db spaceId domain tenantId) of
           Some target \<Rightarrow>
             Some (if d > 0 then DomainFallback else if s = 0 then LocationTeam
                   else ParentLocationTeam,
                   ''space '' @ spaceId @ '' domain '' @ domain, target)
         | None \<Rightarrow>
             (case fromHit (spaceGroupTeam db spaceId domain tenantId) of
                Some groupTarget \<Rightarrow>
                  Some (if d > 0 then DomainFallback else SpaceGroupTeam,
                        ''space '' @ spaceId @ '' (via group) domain '' @ domain, groupTarget)
              | None \<Rightarrow> None))"

definition location_cells :: "ident list \<Rightarrow> ident list \<Rightarrow> ((nat \<times> ident) \<times> (nat \<times> ident)) list" where
  "location_cells chain domains =
     concat (map (\<lambda>d. map (\<lambda>s. (d, s)) (enumerate 0 chain)) (enumerate 0 domains))"

definition tryLocationChain ::
  "routing_db \<Rightarrow> ident list \<Rightarrow> ident list \<Rightarrow> ident \<Rightarrow> TraceEntry list \<Rightarrow> step_hit" where
  "tryLocationChain db chain domains tenantId trace =
     (if domains = []
      then (None, trace @ [trace_miss LocationTeam ''no domain in context''])
      else case first_some (location_cell db tenantId) (location_cells chain domains) of
             Some (step, reason, target) \<Rightarrow>
               (Some (step, target), trace @ [trace_hit step reason (Some target)])
           | None \<Rightarrow>
               (None, trace @ [trace_miss LocationTeam ''no location match across domain chain'']))"

record Hydrated =
  hy_request_type :: "LoadedRequestType option"
  hy_asset :: "LoadedAsset option"
  hy_location_chain :: "ident list"
  hy_domain_chain :: "ident list"

definition load_if :: "(ident \<Rightarrow> 'a option) \<Rightarrow> ident_opt \<Rightarrow> 'a option" where
  "load_if f i = (case i of None \<Rightarrow> None | Some x \<Rightarrow> if x = [] then None else f x)"

definition hydrate :: "routing_db \<Rightarrow> ResolverContext \<Rightarrow> Hydrated" where
  "hydrate db context =
     (let tenant = ctx_tenant_id context;
          request_type = load_if (\<lambda>i. loadRequestType db i tenant) (ctx_request_type_id context);
          asset = load_if (\<lambda>i. loadAsset db i tenant) (ctx_asset_id context);
          primaryLocation =
            nullish (ctx_location_id context) (Option.bind asset as_assigned_space_id)
      in \<lparr>hy_request_type = request_type, hy_asset = asset,
          hy_location_chain =
            (if truthy primaryLocation then locationChain db (the primaryLocation) tenant else []),
          hy_domain_chain =
            (if truthy (ctx_domain context) then domainChain db tenant (the (ctx_domain context))
             else [])\<rparr>)"

abbreviation decision ::
  "AssignmentTarget option \<Rightarrow> ChosenBy \<Rightarrow> FulfillmentShape \<Rightarrow> TraceEntry list \<Rightarrow> ResolverDecision"
where
  "decision target chosen_by strategy trace \<equiv>
     \<lparr>rd_target = target, rd_chosen_by = chosen_by, rd_strategy = StrategyShape strategy,
      rd_rule_id = None, rd_rule_name = None, rd_trace = trace\<rparr>"

definition override_reason :: "EffectiveScopeOverride \<Rightarrow> string \<Rightarrow> string" where
  "override_reason ov suffix =
     ''scope override '' @ so_id ov @ '' ('' @ so_precedence ov @ '')'' @ suffix"

text \<open>
  The scope-override pre-step: a terminal decision, or the trace with which the chain
  continues.
\<close>

fun scope_override_step ::
  "EffectiveScopeOverride option \<Rightarrow> ResolverDecision + TraceEntry list" where
  "scope_override_step None = Inr []"
| "scope_override_step (Some ov) =
     (if so_handler_kind ov = Some HandlerNone then
        Inl (decision None ScopeOverrideUnassigned ShapeFixed
          [trace_hit ScopeOverrideUnassigned (override_reason ov '' handler_kind=none'') None])
      else if so_handler_kind ov = Some HandlerTeam \<and> truthy (so_handler_team_id ov) then
        (let target = map_option TeamTarget (so_handler_team_id ov)
         in Inl (decision target ScopeOverride ShapeFixed
              [trace_hit ScopeOverride (override_reason ov '' team'') target]))
      else if so_handler_kind ov = Some HandlerVendor \<and> truthy (so_handler_vendor_id ov) then
        (let target = map_option VendorTarget (so_handler_vendor_id ov)
         in Inl (decision target ScopeOverride ShapeFixed
              [trace_hit ScopeOverride (override_reason ov '' vendor'') target]))
      else Inr [trace_miss ScopeOverride
             (override_reason ov ('' has no handler '' @ em_dash @ '' falling through to chain''))])"

definition request_type_step ::
  "LoadedRequestType option \<Rightarrow> FulfillmentShape \<Rightarrow> TraceEntry list \<Rightarrow> ResolverDecision" where
  "request_type_step rt shape trace =
     (let unassigned = (\<lambda>trace. decision None Unassigned shape
            (trace @ [trace_hit Unassigned ''no candidates matched'' None]))
      in case rt of
           None \<Rightarrow> unassigned trace
         | Some r \<Rightarrow>
             (case pickTarget (rt_default_team_id r) (rt_default_vendor_id r) of
                Some rtDefault \<Rightarrow>
                  decision (Some rtDefault) RequestTypeDefault shape
                    (trace @ [trace_hit RequestTypeDefault (''request type '' @ rt_id r)
                       (Some rtDefault)])
              | None \<Rightarrow>
                  unassigned (trace @ [trace_miss RequestTypeDefault
                    (''request type '' @ rt_id r @ '' has no default'')])))"

definition location_step ::
  "routing_db \<Rightarrow> ident \<Rightarrow> Hydrated \<Rightarrow> FulfillmentShape \<Rightarrow> TraceEntry list \<Rightarrow> ResolverDecision"
where
  "location_step db tenant loaded shape trace =
     (if shape = ShapeLocation \<or> shape = ShapeAuto then
        (case tryLocationChain db (hy_location_chain loaded) (hy_domain_chain loaded) tenant trace of
           (Some (step, target), trace) \<Rightarrow> decision (Some target) step shape trace
         | (None, trace) \<Rightarrow> request_type_step (hy_request_type loaded) shape trace)
      else request_type_step (hy_request_type loaded) shape trace)"

definition asset_step ::
  "routing_db \<Rightarrow> ident \<Rightarrow> Hydrated \<Rightarrow> FulfillmentShape \<Rightarrow> TraceEntry list \<Rightarrow> ResolverDecision"
where
  "asset_step db tenant loaded shape trace =
     (if shape = ShapeAsset \<or> shape = ShapeAuto then
        (case tryAsset (hy_asset loaded) trace of
           (Some (step, target), trace) \<Rightarrow> decision (Some target) step shape trace
         | (None, trace) \<Rightarrow> location_step db tenant loaded shape trace)
      else location_step db tenant loaded shape trace)"

definition loaded_shape :: "Hydrated \<Rightarrow> FulfillmentShape" where
  "loaded_shape loaded =
     (case hy_request_type loaded of None \<Rightarrow> ShapeFixed | Some rt \<Rightarrow> rt_fulfillment_strategy rt)"

text \<open>What \<open>resolve\<close> does once the scope override is known.\<close>

definition resolve_chain ::
  "routing_db \<Rightarrow> ResolverContext \<Rightarrow> EffectiveScopeOverride option \<Rightarrow> ResolverDecision" where
  "resolve_chain db context override =
     (let loaded = hydrate db context
      in case scope_override_step override of
           Inl d \<Rightarrow> d
         | Inr trace \<Rightarrow>
             (case tryRules db context trace of
                Some ruleHit \<Rightarrow> ruleHit
              | None \<Rightarrow>
                  asset_step db (ctx_tenant_id context) loaded (loaded_shape loaded) trace))"

definition resolve :: "routing_db \<Rightarrow> scope_rpc \<Rightarrow> ResolverContext \<Rightarrow> ResolverDecision result" where
  "resolve db rpc context =
     (let loaded = hydrate db context;
          overrideLocationId =
            nullish (ctx_location_id context) (Option.bind (hy_asset loaded) as_assigned_space_id)
      in and_then
           (if truthy (ctx_request_type_id context)
            then rpc (ctx_tenant_id context) (the (ctx_request_type_id context)) overrideLocationId
            else Inr None)
           (\<lambda>override. Inr (resolve_chain db context override)))"

subsection \<open>Chains\<close>

lemma domain_walk_props:
  "distinct chain \<Longrightarrow> chain \<noteq> [] \<Longrightarrow> last chain = current \<Longrightarrow>
   (let c = domain_walk par n chain current
    in distinct c \<and> length c \<le> length chain + n \<and> (\<exists>rest. c = chain @ rest) \<and>
       (\<forall>i. length chain \<le> Suc i \<longrightarrow> Suc i < length c \<longrightarrow> par (c ! i) = Some (c ! Suc i)))"
proof (induction n arbitrary: chain current)
  case 0
  then show ?case by (simp add: Let_def)
next
  case (Suc n)
  show ?case
  proof (cases "\<exists>p. par current = Some p \<and> p \<noteq> [] \<and> p \<notin> set chain")
    case False
    then show ?thesis using Suc.prems by (auto simp: Let_def split: option.splits)
  next
    case True
    then obtain p where p: "par current = Some p" "p \<noteq> []" "p \<notin> set chain" by blast
    let ?c = "domain_walk par n (chain @ [p]) p"
    have c: "domain_walk par (Suc n) chain current = ?c" using p by simp
    have IH: "distinct ?c" "length ?c \<le> length chain + Suc n" "\<exists>rest. ?c = (chain @ [p]) @ rest"
      "\<forall>i. length (chain @ [p]) \<le> Suc i \<longrightarrow> Suc i < length ?c \<longrightarrow> par (?c ! i) = Some (?c ! Suc i)"
      using Suc.IH [of "chain @ [p]" p] Suc.prems p by (auto simp: Let_def)
    have link: "par (?c ! i) = Some (?c ! Suc i)" if "length chain = Suc i" for i
      using IH(3) that Suc.prems p by (auto simp: nth_append last_conv_nth)
    have "par (?c ! i) = Some (?c ! Suc i)" if "length chain \<le> Suc i" "Suc i < length ?c" for i
      using IH(4) link [of i] that by (cases "length chain = Suc i") auto
    with IH show ?thesis unfolding c Let_def by auto
  qed
qed

lemma domainChain_props:
  "distinct (domainChain db t d) \<and> length (domainChain db t d) \<le> 11 \<and>
   hd (domainChain db t d) = d \<and> domainChain db t d \<noteq> [] \<and>
   (\<forall>i. Suc i < length (domainChain db t d) \<longrightarrow>
      domain_parent db t (domainChain db t d ! i) = Some (domainChain db t d ! Suc i))"
  using domain_walk_props [of "[d]" d "domain_parent db t" 10]
  by (auto simp: domainChain_def Let_def)

subsection \<open>Traces\<close>

text \<open>
  A trace explains a decision when its last entry is the one that matched, with the
  decision's step and target, and every earlier entry is a miss.
\<close>

definition misses :: "TraceEntry list \<Rightarrow> bool" where
  "misses tr \<longleftrightarrow> (\<forall>e\<in>set tr. \<not> te_matched e \<and> te_target e = None)"

definition explains :: "TraceEntry list \<Rightarrow> ChosenBy \<Rightarrow> AssignmentTarget option \<Rightarrow> bool" where
  "explains tr c t \<longleftrightarrow> (\<exists>pre r. tr = pre @ [trace_hit c r t] \<and> misses pre)"

lemma misses_simps [simp]:
  "misses []" "misses (tr @ tr') \<longleftrightarrow> misses tr \<and> misses tr'"
  "misses (e # tr) \<longleftrightarrow> \<not> te_matched e \<and> te_target e = None \<and> misses tr"
  by (auto simp: misses_def)

lemma explains_append [simp]:
  assumes "misses tr" and "tr' \<noteq> []"
  shows "explains (tr @ tr') c t \<longleftrightarrow> explains tr' c t"
proof
  assume "explains tr' c t"
  with assms show "explains (tr @ tr') c t"
    unfolding explains_def by (metis append_assoc misses_simps(2))
next
  assume "explains (tr @ tr') c t"
  then obtain pre r where "tr @ tr' = pre @ [trace_hit c r t]" "misses pre"
    by (auto simp: explains_def)
  with assms(2) have "tr' = butlast tr' @ [trace_hit c r t]" "misses (butlast tr')"
    by (metis append_butlast_last_id last_appendR snoc_eq_iff_butlast,
      metis assms(2) butlast_append butlast_snoc misses_simps(2))
  then show "explains tr' c t" unfolding explains_def by blast
qed

lemma explains_Cons [simp]:
  "explains [e] c t \<longleftrightarrow> te_matched e \<and> te_step e = c \<and> te_target e = t"
  "explains (e # e' # tr) c t \<longleftrightarrow>
     \<not> te_matched e \<and> te_target e = None \<and> explains (e' # tr) c t"
proof -
  show "explains [e] c t \<longleftrightarrow> te_matched e \<and> te_step e = c \<and> te_target e = t"
    by (cases e) (auto simp: explains_def)
  have "e # e' # tr = pre @ [x] \<longleftrightarrow> (\<exists>p. pre = e # p \<and> e' # tr = p @ [x])" for pre x
    by (cases pre) auto
  then show "explains (e # e' # tr) c t \<longleftrightarrow>
     \<not> te_matched e \<and> te_target e = None \<and> explains (e' # tr) c t"
    unfolding explains_def by auto
qed

abbreviation explained :: "ResolverDecision \<Rightarrow> bool" where
  "explained d \<equiv> explains (rd_trace d) (rd_chosen_by d) (rd_target d)"

text \<open>
  The contract of every engine that produces a traced decision, and what a reader of the
  trace gets from it: the first matched entry is unique and is the decision.
\<close>

locale traced_decision =
  fixes decide :: "'c \<Rightarrow> ResolverDecision result"
  assumes decide_explained: "decide c = Inr d \<Longrightarrow> explained d"
begin

lemma trace_nonempty: "decide c = Inr d \<Longrightarrow> rd_trace d \<noteq> []"
  using decide_explained by (fastforce simp: explains_def)

lemma read_back:
  assumes "decide c = Inr d" and "find te_matched (rd_trace d) = Some e"
  shows "te_target e = rd_target d \<and> te_step e = rd_chosen_by d"
proof -
  from decide_explained [OF assms(1)] obtain pre r where
    tr: "rd_trace d = pre @ [trace_hit (rd_chosen_by d) r (rd_target d)]" and "misses pre"
    by (auto simp: explains_def)
  then have "find te_matched (rd_trace d)
      = find te_matched [trace_hit (rd_chosen_by d) r (rd_target d)]"
    unfolding tr by (intro find_skip) (simp add: misses_def)
  with assms(2) show ?thesis by auto
qed

lemma matched_unique:
  assumes "decide c = Inr d"
  shows "length (filter te_matched (rd_trace d)) = 1"
  using decide_explained [OF assms]
  by (auto simp: explains_def misses_def filter_empty_conv)

end

lemma scope_override_step_explained:
  "scope_override_step ov = Inl d \<Longrightarrow> explained d"
  "scope_override_step ov = Inr tr \<Longrightarrow> misses tr"
  by (cases ov; auto simp: Let_def split: if_splits)+

lemma tryRules_explained: "misses tr \<Longrightarrow> tryRules db ctx tr = Some d \<Longrightarrow> explained d"
  by (auto simp: tryRules_def split: option.splits)

lemma tryAsset_explained:
  assumes "misses tr" and "tryAsset a tr = (h, tr')"
  shows "case h of None \<Rightarrow> misses tr' | Some (c, t) \<Rightarrow> explains tr' c (Some t)"
  using assms by (cases a) (auto simp: Let_def split: option.splits)

lemma tryLocationChain_explained:
  assumes "misses tr" and "tryLocationChain db chain doms t tr = (h, tr')"
  shows "case h of None \<Rightarrow> misses tr' | Some (c, tg) \<Rightarrow> explains tr' c (Some tg)"
  using assms by (auto simp: tryLocationChain_def split: option.splits if_splits)

lemma request_type_step_explained: "misses tr \<Longrightarrow> explained (request_type_step rt shape tr)"
  by (auto simp: request_type_step_def Let_def split: option.splits)

lemma location_step_explained:
  assumes "misses tr"
  shows "explained (location_step db t loaded shape tr)"
proof -
  obtain h tr' where h: "tryLocationChain db (hy_location_chain loaded) (hy_domain_chain loaded) t tr
      = (h, tr')" by fastforce
  from tryLocationChain_explained [OF assms h] assms show ?thesis
    by (cases h) (auto simp: location_step_def h request_type_step_explained)
qed

lemma asset_step_explained:
  assumes "misses tr"
  shows "explained (asset_step db t loaded shape tr)"
proof -
  obtain h tr' where h: "tryAsset (hy_asset loaded) tr = (h, tr')" by fastforce
  from tryAsset_explained [OF assms h] assms show ?thesis
    by (cases h) (auto simp: asset_step_def h location_step_explained)
qed

lemma resolve_chain_explained: "explained (resolve_chain db ctx ov)"
proof (cases "scope_override_step ov")
  case (Inl d)
  then show ?thesis using scope_override_step_explained(1) by (simp add: resolve_chain_def)
next
  case (Inr tr)
  then have "misses tr" by (rule scope_override_step_explained(2))
  with Inr show ?thesis
    by (auto simp: resolve_chain_def Let_def intro: tryRules_explained asset_step_explained
        split: option.splits)
qed

lemma resolve_InrD: "resolve db rpc ctx = Inr d \<Longrightarrow> \<exists>ov. d = resolve_chain db ctx ov"
  by (auto simp: resolve_def Let_def and_then_Inr_iff)

lemma resolve_explained: "resolve db rpc ctx = Inr d \<Longrightarrow> explained d"
  using resolve_InrD resolve_chain_explained by blast

interpretation legacy_resolver: traced_decision "\<lambda>(db, rpc, ctx). resolve db rpc ctx"
  by unfold_locales (auto intro: resolve_explained)

subsection \<open>Tenant isolation\<close>

definition restrict_db :: "ident \<Rightarrow> routing_db \<Rightarrow> routing_db" where
  "restrict_db t db =
     \<lparr>t_request_types = filter (\<lambda>r. rt_tenant_id r = t) (t_request_types db),
      t_assets = filter (\<lambda>r. as_tenant_id r = t) (t_assets db),
      t_spaces = filter (\<lambda>r. sp_tenant_id r = t) (t_spaces db),
      t_location_teams = filter (\<lambda>r. ltr_tenant_id r = t) (t_location_teams db),
      t_space_group_members = filter (\<lambda>r. sgm_tenant_id r = t) (t_space_group_members db),
      t_domain_parents = filter (\<lambda>r. dp_tenant_id r = t) (t_domain_parents db),
      t_routing_rules = filter (\<lambda>r. rr_tenant_id r = t) (t_routing_rules db)\<rparr>"

lemma filter_absorb: "\<forall>x. P x \<longrightarrow> Q x \<Longrightarrow> filter P (filter Q xs) = filter P xs"
  by (induction xs) auto

lemma restrict_reads [simp]:
  "loadRequestType (restrict_db t db) i t = loadRequestType db i t"
  "loadAsset (restrict_db t db) i t = loadAsset db i t"
  "space_parent (restrict_db t db) t = space_parent db t"
  "locationTeam (restrict_db t db) s d t = locationTeam db s d t"
  "spaceGroupTeam (restrict_db t db) s d t = spaceGroupTeam db s d t"
  "domain_parent (restrict_db t db) t = domain_parent db t"
  "loadRoutingRules (restrict_db t db) t = loadRoutingRules db t"
  by (simp_all add: loadRequestType_def loadAsset_def space_parent_def locationTeam_def
    spaceGroupTeam_def domain_parent_def loadRoutingRules_def restrict_db_def filter_absorb
    fun_eq_iff Let_def del: filter_filter)

lemma restrict_chains [simp]:
  "locationChain (restrict_db t db) s t = locationChain db s t"
  "domainChain (restrict_db t db) t d = domainChain db t d"
  "location_cell (restrict_db t db) t = location_cell db t"
  by (simp_all add: locationChain_def domainChain_def location_cell_def fun_eq_iff split: option.split)

lemma restrict_steps [simp]:
  "hydrate (restrict_db (ctx_tenant_id ctx) db) ctx = hydrate db ctx"
  "tryRules (restrict_db (ctx_tenant_id ctx) db) ctx tr = tryRules db ctx tr"
  "tryLocationChain (restrict_db t db) chain doms t tr = tryLocationChain db chain doms t tr"
  "location_step (restrict_db t db) t l sh tr = location_step db t l sh tr"
  "asset_step (restrict_db t db) t l sh tr = asset_step db t l sh tr"
  by (simp_all add: hydrate_def tryRules_def candidate_rules_def tryLocationChain_def Let_def
    location_step_def asset_step_def split: option.split prod.split)

lemma resolve_chain_restrict:
  "resolve_chain (restrict_db (ctx_tenant_id ctx) db) ctx ov = resolve_chain db ctx ov"
  by (simp add: resolve_chain_def Let_def split: sum.split option.split)

subsection \<open>The order of the sources\<close>

text \<open>
  The specification of the resolver: each source of an assignment as an optional
  answer, and the decision as the first answer in the order of precedence.
\<close>

fun override_source ::
  "EffectiveScopeOverride option \<Rightarrow> (ChosenBy \<times> AssignmentTarget option) option" where
  "override_source None = None"
| "override_source (Some ov) =
     (case so_handler_kind ov of
        Some HandlerNone \<Rightarrow> Some (ScopeOverrideUnassigned, None)
      | Some HandlerTeam \<Rightarrow>
          (if truthy (so_handler_team_id ov)
           then Some (ScopeOverride, map_option TeamTarget (so_handler_team_id ov)) else None)
      | Some HandlerVendor \<Rightarrow>
          (if truthy (so_handler_vendor_id ov)
           then Some (ScopeOverride, map_option VendorTarget (so_handler_vendor_id ov)) else None)
      | None \<Rightarrow> None)"

definition source_of ::
  "ChosenBy \<Rightarrow> AssignmentTarget option \<Rightarrow> (ChosenBy \<times> AssignmentTarget option) option" where
  "source_of c t = map_option (\<lambda>x. (c, Some x)) t"

definition rule_source ::
  "routing_db \<Rightarrow> ResolverContext \<Rightarrow> (ChosenBy \<times> AssignmentTarget option) option" where
  "rule_source db ctx = source_of ByRule (map_option snd
     (first_some (rule_hit (rule_context ctx)) (candidate_rules db ctx)))"

definition asset_override_source :: "Hydrated \<Rightarrow> (ChosenBy \<times> AssignmentTarget option) option" where
  "asset_override_source l =
     (if loaded_shape l = ShapeAsset \<or> loaded_shape l = ShapeAuto
      then source_of AssetOverride (Option.bind (hy_asset l)
        (\<lambda>a. pickTarget (as_override_team_id a) (as_override_vendor_id a))) else None)"

definition asset_type_source :: "Hydrated \<Rightarrow> (ChosenBy \<times> AssignmentTarget option) option" where
  "asset_type_source l =
     (if loaded_shape l = ShapeAsset \<or> loaded_shape l = ShapeAuto
      then source_of AssetTypeDefault (Option.bind (hy_asset l)
        (\<lambda>a. pickTarget (aty_default_team_id (as_type a)) (aty_default_vendor_id (as_type a))))
      else None)"

definition location_source ::
  "routing_db \<Rightarrow> ident \<Rightarrow> Hydrated \<Rightarrow> (ChosenBy \<times> AssignmentTarget option) option" where
  "location_source db t l =
     (if loaded_shape l = ShapeLocation \<or> loaded_shape l = ShapeAuto
      then map_option (\<lambda>(c, r, x). (c, Some x)) (first_some (location_cell db t)
        (location_cells (hy_location_chain l) (hy_domain_chain l))) else None)"

definition request_type_source :: "Hydrated \<Rightarrow> (ChosenBy \<times> AssignmentTarget option) option" where
  "request_type_source l = source_of RequestTypeDefault (Option.bind (hy_request_type l)
     (\<lambda>r. pickTarget (rt_default_team_id r) (rt_default_vendor_id r)))"

definition resolve_spec ::
  "routing_db \<Rightarrow> ResolverContext \<Rightarrow> EffectiveScopeOverride option
     \<Rightarrow> ChosenBy \<times> AssignmentTarget option" where
  "resolve_spec db ctx ov =
     (let l = hydrate db ctx
      in orElse (override_source ov) (orElse (rule_source db ctx)
        (orElse (asset_override_source l) (orElse (asset_type_source l)
        (orElse (location_source db (ctx_tenant_id ctx) l) (orElse (request_type_source l)
        (Unassigned, None)))))))"

abbreviation outcome :: "ResolverDecision \<Rightarrow> ChosenBy \<times> AssignmentTarget option" where
  "outcome d \<equiv> (rd_chosen_by d, rd_target d)"

lemma scope_override_step_source:
  "scope_override_step ov = Inl d \<Longrightarrow> override_source ov = Some (outcome d)"
  "scope_override_step ov = Inr tr \<Longrightarrow> override_source ov = None"
  by (cases ov; auto simp: Let_def split: if_splits option.splits HandlerKind.splits)+

lemma request_type_step_source:
  "outcome (request_type_step (hy_request_type l) sh tr)
     = orElse (request_type_source l) (Unassigned, None)"
  by (cases "hy_request_type l")
    (auto simp: request_type_step_def Let_def source_of_def request_type_source_def
      simp del: pickTarget.simps split: option.splits)

lemma location_step_source:
  "outcome (location_step db t l (loaded_shape l) tr)
     = orElse (location_source db t l) (orElse (request_type_source l) (Unassigned, None))"
  using request_type_step_source [of l "loaded_shape l"]
  by (auto simp: location_step_def tryLocationChain_def location_cells_def location_source_def
      split: option.splits)

lemma asset_step_source:
  "outcome (asset_step db t l (loaded_shape l) tr) =
     orElse (asset_override_source l) (orElse (asset_type_source l)
       (orElse (location_source db t l) (orElse (request_type_source l) (Unassigned, None))))"
  using location_step_source [of db t l]
  by (cases "hy_asset l")
    (auto simp: asset_step_def source_of_def Let_def asset_override_source_def
      asset_type_source_def simp del: pickTarget.simps split: option.splits)

lemma resolve_chain_source: "outcome (resolve_chain db ctx ov) = resolve_spec db ctx ov"
proof (cases "scope_override_step ov")
  case (Inl d)
  then show ?thesis
    by (simp add: resolve_chain_def resolve_spec_def Let_def scope_override_step_source)
next
  case (Inr tr)
  then have "override_source ov = None" by (rule scope_override_step_source)
  with Inr show ?thesis
    using asset_step_source [of db "ctx_tenant_id ctx" "hydrate db ctx" tr]
    by (auto simp: resolve_chain_def resolve_spec_def Let_def tryRules_def rule_source_def
        source_of_def split: option.splits)
qed

subsection \<open>Which rule and which cell\<close>

lemma rule_hit_Some:
  "rule_hit rc r = Some (r', t) \<longleftrightarrow>
     r' = r \<and> matchesConditions (rr_conditions r) rc \<and> rule_target r = Some t"
  by (auto simp: rule_hit_def simp del: rule_target.simps)

lemma candidate_rules_set:
  "r \<in> set (candidate_rules db ctx) \<longleftrightarrow> r \<in> set (t_routing_rules db) \<and>
     rr_tenant_id r = ctx_tenant_id ctx \<and> rr_active r \<and> rr_id r \<notin> set (ctx_excluded_rule_ids ctx)"
  by (auto simp: candidate_rules_def loadRoutingRules_def Let_def)

lemma candidate_rules_sorted:
  "sorted_wrt (\<lambda>a b. rr_priority b \<le> rr_priority a) (candidate_rules db ctx)"
proof -
  have "sorted (map (\<lambda>r. - rr_priority r) (loadRoutingRules db t))" for t
    by (simp add: loadRoutingRules_def)
  then have "sorted_wrt (\<lambda>a b. rr_priority b \<le> rr_priority a) (loadRoutingRules db t)" for t
    by (simp add: sorted_map)
  then show ?thesis
    by (simp add: candidate_rules_def Let_def sorted_wrt_filter)
qed

lemma location_cells_product:
  "location_cells chain doms = List.product (enumerate 0 doms) (enumerate 0 chain)"
  by (simp add: location_cells_def product_concat_map)

lemma location_cells_nth:
  assumes "n < length doms * length chain"
  shows "location_cells chain doms ! n =
    ((n div length chain, doms ! (n div length chain)), (n mod length chain, chain ! (n mod length chain)))"
proof -
  have "0 < length chain" using assms by (cases chain) auto
  then have "n div length chain < length doms" "n mod length chain < length chain"
    using assms by (auto simp: less_mult_imp_div_less)
  with assms show ?thesis
    by (simp add: location_cells_product product_nth nth_enumerate_eq)
qed

lemma lex_index:
  fixes d s d' s' k :: nat
  assumes "s < k" "s' < k" "d' < d \<or> d' = d \<and> s' < s"
  shows "d' * k + s' < d * k + s"
proof (cases "d' < d")
  case True
  then have "d' * k + k \<le> d * k" by (metis Suc_leI add.commute mult_Suc mult_le_mono1)
  with assms show ?thesis by linarith
next
  case False
  with assms show ?thesis by simp
qed

lemma first_cell:
  assumes "first_some f (location_cells chain doms) = Some y"
  shows "\<exists>d<length doms. \<exists>s<length chain. f ((d, doms ! d), (s, chain ! s)) = Some y \<and>
    (\<forall>d'<length doms. \<forall>s'<length chain. d' < d \<or> d' = d \<and> s' < s \<longrightarrow>
       f ((d', doms ! d'), (s', chain ! s')) = None)"
proof -
  let ?cs = "location_cells chain doms" and ?k = "length chain"
  have len: "length ?cs = length doms * ?k" by (simp add: location_cells_product)
  from first_some_SomeD [OF assms] obtain us x vs where
    cs: "?cs = us @ x # vs" and none: "\<forall>u\<in>set us. f u = None" and fx: "f x = Some y" by blast
  let ?n = "length us"
  have n: "?n < length doms * ?k" using cs len [symmetric] by simp
  then have k: "0 < ?k" by (cases chain) auto
  have cell_nth: "?cs ! (d * ?k + s) = ((d, doms ! d), (s, chain ! s))"
    if "d < length doms" "s < ?k" for d s
  proof -
    have "d * ?k + s < Suc d * ?k" using that by simp
    also have "\<dots> \<le> length doms * ?k" using that by (intro mult_le_mono1) simp
    finally have "d * ?k + s < length doms * ?k" .
    moreover have "(d * ?k + s) div ?k = d" "(d * ?k + s) mod ?k = s"
      using that(2) by (cases "?k = 0"; simp)+
    ultimately show ?thesis by (simp add: location_cells_nth)
  qed
  let ?d = "?n div ?k" and ?s = "?n mod ?k"
  have ds: "?d < length doms" "?s < ?k" using n k by (auto simp: less_mult_imp_div_less)
  have "x = ((?d, doms ! ?d), (?s, chain ! ?s))"
    using cell_nth [OF ds] cs by (simp add: nth_append)
  moreover have "f ((d', doms ! d'), (s', chain ! s')) = None"
    if "d' < length doms" "s' < ?k" "d' < ?d \<or> d' = ?d \<and> s' < ?s" for d' s'
  proof -
    have "d' * ?k + s' < ?n" using lex_index [OF ds(2) that(2,3)] by simp
    then have "?cs ! (d' * ?k + s') \<in> set us" using cs by (simp add: nth_append)
    then show ?thesis using none unfolding cell_nth [OF that(1,2)] by (rule bspec [rotated])
  qed
  ultimately show ?thesis using ds fx by (intro exI [of _ ?d] conjI exI [of _ ?s] allI impI) simp_all
qed

subsection \<open>Properties\<close>

text \<open>
  Tenant isolation: a routing decision is a function of the rows of the ticket's own
  tenant. Removing every other tenant's rows from the database changes nothing.
\<close>

theorem resolve_tenant_isolated:
  "resolve (restrict_db (ctx_tenant_id context) db) rpc context = resolve db rpc context"
  by (simp add: resolve_def Let_def resolve_chain_restrict)

text \<open>
  C8. The order of precedence: scope override, routing rule, asset override, asset type
  default, location and group teams along the domain chain, request type default, and
  unassigned when none answers. The resolver's answer is the first source that has one.
\<close>

theorem resolve_precedence:
  assumes "truthy (ctx_request_type_id context)"
    and "rpc (ctx_tenant_id context) (the (ctx_request_type_id context))
      (nullish (ctx_location_id context)
        (Option.bind (hy_asset (hydrate db context)) as_assigned_space_id)) = Inr override"
  shows "\<exists>d. resolve db rpc context = Inr d \<and>
    (rd_chosen_by d, rd_target d) = resolve_spec db context override"
  using assms resolve_chain_source [of db "context" override]
  by (auto simp: resolve_def Let_def)

definition example_rt :: LoadedRequestType where
  "example_rt = \<lparr>rt_id = ''rt'', rt_tenant_id = ''t'', rt_domain = None, rt_domain_id = None,
     rt_fulfillment_strategy = ShapeAuto, rt_default_team_id = Some ''desk'',
     rt_default_vendor_id = None, rt_asset_type_filter = [],
     rt_case_owner_policy_entity_id = None, rt_child_dispatch_policy_entity_id = None\<rparr>"

definition example_db :: routing_db where
  "example_db = \<lparr>t_request_types = [example_rt], t_assets = [], t_spaces = [],
     t_location_teams = [], t_space_group_members = [], t_domain_parents = [],
     t_routing_rules = []\<rparr>"

definition example_ctx :: ResolverContext where
  "example_ctx = \<lparr>ctx_tenant_id = ''t'', ctx_ticket_id = ''k'', ctx_request_type_id = Some ''rt'',
     ctx_domain = None, ctx_priority = None, ctx_asset_id = None, ctx_location_id = None,
     ctx_excluded_rule_ids = []\<rparr>"

theorem resolve_precedence_witness:
  "\<exists>d. resolve example_db (\<lambda>t r s. Inr None) example_ctx = Inr d \<and>
     (rd_chosen_by d, rd_target d) = (RequestTypeDefault, Some (TeamTarget ''desk''))"
proof -
  have "resolve_spec example_db example_ctx None = (RequestTypeDefault, Some (TeamTarget ''desk''))"
    by code_simp
  moreover have "\<exists>d. resolve example_db (\<lambda>t r s. Inr None) example_ctx = Inr d \<and>
      (rd_chosen_by d, rd_target d) = resolve_spec example_db example_ctx None"
    by (rule resolve_precedence) (simp_all add: example_ctx_def)
  ultimately show ?thesis by simp
qed

text \<open>
  The trace explains the decision: exactly one entry matched, it is the last one,
  and it carries the decision's step and target; every earlier entry is a miss with no
  target.
\<close>

theorem resolve_trace_explains:
  assumes "resolve db rpc context = Inr d"
  shows "explained d \<and> length (filter te_matched (rd_trace d)) = 1"
  using legacy_resolver.decide_explained [of "(db, rpc, context)" d]
    legacy_resolver.matched_unique [of "(db, rpc, context)" d] assms by simp

theorem resolve_trace_explains_witness:
  "\<exists>d. resolve example_db (\<lambda>t r s. Inr None) example_ctx = Inr d \<and>
     explained d \<and> length (filter te_matched (rd_trace d)) = 1"
proof -
  obtain d where d: "resolve example_db (\<lambda>t r s. Inr None) example_ctx = Inr d"
    by (simp add: resolve_def Let_def)
  with resolve_trace_explains [OF d] show ?thesis by blast
qed

text \<open>
  A rule decision comes from an active rule of the tenant that is not excluded and
  whose conditions hold, and no other such rule with an assignee has a higher priority.
\<close>

theorem tryRules_highest_priority:
  assumes "tryRules db context trace = Some d"
  shows "\<exists>rule. rule \<in> set (candidate_rules db context) \<and>
    matchesConditions (rr_conditions rule) (rule_context context) \<and>
    rd_target d = rule_target rule \<and> rd_rule_id d = Some (rr_id rule) \<and>
    rr_active rule \<and> rr_tenant_id rule = ctx_tenant_id context \<and>
    rr_id rule \<notin> set (ctx_excluded_rule_ids context) \<and>
    (\<forall>r\<in>set (candidate_rules db context).
       matchesConditions (rr_conditions r) (rule_context context) \<longrightarrow> rule_target r \<noteq> None \<longrightarrow>
       rr_priority r \<le> rr_priority rule)"
proof -
  let ?f = "rule_hit (rule_context context)" and ?rs = "candidate_rules db context"
  from assms obtain rule t where hit: "first_some ?f ?rs = Some (rule, t)"
    and d: "rd_target d = Some t" "rd_rule_id d = Some (rr_id rule)"
    by (auto simp: tryRules_def split: option.splits)
  from first_some_SomeD [OF hit] obtain us x vs where
    rs: "?rs = us @ x # vs" and none: "\<forall>u\<in>set us. ?f u = None" and "?f x = Some (rule, t)" by blast
  then have x: "x = rule" and m: "matchesConditions (rr_conditions rule) (rule_context context)"
    and t: "rule_target rule = Some t" by (auto simp: rule_hit_Some)
  have mem: "rule \<in> set ?rs" using rs x by simp
  have "rr_priority r \<le> rr_priority rule"
    if "r \<in> set ?rs" "matchesConditions (rr_conditions r) (rule_context context)"
      "rule_target r \<noteq> None" for r
  proof -
    have "?f r \<noteq> None" using that by (auto simp: rule_hit_def simp del: rule_target.simps)
    then have "r \<in> set (x # vs)" using that(1) rs none by auto
    then show ?thesis using candidate_rules_sorted [of db "context"] rs x
      by (auto simp: sorted_wrt_append)
  qed
  with mem m t d candidate_rules_set [of rule db "context"] show ?thesis
    by (intro exI [of _ rule]) (auto simp del: rule_target.simps)
qed

theorem tryRules_highest_priority_witness:
  "\<exists>d. \<exists>rule::RoutingRuleRecord. tryRules (example_db\<lparr>t_routing_rules :=
     [\<lparr>rr_id = ''r'', rr_tenant_id = ''t'', rr_name = ''n'', rr_priority = 1, rr_active = True,
       rr_conditions = [], rr_action_assign_team_id = Some ''a'',
       rr_action_assign_user_id = None\<rparr>]\<rparr>) example_ctx [] = Some d \<and>
     rd_rule_id d = Some (rr_id rule) \<and> rr_active rule"
proof -
  let ?db = "example_db\<lparr>t_routing_rules :=
     [\<lparr>rr_id = ''r'', rr_tenant_id = ''t'', rr_name = ''n'', rr_priority = 1, rr_active = True,
       rr_conditions = [], rr_action_assign_team_id = Some ''a'',
       rr_action_assign_user_id = None\<rparr>]\<rparr>"
  obtain d where "tryRules ?db example_ctx [] = Some d"
    by (simp add: tryRules_def candidate_rules_def loadRoutingRules_def example_ctx_def rule_hit_def
      matchesConditions_def Let_def)
  moreover from tryRules_highest_priority [OF this]
  have "\<exists>rule::RoutingRuleRecord. rd_rule_id d = Some (rr_id rule) \<and> rr_active rule"
    by blast
  ultimately show ?thesis by blast
qed

text \<open>
  A location decision is the nearest one: its cell is the first, by position in the
  domain chain and then by position in the space chain, at which the location or its
  groups name a team or vendor.
\<close>

theorem tryLocationChain_nearest:
  assumes "tryLocationChain db chain domains tenant trace = (Some (step, target), trace')"
  shows "\<exists>d<length domains. \<exists>s<length chain.
    (\<exists>reason. location_cell db tenant ((d, domains ! d), (s, chain ! s)) = Some (step, reason, target)) \<and>
    (\<forall>d'<length domains. \<forall>s'<length chain. d' < d \<or> d' = d \<and> s' < s \<longrightarrow>
       location_cell db tenant ((d', domains ! d'), (s', chain ! s')) = None)"
proof -
  from assms obtain reason where
    "first_some (location_cell db tenant) (location_cells chain domains) = Some (step, reason, target)"
    by (auto simp: tryLocationChain_def split: if_splits option.splits)
  from first_cell [OF this] show ?thesis by blast
qed

theorem tryLocationChain_nearest_witness:
  "\<exists>d<length [''fm'']. \<exists>s<length [''room'', ''floor''].
    (\<exists>reason. location_cell (example_db\<lparr>t_location_teams :=
      [\<lparr>ltr_tenant_id = ''t'', ltr_space_id = Some ''floor'', ltr_space_group_id = None,
        ltr_domain = ''fm'', ltr_hit = \<lparr>lt_team_id = Some ''x'', lt_vendor_id = None\<rparr>\<rparr>]\<rparr>) ''t''
      ((d, [''fm''] ! d), (s, [''room'', ''floor''] ! s)) = Some (ParentLocationTeam, reason, TeamTarget ''x''))"
proof -
  let ?db = "example_db\<lparr>t_location_teams :=
      [\<lparr>ltr_tenant_id = ''t'', ltr_space_id = Some ''floor'', ltr_space_group_id = None,
        ltr_domain = ''fm'', ltr_hit = \<lparr>lt_team_id = Some ''x'', lt_vendor_id = None\<rparr>\<rparr>]\<rparr>"
  have "fst (tryLocationChain ?db [''room'', ''floor''] [''fm''] ''t'' [])
      = Some (ParentLocationTeam, TeamTarget ''x'')"
    by code_simp
  then obtain tr where "tryLocationChain ?db [''room'', ''floor''] [''fm''] ''t'' []
      = (Some (ParentLocationTeam, TeamTarget ''x''), tr)"
    by (metis prod.collapse)
  from tryLocationChain_nearest [OF this] show ?thesis by blast
qed

text \<open>
  The chains are bounded and follow the parent links: the domain chain never
  repeats a domain (so a cycle of parents ends the walk) and has at most 11 elements;
  the location chain has at most 10.
\<close>

theorem chains_bounded:
  "distinct (domainChain db tenant domain) \<and> length (domainChain db tenant domain) \<le> 11 \<and>
   hd (domainChain db tenant domain) = domain \<and>
   (\<forall>i. Suc i < length (domainChain db tenant domain) \<longrightarrow>
      domain_parent db tenant (domainChain db tenant domain ! i)
        = Some (domainChain db tenant domain ! Suc i)) \<and>
   length (locationChain db space tenant) \<le> 10 \<and>
   (\<forall>i. Suc i < length (locationChain db space tenant) \<longrightarrow>
      space_parent db tenant (locationChain db space tenant ! i)
        = Some (locationChain db space tenant ! Suc i))"
  using domainChain_props [of db tenant domain]
    length_parent_walk [of "space_parent db tenant" 10 "Some space"]
    parent_walk_linked [of _ "space_parent db tenant" 10 "Some space"]
  by (simp add: locationChain_def)

theorem chains_bounded_witness:
  "distinct (domainChain example_db ''t'' ''fm'') \<and> domainChain example_db ''t'' ''fm'' = [''fm'']"
proof -
  have "domainChain example_db ''t'' ''fm'' = [''fm'']" by code_simp
  then show ?thesis using chains_bounded [of example_db "''t''" "''fm''"] by simp
qed

end
