(* ===== verification/Visitors.thy ===== *)
theory Visitors
  imports Db_Tx Js_Value "HOL-Library.List_Lexorder"
begin

text \<open>
  The visitor record and its life cycle (visitors/visitor.service.ts) and the pool of
  physical passes (visitors/pass-pool.service.ts). The database is a record of the tables
  the services write: visitors, passes, audit events, domain events and task leases, and
  the log of the calls of the host notification service. Instants are milliseconds.

  Every operation is a function from the database to its result and the new database. The
  environment of a call gives the current instant, the tenant of the request context and,
  for each best-effort insert, whether the database accepts it.
\<close>

section \<open>Data\<close>

datatype VisitorStatus =
  PendingApproval | Expected | Arrived | InMeeting | CheckedOut | NoShow | Cancelled | Denied

datatype CheckoutSource = Reception | Host | EodSweep

record TransitionStatusOpts =
  o_arrived_at :: "int option"
  o_checkout_source :: "CheckoutSource option"

record TransitionStatusActor =
  a_user_id :: ident
  a_person_id :: ident_opt

record VisitorRow =
  v_id :: ident
  v_tenant_id :: ident
  v_status :: VisitorStatus
  v_arrived_at :: "int option"
  v_logged_at :: "int option"
  v_checked_out_at :: "int option"
  v_checkout_source :: "CheckoutSource option"
  v_auto_checked_out :: bool
  v_visitor_pass_id :: ident_opt
  v_expected_at :: "int option"
  v_expected_until :: "int option"
  v_building_id :: ident_opt
  v_meeting_room_id :: ident_opt
  v_booking_id :: ident_opt

datatype VisitorPassStatus = PassAvailable | PassReserved | PassInUse | PassLost | PassRetired

record VisitorPassPool =
  p_id :: ident
  p_tenant_id :: ident
  p_space_id :: ident
  p_space_kind :: string
  p_pass_number :: string
  p_pass_type :: string
  p_status :: VisitorPassStatus
  p_current_visitor_id :: ident_opt
  p_reserved_for_visitor_id :: ident_opt
  p_last_assigned_at :: "int option"
  p_notes :: ident_opt

record event_row =
  e_tenant_id :: ident
  e_event_type :: string
  e_entity_type :: string
  e_entity_id :: ident_opt
  e_payload :: "(string \<times> jsval) list"

record lease_row =
  l_tenant_id :: ident
  l_lease_key :: string
  l_acquired_by :: string
  l_released :: bool

record visitor_db =
  visitors :: "VisitorRow list"
  passes :: "VisitorPassPool list"
  audit_events :: "event_row list"
  domain_events :: "event_row list"
  task_leases :: "lease_row list"
  host_notified :: "(string \<times> ident) list"

record env =
  env_now :: int
  env_tenant :: ident
  env_audit_ok :: "string \<Rightarrow> bool"
  env_event_ok :: "string \<Rightarrow> bool"

fun status_name :: "VisitorStatus \<Rightarrow> string" where
  "status_name PendingApproval = ''pending_approval''"
| "status_name Expected = ''expected''"
| "status_name Arrived = ''arrived''"
| "status_name InMeeting = ''in_meeting''"
| "status_name CheckedOut = ''checked_out''"
| "status_name NoShow = ''no_show''"
| "status_name Cancelled = ''cancelled''"
| "status_name Denied = ''denied''"

fun source_name :: "CheckoutSource \<Rightarrow> string" where
  "source_name Reception = ''reception''"
| "source_name Host = ''host''"
| "source_name EodSweep = ''eod_sweep''"

fun of_int_opt :: "int option \<Rightarrow> jsval" where
  "of_int_opt None = JNull"
| "of_int_opt (Some n) = JNum (of_int n)"

section \<open>The status machine\<close>

fun ALLOWED_TRANSITIONS :: "VisitorStatus \<Rightarrow> VisitorStatus list option" where
  "ALLOWED_TRANSITIONS PendingApproval = Some [Expected, Denied, Cancelled]"
| "ALLOWED_TRANSITIONS Expected = Some [Arrived, NoShow, Cancelled, Denied]"
| "ALLOWED_TRANSITIONS Arrived = Some [InMeeting, CheckedOut]"
| "ALLOWED_TRANSITIONS InMeeting = Some [CheckedOut]"
| "ALLOWED_TRANSITIONS _ = None"

definition transition_allowed :: "VisitorStatus \<Rightarrow> VisitorStatus \<Rightarrow> bool" where
  "transition_allowed from to =
    (case ALLOWED_TRANSITIONS from of None \<Rightarrow> False | Some allowed \<Rightarrow> to \<in> set allowed)"

text \<open>The CHECK constraints of the visitors table that a status update can run into.\<close>

definition visitor_check :: "VisitorRow \<Rightarrow> bool" where
  "visitor_check r \<longleftrightarrow>
    (case (v_logged_at r, v_arrived_at r) of (Some l, Some a) \<Rightarrow> a \<le> l | _ \<Rightarrow> True) \<and>
    (v_status r = CheckedOut \<longrightarrow> v_checkout_source r \<noteq> None)"

fun auditEventName :: "VisitorStatus \<Rightarrow> string" where
  "auditEventName Expected = ''visitor.expected''"
| "auditEventName Arrived = ''visitor.arrived''"
| "auditEventName InMeeting = ''visitor.in_meeting''"
| "auditEventName CheckedOut = ''visitor.checked_out''"
| "auditEventName NoShow = ''visitor.no_show''"
| "auditEventName Cancelled = ''visitor.cancelled''"
| "auditEventName Denied = ''visitor.denied''"
| "auditEventName PendingApproval = ''visitor.pending_approval''"

definition transition_row ::
  "env \<Rightarrow> VisitorStatus \<Rightarrow> TransitionStatusOpts \<Rightarrow> VisitorRow \<Rightarrow> VisitorRow" where
  "transition_row e toStatus opts row =
    (let row = row\<lparr>v_status := toStatus\<rparr>;
         row = (if toStatus = Arrived
           then row\<lparr>v_arrived_at := nullish (o_arrived_at opts) (Some (env_now e)),
                    v_logged_at := Some (env_now e)\<rparr> else row)
     in if toStatus = CheckedOut
        then row\<lparr>v_checked_out_at := Some (env_now e),
                 v_checkout_source := o_checkout_source opts,
                 v_auto_checked_out := (o_checkout_source opts = Some EodSweep)\<rparr>
        else row)"

definition transition_details ::
  "env \<Rightarrow> VisitorStatus \<Rightarrow> VisitorStatus \<Rightarrow> TransitionStatusActor \<Rightarrow> TransitionStatusOpts \<Rightarrow>
   (string \<times> jsval) list" where
  "transition_details e from to actor opts =
    [(''from_status'', JStr (status_name from)), (''to_status'', JStr (status_name to)),
     (''actor_user_id'', JStr (a_user_id actor)), (''actor_person_id'', of_str_opt (a_person_id actor))] @
    (if to = Arrived
     then [(''arrived_at'', of_int_opt (nullish (o_arrived_at opts) (Some (env_now e))))] else []) @
    (if to = CheckedOut
     then [(''checkout_source'', of_str_opt (map_option source_name (o_checkout_source opts))),
           (''auto_checked_out'', JBool (o_checkout_source opts = Some EodSweep))] else [])"

definition emitDomainEvent ::
  "env \<Rightarrow> string \<Rightarrow> ident \<Rightarrow> (string \<times> jsval) list \<Rightarrow> visitor_db tx \<Rightarrow> visitor_db tx" where
  "emitDomainEvent e eventType entityId payload =
    best_effort (env_event_ok e eventType)
      (\<lambda>w. w\<lparr>domain_events := domain_events w @
         [\<lparr>e_tenant_id = env_tenant e, e_event_type = eventType, e_entity_type = ''visitor'',
           e_entity_id = Some entityId, e_payload = payload\<rparr>]\<rparr>)"

definition transition_events ::
  "env \<Rightarrow> VisitorRow \<Rightarrow> VisitorStatus \<Rightarrow> TransitionStatusActor \<Rightarrow> TransitionStatusOpts \<Rightarrow>
   visitor_db tx \<Rightarrow> visitor_db tx" where
  "transition_events e row toStatus actor opts t =
    (let t = best_effort (env_audit_ok e (auditEventName toStatus))
           (\<lambda>w. w\<lparr>audit_events := audit_events w @
              [\<lparr>e_tenant_id = env_tenant e, e_event_type = auditEventName toStatus,
                e_entity_type = ''visitor'', e_entity_id = Some (v_id row),
                e_payload = transition_details e (v_status row) toStatus actor opts\<rparr>]\<rparr>) t;
         t = (if toStatus = Arrived
           then emitDomainEvent e ''visitor.arrived'' (v_id row)
             [(''visitor_id'', JStr (v_id row)), (''actor_user_id'', JStr (a_user_id actor))] t
           else t);
         t = (if toStatus = CheckedOut \<and> truthy (v_visitor_pass_id row)
           then emitDomainEvent e ''visitor.pass_return_requested'' (v_id row)
             [(''visitor_id'', JStr (v_id row)), (''visitor_pass_id'', of_str_opt (v_visitor_pass_id row)),
              (''checkout_source'', of_str_opt (map_option source_name (o_checkout_source opts)))] t
           else t)
     in if toStatus = Cancelled
        then emitDomainEvent e ''visitor.cancelled'' (v_id row)
          [(''visitor_id'', JStr (v_id row)), (''from_status'', JStr (status_name (v_status row))),
           (''actor_user_id'', JStr (a_user_id actor))] t
        else t)"

text \<open>
  The body of the transaction. The UPDATE is refused when the new row violates a CHECK
  constraint, and the returned row is the first updated one.
\<close>

definition transition_tx ::
  "env \<Rightarrow> ident \<Rightarrow> VisitorStatus \<Rightarrow> TransitionStatusActor \<Rightarrow> TransitionStatusOpts \<Rightarrow>
   visitor_db tx \<Rightarrow> (VisitorRow \<times> visitor_db tx) result" where
  "transition_tx e visitorId toStatus actor opts t =
    (case select_by v_id visitorId (visitors (fst t)) of
       None \<Rightarrow> Inl (NotFound ''visitor'' visitorId)
     | Some row \<Rightarrow>
         if v_tenant_id row \<noteq> env_tenant e then Inl (NotFound ''visitor'' visitorId)
         else if v_status row = toStatus then Inr (row, t)
         else if \<not> transition_allowed (v_status row) toStatus
         then Inl (ValidationFailed ''visitor.invalid_state'')
         else if \<not> visitor_check (transition_row e toStatus opts row)
         then Inl (PlainError ''check_violation'')
         else
           let rows = update_where (\<lambda>r. v_id r = visitorId \<and> v_tenant_id r = env_tenant e)
                 (transition_row e toStatus opts) (visitors (fst t))
           in case find (\<lambda>r. v_id r = visitorId \<and> v_tenant_id r = env_tenant e) rows of
                None \<Rightarrow> Inl (ValidationFailed ''visitor.invalid_payload'')
              | Some next \<Rightarrow>
                  Inr (next, transition_events e row toStatus actor opts
                    ((fst t)\<lparr>visitors := rows\<rparr>, snd t)))"

definition transitionStatus ::
  "env \<Rightarrow> ident \<Rightarrow> VisitorStatus \<Rightarrow> TransitionStatusActor \<Rightarrow> TransitionStatusOpts \<Rightarrow>
   (visitor_db, VisitorRow) op" where
  "transitionStatus e visitorId toStatus actor opts w =
    (if toStatus = CheckedOut \<and> o_checkout_source opts = None
     then (Inl (ValidationFailed ''visitor.invalid_payload''), w)
     else db_tx (transition_tx e visitorId toStatus actor opts) w)"

abbreviation no_opts :: TransitionStatusOpts where
  "no_opts \<equiv> \<lparr>o_arrived_at = None, o_checkout_source = None\<rparr>"

datatype ApprovalOutcome = OutcomeApproved | OutcomeRejected

text \<open>
  \<open>hasSupabase\<close> and \<open>hasHostNotifications\<close> say whether the two optional collaborators
  are injected; \<open>notifyOk\<close> whether the notification of the hosts succeeds.
\<close>

definition onApprovalDecided ::
  "env \<Rightarrow> bool \<Rightarrow> bool \<Rightarrow> bool \<Rightarrow> ident \<Rightarrow> ApprovalOutcome \<Rightarrow> ident \<Rightarrow> ident \<Rightarrow> (visitor_db, unit) op" where
  "onApprovalDecided e hasSupabase hasHostNotifications notifyOk visitorId outcome approverUserId tenantId w =
    (if env_tenant e \<noteq> tenantId then (Inl (NotFound ''visitor'' visitorId), w)
     else if \<not> hasSupabase then (Inl (ServerError ''visitor.config_missing''), w)
     else case select_by v_id visitorId (visitors w) of
       None \<Rightarrow> (Inl (NotFound ''visitor'' visitorId), w)
     | Some row \<Rightarrow>
         let targetStatus = (if outcome = OutcomeApproved then Expected else Denied);
             actor = \<lparr>a_user_id = approverUserId, a_person_id = None\<rparr>
         in
         if v_tenant_id row \<noteq> tenantId then (Inl (NotFound ''visitor'' visitorId), w)
         else if v_status row = targetStatus then (Inr (), w)
         else if v_status row \<noteq> PendingApproval then (Inl (ValidationFailed ''visitor.invalid_state''), w)
         else case transitionStatus e visitorId targetStatus actor no_opts w of
           (Inl err, w') \<Rightarrow> (Inl err, w')
         | (Inr _, w') \<Rightarrow>
             if outcome = OutcomeApproved
             then (Inr (),
               if env_event_ok e ''visitor.invitation.expected''
               then w'\<lparr>domain_events := domain_events w' @
                 [\<lparr>e_tenant_id = tenantId, e_event_type = ''visitor.invitation.expected'',
                   e_entity_type = ''visitor'', e_entity_id = Some visitorId,
                   e_payload = [(''visitor_id'', JStr visitorId),
                     (''triggered_by'', JStr ''approval_grant''),
                     (''approver_user_id'', JStr approverUserId)]\<rparr>]\<rparr>
               else w')
             else if \<not> hasHostNotifications then (Inl (ServerError ''visitor.config_missing''), w')
             else (Inr (),
               if notifyOk then w'\<lparr>host_notified := host_notified w' @ [(''denied'', visitorId)]\<rparr>
               else w'))"

section \<open>The pass pool\<close>

definition emitAudit ::
  "env \<Rightarrow> string \<Rightarrow> ident_opt \<Rightarrow> ident \<Rightarrow> (string \<times> jsval) list \<Rightarrow> visitor_db tx \<Rightarrow> visitor_db tx" where
  "emitAudit e eventType entityId passId details =
    best_effort (env_audit_ok e eventType)
      (\<lambda>w. w\<lparr>audit_events := audit_events w @
         [\<lparr>e_tenant_id = env_tenant e, e_event_type = eventType, e_entity_type = ''visitor_pass'',
           e_entity_id = nullish entityId (Some passId),
           e_payload = (''pass_id'', JStr passId) # details\<rparr>]\<rparr>)"

definition lockPass :: "ident \<Rightarrow> visitor_db \<Rightarrow> VisitorPassPool result" where
  "lockPass passId w = (case select_by p_id passId (passes w) of
     None \<Rightarrow> Inl (NotFound ''visitor_pass'' passId) | Some pass \<Rightarrow> Inr pass)"

definition lockVisitor :: "ident \<Rightarrow> ident \<Rightarrow> visitor_db \<Rightarrow> VisitorRow result" where
  "lockVisitor visitorId tenantId w = (case select_by v_id visitorId (visitors w) of
     None \<Rightarrow> Inl (NotFound ''visitor'' visitorId)
   | Some v \<Rightarrow> if v_tenant_id v \<noteq> tenantId then Inl (NotFound ''visitor'' visitorId) else Inr v)"

text \<open>The shared frame of the pass operations: the context guard, the lock, the tenant guard.\<close>

definition with_pass ::
  "env \<Rightarrow> ident \<Rightarrow> ident \<Rightarrow> (VisitorPassPool \<Rightarrow> visitor_db tx \<Rightarrow> (unit \<times> visitor_db tx) result) \<Rightarrow>
   (visitor_db, unit) op" where
  "with_pass e passId tenantId body w =
    (if env_tenant e \<noteq> tenantId then (Inl (NotFoundWithCode ''visitor.tenant_mismatch''), w)
     else db_tx (\<lambda>t. and_then (lockPass passId (fst t)) (\<lambda>pass.
       if p_tenant_id pass \<noteq> tenantId then Inl (NotFound ''visitor_pass'' passId)
       else body pass t)) w)"

definition update_pass ::
  "ident \<Rightarrow> ident \<Rightarrow> (VisitorPassPool \<Rightarrow> VisitorPassPool) \<Rightarrow> visitor_db \<Rightarrow> visitor_db" where
  "update_pass passId tenantId f w =
    w\<lparr>passes := update_where (\<lambda>p. p_id p = passId \<and> p_tenant_id p = tenantId) f (passes w)\<rparr>"

definition set_visitor_pass :: "ident \<Rightarrow> ident \<Rightarrow> ident_opt \<Rightarrow> visitor_db \<Rightarrow> visitor_db" where
  "set_visitor_pass visitorId tenantId passId w =
    w\<lparr>visitors := update_where (\<lambda>v. v_id v = visitorId \<and> v_tenant_id v = tenantId)
       (v_visitor_pass_id_update (\<lambda>_. passId)) (visitors w)\<rparr>"

definition clear_holder :: "ident_opt \<Rightarrow> ident \<Rightarrow> visitor_db \<Rightarrow> visitor_db" where
  "clear_holder holder tenantId w =
    (if truthy holder then set_visitor_pass (the holder) tenantId None w else w)"

fun pass_status_name :: "VisitorPassStatus \<Rightarrow> string" where
  "pass_status_name PassAvailable = ''available''"
| "pass_status_name PassReserved = ''reserved''"
| "pass_status_name PassInUse = ''in_use''"
| "pass_status_name PassLost = ''lost''"
| "pass_status_name PassRetired = ''retired''"

definition assignPass :: "env \<Rightarrow> ident \<Rightarrow> ident \<Rightarrow> ident \<Rightarrow> (visitor_db, unit) op" where
  "assignPass e passId visitorId tenantId = with_pass e passId tenantId (\<lambda>pass t.
    and_then (lockVisitor visitorId tenantId (fst t)) (\<lambda>_.
    and_then (case p_status pass of
        PassAvailable \<Rightarrow> Inr ()
      | PassReserved \<Rightarrow>
          if p_reserved_for_visitor_id pass \<noteq> Some visitorId
          then Inl (Conflict ''visitor.pass_unavailable'') else Inr ()
      | _ \<Rightarrow> Inl (Conflict ''visitor.pass_unavailable'')) (\<lambda>_.
    let w = update_pass passId tenantId (\<lambda>p. p\<lparr>p_status := PassInUse,
              p_current_visitor_id := Some visitorId, p_reserved_for_visitor_id := None,
              p_last_assigned_at := Some (env_now e)\<rparr>) (fst t);
        w = set_visitor_pass visitorId tenantId (Some passId) w
    in Inr ((), emitAudit e ''visitor.pass_assigned'' (Some visitorId) passId
         [(''pass_number'', JStr (p_pass_number pass)), (''visitor_id'', JStr visitorId),
          (''from_status'', JStr (pass_status_name (p_status pass)))] (w, snd t)))))"

definition reservePass :: "env \<Rightarrow> ident \<Rightarrow> ident \<Rightarrow> ident \<Rightarrow> (visitor_db, unit) op" where
  "reservePass e passId visitorId tenantId = with_pass e passId tenantId (\<lambda>pass t.
    and_then (lockVisitor visitorId tenantId (fst t)) (\<lambda>_.
    if p_status pass \<noteq> PassAvailable then Inl (Conflict ''visitor.pass_unavailable'')
    else
      let w = update_pass passId tenantId (\<lambda>p. p\<lparr>p_status := PassReserved,
                p_reserved_for_visitor_id := Some visitorId\<rparr>) (fst t)
      in Inr ((), emitAudit e ''visitor.pass_reserved'' (Some visitorId) passId
           [(''pass_number'', JStr (p_pass_number pass)), (''visitor_id'', JStr visitorId)] (w, snd t))))"

definition returnPass :: "env \<Rightarrow> ident \<Rightarrow> ident \<Rightarrow> (visitor_db, unit) op" where
  "returnPass e passId tenantId = with_pass e passId tenantId (\<lambda>pass t.
    if p_status pass \<noteq> PassInUse then Inl (Conflict ''visitor.pass_unavailable'')
    else
      let w = update_pass passId tenantId (\<lambda>p. p\<lparr>p_status := PassAvailable,
                p_current_visitor_id := None, p_reserved_for_visitor_id := None\<rparr>) (fst t);
          w = clear_holder (p_current_visitor_id pass) tenantId w
      in Inr ((), emitAudit e ''visitor.pass_returned'' (p_current_visitor_id pass) passId
           [(''pass_number'', JStr (p_pass_number pass)),
            (''visitor_id'', of_str_opt (p_current_visitor_id pass))] (w, snd t)))"

definition markPassMissing :: "env \<Rightarrow> ident \<Rightarrow> ident \<Rightarrow> ident_opt \<Rightarrow> (visitor_db, unit) op" where
  "markPassMissing e passId tenantId reason = with_pass e passId tenantId (\<lambda>pass t.
    if p_status pass = PassRetired then Inl (Conflict ''visitor.pass_unavailable'')
    else
      let w = update_pass passId tenantId (\<lambda>p. p\<lparr>p_status := PassLost,
                p_current_visitor_id := None, p_reserved_for_visitor_id := None\<rparr>) (fst t);
          w = clear_holder (p_current_visitor_id pass) tenantId w
      in Inr ((), emitAudit e ''visitor.pass_marked_missing'' (p_current_visitor_id pass) passId
           [(''pass_number'', JStr (p_pass_number pass)),
            (''from_status'', JStr (pass_status_name (p_status pass))),
            (''reason'', of_str_opt reason)] (w, snd t)))"

definition markPassRecovered :: "env \<Rightarrow> ident \<Rightarrow> ident \<Rightarrow> (visitor_db, unit) op" where
  "markPassRecovered e passId tenantId = with_pass e passId tenantId (\<lambda>pass t.
    if p_status pass \<noteq> PassLost then Inl (Conflict ''visitor.pass_unavailable'')
    else
      let w = update_pass passId tenantId (p_status_update (\<lambda>_. PassAvailable)) (fst t)
      in Inr ((), emitAudit e ''visitor.pass_recovered'' None passId
           [(''pass_number'', JStr (p_pass_number pass))] (w, snd t)))"

text \<open>
  The reads of the pool. \<open>poolForSpace\<close> is the SQL function \<open>pass_pool_for_space\<close>; the
  two listings are ordered by pass number and by the instant of the last assignment.
\<close>

definition passPoolForSpace ::
  "env \<Rightarrow> (ident \<Rightarrow> VisitorPassPool list) \<Rightarrow> ident \<Rightarrow> ident \<Rightarrow> VisitorPassPool option result" where
  "passPoolForSpace e poolForSpace spaceId tenantId =
    (if env_tenant e \<noteq> tenantId then Inl (NotFoundWithCode ''visitor.tenant_mismatch'')
     else Inr (case poolForSpace spaceId of [] \<Rightarrow> None | r # _ \<Rightarrow> Some r))"

definition availablePassesForSpace ::
  "env \<Rightarrow> (ident \<Rightarrow> VisitorPassPool list) \<Rightarrow> ident \<Rightarrow> ident \<Rightarrow> visitor_db \<Rightarrow> VisitorPassPool list result" where
  "availablePassesForSpace e poolForSpace spaceId tenantId w =
    and_then (passPoolForSpace e poolForSpace spaceId tenantId) (\<lambda>anchor. case anchor of
      None \<Rightarrow> Inr []
    | Some a \<Rightarrow> Inr (sort_key (map (\<lambda>c. of_char c :: nat) \<circ> p_pass_number)
        (filter (\<lambda>p. p_tenant_id p = tenantId \<and> p_space_id p = p_space_id a \<and>
          p_status p = PassAvailable) (passes w))))"

definition unreturnedPassesForBuilding ::
  "env \<Rightarrow> (ident \<Rightarrow> VisitorPassPool list) \<Rightarrow> ident \<Rightarrow> ident \<Rightarrow> int \<Rightarrow> visitor_db \<Rightarrow>
   VisitorPassPool list result" where
  "unreturnedPassesForBuilding e poolForSpace buildingId tenantId since w =
    and_then (passPoolForSpace e poolForSpace buildingId tenantId) (\<lambda>anchor. case anchor of
      None \<Rightarrow> Inr []
    | Some a \<Rightarrow> Inr (rev (sort_key (\<lambda>p. the (p_last_assigned_at p))
        (filter (\<lambda>p. p_tenant_id p = tenantId \<and> p_space_id p = p_space_id a \<and>
          p_status p = PassLost \<and>
          (case p_last_assigned_at p of None \<Rightarrow> False | Some l \<Rightarrow> since \<le> l)) (passes w)))))"

section \<open>Lemmas\<close>

lemma best_effort_keeps:
  assumes "\<forall>w. g (f w) = g w"
  shows "g (fst (best_effort ok f t)) = g (fst t)"
  using assms by (cases t) simp

lemma best_effort_failed: "snd (best_effort ok f t) \<longleftrightarrow> snd t \<or> \<not> ok"
  by (cases t) simp

lemma db_tx_cases:
  obtains (rolled_back) "snd (db_tx fn w) = w"
  | (committed) a t where "fn (w, False) = Inr (a, t)" "\<not> snd t" "db_tx fn w = (Inr a, fst t)"
proof (cases "fn (w, False)")
  case (Inl e)
  then show ?thesis by (intro rolled_back) simp
next
  case (Inr r)
  obtain a w' failed where r: "r = (a, w', failed)" by (cases r)
  show ?thesis
  proof (cases failed)
    case True
    with Inr r show ?thesis by (intro rolled_back) (simp add: db_tx_def)
  next
    case False
    with Inr r show ?thesis by (intro committed [of a "(w', failed)"]) (simp_all add: db_tx_def)
  qed
qed

text \<open>The tables a status transition and an audit insert do not touch.\<close>

lemma emitDomainEvent_keeps [simp]:
  "visitors (fst (emitDomainEvent e n i p t)) = visitors (fst t)"
  "passes (fst (emitDomainEvent e n i p t)) = passes (fst t)"
  "task_leases (fst (emitDomainEvent e n i p t)) = task_leases (fst t)"
  "host_notified (fst (emitDomainEvent e n i p t)) = host_notified (fst t)"
  "snd (emitDomainEvent e n i p t) \<longleftrightarrow> snd t \<or> \<not> env_event_ok e n"
  by (simp_all add: emitDomainEvent_def best_effort_keeps best_effort_failed)

lemma emitAudit_keeps [simp]:
  "visitors (fst (emitAudit e n i p d t)) = visitors (fst t)"
  "passes (fst (emitAudit e n i p d t)) = passes (fst t)"
  "task_leases (fst (emitAudit e n i p d t)) = task_leases (fst t)"
  "host_notified (fst (emitAudit e n i p d t)) = host_notified (fst t)"
  "snd (emitAudit e n i p d t) \<longleftrightarrow> snd t \<or> \<not> env_audit_ok e n"
  by (simp_all add: emitAudit_def best_effort_keeps best_effort_failed)

lemma transition_events_keeps [simp]:
  "visitors (fst (transition_events e r s a p t)) = visitors (fst t)"
  "passes (fst (transition_events e r s a p t)) = passes (fst t)"
  "task_leases (fst (transition_events e r s a p t)) = task_leases (fst t)"
  "host_notified (fst (transition_events e r s a p t)) = host_notified (fst t)"
  by (simp_all add: transition_events_def Let_def best_effort_keeps)

lemma transition_row_keeps [simp]:
  "v_id (transition_row e s p r) = v_id r"
  "v_tenant_id (transition_row e s p r) = v_tenant_id r"
  "v_visitor_pass_id (transition_row e s p r) = v_visitor_pass_id r"
  "v_expected_until (transition_row e s p r) = v_expected_until r"
  "v_building_id (transition_row e s p r) = v_building_id r"
  "v_booking_id (transition_row e s p r) = v_booking_id r"
  "v_status (transition_row e s p r) = s"
  by (simp_all add: transition_row_def Let_def)

abbreviation transition_rows ::
  "env \<Rightarrow> ident \<Rightarrow> VisitorStatus \<Rightarrow> TransitionStatusOpts \<Rightarrow> VisitorRow list \<Rightarrow> VisitorRow list" where
  "transition_rows e visitorId s opts \<equiv>
    update_where (\<lambda>r. v_id r = visitorId \<and> v_tenant_id r = env_tenant e) (transition_row e s opts)"

lemma find_transition_rows:
  assumes "select_by v_id i rows = Some row" "v_tenant_id row = env_tenant e"
  shows "find (\<lambda>r. v_id r = i \<and> v_tenant_id r = env_tenant e) (transition_rows e i s opts rows) =
    Some (transition_row e s opts row)"
  using assms by (induction rows) (auto simp: select_by_def update_where_def split: if_splits)

text \<open>
  A transition either leaves the database alone or, for a row of the tenant whose status
  allows it, rewrites that row.
\<close>

lemma transitionStatus_cases:
  obtains (same) "snd (transitionStatus e i s a p w) = w"
  | (moved) row t where "select_by v_id i (visitors w) = Some row" "v_tenant_id row = env_tenant e"
      "transition_allowed (v_status row) s" "visitor_check (transition_row e s p row)"
      "transitionStatus e i s a p w = (Inr (transition_row e s p row), fst t)"
      "t = transition_events e row s a p (w\<lparr>visitors := transition_rows e i s p (visitors w)\<rparr>, False)"
      "\<not> snd t"
proof (cases "s = CheckedOut \<and> o_checkout_source p = None")
  case True
  then show ?thesis by (intro same) (simp add: transitionStatus_def)
next
  case False
  then have eq: "transitionStatus e i s a p w = db_tx (transition_tx e i s a p) w"
    by (auto simp: transitionStatus_def)
  show ?thesis
  proof (cases rule: db_tx_cases [of "transition_tx e i s a p" w])
    case rolled_back
    then show ?thesis using eq by (intro same) simp
  next
    case (committed b t)
    then obtain row where row: "select_by v_id i (visitors w) = Some row"
      and tenant: "v_tenant_id row = env_tenant e"
      by (auto simp: transition_tx_def split: option.splits if_splits)
    show ?thesis
    proof (cases "v_status row = s")
      case True
      with committed row tenant eq show ?thesis by (intro same) (auto simp: transition_tx_def)
    next
      case False
      with committed row tenant have "transition_allowed (v_status row) s"
        "visitor_check (transition_row e s p row)" "b = transition_row e s p row"
        "t = transition_events e row s a p (w\<lparr>visitors := transition_rows e i s p (visitors w)\<rparr>, False)"
        by (auto simp: transition_tx_def Let_def find_transition_rows [OF row tenant] split: if_splits)
      then show ?thesis using row tenant committed eq by (intro moved) auto
    qed
  qed
qed

lemma transitionStatus_keeps [simp]:
  "passes (snd (transitionStatus e i s a p w)) = passes w"
  "task_leases (snd (transitionStatus e i s a p w)) = task_leases w"
  "host_notified (snd (transitionStatus e i s a p w)) = host_notified w"
  by (cases rule: transitionStatus_cases [of e i s a p w]; simp)+

lemma transitionStatus_other_rows:
  assumes "j \<noteq> i"
  shows "select_by v_id j (visitors (snd (transitionStatus e i s a p w))) = select_by v_id j (visitors w)"
proof (cases rule: transitionStatus_cases [of e i s a p w])
  case (moved row t)
  then show ?thesis using assms
    by (cases "select_by v_id j (visitors w)")
      (auto simp: select_by_update_where dest: select_by_SomeD)
qed simp

lemma transitionStatus_row:
  assumes "select_by v_id i (visitors w) = Some row" "v_tenant_id row = env_tenant e"
    "v_status row \<noteq> s" "fst (transitionStatus e i s a p w) = Inr next"
    "snd (transitionStatus e i s a p w) \<noteq> w"
  shows "next = transition_row e s p row"
    and "select_by v_id i (visitors (snd (transitionStatus e i s a p w))) = Some next"
  using assms by (cases rule: transitionStatus_cases [of e i s a p w];
    auto simp: select_by_update_where dest: select_by_SomeD)+

subsection \<open>Evolution of the statuses\<close>

definition evolves :: "visitor_db \<Rightarrow> visitor_db \<Rightarrow> bool" where
  "evolves w w' \<longleftrightarrow> (\<forall>i r. select_by v_id i (visitors w) = Some r \<longrightarrow>
    (\<exists>r'. select_by v_id i (visitors w') = Some r' \<and> v_tenant_id r' = v_tenant_id r \<and>
       transition_allowed\<^sup>*\<^sup>* (v_status r) (v_status r')))"

lemma evolves_refl [simp, intro]: "evolves w w"
  by (auto simp: evolves_def)

lemma evolves_trans [trans]: "evolves u v \<Longrightarrow> evolves v w \<Longrightarrow> evolves u w"
  unfolding evolves_def by (metis rtranclp_trans)

lemma evolves_same_visitors: "visitors w' = visitors w \<Longrightarrow> evolves w w'"
  by (auto simp: evolves_def)

lemma evolves_update:
  assumes "visitors w' = update_where P f (visitors w)"
    "\<forall>r. v_id (f r) = v_id r" "\<forall>r. v_tenant_id (f r) = v_tenant_id r"
    "\<forall>r. v_status (f r) = v_status r"
  shows "evolves w w'"
  using assms by (auto simp: evolves_def select_by_update_where)

lemma transitionStatus_evolves: "evolves w (snd (transitionStatus e i s a p w))"
proof (cases rule: transitionStatus_cases [of e i s a p w])
  case (moved row t)
  then have vs: "visitors (snd (transitionStatus e i s a p w)) = transition_rows e i s p (visitors w)"
    by simp
  show ?thesis unfolding evolves_def vs
  proof (intro allI impI)
    fix j r assume r: "select_by v_id j (visitors w) = Some r"
    then have j: "v_id r = j" by (blast dest: select_by_SomeD)
    show "\<exists>r'. select_by v_id j (transition_rows e i s p (visitors w)) = Some r' \<and>
      v_tenant_id r' = v_tenant_id r \<and> transition_allowed\<^sup>*\<^sup>* (v_status r) (v_status r')"
      using moved(1,2,3) r j by (cases "j = i") (auto simp: select_by_update_where)
  qed
qed simp

lemma terminal_stays:
  assumes "transition_allowed\<^sup>*\<^sup>* s s'" "ALLOWED_TRANSITIONS s = None"
  shows "s' = s"
  using assms by (induction rule: converse_rtranclp_induct) (auto simp: transition_allowed_def)

subsection \<open>Consistency of the pass pool\<close>

text \<open>
  A pass in use has a holder of its tenant, any other pass has none, a pass carries a
  reservation exactly when it is reserved; and the pass a visitor points at is in use by
  that visitor.
\<close>

definition holder_ok :: "VisitorRow list \<Rightarrow> VisitorPassPool \<Rightarrow> bool" where
  "holder_ok vs p \<longleftrightarrow>
    (if p_status p = PassInUse
     then \<exists>v\<in>set vs. p_current_visitor_id p = Some (v_id v) \<and> v_tenant_id v = p_tenant_id p
     else p_current_visitor_id p = None) \<and>
    (p_status p = PassReserved \<longleftrightarrow> p_reserved_for_visitor_id p \<noteq> None)"

definition pointer_ok :: "VisitorPassPool list \<Rightarrow> VisitorRow \<Rightarrow> bool" where
  "pointer_ok ps v \<longleftrightarrow> (case v_visitor_pass_id v of None \<Rightarrow> True
     | Some pid \<Rightarrow> \<exists>p\<in>set ps. p_id p = pid \<and> p_tenant_id p = v_tenant_id v \<and>
         p_status p = PassInUse \<and> p_current_visitor_id p = Some (v_id v))"

definition pool_ok :: "visitor_db \<Rightarrow> bool" where
  "pool_ok w \<longleftrightarrow> distinct (map v_id (visitors w)) \<and> distinct (map p_id (passes w)) \<and>
    (\<forall>v\<in>set (visitors w). v_id v \<noteq> []) \<and>
    (\<forall>p\<in>set (passes w). holder_ok (visitors w) p) \<and>
    (\<forall>v\<in>set (visitors w). pointer_ok (passes w) v)"

lemma holder_ok_update_where:
  assumes "\<forall>v. v_id (f v) = v_id v" "\<forall>v. v_tenant_id (f v) = v_tenant_id v"
  shows "holder_ok (update_where P f vs) p = holder_ok vs p"
proof -
  have "(\<exists>v\<in>set (update_where P f vs). p_current_visitor_id p = Some (v_id v) \<and> v_tenant_id v = p_tenant_id p) \<longleftrightarrow>
      (\<exists>v\<in>set vs. p_current_visitor_id p = Some (v_id v) \<and> v_tenant_id v = p_tenant_id p)"
    unfolding bex_update_where using assms by (intro bex_cong) auto
  then show ?thesis by (simp only: holder_ok_def)
qed

text \<open>Rewriting visitor rows without touching identity, tenant or pass pointer.\<close>

lemma pool_ok_update_visitors:
  assumes "pool_ok w" "passes w' = passes w" "visitors w' = update_where P f (visitors w)"
    "\<forall>v. v_id (f v) = v_id v" "\<forall>v. v_tenant_id (f v) = v_tenant_id v"
    "\<forall>v. v_visitor_pass_id (f v) = v_visitor_pass_id v"
  shows "pool_ok w'"
proof -
  have "pointer_ok (passes w) (f v) = pointer_ok (passes w) v" for v
    using assms by (simp add: pointer_ok_def split: option.split)
  then show ?thesis using assms by (auto simp: pool_ok_def holder_ok_update_where ball_update_where)
qed

lemma transitionStatus_pool_ok:
  assumes "pool_ok w"
  shows "pool_ok (snd (transitionStatus e i s a p w))"
proof (cases rule: transitionStatus_cases [of e i s a p w])
  case same
  then show ?thesis using assms by simp
next
  case (moved row t)
  show ?thesis
    by (rule pool_ok_update_visitors [OF assms, where f = "transition_row e s p"]) (simp_all add: moved)
qed

lemma with_pass_cases:
  obtains (same) "snd (with_pass e pid tn body w) = w"
  | (finished) pass t where "select_by p_id pid (passes w) = Some pass" "p_tenant_id pass = tn"
      "env_tenant e = tn" "body pass (w, False) = Inr ((), t)" "\<not> snd t"
      "with_pass e pid tn body w = (Inr (), fst t)"
proof (cases "env_tenant e = tn")
  case False
  then show ?thesis by (intro same) (simp add: with_pass_def)
next
  case True
  let ?fn = "\<lambda>t. and_then (lockPass pid (fst t)) (\<lambda>pass.
       if p_tenant_id pass \<noteq> tn then Inl (NotFound ''visitor_pass'' pid) else body pass t)"
  have eq: "with_pass e pid tn body w = db_tx ?fn w" using True by (simp add: with_pass_def)
  show ?thesis
  proof (cases rule: db_tx_cases [of ?fn w])
    case rolled_back
    then show ?thesis using eq by (intro same) simp
  next
    case (committed u t)
    then obtain pass where pass: "select_by p_id pid (passes w) = Some pass"
      by (auto simp: lockPass_def split: option.splits)
    with committed True eq show ?thesis
      by (intro finished [OF pass]) (auto simp: lockPass_def split: if_splits)
  qed
qed

lemma only_selected:
  assumes "distinct (map p_id ps)" "select_by p_id pid ps = Some pass" "p_tenant_id pass = tn"
  shows "update_where (\<lambda>p. p_id p = pid \<and> p_tenant_id p = tn) f ps = update_where ((=) pass) f ps"
proof (rule update_where_cong, intro ballI)
  fix p assume "p \<in> set ps"
  then have p: "select_by p_id (p_id p) ps = Some p" by (rule select_by_mem [OF assms(1)])
  have pass: "p_id pass = pid" using select_by_SomeD [OF assms(2)] by simp
  show "(p_id p = pid \<and> p_tenant_id p = tn) = (pass = p)"
  proof (cases "p_id p = pid")
    case True
    with p assms(2) have "p = pass" by simp
    then show ?thesis using True assms(3) by simp
  next
    case False
    then show ?thesis using pass by blast
  qed
qed

text \<open>The pointers to a pass: only its holder has one, and nobody when it is not in use.\<close>

lemma pointer_holder:
  assumes "pool_ok w" "v \<in> set (visitors w)" "v_visitor_pass_id v = Some (p_id pass)"
    "pass \<in> set (passes w)"
  shows "p_status pass = PassInUse \<and> p_current_visitor_id pass = Some (v_id v) \<and>
    p_tenant_id pass = v_tenant_id v"
proof -
  from assms have "pointer_ok (passes w) v" by (auto simp: pool_ok_def)
  then obtain q where q: "q \<in> set (passes w)" "p_id q = p_id pass" "p_tenant_id q = v_tenant_id v"
    "p_status q = PassInUse" "p_current_visitor_id q = Some (v_id v)"
    using assms(3) by (auto simp: pointer_ok_def)
  moreover have "distinct (map p_id (passes w))" using assms(1) by (simp add: pool_ok_def)
  ultimately have "q = pass" using assms(4) by (metis option.inject select_by_mem)
  with q show ?thesis by simp
qed

lemma pointer_ok_mono:
  assumes "pointer_ok ps v" "v_visitor_pass_id v \<noteq> Some (p_id pass)"
  shows "pointer_ok (update_where ((=) pass) f ps) v"
  using assms by (force simp: pointer_ok_def set_update_where split: option.splits)

lemma pool_okD:
  assumes "pool_ok w"
  shows "distinct (map v_id (visitors w))" "distinct (map p_id (passes w))"
    "v \<in> set (visitors w) \<Longrightarrow> v_id v \<noteq> []" "p \<in> set (passes w) \<Longrightarrow> holder_ok (visitors w) p"
    "v \<in> set (visitors w) \<Longrightarrow> pointer_ok (passes w) v"
  using assms by (simp_all add: pool_ok_def)

lemma pool_okI_update:
  assumes ok: "pool_ok w" and ids: "map v_id (visitors w') = map v_id (visitors w)"
    and holders: "holder_ok (visitors w') = holder_ok (visitors w)"
    and ps: "passes w' = update_where ((=) pass) f (passes w)"
    and f: "\<forall>p. p_id (f p) = p_id p" "holder_ok (visitors w) (f pass)"
    and ptr: "\<And>v. v \<in> set (visitors w') \<Longrightarrow> pointer_ok (passes w') v"
  shows "pool_ok w'"
  unfolding pool_ok_def
proof (intro conjI ballI)
  show "distinct (map v_id (visitors w'))" using ids pool_okD(1) [OF ok] by simp
  show "distinct (map p_id (passes w'))" using ps f(1) pool_okD(2) [OF ok] by simp
next
  fix v assume "v \<in> set (visitors w')"
  then have "v_id v \<in> set (map v_id (visitors w'))" by simp
  then obtain u where "u \<in> set (visitors w)" "v_id v = v_id u" unfolding ids by auto
  then show "v_id v \<noteq> []" using pool_okD(3) [OF ok] by simp
next
  fix p assume "p \<in> set (passes w')"
  then obtain q where "q \<in> set (passes w)" "p = (if pass = q then f q else q)"
    unfolding ps set_update_where by blast
  then show "holder_ok (visitors w') p"
    unfolding holders using f(2) pool_okD(4) [OF ok] by (cases "pass = q") auto
qed (rule ptr)

text \<open>A pass that nobody holds before and after: reservation and recovery.\<close>

lemma pool_ok_idle:
  assumes ok: "pool_ok w" and pass: "pass \<in> set (passes w)" and idle: "p_status pass \<noteq> PassInUse"
    and w': "passes w' = update_where ((=) pass) f (passes w)" "visitors w' = visitors w"
    and f: "\<forall>p. p_id (f p) = p_id p" "holder_ok (visitors w) (f pass)"
  shows "pool_ok w'"
proof -
  have "pointer_ok (passes w') v" if v: "v \<in> set (visitors w)" for v
  proof -
    have "v_visitor_pass_id v \<noteq> Some (p_id pass)"
      using pointer_holder [OF ok v _ pass] idle by blast
    then show ?thesis unfolding w' by (rule pointer_ok_mono [OF pool_okD(5) [OF ok v]])
  qed
  then show ?thesis by (intro pool_okI_update [OF ok _ _ w'(1) f]) (simp_all add: w'(2))
qed

lemma mem_set_pointer:
  assumes "v \<in> set (update_where P (v_visitor_pass_id_update (\<lambda>_. q)) vs)"
  obtains (kept) "v \<in> set vs" "\<not> P v" | (rewritten) u where "u \<in> set vs" "P u"
    "v = u\<lparr>v_visitor_pass_id := q\<rparr>"
proof -
  from assms obtain u where u: "u \<in> set vs" "v = (if P u then u\<lparr>v_visitor_pass_id := q\<rparr> else u)"
    unfolding update_where_def by auto
  then show ?thesis using that by (cases "P u") auto
qed

text \<open>A pass that is given up: return and loss. The pointer of its holder is cleared.\<close>

lemma pool_ok_release:
  assumes ok: "pool_ok w" and pass: "pass \<in> set (passes w)" "p_tenant_id pass = tn"
    and ps: "passes w' = update_where ((=) pass) f (passes w)"
    and vs: "visitors w' = visitors (clear_holder (p_current_visitor_id pass) tn w)"
    and f: "\<forall>p. p_id (f p) = p_id p" "holder_ok (visitors w) (f pass)"
  shows "pool_ok w'"
proof -
  let ?upd = "\<lambda>h. update_where (\<lambda>v. v_id v = h \<and> v_tenant_id v = tn)
    (v_visitor_pass_id_update (\<lambda>_. None)) (visitors w)"
  have vs': "visitors w' = (if truthy (p_current_visitor_id pass)
      then ?upd (the (p_current_visitor_id pass)) else visitors w)"
    using vs by (simp add: clear_holder_def set_visitor_pass_def)
  then have ids: "map v_id (visitors w') = map v_id (visitors w)" by simp
  have holders: "holder_ok (visitors w') = holder_ok (visitors w)"
    by (rule ext) (simp add: vs' holder_ok_update_where)
  have ptr: "pointer_ok (passes w') v'" if "v' \<in> set (visitors w')" for v'
  proof (cases "v_visitor_pass_id v'")
    case (Some q)
    have "v' \<in> set (visitors w) \<and> \<not> (truthy (p_current_visitor_id pass) \<and>
        v_id v' = the (p_current_visitor_id pass) \<and> v_tenant_id v' = tn)"
    proof (cases "truthy (p_current_visitor_id pass)")
      case True
      with that have "v' \<in> set (?upd (the (p_current_visitor_id pass)))" by (simp add: vs')
      then show ?thesis by (cases rule: mem_set_pointer) (use Some in auto)
    qed (use that in \<open>simp add: vs'\<close>)
    then have v: "v' \<in> set (visitors w)" and keep: "\<not> (truthy (p_current_visitor_id pass) \<and>
        v_id v' = the (p_current_visitor_id pass) \<and> v_tenant_id v' = tn)" by blast+
    have "v_visitor_pass_id v' \<noteq> Some (p_id pass)"
      using pointer_holder [OF ok v _ pass(1)] keep pass(2) pool_okD(3) [OF ok v] by force
    then show ?thesis unfolding ps by (rule pointer_ok_mono [OF pool_okD(5) [OF ok v]])
  qed (simp add: pointer_ok_def)
  show ?thesis by (rule pool_okI_update [OF ok ids holders ps f ptr])
qed

text \<open>A pass that is handed out.\<close>

lemma pool_ok_occupy:
  assumes ok: "pool_ok w" and pass: "pass \<in> set (passes w)" "p_tenant_id pass = tn"
      "p_status pass \<noteq> PassInUse"
    and v: "v \<in> set (visitors w)" "v_id v = i" "v_tenant_id v = tn"
    and ps: "passes w' = update_where ((=) pass) f (passes w)"
    and vs: "visitors w' = visitors (set_visitor_pass i tn (Some (p_id pass)) w)"
    and f: "\<forall>p. p_id (f p) = p_id p" "\<forall>p. p_tenant_id (f p) = p_tenant_id p"
      "p_status (f pass) = PassInUse" "p_current_visitor_id (f pass) = Some i"
      "p_reserved_for_visitor_id (f pass) = None"
  shows "pool_ok w'"
proof -
  have vs': "visitors w' = update_where (\<lambda>v. v_id v = i \<and> v_tenant_id v = tn)
      (v_visitor_pass_id_update (\<lambda>_. Some (p_id pass))) (visitors w)"
    using vs by (simp add: set_visitor_pass_def)
  then have ids: "map v_id (visitors w') = map v_id (visitors w)" by simp
  have holders: "holder_ok (visitors w') = holder_ok (visitors w)"
    by (rule ext) (simp add: vs' holder_ok_update_where)
  have fpass: "f pass \<in> set (passes w')"
    unfolding ps set_update_where using pass(1) by (intro image_eqI [where x = pass]) simp_all
  have ptr: "pointer_ok (passes w') u'" if "u' \<in> set (visitors w')" for u'
  proof (cases "v_id u' = i \<and> v_tenant_id u' = tn")
    case True
    from that have "v_visitor_pass_id u' = Some (p_id pass)"
      unfolding vs' by (cases rule: mem_set_pointer) (use True in auto)
    moreover have "\<exists>p\<in>set (passes w'). p_id p = p_id pass \<and> p_tenant_id p = v_tenant_id u' \<and>
        p_status p = PassInUse \<and> p_current_visitor_id p = Some (v_id u')"
      using True f pass(2) by (intro bexI [OF _ fpass]) simp
    ultimately show ?thesis by (simp add: pointer_ok_def)
  next
    case False
    from that have u: "u' \<in> set (visitors w)"
      unfolding vs' by (cases rule: mem_set_pointer) (use False in auto)
    then have "v_visitor_pass_id u' \<noteq> Some (p_id pass)"
      using pointer_holder [OF ok u _ pass(1)] pass(3) by blast
    then show ?thesis unfolding ps by (rule pointer_ok_mono [OF pool_okD(5) [OF ok u]])
  qed
  have "holder_ok (visitors w) (f pass)"
    unfolding holder_ok_def using f(2-5) pass(2) v by (auto intro: bexI [OF _ v(1)])
  then show ?thesis by (rule pool_okI_update [OF ok ids holders ps f(1) _ ptr])
qed

lemma with_pass_pool_ok:
  assumes ok: "pool_ok w"
    and body: "\<And>pass t. \<lbrakk>select_by p_id pid (passes w) = Some pass; pass \<in> set (passes w); p_id pass = pid;
      p_tenant_id pass = tn; body pass (w, False) = Inr ((), t)\<rbrakk> \<Longrightarrow> pool_ok (fst t)"
  shows "pool_ok (snd (with_pass e pid tn body w))"
proof (cases rule: with_pass_cases [of e pid tn body w])
  case same
  then show ?thesis using ok by simp
next
  case (finished pass t)
  then show ?thesis using body select_by_SomeD by fastforce
qed

lemma update_pass_selected:
  assumes "pool_ok w" "select_by p_id pid (passes w) = Some pass" "p_tenant_id pass = tn"
  shows "passes (update_pass pid tn f w) = update_where ((=) pass) f (passes w)"
  using only_selected [OF pool_okD(2) [OF assms(1)] assms(2,3)] by (simp add: update_pass_def)

lemma update_pass_keeps [simp]: "visitors (update_pass pid tn f w) = visitors w"
  by (simp add: update_pass_def)

lemma set_visitor_pass_keeps [simp]: "passes (set_visitor_pass i tn q w) = passes w"
  by (simp add: set_visitor_pass_def)

lemma clear_holder_keeps [simp]:
  "passes (clear_holder h tn w) = passes w"
  "visitors (clear_holder h tn (update_pass pid tn' f w)) = visitors (clear_holder h tn w)"
  by (simp_all add: clear_holder_def set_visitor_pass_def)

lemma assignPass_pool_ok:
  assumes ok: "pool_ok w"
  shows "pool_ok (snd (assignPass e pid i tn w))"
  unfolding assignPass_def
proof (rule with_pass_pool_ok [OF ok], goal_cases)
  case (1 pass t)
  let ?f = "\<lambda>p. p\<lparr>p_status := PassInUse, p_current_visitor_id := Some i,
    p_reserved_for_visitor_id := None, p_last_assigned_at := Some (env_now e)\<rparr>"
  from 1(5) obtain v where v: "v \<in> set (visitors w)" "v_id v = i" "v_tenant_id v = tn"
    by (auto simp: lockVisitor_def and_then_Inr_iff split: option.splits if_splits dest: select_by_SomeD)
  from 1(5) have idle: "p_status pass \<noteq> PassInUse"
    and t: "visitors (fst t) = visitors (set_visitor_pass i tn (Some pid) w)"
      "passes (fst t) = passes (update_pass pid tn ?f w)"
    by (auto simp: and_then_Inr_iff Let_def set_visitor_pass_def)
  show ?case
    by (rule pool_ok_occupy [OF ok 1(2,4) idle v, where f = ?f])
      (simp_all add: t update_pass_selected [OF ok 1(1,4)] 1(3))
qed

lemma reservePass_pool_ok:
  assumes ok: "pool_ok w"
  shows "pool_ok (snd (reservePass e pid i tn w))"
  unfolding reservePass_def
proof (rule with_pass_pool_ok [OF ok], goal_cases)
  case (1 pass t)
  let ?f = "\<lambda>p. p\<lparr>p_status := PassReserved, p_reserved_for_visitor_id := Some i\<rparr>"
  from 1(5) have idle: "p_status pass = PassAvailable"
    and t: "visitors (fst t) = visitors w" "passes (fst t) = passes (update_pass pid tn ?f w)"
    by (auto simp: and_then_Inr_iff Let_def split: if_splits)
  have "holder_ok (visitors w) (?f pass)"
    using pool_okD(4) [OF ok 1(2)] idle by (simp add: holder_ok_def)
  then show ?case
    by (intro pool_ok_idle [OF ok 1(2), where f = ?f])
      (simp_all add: t update_pass_selected [OF ok 1(1,4)] idle)
qed

lemma returnPass_pool_ok:
  assumes ok: "pool_ok w"
  shows "pool_ok (snd (returnPass e pid tn w))"
  unfolding returnPass_def
proof (rule with_pass_pool_ok [OF ok], goal_cases)
  case (1 pass t)
  let ?f = "\<lambda>p. p\<lparr>p_status := PassAvailable, p_current_visitor_id := None, p_reserved_for_visitor_id := None\<rparr>"
  from 1(5) have t: "visitors (fst t) = visitors (clear_holder (p_current_visitor_id pass) tn w)"
    "passes (fst t) = passes (update_pass pid tn ?f w)"
    by (auto simp: Let_def split: if_splits)
  show ?case
    by (rule pool_ok_release [OF ok 1(2,4), where f = ?f])
      (simp_all add: t update_pass_selected [OF ok 1(1,4)] holder_ok_def)
qed

lemma markPassMissing_pool_ok:
  assumes ok: "pool_ok w"
  shows "pool_ok (snd (markPassMissing e pid tn reason w))"
  unfolding markPassMissing_def
proof (rule with_pass_pool_ok [OF ok], goal_cases)
  case (1 pass t)
  let ?f = "\<lambda>p. p\<lparr>p_status := PassLost, p_current_visitor_id := None, p_reserved_for_visitor_id := None\<rparr>"
  from 1(5) have t: "visitors (fst t) = visitors (clear_holder (p_current_visitor_id pass) tn w)"
    "passes (fst t) = passes (update_pass pid tn ?f w)"
    by (auto simp: Let_def split: if_splits)
  show ?case
    by (rule pool_ok_release [OF ok 1(2,4), where f = ?f])
      (simp_all add: t update_pass_selected [OF ok 1(1,4)] holder_ok_def)
qed

lemma markPassRecovered_pool_ok:
  assumes ok: "pool_ok w"
  shows "pool_ok (snd (markPassRecovered e pid tn w))"
  unfolding markPassRecovered_def
proof (rule with_pass_pool_ok [OF ok], goal_cases)
  case (1 pass t)
  let ?f = "p_status_update (\<lambda>_. PassAvailable)"
  from 1(5) have lost: "p_status pass = PassLost"
    and t: "visitors (fst t) = visitors w" "passes (fst t) = passes (update_pass pid tn ?f w)"
    by (auto simp: Let_def split: if_splits)
  have "holder_ok (visitors w) (?f pass)"
    using pool_okD(4) [OF ok 1(2)] lost by (simp add: holder_ok_def)
  then show ?case
    by (intro pool_ok_idle [OF ok 1(2), where f = ?f])
      (simp_all add: t update_pass_selected [OF ok 1(1,4)] lost)
qed

lemmas pass_ops_pool_ok = assignPass_pool_ok reservePass_pool_ok returnPass_pool_ok
  markPassMissing_pool_ok markPassRecovered_pool_ok

subsection \<open>Steps of the visitor database\<close>

text \<open>
  What every operation does to the database as a whole: statuses follow the transition
  matrix and the consistency of the pass pool is kept. The relation is closed under
  composition, so the flows inherit it from the operations they call.
\<close>

definition step_ok :: "visitor_db \<Rightarrow> visitor_db \<Rightarrow> bool" where
  "step_ok w w' \<longleftrightarrow> evolves w w' \<and> (pool_ok w \<longrightarrow> pool_ok w')"

lemma step_ok_refl [simp, intro]: "step_ok w w"
  by (simp add: step_ok_def)

lemma step_ok_trans [trans]: "step_ok u v \<Longrightarrow> step_ok v w \<Longrightarrow> step_ok u w"
  by (auto simp: step_ok_def intro: evolves_trans)

lemma step_ok_fold:
  assumes "\<And>x w. step_ok w (f x w)"
  shows "step_ok w (fold f xs w)"
  using assms by (induction xs arbitrary: w) (auto intro: step_ok_trans)

lemma step_ok_same: "visitors w' = visitors w \<Longrightarrow> passes w' = passes w \<Longrightarrow> step_ok w w'"
  by (simp add: step_ok_def evolves_same_visitors pool_ok_def)

lemma transitionStatus_step_ok: "step_ok w (snd (transitionStatus e i s a p w))"
  by (simp add: step_ok_def transitionStatus_evolves transitionStatus_pool_ok)

lemma with_pass_evolves:
  assumes "\<And>pass t. body pass (w, False) = Inr ((), t) \<Longrightarrow> evolves w (fst t)"
  shows "evolves w (snd (with_pass e pid tn body w))"
  using assms by (cases rule: with_pass_cases [of e pid tn body w]) auto

lemma set_visitor_pass_evolves: "evolves w (set_visitor_pass i tn q w)"
  by (rule evolves_update [where f = "v_visitor_pass_id_update (\<lambda>_. q)"])
    (simp_all add: set_visitor_pass_def)

lemma clear_holder_evolves: "evolves w (clear_holder h tn w)"
  by (simp add: clear_holder_def set_visitor_pass_evolves)

lemma evolves_visitors: "visitors w' = visitors v \<Longrightarrow> evolves w v \<Longrightarrow> evolves w w'"
  by (simp add: evolves_def)

lemma pass_ops_evolve:
  "evolves w (snd (assignPass e pid i tn w))"
  "evolves w (snd (reservePass e pid i tn w))"
  "evolves w (snd (returnPass e pid tn w))"
  "evolves w (snd (markPassMissing e pid tn r w))"
  "evolves w (snd (markPassRecovered e pid tn w))"
proof -
  show "evolves w (snd (assignPass e pid i tn w))" unfolding assignPass_def
    by (rule with_pass_evolves, rule evolves_visitors [OF _ set_visitor_pass_evolves [of w i tn "Some pid"]])
      (auto simp: and_then_Inr_iff Let_def set_visitor_pass_def)
  show "evolves w (snd (reservePass e pid i tn w))" unfolding reservePass_def
    by (rule with_pass_evolves, rule evolves_same_visitors)
      (auto simp: and_then_Inr_iff Let_def split: if_splits)
  show "evolves w (snd (returnPass e pid tn w))" unfolding returnPass_def
  proof (rule with_pass_evolves, goal_cases)
    case (1 pass t)
    then have "visitors (fst t) = visitors (clear_holder (p_current_visitor_id pass) tn w)"
      by (auto simp: Let_def split: if_splits)
    then show ?case by (rule evolves_visitors [OF _ clear_holder_evolves])
  qed
  show "evolves w (snd (markPassMissing e pid tn r w))" unfolding markPassMissing_def
  proof (rule with_pass_evolves, goal_cases)
    case (1 pass t)
    then have "visitors (fst t) = visitors (clear_holder (p_current_visitor_id pass) tn w)"
      by (auto simp: Let_def split: if_splits)
    then show ?case by (rule evolves_visitors [OF _ clear_holder_evolves])
  qed
  show "evolves w (snd (markPassRecovered e pid tn w))" unfolding markPassRecovered_def
  proof (rule with_pass_evolves, goal_cases)
    case (1 pass t)
    then show ?case by (intro evolves_same_visitors) (auto simp: Let_def split: if_splits)
  qed
qed

lemma pass_ops_step_ok:
  "step_ok w (snd (assignPass e pid i tn w))"
  "step_ok w (snd (reservePass e pid i tn w))"
  "step_ok w (snd (returnPass e pid tn w))"
  "step_ok w (snd (markPassMissing e pid tn r w))"
  "step_ok w (snd (markPassRecovered e pid tn w))"
  by (simp_all add: step_ok_def pass_ops_evolve pass_ops_pool_ok)

lemma onApprovalDecided_step_ok:
  "step_ok w (snd (onApprovalDecided e b1 b2 b3 i c u t w))"
proof -
  have st: "step_ok w w'" if "transitionStatus e i s a no_opts w = (r, w')" for s a r w'
    using transitionStatus_step_ok [of w e i s a no_opts] that by simp
  then show ?thesis
    by (auto simp: onApprovalDecided_def Let_def split: option.split sum.split prod.split
      intro: st step_ok_trans [OF st step_ok_same])
qed

subsection \<open>Accepted transitions\<close>

definition inserts_ok :: "env \<Rightarrow> bool" where
  "inserts_ok e \<longleftrightarrow> (\<forall>n. env_audit_ok e n \<and> env_event_ok e n)"

lemma transition_events_failed:
  "snd (transition_events e row s a p t) \<longleftrightarrow> snd t \<or> \<not> env_audit_ok e (auditEventName s) \<or>
    s = Arrived \<and> \<not> env_event_ok e ''visitor.arrived'' \<or>
    s = CheckedOut \<and> truthy (v_visitor_pass_id row) \<and> \<not> env_event_ok e ''visitor.pass_return_requested'' \<or>
    s = Cancelled \<and> \<not> env_event_ok e ''visitor.cancelled''"
  by (auto simp: transition_events_def Let_def best_effort_failed)

lemma transition_run:
  assumes "select_by v_id i (visitors w) = Some row" "v_tenant_id row = env_tenant e"
    "v_status row \<noteq> s" "transition_allowed (v_status row) s" "visitor_check (transition_row e s p row)"
    "\<not> (s = CheckedOut \<and> o_checkout_source p = None)"
    and t: "t = transition_events e row s a p (w\<lparr>visitors := transition_rows e i s p (visitors w)\<rparr>, False)"
  shows "transitionStatus e i s a p w = (Inr (transition_row e s p row), if snd t then w else fst t)"
  using assms find_transition_rows [OF assms(1,2)]
  by (auto simp: transitionStatus_def db_tx_def transition_tx_def Let_def split: prod.splits)

lemma transition_commits:
  assumes "select_by v_id i (visitors w) = Some row" "v_tenant_id row = env_tenant e"
    "v_status row \<noteq> s" "transition_allowed (v_status row) s" "visitor_check (transition_row e s p row)"
    "\<not> (s = CheckedOut \<and> o_checkout_source p = None)" "inserts_ok e"
  shows "\<exists>w'. transitionStatus e i s a p w = (Inr (transition_row e s p row), w') \<and>
    visitors w' = transition_rows e i s p (visitors w) \<and> passes w' = passes w"
  using transition_run [OF assms(1-6) refl, of a] assms(7)
  by (simp add: transition_events_failed inserts_ok_def)

lemma transitionStatus_Inr_iff:
  "(\<exists>r. fst (transitionStatus e i s a p w) = Inr r) \<longleftrightarrow>
    \<not> (s = CheckedOut \<and> o_checkout_source p = None) \<and>
    (\<exists>row. select_by v_id i (visitors w) = Some row \<and> v_tenant_id row = env_tenant e \<and>
      (v_status row = s \<or>
       transition_allowed (v_status row) s \<and> visitor_check (transition_row e s p row)))"
  by (auto simp: transitionStatus_def db_tx_def transition_tx_def Let_def find_transition_rows
    split: sum.splits option.splits if_splits prod.splits)

section \<open>Properties\<close>

text \<open>
  A transition is accepted exactly when the checkout source is given if needed, the
  visitor exists in the tenant of the context and either has the target status already or
  may move to it by the matrix with timestamps the table accepts. A refused transition
  leaves the database as it was.
\<close>

theorem transitionStatus_accepts:
  "((\<exists>r. fst (transitionStatus e i s a p w) = Inr r) \<longleftrightarrow>
     \<not> (s = CheckedOut \<and> o_checkout_source p = None) \<and>
     (\<exists>row. select_by v_id i (visitors w) = Some row \<and> v_tenant_id row = env_tenant e \<and>
       (v_status row = s \<or>
        transition_allowed (v_status row) s \<and> visitor_check (transition_row e s p row)))) \<and>
   ((\<exists>r. fst (transitionStatus e i s a p w) = Inr r) \<or> snd (transitionStatus e i s a p w) = w)"
proof (rule conjI)
  show "(\<exists>r. fst (transitionStatus e i s a p w) = Inr r) \<or> snd (transitionStatus e i s a p w) = w"
    by (cases rule: transitionStatus_cases [of e i s a p w]) auto
qed (rule transitionStatus_Inr_iff)

definition example_visitor :: VisitorRow where
  "example_visitor = \<lparr>v_id = ''v'', v_tenant_id = ''t'', v_status = Expected, v_arrived_at = None,
    v_logged_at = None, v_checked_out_at = None, v_checkout_source = None, v_auto_checked_out = False,
    v_visitor_pass_id = None, v_expected_at = Some 1000, v_expected_until = Some 2000,
    v_building_id = Some ''b'', v_meeting_room_id = None, v_booking_id = Some ''k''\<rparr>"

definition example_pass :: "ident \<Rightarrow> VisitorPassPool" where
  "example_pass pid = \<lparr>p_id = pid, p_tenant_id = ''t'', p_space_id = ''b'', p_space_kind = ''building'',
    p_pass_number = pid, p_pass_type = ''standard'', p_status = PassAvailable,
    p_current_visitor_id = None, p_reserved_for_visitor_id = None, p_last_assigned_at = None,
    p_notes = None\<rparr>"

definition example_visitors :: visitor_db where
  "example_visitors = \<lparr>visitors = [example_visitor], passes = [example_pass ''p1'', example_pass ''p2''],
    audit_events = [], domain_events = [], task_leases = [], host_notified = []\<rparr>"

definition example_env :: "int \<Rightarrow> env" where
  "example_env now = \<lparr>env_now = now, env_tenant = ''t'', env_audit_ok = (\<lambda>_. True), env_event_ok = (\<lambda>_. True)\<rparr>"

lemmas example_defs = example_visitor_def example_pass_def example_visitors_def example_env_def

text \<open>
  An accepted change of status is committed when the inserts of the audit event and of
  the domain events succeed: the row has the new status with the timestamps of the target,
  every other row and the passes are untouched.
\<close>

theorem transitionStatus_commits:
  assumes "fst (transitionStatus e i s a p w) = Inr next" "inserts_ok e"
    and "select_by v_id i (visitors w) = Some row" "v_status row \<noteq> s"
  shows "next = transition_row e s p row \<and> v_status next = s \<and>
    select_by v_id i (visitors (snd (transitionStatus e i s a p w))) = Some next \<and>
    (\<forall>j. j = i \<or> select_by v_id j (visitors (snd (transitionStatus e i s a p w))) =
       select_by v_id j (visitors w)) \<and>
    passes (snd (transitionStatus e i s a p w)) = passes w"
proof -
  from assms(1) transitionStatus_Inr_iff [of e i s a p w] assms(3,4)
  have row: "v_tenant_id row = env_tenant e" "transition_allowed (v_status row) s"
    "visitor_check (transition_row e s p row)" "\<not> (s = CheckedOut \<and> o_checkout_source p = None)"
    by auto
  from transition_commits [OF assms(3) row(1) assms(4) row(2-4) assms(2), of a] obtain w' where
    w': "transitionStatus e i s a p w = (Inr (transition_row e s p row), w')"
    "visitors w' = transition_rows e i s p (visitors w)" "passes w' = passes w" by blast
  have "select_by v_id i (visitors w') = Some (transition_row e s p row)"
    using assms(3) row(1) select_by_SomeD [OF assms(3)] by (simp add: w'(2) select_by_update_where)
  moreover have "\<forall>j. j = i \<or> select_by v_id j (visitors w') = select_by v_id j (visitors w)"
    using transitionStatus_other_rows [of _ i e s a p w] by (auto simp: w'(1))
  moreover have "next = transition_row e s p row" using assms(1) w'(1) by simp
  ultimately show ?thesis using w' by simp
qed

theorem transitionStatus_commits_witness:
  "v_status (the (select_by v_id ''v'' (visitors (snd
     (transitionStatus (example_env 1500) ''v'' Arrived \<lparr>a_user_id = ''u'', a_person_id = None\<rparr> no_opts
        example_visitors))))) = Arrived"
proof -
  let ?r = "transition_row (example_env 1500) Arrived no_opts example_visitor"
  have ok: "inserts_ok (example_env 1500)" by (simp add: inserts_ok_def example_env_def)
  have run: "fst (transitionStatus (example_env 1500) ''v'' Arrived \<lparr>a_user_id = ''u'', a_person_id = None\<rparr>
      no_opts example_visitors) = Inr ?r" by code_simp
  show ?thesis
    using transitionStatus_commits [OF run ok, of example_visitor]
    by (simp add: example_visitors_def select_by_def example_visitor_def)
qed

text \<open>
  C29. The audit insert is meant not to block the transition, but it is part of the same
  database transaction: when it fails, an accepted change of status is reported to the
  caller with the new row and nothing of it is stored.
\<close>

theorem transitionStatus_lost_update:
  assumes "fst (transitionStatus e i s a p w) = Inr next" "\<not> env_audit_ok e (auditEventName s)"
    and "select_by v_id i (visitors w) = Some row" "v_status row \<noteq> s"
  shows "v_status next = s \<and> snd (transitionStatus e i s a p w) = w"
proof -
  from assms(1) transitionStatus_Inr_iff [of e i s a p w] assms(3,4)
  have row: "v_tenant_id row = env_tenant e" "transition_allowed (v_status row) s"
    "visitor_check (transition_row e s p row)" "\<not> (s = CheckedOut \<and> o_checkout_source p = None)"
    by auto
  from transition_run [OF assms(3) row(1) assms(4) row(2-4) refl, of a] assms(1,2)
  show ?thesis by (simp add: transition_events_failed) auto
qed

theorem transitionStatus_lost_update_witness:
  "let e = example_env 1500\<lparr>env_audit_ok := (\<lambda>_. False)\<rparr>;
       out = transitionStatus e ''v'' Arrived \<lparr>a_user_id = ''u'', a_person_id = None\<rparr> no_opts example_visitors
   in (\<exists>r. fst out = Inr r \<and> v_status r = Arrived) \<and> snd out = example_visitors"
proof -
  let ?e = "example_env 1500\<lparr>env_audit_ok := (\<lambda>_. False)\<rparr>"
  have run: "fst (transitionStatus ?e ''v'' Arrived \<lparr>a_user_id = ''u'', a_person_id = None\<rparr>
      no_opts example_visitors) = Inr (transition_row ?e Arrived no_opts example_visitor)" by code_simp
  have "\<not> env_audit_ok ?e (auditEventName Arrived)" by simp
  from transitionStatus_lost_update [OF run this, of example_visitor] run
  show ?thesis by (simp add: example_visitors_def select_by_def example_visitor_def)
qed

text \<open>
  A pass is handed out exactly when context, pass and visitor are of one tenant and the
  pass is available or reserved for that very visitor; a refused assignment changes nothing.
\<close>

theorem assignPass_accepts:
  "(fst (assignPass e pid i tn w) = Inr () \<longleftrightarrow>
     env_tenant e = tn \<and>
     (\<exists>pass. select_by p_id pid (passes w) = Some pass \<and> p_tenant_id pass = tn \<and>
       (p_status pass = PassAvailable \<or>
        p_status pass = PassReserved \<and> p_reserved_for_visitor_id pass = Some i)) \<and>
     (\<exists>v. select_by v_id i (visitors w) = Some v \<and> v_tenant_id v = tn)) \<and>
   (fst (assignPass e pid i tn w) = Inr () \<or> snd (assignPass e pid i tn w) = w)"
proof (rule conjI)
  show "fst (assignPass e pid i tn w) = Inr () \<or> snd (assignPass e pid i tn w) = w"
    unfolding assignPass_def by (rule with_pass_cases) auto
next
  show "fst (assignPass e pid i tn w) = Inr () \<longleftrightarrow>
     env_tenant e = tn \<and>
     (\<exists>pass. select_by p_id pid (passes w) = Some pass \<and> p_tenant_id pass = tn \<and>
       (p_status pass = PassAvailable \<or>
        p_status pass = PassReserved \<and> p_reserved_for_visitor_id pass = Some i)) \<and>
     (\<exists>v. select_by v_id i (visitors w) = Some v \<and> v_tenant_id v = tn)"
    by (auto simp: assignPass_def with_pass_def db_tx_def lockPass_def lockVisitor_def Let_def
      split: option.splits VisitorPassStatus.splits prod.splits)
qed

end
