(* ===== verification/Visitor_Flows.thy ===== *)
theory Visitor_Flows
  imports Visitors Js_Date "HOL-Library.Product_Lexorder" "HOL-Library.Multiset"
begin

text \<open>
  The flows that drive the visitor life cycle: the reception desk
  (visitors/reception.service.ts), the end-of-day sweep (visitors/eod-sweep.worker.ts) and
  the cascade of bundle changes onto visitors (visitors/bundle-cascade.adapter.ts). They
  call the operations of Visitors; the properties at the end hold of every sequence of
  calls from all of these surfaces.
\<close>

section \<open>Reception\<close>

definition ARRIVAL_RECENT_WINDOW_MINUTES :: int where
  "ARRIVAL_RECENT_WINDOW_MINUTES = 30"

definition assertTenant :: "env \<Rightarrow> ident \<Rightarrow> unit result" where
  "assertTenant e tenantId =
    guard_ok (env_tenant e = tenantId) (ValidationFailed ''visitor.invalid_payload'')"

text \<open>A timestamp argument is \<open>None\<close> when its text is not a valid date.\<close>

definition assertArrivedAtBound :: "env \<Rightarrow> jsdate \<Rightarrow> int result" where
  "assertArrivedAtBound e arrivedAt = (case arrivedAt of
     None \<Rightarrow> Inl (ValidationFailed ''visitor.invalid_payload'')
   | Some ts \<Rightarrow> if ts > env_now e + 60000 then Inl (ValidationFailed ''visitor.invalid_payload'') else Inr ts)"

definition loadVisitorExpectedAt :: "ident \<Rightarrow> ident \<Rightarrow> visitor_db \<Rightarrow> int option result" where
  "loadVisitorExpectedAt visitorId tenantId w = (case select_by v_id visitorId (visitors w) of
     None \<Rightarrow> Inl (ValidationFailed ''visitor.invalid_payload'')
   | Some row \<Rightarrow> if v_tenant_id row \<noteq> tenantId then Inl (ValidationFailed ''visitor.invalid_payload'')
       else Inr (v_expected_at row))"

definition notifyArrival :: "bool \<Rightarrow> ident \<Rightarrow> visitor_db \<Rightarrow> visitor_db" where
  "notifyArrival ok visitorId w =
    (if ok then w\<lparr>host_notified := host_notified w @ [(''arrived'', visitorId)]\<rparr> else w)"

definition arrival_guard :: "env \<Rightarrow> ident \<Rightarrow> ident \<Rightarrow> jsdate option \<Rightarrow> visitor_db \<Rightarrow> int result" where
  "arrival_guard e tenantId visitorId arrived_at w =
    and_then (assertTenant e tenantId) (\<lambda>_.
    and_then (assertArrivedAtBound e (case arrived_at of None \<Rightarrow> Some (env_now e) | Some d \<Rightarrow> d)) (\<lambda>arrivedMs.
    and_then (loadVisitorExpectedAt visitorId tenantId w) (\<lambda>expectedAt. case expectedAt of
        None \<Rightarrow> Inr arrivedMs
      | Some expectedMs \<Rightarrow>
          if arrivedMs < expectedMs - 24 * 60 * 60 * 1000
          then Inl (ValidationFailed ''visitor.invalid_payload'') else Inr arrivedMs)))"

definition markArrived ::
  "env \<Rightarrow> bool \<Rightarrow> ident \<Rightarrow> ident \<Rightarrow> TransitionStatusActor \<Rightarrow> jsdate option \<Rightarrow> (visitor_db, unit) op" where
  "markArrived e notifyOk tenantId visitorId actor arrived_at w =
    (case arrival_guard e tenantId visitorId arrived_at w of
       Inl err \<Rightarrow> (Inl err, w)
     | Inr arrivedMs \<Rightarrow>
         (case transitionStatus e visitorId Arrived actor
             \<lparr>o_arrived_at = Some arrivedMs, o_checkout_source = None\<rparr> w of
            (Inl err, w') \<Rightarrow> (Inl err, w')
          | (Inr _, w') \<Rightarrow> (Inr (), notifyArrival notifyOk visitorId w')))"

definition checkout_guard :: "env \<Rightarrow> ident \<Rightarrow> ident \<Rightarrow> CheckoutSource \<Rightarrow> visitor_db \<Rightarrow> VisitorRow result" where
  "checkout_guard e tenantId visitorId source w =
    and_then (assertTenant e tenantId) (\<lambda>_.
    if source \<noteq> Reception \<and> source \<noteq> Host then Inl (ValidationFailed ''visitor.invalid_payload'')
    else case select_by v_id visitorId (visitors w) of
      None \<Rightarrow> Inl (ValidationFailed ''visitor.invalid_payload'')
    | Some visitor \<Rightarrow> if v_tenant_id visitor \<noteq> tenantId
        then Inl (ValidationFailed ''visitor.invalid_payload'') else Inr visitor)"

definition markCheckedOut ::
  "env \<Rightarrow> ident \<Rightarrow> ident \<Rightarrow> TransitionStatusActor \<Rightarrow> CheckoutSource \<Rightarrow> bool option \<Rightarrow> (visitor_db, unit) op" where
  "markCheckedOut e tenantId visitorId actor source pass_returned w =
    (case checkout_guard e tenantId visitorId source w of
       Inl err \<Rightarrow> (Inl err, w)
     | Inr visitor \<Rightarrow>
         (case transitionStatus e visitorId CheckedOut actor
             \<lparr>o_arrived_at = None, o_checkout_source = Some source\<rparr> w of
            (Inl err, w') \<Rightarrow> (Inl err, w')
          | (Inr _, w') \<Rightarrow>
              if truthy (v_visitor_pass_id visitor)
              then (case pass_returned of
                  Some True \<Rightarrow> returnPass e (the (v_visitor_pass_id visitor)) tenantId w'
                | Some False \<Rightarrow> markPassMissing e (the (v_visitor_pass_id visitor)) tenantId
                    (Some ''visitor checked out without returning pass'') w'
                | None \<Rightarrow> (Inr (), w'))
              else (Inr (), w')))"

definition markNoShow ::
  "env \<Rightarrow> ident \<Rightarrow> ident \<Rightarrow> TransitionStatusActor \<Rightarrow> (visitor_db, unit) op" where
  "markNoShow e tenantId visitorId actor w = (case assertTenant e tenantId of
     Inl err \<Rightarrow> (Inl err, w)
   | Inr _ \<Rightarrow> (case transitionStatus e visitorId NoShow actor no_opts w of
        (Inl err, w') \<Rightarrow> (Inl err, w') | (Inr _, w') \<Rightarrow> (Inr (), w')))"

text \<open>
  The today view. A comparison with a missing column is not true; rows without an expected
  and an arrival instant sort last. The start and the end of the day of the process clock
  and the visible visitors are arguments.
\<close>

record TodayView =
  tv_currently_arriving :: "VisitorRow list"
  tv_expected :: "VisitorRow list"
  tv_in_meeting :: "VisitorRow list"
  tv_checked_out_today :: "VisitorRow list"

definition at_least :: "int option \<Rightarrow> int \<Rightarrow> bool" where
  "at_least x b = (case x of None \<Rightarrow> False | Some n \<Rightarrow> b \<le> n)"

definition in_range :: "int option \<Rightarrow> int \<Rightarrow> int \<Rightarrow> bool" where
  "in_range x a b = (case x of None \<Rightarrow> False | Some n \<Rightarrow> a \<le> n \<and> n \<le> b)"

definition bucket_of :: "int \<Rightarrow> int \<Rightarrow> int \<Rightarrow> VisitorRow \<Rightarrow> string option" where
  "bucket_of arrivedSince dayStart dayEnd v =
    (if v_status v = Arrived \<and> at_least (v_arrived_at v) arrivedSince then Some ''currently_arriving''
     else if v_status v = Arrived then Some ''in_meeting''
     else if v_status v = Expected \<and> in_range (v_expected_at v) dayStart dayEnd then Some ''expected''
     else if v_status v = InMeeting then Some ''in_meeting''
     else if v_status v = CheckedOut \<and> in_range (v_checked_out_at v) dayStart dayEnd
     then Some ''checked_out_today'' else None)"

definition today_matches :: "int \<Rightarrow> int \<Rightarrow> VisitorRow \<Rightarrow> bool" where
  "today_matches dayStart dayEnd v \<longleftrightarrow> v_status v = Arrived \<or>
    v_status v = Expected \<and> in_range (v_expected_at v) dayStart dayEnd \<or>
    v_status v = InMeeting \<or>
    v_status v = CheckedOut \<and> in_range (v_checked_out_at v) dayStart dayEnd"

definition today_key :: "VisitorRow \<Rightarrow> bool \<times> int" where
  "today_key v = (case nullish (v_expected_at v) (v_arrived_at v) of None \<Rightarrow> (True, 0) | Some n \<Rightarrow> (False, n))"

definition today_rows ::
  "(VisitorRow \<Rightarrow> bool) \<Rightarrow> ident \<Rightarrow> ident \<Rightarrow> ident list \<Rightarrow> visitor_db \<Rightarrow> VisitorRow list" where
  "today_rows matches tenantId buildingId visible w =
    sort_key today_key (filter (\<lambda>v. v_tenant_id v = tenantId \<and> v_building_id v = Some buildingId \<and>
      v_id v \<in> set visible \<and> matches v) (visitors w))"

definition today ::
  "env \<Rightarrow> int \<Rightarrow> int \<Rightarrow> ident list \<Rightarrow> ident \<Rightarrow> ident \<Rightarrow> visitor_db \<Rightarrow> TodayView result" where
  "today e dayStart dayEnd visible tenantId buildingId w =
    and_then (assertTenant e tenantId) (\<lambda>_.
      let arrivedSince = env_now e - ARRIVAL_RECENT_WINDOW_MINUTES * 60000;
          rows = today_rows (today_matches dayStart dayEnd) tenantId buildingId visible w;
          pick = (\<lambda>b. filter (\<lambda>v. bucket_of arrivedSince dayStart dayEnd v = Some b) rows)
      in Inr \<lparr>tv_currently_arriving = pick ''currently_arriving'', tv_expected = pick ''expected'',
           tv_in_meeting = pick ''in_meeting'', tv_checked_out_today = pick ''checked_out_today''\<rparr>)"

definition dailyListForBuilding ::
  "env \<Rightarrow> int \<Rightarrow> int \<Rightarrow> ident list \<Rightarrow> ident \<Rightarrow> ident \<Rightarrow> visitor_db \<Rightarrow> VisitorRow list result" where
  "dailyListForBuilding e dayStart dayEnd visible tenantId buildingId w =
    and_then (assertTenant e tenantId) (\<lambda>_.
      Inr (today_rows (\<lambda>v. v_status v = Expected \<and> in_range (v_expected_at v) dayStart dayEnd \<or>
        v_status v = Arrived \<or> v_status v = InMeeting) tenantId buildingId visible w))"

definition todayCount ::
  "env \<Rightarrow> int \<Rightarrow> int \<Rightarrow> ident list \<Rightarrow> ident \<Rightarrow> ident \<Rightarrow> visitor_db \<Rightarrow> (nat \<times> bool) result" where
  "todayCount e dayStart dayEnd visible tenantId buildingId w =
    and_then (assertTenant e tenantId) (\<lambda>_.
      let rows = filter (\<lambda>v. v_tenant_id v = tenantId \<and> v_building_id v = Some buildingId \<and>
            v_id v \<in> set visible \<and> (v_status v = Arrived \<or>
              v_status v = Expected \<and> in_range (v_expected_at v) dayStart dayEnd)) (visitors w);
          urgencyCutoff = env_now e - 15 * 60000
      in Inr (length rows, \<exists>v\<in>set rows. v_status v = Expected \<and>
           (case v_expected_at v of None \<Rightarrow> False | Some x \<Rightarrow> x \<le> urgencyCutoff)))"

section \<open>The end-of-day sweep\<close>

definition two_digits :: "int \<Rightarrow> string" where
  "two_digits n = [char_of (48 + nat (n div 10)), char_of (48 + nat (n mod 10))]"

definition iso_date :: "int \<Rightarrow> string" where
  "iso_date t = two_digits (getUTCFullYear t div 100) @ two_digits (getUTCFullYear t mod 100) @ ''-'' @
    two_digits (getUTCMonth t + 1) @ ''-'' @ two_digits (getUTCDate t)"

definition leaseKey :: "env \<Rightarrow> ident \<Rightarrow> string" where
  "leaseKey e buildingId = ''visitor.eod.'' @ buildingId @ ''.'' @ iso_date (env_now e)"

definition tryAcquireLease :: "string \<Rightarrow> string \<Rightarrow> ident \<Rightarrow> visitor_db \<Rightarrow> bool \<times> visitor_db" where
  "tryAcquireLease workerId key tenantId w =
    (if \<exists>l\<in>set (task_leases w). l_lease_key l = key then (False, w)
     else (True, w\<lparr>task_leases := task_leases w @
       [\<lparr>l_tenant_id = tenantId, l_lease_key = key, l_acquired_by = workerId, l_released = False\<rparr>]\<rparr>))"

definition markLeaseReleased :: "string \<Rightarrow> visitor_db \<Rightarrow> visitor_db" where
  "markLeaseReleased key w =
    w\<lparr>task_leases := update_where (\<lambda>l. l_lease_key l = key) (l_released_update (\<lambda>_. True)) (task_leases w)\<rparr>"

record EodSweepResult =
  er_building_id :: ident
  er_skipped :: bool
  er_no_show_count :: nat
  er_auto_checked_out_count :: nat
  er_passes_flagged_count :: nat

definition sweep_candidate :: "env \<Rightarrow> ident \<Rightarrow> ident \<Rightarrow> VisitorRow \<Rightarrow> bool" where
  "sweep_candidate e buildingId tenantId v \<longleftrightarrow> v_tenant_id v = tenantId \<and>
    v_building_id v = Some buildingId \<and> v_status v \<in> {Expected, Arrived, InMeeting} \<and>
    (case v_expected_until v of None \<Rightarrow> False | Some u \<Rightarrow> u < env_now e)"

abbreviation sweep_actor :: TransitionStatusActor where
  "sweep_actor \<equiv> \<lparr>a_user_id = ''eod_sweep'', a_person_id = None\<rparr>"

abbreviation sweep_opts :: TransitionStatusOpts where
  "sweep_opts \<equiv> \<lparr>o_arrived_at = None, o_checkout_source = Some EodSweep\<rparr>"

fun sweep_visitor ::
  "env \<Rightarrow> ident \<Rightarrow> VisitorRow \<Rightarrow> visitor_db \<times> nat \<times> nat \<times> nat \<Rightarrow> visitor_db \<times> nat \<times> nat \<times> nat" where
  "sweep_visitor e tenantId visitor (w, noShow, out, flagged) =
    (if v_status visitor = Expected
     then (case transitionStatus e (v_id visitor) NoShow sweep_actor no_opts w of
         (Inl _, w') \<Rightarrow> (w', noShow, out, flagged) | (Inr _, w') \<Rightarrow> (w', noShow + 1, out, flagged))
     else (case transitionStatus e (v_id visitor) CheckedOut sweep_actor sweep_opts w of
         (Inl _, w') \<Rightarrow> (w', noShow, out, flagged)
       | (Inr _, w') \<Rightarrow>
           if truthy (v_visitor_pass_id visitor)
           then (case markPassMissing e (the (v_visitor_pass_id visitor)) tenantId
                   (Some ''unreturned via eod sweep'') w' of
               (Inl _, w'') \<Rightarrow> (w'', noShow, out + 1, flagged)
             | (Inr _, w'') \<Rightarrow> (w'', noShow, out + 1, flagged + 1))
           else (w', noShow, out + 1, flagged)))"

definition runSweepForBuilding ::
  "env \<Rightarrow> string \<Rightarrow> ident \<Rightarrow> ident \<Rightarrow> visitor_db \<Rightarrow> EodSweepResult \<times> visitor_db" where
  "runSweepForBuilding e workerId buildingId tenantId w =
    (case tryAcquireLease workerId (leaseKey e buildingId) tenantId w of
       (False, w) \<Rightarrow> (\<lparr>er_building_id = buildingId, er_skipped = True, er_no_show_count = 0,
          er_auto_checked_out_count = 0, er_passes_flagged_count = 0\<rparr>, w)
     | (True, w) \<Rightarrow>
         let candidates = filter (sweep_candidate e buildingId tenantId) (visitors w) in
         case fold (sweep_visitor (e\<lparr>env_tenant := tenantId\<rparr>) tenantId) candidates (w, 0, 0, 0) of
           (w, noShow, out, flagged) \<Rightarrow>
             let w = (if env_audit_ok e ''visitor.eod_swept''
                   then w\<lparr>audit_events := audit_events w @
                     [\<lparr>e_tenant_id = tenantId, e_event_type = ''visitor.eod_swept'',
                       e_entity_type = ''space'', e_entity_id = Some buildingId,
                       e_payload = [(''building_id'', JStr buildingId),
                         (''sweep_date'', JStr (iso_date (env_now e))),
                         (''no_show_count'', JNum (of_nat noShow)),
                         (''auto_checked_out_count'', JNum (of_nat out)),
                         (''passes_flagged_count'', JNum (of_nat flagged))]\<rparr>]\<rparr>
                   else w)
             in (\<lparr>er_building_id = buildingId, er_skipped = False, er_no_show_count = noShow,
                  er_auto_checked_out_count = out, er_passes_flagged_count = flagged\<rparr>,
                 markLeaseReleased (leaseKey e buildingId) w))"

text \<open>
  One tick: the buildings are those the database finds in their local end-of-day hour. A
  building whose sweep fails does not stop the others; the sweep of the model does not fail
  because the reads it makes succeed.
\<close>

definition sweep_tick :: "env \<Rightarrow> string \<Rightarrow> bool \<Rightarrow> bool \<Rightarrow> (ident \<times> ident) list \<Rightarrow> visitor_db \<Rightarrow> visitor_db" where
  "sweep_tick e workerId enabled running buildings w =
    (if \<not> enabled \<or> running then w
     else fold (\<lambda>(b, t) w. snd (runSweepForBuilding e workerId b t w)) buildings w)"

section \<open>The bundle cascade\<close>

datatype LineKind = LineVisitor | LineRoom | LineCatering | LineAv | LineOther

record BundleLineMovedEvent =
  lm_tenant_id :: ident
  lm_bundle_id :: ident
  lm_line_id :: ident
  lm_line_kind :: LineKind
  lm_old_expected_at :: "int option"
  lm_new_expected_at :: int

record BundleLineRoomChangedEvent =
  lr_tenant_id :: ident
  lr_bundle_id :: ident
  lr_line_id :: ident
  lr_line_kind :: LineKind
  lr_old_room_id :: ident_opt
  lr_new_room_id :: ident_opt

record BundleLineCancelledEvent =
  lc_tenant_id :: ident
  lc_bundle_id :: ident
  lc_line_id :: ident
  lc_line_kind :: LineKind

record BundleCancelledEvent =
  bc_tenant_id :: ident
  bc_bundle_id :: ident

datatype BundleEvent =
    LineMoved BundleLineMovedEvent
  | LineRoomChanged BundleLineRoomChangedEvent
  | LineCancelled BundleLineCancelledEvent
  | BundleCancelled BundleCancelledEvent

definition emitIntent ::
  "env \<Rightarrow> ident \<Rightarrow> ident \<Rightarrow> string \<Rightarrow> (string \<times> jsval) list \<Rightarrow> visitor_db \<Rightarrow> visitor_db" where
  "emitIntent e tenantId visitorId eventType payload w =
    (if env_event_ok e eventType
     then w\<lparr>domain_events := domain_events w @
       [\<lparr>e_tenant_id = tenantId, e_event_type = eventType, e_entity_type = ''visitor'',
         e_entity_id = Some visitorId, e_payload = payload\<rparr>]\<rparr>
     else w)"

text \<open>
  An UPDATE of a visitor row through the pool, outside the transaction of the caller: it
  runs on another connection, and waits for the locks the caller's transaction holds. A
  wait for a lock that the caller only gives up after the UPDATE has returned does not end:
  \<open>None\<close>.
\<close>

definition pool_update ::
  "ident list \<Rightarrow> ident \<Rightarrow> ident \<Rightarrow> (VisitorRow \<Rightarrow> VisitorRow) \<Rightarrow> visitor_db \<Rightarrow> visitor_db option" where
  "pool_update share_locked visitorId tenantId f w =
    (if \<exists>v\<in>set (visitors w). v_id v = visitorId \<and> v_tenant_id v = tenantId \<and> v_id v \<in> set share_locked
     then None
     else Some (w\<lparr>visitors :=
       update_where (\<lambda>v. v_id v = visitorId \<and> v_tenant_id v = tenantId) f (visitors w)\<rparr>))"

text \<open>
  \<open>loadVisitorForCascade\<close>: the row of the tenant, read FOR SHARE, and the callback run
  while the lock is held; the callback is told which rows are locked.
\<close>

definition loadVisitorForCascade ::
  "ident \<Rightarrow> ident \<Rightarrow> (ident list \<Rightarrow> VisitorRow option \<Rightarrow> visitor_db \<Rightarrow> 'a option) \<Rightarrow> visitor_db \<Rightarrow> 'a option" where
  "loadVisitorForCascade visitorId tenantId fn w =
    (case find (\<lambda>v. v_id v = visitorId \<and> v_tenant_id v = tenantId) (visitors w) of
       None \<Rightarrow> fn [] None w
     | Some row \<Rightarrow> fn [v_id row] (Some row) w)"

definition handleLineMoved :: "env \<Rightarrow> BundleLineMovedEvent \<Rightarrow> visitor_db \<Rightarrow> visitor_db option" where
  "handleLineMoved e event w =
    (if lm_line_kind event \<noteq> LineVisitor then Some w
     else loadVisitorForCascade (lm_line_id event) (lm_tenant_id event) (\<lambda>locked visitor w.
       case visitor of None \<Rightarrow> Some w
       | Some v \<Rightarrow>
           if v_status v = Expected \<or> v_status v = PendingApproval
           then map_option (emitIntent e (lm_tenant_id event) (v_id v) ''visitor.cascade.moved''
                  [(''visitor_id'', JStr (v_id v)),
                   (''old_expected_at'', of_int_opt (lm_old_expected_at event)),
                   (''new_expected_at'', of_int_opt (Some (lm_new_expected_at event))),
                   (''bundle_id'', JStr (lm_bundle_id event)), (''email_target'', JStr ''visitor'')])
                (pool_update locked (v_id v) (lm_tenant_id event)
                  (v_expected_at_update (\<lambda>_. Some (lm_new_expected_at event))) w)
           else if v_status v = Arrived \<or> v_status v = InMeeting
           then Some (emitIntent e (lm_tenant_id event) (v_id v) ''visitor.cascade.host_alert''
                  [(''visitor_id'', JStr (v_id v)), (''reason'', JStr ''bundle.line.moved''),
                   (''old_expected_at'', of_int_opt (lm_old_expected_at event)),
                   (''new_expected_at'', of_int_opt (Some (lm_new_expected_at event))),
                   (''bundle_id'', JStr (lm_bundle_id event)), (''email_target'', JStr ''host'')] w)
           else Some w) w)"

definition handleLineRoomChanged :: "env \<Rightarrow> BundleLineRoomChangedEvent \<Rightarrow> visitor_db \<Rightarrow> visitor_db option" where
  "handleLineRoomChanged e event w =
    (if lr_line_kind event \<noteq> LineVisitor then Some w
     else loadVisitorForCascade (lr_line_id event) (lr_tenant_id event) (\<lambda>locked visitor w.
       case visitor of None \<Rightarrow> Some w
       | Some v \<Rightarrow>
           if v_status v = Expected \<or> v_status v = PendingApproval
           then map_option (emitIntent e (lr_tenant_id event) (v_id v) ''visitor.cascade.room_changed''
                  [(''visitor_id'', JStr (v_id v)), (''old_room_id'', of_str_opt (lr_old_room_id event)),
                   (''new_room_id'', of_str_opt (lr_new_room_id event)),
                   (''bundle_id'', JStr (lr_bundle_id event)), (''email_target'', JStr ''visitor'')])
                (pool_update locked (v_id v) (lr_tenant_id event)
                  (v_meeting_room_id_update (\<lambda>_. lr_new_room_id event)) w)
           else if v_status v = Arrived \<or> v_status v = InMeeting
           then Some (emitIntent e (lr_tenant_id event) (v_id v) ''visitor.cascade.host_alert''
                  [(''visitor_id'', JStr (v_id v)), (''reason'', JStr ''bundle.line.room_changed''),
                   (''old_room_id'', of_str_opt (lr_old_room_id event)),
                   (''new_room_id'', of_str_opt (lr_new_room_id event)),
                   (''bundle_id'', JStr (lr_bundle_id event)), (''email_target'', JStr ''host'')] w)
           else Some w) w)"

definition handleLineCancelled :: "env \<Rightarrow> BundleLineCancelledEvent \<Rightarrow> visitor_db \<Rightarrow> visitor_db" where
  "handleLineCancelled e event w =
    (if lc_line_kind event \<noteq> LineVisitor then w
     else case loadVisitorForCascade (lc_line_id event) (lc_tenant_id event) (\<lambda>_ v _. v) w of
       None \<Rightarrow> w
     | Some v \<Rightarrow>
         if v_status v = Expected \<or> v_status v = PendingApproval
         then (case transitionStatus (e\<lparr>env_tenant := lc_tenant_id event\<rparr>) (v_id v) Cancelled
                   \<lparr>a_user_id = ''system'', a_person_id = None\<rparr> no_opts w of
             (Inl _, w') \<Rightarrow> w'
           | (Inr _, w') \<Rightarrow> emitIntent e (lc_tenant_id event) (v_id v) ''visitor.cascade.cancelled''
               [(''visitor_id'', JStr (v_id v)), (''bundle_id'', JStr (lc_bundle_id event)),
                (''email_target'', JStr ''visitor'')] w')
         else if v_status v = Arrived \<or> v_status v = InMeeting
         then emitIntent e (lc_tenant_id event) (v_id v) ''visitor.cascade.host_alert''
           [(''visitor_id'', JStr (v_id v)), (''reason'', JStr ''bundle.line.cancelled''),
            (''bundle_id'', JStr (lc_bundle_id event)), (''email_target'', JStr ''host'')] w
         else w)"

definition handleBundleCancelled :: "env \<Rightarrow> BundleCancelledEvent \<Rightarrow> visitor_db \<Rightarrow> visitor_db" where
  "handleBundleCancelled e event w =
    fold (\<lambda>visitorId. handleLineCancelled e \<lparr>lc_tenant_id = bc_tenant_id event,
        lc_bundle_id = bc_bundle_id event, lc_line_id = visitorId, lc_line_kind = LineVisitor\<rparr>)
      (map v_id (filter (\<lambda>v. v_tenant_id v = bc_tenant_id event \<and>
        v_booking_id v = Some (bc_bundle_id event)) (visitors w))) w"

fun handle :: "env \<Rightarrow> BundleEvent \<Rightarrow> visitor_db \<Rightarrow> visitor_db option" where
  "handle e (LineMoved ev) w = handleLineMoved e ev w"
| "handle e (LineRoomChanged ev) w = handleLineRoomChanged e ev w"
| "handle e (LineCancelled ev) w = Some (handleLineCancelled e ev w)"
| "handle e (BundleCancelled ev) w = Some (handleBundleCancelled e ev w)"

section \<open>Sequences of calls\<close>

datatype visitor_op =
    OpTransition env ident VisitorStatus TransitionStatusActor TransitionStatusOpts
  | OpApproval env bool bool bool ident ApprovalOutcome ident ident
  | OpAssign env ident ident ident
  | OpReserve env ident ident ident
  | OpReturn env ident ident
  | OpMissing env ident ident ident_opt
  | OpRecover env ident ident
  | OpArrived env bool ident ident TransitionStatusActor "jsdate option"
  | OpCheckedOut env ident ident TransitionStatusActor CheckoutSource "bool option"
  | OpNoShow env ident ident TransitionStatusActor
  | OpSweep env string ident ident
  | OpCascade env BundleEvent

fun run_op :: "visitor_op \<Rightarrow> visitor_db \<Rightarrow> visitor_db" where
  "run_op (OpTransition e i s a p) w = snd (transitionStatus e i s a p w)"
| "run_op (OpApproval e b1 b2 b3 i c u t) w = snd (onApprovalDecided e b1 b2 b3 i c u t w)"
| "run_op (OpAssign e pid i t) w = snd (assignPass e pid i t w)"
| "run_op (OpReserve e pid i t) w = snd (reservePass e pid i t w)"
| "run_op (OpReturn e pid t) w = snd (returnPass e pid t w)"
| "run_op (OpMissing e pid t r) w = snd (markPassMissing e pid t r w)"
| "run_op (OpRecover e pid t) w = snd (markPassRecovered e pid t w)"
| "run_op (OpArrived e ok t i a d) w = snd (markArrived e ok t i a d w)"
| "run_op (OpCheckedOut e t i a c r) w = snd (markCheckedOut e t i a c r w)"
| "run_op (OpNoShow e t i a) w = snd (markNoShow e t i a w)"
| "run_op (OpSweep e wk b t) w = snd (runSweepForBuilding e wk b t w)"
| "run_op (OpCascade e ev) w = (case handle e ev w of None \<Rightarrow> w | Some w' \<Rightarrow> w')"

section \<open>Lemmas\<close>

lemma transition_step:
  assumes "transitionStatus e i s a p w = (r, w')"
  shows "step_ok w w'"
  using transitionStatus_step_ok [of w e i s a p] assms by simp

lemma missing_step:
  assumes "markPassMissing e pid tn r w = (x, w')"
  shows "step_ok w w'"
  using pass_ops_step_ok(4) [of w e pid tn r] assms by simp

lemma notifyArrival_step: "step_ok w (notifyArrival ok i w)"
  by (rule step_ok_same) (simp_all add: notifyArrival_def)

lemma markArrived_step: "step_ok w (snd (markArrived e ok t i a d w))"
  by (auto simp: markArrived_def split: sum.split prod.split
    intro: transition_step step_ok_trans [OF transition_step notifyArrival_step])

lemma markCheckedOut_step: "step_ok w (snd (markCheckedOut e t i a c r w))"
proof -
  let ?p = "\<lparr>o_arrived_at = None, o_checkout_source = Some c\<rparr>"
  obtain x w' where T: "transitionStatus e i CheckedOut a ?p w = (x, w')" by fastforce
  then have st: "step_ok w w'" by (rule transition_step)
  have ret: "step_ok w (snd (returnPass e q t w'))" "step_ok w (snd (markPassMissing e q t z w'))" for q z
    by (rule step_ok_trans [OF st pass_ops_step_ok(3)], rule step_ok_trans [OF st pass_ops_step_ok(4)])
  show ?thesis using st ret
    by (simp add: markCheckedOut_def T split: sum.split option.split bool.split)
qed

lemma markNoShow_step: "step_ok w (snd (markNoShow e t i a w))"
  by (auto simp: markNoShow_def split: sum.split prod.split intro: transition_step)

lemma sweep_visitor_step: "step_ok (fst st) (fst (sweep_visitor e tn v st))"
proof -
  obtain w n m k where st: "st = (w, n, m, k)" by (cases st)
  show ?thesis unfolding st
    by (auto split: sum.split prod.split
      intro: transition_step step_ok_trans [OF transition_step missing_step])
qed

lemma fold_sweep_step: "step_ok (fst st) (fst (fold (sweep_visitor e tn) vs st))"
proof (induction vs arbitrary: st)
  case (Cons v vs)
  show ?case using step_ok_trans [OF sweep_visitor_step Cons.IH] by (simp only: fold_simps)
qed simp

lemma runSweep_step: "step_ok w (snd (runSweepForBuilding e wk b tn w))"
proof (cases "fst (tryAcquireLease wk (leaseKey e b) tn w)")
  case False
  then show ?thesis by (auto simp: runSweepForBuilding_def tryAcquireLease_def split: if_splits)
next
  case True
  let ?w1 = "snd (tryAcquireLease wk (leaseKey e b) tn w)"
  let ?st = "fold (sweep_visitor (e\<lparr>env_tenant := tn\<rparr>) tn)
    (filter (sweep_candidate e b tn) (visitors ?w1)) (?w1, 0, 0, 0)"
  have "step_ok w ?w1" by (rule step_ok_same) (simp_all add: tryAcquireLease_def)
  also have "step_ok ?w1 (fst ?st)" using fold_sweep_step [of "(?w1, 0, 0, 0)"] by simp
  also have "step_ok (fst ?st) (snd (runSweepForBuilding e wk b tn w))"
    using True by (intro step_ok_same; cases "tryAcquireLease wk (leaseKey e b) tn w"; cases ?st)
      (auto simp: runSweepForBuilding_def Let_def markLeaseReleased_def)
  finally show ?thesis .
qed

lemma emitIntent_step: "step_ok w (emitIntent e t i n p w)"
  by (rule step_ok_same) (simp_all add: emitIntent_def)

lemma pool_update_step:
  assumes "pool_update l i t f w = Some w'"
    and "\<forall>v. v_id (f v) = v_id v" "\<forall>v. v_tenant_id (f v) = v_tenant_id v"
      "\<forall>v. v_visitor_pass_id (f v) = v_visitor_pass_id v" "\<forall>v. v_status (f v) = v_status v"
  shows "step_ok w w'"
proof -
  have w': "w' = w\<lparr>visitors := update_where (\<lambda>v. v_id v = i \<and> v_tenant_id v = t) f (visitors w)\<rparr>"
    using assms(1) by (auto simp: pool_update_def split: if_splits)
  have "evolves w w'" by (rule evolves_update [where f = f]) (use assms in \<open>simp_all add: w'\<close>)
  moreover have "pool_ok w'" if "pool_ok w"
    by (rule pool_ok_update_visitors [OF that, where f = f]) (use assms in \<open>simp_all add: w'\<close>)
  ultimately show ?thesis by (simp add: step_ok_def)
qed

lemma handleLineCancelled_step: "step_ok w (handleLineCancelled e ev w)"
  by (auto simp: handleLineCancelled_def split: sum.split prod.split option.split
    intro: transition_step emitIntent_step step_ok_trans [OF transition_step emitIntent_step])

lemma handleBundleCancelled_step: "step_ok w (handleBundleCancelled e ev w)"
  unfolding handleBundleCancelled_def by (rule step_ok_fold) (rule handleLineCancelled_step)

lemma handleLineMoved_step: "handleLineMoved e ev w = Some w' \<Longrightarrow> step_ok w w'"
  by (auto simp: handleLineMoved_def loadVisitorForCascade_def split: if_splits option.splits
    intro: emitIntent_step step_ok_trans [OF pool_update_step emitIntent_step])

lemma handleLineRoomChanged_step: "handleLineRoomChanged e ev w = Some w' \<Longrightarrow> step_ok w w'"
  by (auto simp: handleLineRoomChanged_def loadVisitorForCascade_def split: if_splits option.splits
    intro: emitIntent_step step_ok_trans [OF pool_update_step emitIntent_step])

lemma handle_step: "handle e ev w = Some w' \<Longrightarrow> step_ok w w'"
  by (cases ev) (auto intro: handleLineMoved_step handleLineRoomChanged_step
    handleLineCancelled_step handleBundleCancelled_step)

lemma run_op_step: "step_ok w (run_op x w)"
  by (cases x) (auto simp: transitionStatus_step_ok onApprovalDecided_step_ok pass_ops_step_ok
    markArrived_step markCheckedOut_step markNoShow_step runSweep_step
    split: option.split intro: handle_step)

interpretation visitor_calls: op_evolution run_op evolves
  by unfold_locales (use run_op_step in \<open>auto simp: step_ok_def intro: evolves_trans\<close>)

interpretation pass_pool: op_invariant run_op pool_ok
  by unfold_locales (use run_op_step in \<open>auto simp: step_ok_def\<close>)

subsection \<open>What a sweep does\<close>

text \<open>A visitor row without its pass pointer, and the row the sweep makes of a candidate.\<close>

definition core :: "VisitorRow \<Rightarrow> VisitorRow" where
  "core v = v\<lparr>v_visitor_pass_id := None\<rparr>"

definition swept :: "env \<Rightarrow> VisitorRow \<Rightarrow> VisitorRow" where
  "swept e v = (if v_status v = Expected then transition_row e NoShow no_opts v
     else transition_row e CheckedOut sweep_opts v)"

lemma core_simps [simp]:
  "v_id (core v) = v_id v" "v_tenant_id (core v) = v_tenant_id v" "v_status (core v) = v_status v"
  "visitor_check (core v) = visitor_check v"
  "core (transition_row e s p v) = transition_row e s p (core v)"
  by (simp_all add: core_def visitor_check_def transition_row_def Let_def)

lemma core_swept: "core (swept e v) = swept e (core v)"
  by (simp add: swept_def)

lemma swept_id [simp]: "v_id (swept e v) = v_id v"
  by (simp add: swept_def)

lemma core_eqD: "core u = core v \<Longrightarrow> v_id u = v_id v \<and> v_tenant_id u = v_tenant_id v \<and>
    v_status u = v_status v \<and> visitor_check u = visitor_check v"
  by (metis core_simps(1-4))

lemma swept_check: "visitor_check v \<Longrightarrow> v_status v \<in> {Expected, Arrived, InMeeting} \<Longrightarrow> visitor_check (swept e v)"
  by (auto simp: swept_def visitor_check_def transition_row_def Let_def split: option.splits)

lemma core_clear_holder: "map core (visitors (clear_holder h tn w)) = map core (visitors w)"
  by (simp add: clear_holder_def set_visitor_pass_def update_where_def core_def)

lemma with_pass_core:
  assumes "\<And>pass t. body pass (w, False) = Inr ((), t) \<Longrightarrow> map core (visitors (fst t)) = map core (visitors w)"
  shows "map core (visitors (snd (with_pass e pid tn body w))) = map core (visitors w)"
  using assms by (cases rule: with_pass_cases [of e pid tn body w]) auto

lemma core_markPassMissing:
  "map core (visitors (snd (markPassMissing e pid tn r w))) = map core (visitors w)"
  unfolding markPassMissing_def
proof (rule with_pass_core, goal_cases)
  case (1 pass t)
  then have "visitors (fst t) = visitors (clear_holder (p_current_visitor_id pass) tn w)"
    by (auto simp: Let_def split: if_splits)
  then show ?case by (simp add: core_clear_holder)
qed

lemma sweep_visitor_core:
  assumes e: "inserts_ok e" "env_tenant e = tn"
    and v: "v_tenant_id v = tn" "v_status v \<in> {Expected, Arrived, InMeeting}" "visitor_check v"
    and r: "select_by v_id (v_id v) (visitors w) = Some r" "core r = core v"
    and ids: "distinct (map v_id (visitors w))"
  shows "map core (visitors (fst (sweep_visitor e tn v (w, n, m, k)))) =
    map (\<lambda>u. if v_id u = v_id v then core (swept e u) else core u) (visitors w)"
proof -
  let ?s = "if v_status v = Expected then NoShow else CheckedOut"
  let ?p = "if v_status v = Expected then no_opts else sweep_opts"
  from r(2) have rv: "v_id r = v_id v" "v_tenant_id r = tn" "v_status r = v_status v" "visitor_check r"
    using core_eqD [OF r(2)] v by simp_all
  have sw: "swept e r = transition_row e ?s ?p r" by (simp add: swept_def rv)
  have chk: "visitor_check (transition_row e ?s ?p r)" using swept_check [of r e] rv v sw by simp
  have "v_tenant_id r = env_tenant e" using rv e(2) by simp
  moreover have "v_status r \<noteq> ?s" "transition_allowed (v_status r) ?s"
    using rv(3) v(2) by (auto simp: transition_allowed_def)
  moreover have "\<not> (?s = CheckedOut \<and> o_checkout_source ?p = None)" by simp
  ultimately obtain w' where
    w': "transitionStatus e (v_id v) ?s sweep_actor ?p w = (Inr (transition_row e ?s ?p r), w')"
    "visitors w' = transition_rows e (v_id v) ?s ?p (visitors w)"
    using transition_commits [OF r(1) _ _ _ chk _ e(1), of sweep_actor] by blast
  have only: "u = r" if "u \<in> set (visitors w)" "v_id u = v_id v" for u
    using select_by_mem [OF ids that(1)] that(2) r(1) by simp
  have "map core (visitors w') =
      map (\<lambda>u. if v_id u = v_id v then core (swept e u) else core u) (visitors w)"
    unfolding w'(2) update_where_def map_map
  proof (rule map_cong [OF refl])
    fix u assume u: "u \<in> set (visitors w)"
    show "(core \<circ> (\<lambda>r. if v_id r = v_id v \<and> v_tenant_id r = env_tenant e then transition_row e ?s ?p r else r)) u =
      (if v_id u = v_id v then core (swept e u) else core u)"
    proof (cases "v_id u = v_id v")
      case True
      then have "u = r" by (rule only [OF u])
      then show ?thesis using rv e(2) sw by simp
    qed simp
  qed
  moreover have "map core (visitors (fst (sweep_visitor e tn v (w, n, m, k)))) = map core (visitors w')"
  proof (cases "v_status v = Expected")
    case True
    then show ?thesis using w'(1) by simp
  next
    case False
    obtain x w'' where M: "markPassMissing e (the (v_visitor_pass_id v)) tn
        (Some ''unreturned via eod sweep'') w' = (x, w'')" by fastforce
    with core_markPassMissing have "map core (visitors w'') = map core (visitors w')"
      by (metis snd_conv)
    then show ?thesis using False w'(1) M by (simp split: sum.split)
  qed
  ultimately show ?thesis by simp
qed

lemma fold_sweep_core:
  assumes "inserts_ok e" "env_tenant e = tn"
    and "\<forall>v\<in>set cs. v_tenant_id v = tn \<and> v_status v \<in> {Expected, Arrived, InMeeting} \<and> visitor_check v"
    and "distinct (map v_id cs)" "distinct (map v_id (visitors w))"
    and "\<forall>v\<in>set cs. \<exists>r. select_by v_id (v_id v) (visitors w) = Some r \<and> core r = core v"
  shows "map core (visitors (fst (fold (sweep_visitor e tn) cs (w, n, m, k)))) =
    map (\<lambda>u. if v_id u \<in> v_id ` set cs then core (swept e u) else core u) (visitors w)"
  using assms(3-6)
proof (induction cs arbitrary: w n m k)
  case (Cons v cs)
  obtain w1 n1 m1 k1 where st: "sweep_visitor e tn v (w, n, m, k) = (w1, n1, m1, k1)"
    by (rule prod_cases4)
  from Cons.prems obtain r where r: "select_by v_id (v_id v) (visitors w) = Some r" "core r = core v" by auto
  have step: "map core (visitors w1) =
      map (\<lambda>u. if v_id u = v_id v then core (swept e u) else core u) (visitors w)"
    using sweep_visitor_core [OF assms(1,2) _ _ _ r Cons.prems(3), of n m k] Cons.prems(1) st by simp
  have ids: "map v_id (visitors w1) = map v_id (visitors w)"
    using arg_cong [OF step, of "map v_id"] by (simp add: comp_def if_distrib [of v_id])
  have "\<exists>r. select_by v_id (v_id u) (visitors w1) = Some r \<and> core r = core u" if u: "u \<in> set cs" for u
  proof -
    from Cons.prems(4) u obtain q where q: "select_by v_id (v_id u) (visitors w) = Some q" "core q = core u"
      by auto
    have ne: "v_id u \<noteq> v_id v" using Cons.prems(2) u by (metis distinct.simps(2) image_eqI list.map(2) list.set_map)
    have qu: "v_id q = v_id u" using select_by_SomeD [OF q(1)] by simp
    have "select_by v_id (v_id u) (map core (visitors w1)) = Some (core q)"
      unfolding step using q(1) ne qu by (subst select_by_map) simp_all
    then have "map_option core (select_by v_id (v_id u) (visitors w1)) = Some (core q)"
      by (simp add: select_by_map)
    then show ?thesis using q(2) by auto
  qed
  then have "map core (visitors (fst (fold (sweep_visitor e tn) cs (w1, n1, m1, k1)))) =
      map (\<lambda>u. if v_id u \<in> v_id ` set cs then core (swept e u) else core u) (visitors w1)"
    using Cons.IH [of w1 n1 m1 k1] Cons.prems ids by simp
  also have "\<dots> = map (\<lambda>u. if v_id u \<in> v_id ` set cs then swept e u else u) (map core (visitors w1))"
    by (simp add: core_swept cong: map_cong)
  also have "\<dots> = map (\<lambda>u. if v_id u \<in> v_id ` set (v # cs) then core (swept e u) else core u) (visitors w)"
    unfolding step map_map
  proof (rule map_cong [OF refl])
    fix u
    show "((\<lambda>u. if v_id u \<in> v_id ` set cs then swept e u else u) \<circ>
        (\<lambda>u. if v_id u = v_id v then core (swept e u) else core u)) u =
      (if v_id u \<in> v_id ` set (v # cs) then core (swept e u) else core u)"
      using Cons.prems(2) by (cases "v_id u = v_id v") (auto simp: core_swept)
  qed
  finally show ?case by (simp add: st del: sweep_visitor.simps)
qed simp

lemma runSweep_acquired:
  assumes "\<forall>l\<in>set (task_leases w). l_lease_key l \<noteq> leaseKey e b"
  shows "er_skipped (fst (runSweepForBuilding e wk b tn w)) = False \<and>
    visitors (snd (runSweepForBuilding e wk b tn w)) =
      visitors (fst (fold (sweep_visitor (e\<lparr>env_tenant := tn\<rparr>) tn)
        (filter (sweep_candidate e b tn) (visitors w))
        (snd (tryAcquireLease wk (leaseKey e b) tn w), 0, 0, 0)))"
  using assms by (auto simp: runSweepForBuilding_def tryAcquireLease_def Let_def markLeaseReleased_def
    split: prod.split)

lemma swept_not_candidate:
  assumes "core u = core (swept e' v)"
  shows "\<not> sweep_candidate e b tn u"
proof -
  have "v_status u = v_status (swept e' v)" using core_eqD [OF assms] by simp
  then show ?thesis by (auto simp: swept_def sweep_candidate_def)
qed

lemma sweep_candidate_core: "sweep_candidate e b tn (core v) = sweep_candidate e b tn v"
  by (simp add: sweep_candidate_def core_def)

lemma core_candidate: "core u = core v \<Longrightarrow> sweep_candidate e b tn u = sweep_candidate e b tn v"
  by (metis sweep_candidate_core)

lemma with_pass_leases:
  assumes "\<And>pass t. body pass (w, False) = Inr ((), t) \<Longrightarrow> task_leases (fst t) = task_leases w"
  shows "task_leases (snd (with_pass e pid tn body w)) = task_leases w"
  using assms by (cases rule: with_pass_cases [of e pid tn body w]) auto

lemma markPassMissing_leases [simp]:
  "task_leases (snd (markPassMissing e pid tn r w)) = task_leases w"
  unfolding markPassMissing_def
proof (rule with_pass_leases, goal_cases)
  case (1 pass t)
  then show ?case
    by (auto simp: Let_def clear_holder_def set_visitor_pass_def update_pass_def split: if_splits)
qed

lemma sweep_visitor_leases: "task_leases (fst (sweep_visitor e tn v st)) = task_leases (fst st)"
proof -
  obtain w n m k where st: "st = (w, n, m, k)" by (rule prod_cases4)
  have T: "task_leases w' = task_leases w" if "transitionStatus e i s a p w = (x, w')" for i s a p x w'
    using transitionStatus_keeps(2) [of e i s a p w] that by simp
  have M: "task_leases w'' = task_leases w'" if "markPassMissing e pid tn r w' = (x, w'')" for pid r x w' w''
    using markPassMissing_leases [of e pid tn r w'] that by simp
  show ?thesis unfolding st using T M by (auto split: prod.split sum.split)
qed

lemma fold_sweep_leases: "task_leases (fst (fold (sweep_visitor e tn) vs st)) = task_leases (fst st)"
  by (induction vs arbitrary: st) (simp_all add: sweep_visitor_leases del: sweep_visitor.simps)

lemma runSweep_lease:
  "\<exists>l\<in>set (task_leases (snd (runSweepForBuilding e wk b tn w))). l_lease_key l = leaseKey e b"
proof (cases "\<exists>l\<in>set (task_leases w). l_lease_key l = leaseKey e b")
  case True
  then show ?thesis by (auto simp: runSweepForBuilding_def tryAcquireLease_def)
next
  case False
  let ?w1 = "snd (tryAcquireLease wk (leaseKey e b) tn w)"
  let ?st = "fold (sweep_visitor (e\<lparr>env_tenant := tn\<rparr>) tn)
    (filter (sweep_candidate e b tn) (visitors w)) (?w1, 0, 0, 0)"
  have "task_leases (fst ?st) = task_leases ?w1" using fold_sweep_leases [of _ _ _ "(?w1, 0, 0, 0)"] by simp
  moreover have "task_leases (snd (runSweepForBuilding e wk b tn w)) =
      update_where (\<lambda>l. l_lease_key l = leaseKey e b) (l_released_update (\<lambda>_. True)) (task_leases (fst ?st))"
    using False by (auto simp: runSweepForBuilding_def tryAcquireLease_def Let_def markLeaseReleased_def
      split: prod.split)
  ultimately show ?thesis using False by (auto simp: tryAcquireLease_def bex_update_where)
qed

lemma find_row:
  assumes "distinct (map v_id rows)" "v \<in> set rows"
  shows "find (\<lambda>u. v_id u = v_id v \<and> v_tenant_id u = v_tenant_id v) rows = Some v"
  using assms by (induction rows) (auto simp: image_iff)

text \<open>The row the cascade of a cancelled line makes of a visitor.\<close>

definition cancels :: "env \<Rightarrow> ident \<Rightarrow> (ident \<Rightarrow> bool) \<Rightarrow> VisitorRow \<Rightarrow> VisitorRow" where
  "cancels e tn sel u = (if sel (v_id u) \<and> v_tenant_id u = tn \<and> v_status u \<in> {Expected, PendingApproval}
     then transition_row (e\<lparr>env_tenant := tn\<rparr>) Cancelled no_opts u else u)"

lemma cancels_simps [simp]:
  "v_id (cancels e tn sel u) = v_id u" "v_tenant_id (cancels e tn sel u) = v_tenant_id u"
  "visitor_check u \<Longrightarrow> visitor_check (cancels e tn sel u)"
  by (auto simp: cancels_def transition_row_def visitor_check_def split: option.splits)

lemma cancels_comp:
  "cancels e tn sel' (cancels e tn sel u) = cancels e tn (\<lambda>i. sel i \<or> sel' i) u"
  by (auto simp: cancels_def)

lemma visitors_emitIntent [simp]: "visitors (emitIntent e t i n p w) = visitors w"
  by (simp add: emitIntent_def)

lemma handleLineCancelled_rows:
  assumes ok: "inserts_ok e" and ids: "distinct (map v_id (visitors w))"
    and chk: "\<forall>v\<in>set (visitors w). visitor_check v" and kind: "lc_line_kind ev = LineVisitor"
  shows "visitors (handleLineCancelled e ev w) =
    map (cancels e (lc_tenant_id ev) ((=) (lc_line_id ev))) (visitors w)"
proof (cases "find (\<lambda>v. v_id v = lc_line_id ev \<and> v_tenant_id v = lc_tenant_id ev) (visitors w)")
  case None
  then have "\<forall>u\<in>set (visitors w). cancels e (lc_tenant_id ev) ((=) (lc_line_id ev)) u = u"
    by (auto simp: find_None_iff cancels_def)
  with None kind show ?thesis
    by (simp add: handleLineCancelled_def loadVisitorForCascade_def map_idI)
next
  case (Some v)
  let ?e = "e\<lparr>env_tenant := lc_tenant_id ev\<rparr>"
  from Some have v: "v \<in> set (visitors w)" "v_id v = lc_line_id ev" "v_tenant_id v = lc_tenant_id ev"
    by (auto simp: find_Some_iff)
  have only: "u = v" if "u \<in> set (visitors w)" "v_id u = lc_line_id ev" for u
    using select_by_mem [OF ids that(1)] select_by_mem [OF ids v(1)] that(2) v(2) by simp
  show ?thesis
  proof (cases "v_status v \<in> {Expected, PendingApproval}")
    case True
    have sel: "select_by v_id (v_id v) (visitors w) = Some v" by (rule select_by_mem [OF ids v(1)])
    have "v_status v \<noteq> Cancelled" "transition_allowed (v_status v) Cancelled"
      using True by (auto simp: transition_allowed_def)
    moreover have "visitor_check (transition_row ?e Cancelled no_opts v)"
      using chk v(1) by (auto simp: transition_row_def visitor_check_def split: option.splits)
    moreover have "inserts_ok ?e" using ok by (simp add: inserts_ok_def)
    ultimately obtain w' where "transitionStatus ?e (v_id v) Cancelled \<lparr>a_user_id = ''system'', a_person_id = None\<rparr>
        no_opts w = (Inr (transition_row ?e Cancelled no_opts v), w')"
      "visitors w' = transition_rows ?e (v_id v) Cancelled no_opts (visitors w)"
      using transition_commits [OF sel, of ?e Cancelled no_opts] v(3) by fastforce
    then have "visitors (handleLineCancelled e ev w) = transition_rows ?e (v_id v) Cancelled no_opts (visitors w)"
      using True kind Some by (simp add: handleLineCancelled_def loadVisitorForCascade_def)
    also have "\<dots> = map (cancels e (lc_tenant_id ev) ((=) (lc_line_id ev))) (visitors w)"
      unfolding update_where_def
    proof (rule map_cong [OF refl])
      fix u assume u: "u \<in> set (visitors w)"
      show "(if v_id u = v_id v \<and> v_tenant_id u = env_tenant ?e
          then transition_row ?e Cancelled no_opts u else u) =
        cancels e (lc_tenant_id ev) ((=) (lc_line_id ev)) u"
        using only [OF u] v True by (cases "v_id u = lc_line_id ev") (auto simp: cancels_def)
    qed
    finally show ?thesis .
  next
    case False
    then have "\<forall>u\<in>set (visitors w). cancels e (lc_tenant_id ev) ((=) (lc_line_id ev)) u = u"
      using only by (auto simp: cancels_def)
    then show ?thesis using False kind Some
      by (simp add: handleLineCancelled_def loadVisitorForCascade_def map_idI)
  qed
qed

lemma fold_cancelled_rows:
  assumes "inserts_ok e" "distinct (map v_id (visitors w))" "\<forall>v\<in>set (visitors w). visitor_check v"
  shows "visitors (fold (\<lambda>i. handleLineCancelled e \<lparr>lc_tenant_id = tn, lc_bundle_id = k, lc_line_id = i,
      lc_line_kind = LineVisitor\<rparr>) is w) = map (cancels e tn (\<lambda>i. i \<in> set is)) (visitors w)"
  using assms(2,3)
proof (induction "is" arbitrary: w)
  case Nil
  then show ?case by (simp add: cancels_def)
next
  case (Cons i "is")
  let ?w1 = "handleLineCancelled e \<lparr>lc_tenant_id = tn, lc_bundle_id = k, lc_line_id = i,
      lc_line_kind = LineVisitor\<rparr> w"
  have w1: "visitors ?w1 = map (cancels e tn ((=) i)) (visitors w)"
    using handleLineCancelled_rows [OF assms(1) Cons.prems] by simp
  then have "map v_id (visitors ?w1) = map v_id (visitors w)" by simp
  moreover have "\<forall>v\<in>set (visitors ?w1). visitor_check v" using w1 Cons.prems(2) by auto
  ultimately have "visitors (fold (\<lambda>i. handleLineCancelled e \<lparr>lc_tenant_id = tn, lc_bundle_id = k,
      lc_line_id = i, lc_line_kind = LineVisitor\<rparr>) is ?w1) = map (cancels e tn (\<lambda>i. i \<in> set is)) (visitors ?w1)"
    using Cons.IH [of ?w1] Cons.prems(1) by simp
  then show ?case by (simp add: w1 cancels_comp comp_def eq_commute [of i])
qed

section \<open>Properties\<close>

text \<open>
  C4. Along every sequence of calls from reception, passes, approvals, the sweep and the
  cascade a visitor keeps its tenant and its status moves along the transition matrix; a
  visitor that has left (checked out, no show, cancelled, denied) never changes status again.
\<close>

theorem statuses_follow_matrix:
  assumes "select_by v_id i (visitors w) = Some r"
  shows "\<exists>r'. select_by v_id i (visitors (run_all run_op ops w)) = Some r' \<and>
    v_tenant_id r' = v_tenant_id r \<and> transition_allowed\<^sup>*\<^sup>* (v_status r) (v_status r') \<and>
    (ALLOWED_TRANSITIONS (v_status r) = None \<longrightarrow> v_status r' = v_status r)"
proof -
  from visitor_calls.run_all_rel [of w ops] assms obtain r' where
    "select_by v_id i (visitors (run_all run_op ops w)) = Some r'" "v_tenant_id r' = v_tenant_id r"
    "transition_allowed\<^sup>*\<^sup>* (v_status r) (v_status r')" by (auto simp: evolves_def)
  then show ?thesis using terminal_stays by auto
qed

theorem statuses_follow_matrix_witness:
  "\<exists>r'. select_by v_id ''v'' (visitors (run_all run_op
      [OpNoShow (example_env 1500) ''t'' ''v'' sweep_actor,
       OpArrived (example_env 1600) True ''t'' ''v'' sweep_actor None] example_visitors)) = Some r' \<and>
    transition_allowed\<^sup>*\<^sup>* Expected (v_status r')"
proof -
  have "select_by v_id ''v'' (visitors example_visitors) = Some example_visitor" by code_simp
  from statuses_follow_matrix [OF this, of "[OpNoShow (example_env 1500) ''t'' ''v'' sweep_actor,
       OpArrived (example_env 1600) True ''t'' ''v'' sweep_actor None]"]
  show ?thesis by (auto simp: example_visitor_def)
qed

text \<open>
  C12. Along every sequence of calls the pass pool stays consistent: a pass in use has a
  holder of its own tenant, no other pass has one, reservations are on reserved passes only,
  and the pass a visitor points at is in use by that visitor.
\<close>

theorem pass_pool_consistent:
  assumes "pool_ok w"
  shows "pool_ok (run_all run_op ops w)"
  using assms by (rule pass_pool.run_all_inv)

lemma example_pool_ok: "pool_ok example_visitors"
  by (simp add: pool_ok_def example_defs holder_ok_def pointer_ok_def)

theorem pass_pool_consistent_witness:
  "pool_ok (run_all run_op [OpAssign (example_env 1500) ''p1'' ''v'' ''t'',
     OpReturn (example_env 1600) ''p1'' ''t''] example_visitors)"
  by (rule pass_pool_consistent [OF example_pool_ok])

definition second_pass_calls :: "visitor_op list" where
  "second_pass_calls =
    [OpArrived (example_env 1500) True ''t'' ''v'' sweep_actor None,
     OpAssign (example_env 1510) ''p1'' ''v'' ''t'', OpAssign (example_env 1520) ''p2'' ''v'' ''t'',
     OpReturn (example_env 1530) ''p1'' ''t'',
     OpCheckedOut (example_env 1540) ''t'' ''v'' sweep_actor Reception (Some True)]"

text \<open>
  The converse pointer is not kept: a visitor may be handed a second pass while holding
  one, and the return of the first clears the pointer to the second. Such a pass is in use by
  a visitor who has checked out with every pass reported as returned, and nothing points at it.
\<close>

theorem second_pass_orphaned:
  "\<exists>v p. select_by v_id ''v'' (visitors (run_all run_op second_pass_calls example_visitors)) = Some v \<and>
     select_by p_id ''p2'' (passes (run_all run_op second_pass_calls example_visitors)) = Some p \<and>
     v_status v = CheckedOut \<and> v_visitor_pass_id v = None \<and>
     p_status p = PassInUse \<and> p_current_visitor_id p = Some ''v''"
proof -
  have "map_option (\<lambda>v. (v_status v, v_visitor_pass_id v))
      (select_by v_id ''v'' (visitors (run_all run_op second_pass_calls example_visitors))) =
      Some (CheckedOut, None)" by code_simp
  moreover have "map_option (\<lambda>p. (p_status p, p_current_visitor_id p))
      (select_by p_id ''p2'' (passes (run_all run_op second_pass_calls example_visitors))) =
      Some (PassInUse, Some ''v'')" by code_simp
  ultimately show ?thesis by auto
qed

text \<open>
  The sweep of a building: when it holds the lease and its inserts succeed, it rewrites
  exactly the overdue visitors of the building, expected ones to no show and those inside to
  checked out by the sweep, and leaves every other row as it was, pass pointers aside.
  Afterwards no overdue visitor is left.
\<close>

theorem sweep_rewrites_candidates:
  assumes lease: "\<forall>l\<in>set (task_leases w). l_lease_key l \<noteq> leaseKey e b"
    and ok: "inserts_ok e" and ids: "distinct (map v_id (visitors w))"
    and chk: "\<forall>v\<in>set (visitors w). visitor_check v"
    and w'_def: "w' = snd (runSweepForBuilding e wk b tn w)"
  shows "map core (visitors w') =
      map (\<lambda>v. core (if sweep_candidate e b tn v then swept (e\<lparr>env_tenant := tn\<rparr>) v else v)) (visitors w) \<and>
    (\<forall>v\<in>set (visitors w'). \<not> sweep_candidate e b tn v)"
proof -
  let ?e = "e\<lparr>env_tenant := tn\<rparr>" and ?cs = "filter (sweep_candidate e b tn) (visitors w)"
  let ?w1 = "snd (tryAcquireLease wk (leaseKey e b) tn w)"
  have vs: "visitors ?w1 = visitors w" by (simp add: tryAcquireLease_def)
  have "map core (visitors w') = map (\<lambda>u. if v_id u \<in> v_id ` set ?cs then core (swept ?e u) else core u) (visitors w)"
    unfolding w'_def using runSweep_acquired [OF lease, of wk tn]
    using fold_sweep_core [of ?e tn ?cs ?w1 0 0 0] ok ids chk vs
    by (auto simp: inserts_ok_def sweep_candidate_def select_by_mem distinct_map_filter)
  also have "\<dots> = map (\<lambda>v. core (if sweep_candidate e b tn v then swept ?e v else v)) (visitors w)"
  proof (rule map_cong [OF refl])
    fix u assume u: "u \<in> set (visitors w)"
    have "v_id u \<in> v_id ` set ?cs \<longleftrightarrow> sweep_candidate e b tn u"
      using u ids by (auto simp: inj_on_eq_iff distinct_map)
    then show "(if v_id u \<in> v_id ` set ?cs then core (swept ?e u) else core u) =
      core (if sweep_candidate e b tn u then swept ?e u else u)" by simp
  qed
  finally have eq: "map core (visitors w') = \<dots>" .
  have "\<not> sweep_candidate e b tn v'" if "v' \<in> set (visitors w')" for v'
  proof -
    from that have "core v' \<in> set (map core (visitors w'))" by simp
    then obtain v where "core v' = core (if sweep_candidate e b tn v then swept ?e v else v)"
      unfolding eq by auto
    then show ?thesis using swept_not_candidate core_candidate by (metis (full_types))
  qed
  with eq show ?thesis by blast
qed

theorem sweep_rewrites_candidates_witness:
  "map v_status (visitors (snd (runSweepForBuilding (example_env 9000) ''w'' ''b'' ''t'' example_visitors))) = [NoShow]"
proof -
  have "\<forall>l\<in>set (task_leases example_visitors). l_lease_key l \<noteq> leaseKey (example_env 9000) ''b''"
    by (simp add: example_visitors_def)
  moreover have "inserts_ok (example_env 9000)" by (simp add: inserts_ok_def example_env_def)
  moreover have "distinct (map v_id (visitors example_visitors))" by (simp add: example_visitors_def)
  moreover have "\<forall>v\<in>set (visitors example_visitors). visitor_check v"
    by (simp add: example_visitors_def example_visitor_def visitor_check_def)
  ultimately have "map core (visitors (snd (runSweepForBuilding (example_env 9000) ''w'' ''b'' ''t'' example_visitors))) =
      map (\<lambda>v. core (if sweep_candidate (example_env 9000) ''b'' ''t'' v
        then swept (example_env 9000\<lparr>env_tenant := ''t''\<rparr>) v else v)) (visitors example_visitors)"
    using sweep_rewrites_candidates [OF _ _ _ _ refl, of example_visitors "example_env 9000" "''b''" "''w''" "''t''"]
    by blast
  from arg_cong [OF this, of "map v_status"] show ?thesis
    by (simp add: comp_def example_visitors_def example_visitor_def example_env_def sweep_candidate_def swept_def)
qed

text \<open>
  A building is swept once per lease key: after a sweep every further run for the same
  building on the same UTC date is skipped and changes nothing.
\<close>

theorem sweep_runs_once:
  assumes "iso_date (env_now e') = iso_date (env_now e)"
    and "w' = snd (runSweepForBuilding e wk b tn w)"
  shows "er_skipped (fst (runSweepForBuilding e' wk' b tn' w')) \<and>
    snd (runSweepForBuilding e' wk' b tn' w') = w'"
proof -
  have "leaseKey e' b = leaseKey e b" using assms(1) by (simp add: leaseKey_def)
  with runSweep_lease [of e wk b tn w] assms(2) show ?thesis
    by (auto simp: runSweepForBuilding_def tryAcquireLease_def)
qed

theorem sweep_runs_once_witness:
  "er_skipped (fst (runSweepForBuilding (example_env 9500) ''w2'' ''b'' ''t''
     (snd (runSweepForBuilding (example_env 9000) ''w'' ''b'' ''t'' example_visitors))))"
proof -
  have "iso_date (env_now (example_env 9500)) = iso_date (env_now (example_env 9000))" by code_simp
  from sweep_runs_once [OF this refl] show ?thesis by blast
qed

text \<open>
  C30. The cascade of a moved line or of a room change onto an expected visitor never
  returns: the handler updates the visitor through the pool while its own transaction holds
  the share lock on the row, and waits for itself.
\<close>

theorem cascade_update_waits_for_itself:
  assumes "find (\<lambda>v. v_id v = i \<and> v_tenant_id v = tn) (visitors w) = Some v"
    and "v_status v = Expected \<or> v_status v = PendingApproval"
  shows "(lm_line_kind ev = LineVisitor \<and> lm_line_id ev = i \<and> lm_tenant_id ev = tn \<longrightarrow>
      handleLineMoved e ev w = None) \<and>
    (lr_line_kind rv = LineVisitor \<and> lr_line_id rv = i \<and> lr_tenant_id rv = tn \<longrightarrow>
      handleLineRoomChanged e rv w = None)"
proof -
  have "v \<in> set (visitors w)" "v_id v = i" "v_tenant_id v = tn"
    using assms(1) by (auto simp: find_Some_iff)
  then have "pool_update [v_id v] (v_id v) tn f w = None" for f by (auto simp: pool_update_def)
  then show ?thesis using assms
    by (auto simp: handleLineMoved_def handleLineRoomChanged_def loadVisitorForCascade_def)
qed

theorem cascade_update_waits_for_itself_witness:
  "handleLineMoved (example_env 1500) \<lparr>lm_tenant_id = ''t'', lm_bundle_id = ''k'', lm_line_id = ''v'',
     lm_line_kind = LineVisitor, lm_old_expected_at = Some 1000, lm_new_expected_at = 3000\<rparr> example_visitors = None"
proof -
  have "find (\<lambda>v. v_id v = ''v'' \<and> v_tenant_id v = ''t'') (visitors example_visitors) = Some example_visitor"
    by code_simp
  moreover have "v_status example_visitor = Expected \<or> v_status example_visitor = PendingApproval"
    by (simp add: example_visitor_def)
  ultimately show ?thesis
    using cascade_update_waits_for_itself [of "''v''" "''t''" example_visitors example_visitor
      "\<lparr>lm_tenant_id = ''t'', lm_bundle_id = ''k'', lm_line_id = ''v'',
        lm_line_kind = LineVisitor, lm_old_expected_at = Some 1000, lm_new_expected_at = 3000\<rparr>"
      "example_env 1500"] by simp
qed

text \<open>
  Reception tolerates clocks up to a minute fast, but the stored arrival may not be
  after the instant it is logged: an arrival stamped within that minute is always refused by
  the table, and the visitor stays expected.
\<close>

theorem markArrived_fast_clock_refused:
  assumes "select_by v_id i (visitors w) = Some row" "v_tenant_id row = tn" "env_tenant e = tn"
    and "v_status row = Expected" "env_now e < ts" "ts \<le> env_now e + 60000"
    and "case v_expected_at row of None \<Rightarrow> True | Some x \<Rightarrow> x - 24 * 60 * 60 * 1000 \<le> ts"
  shows "markArrived e ok tn i a (Some (Some ts)) w = (Inl (PlainError ''check_violation''), w)"
proof -
  have "arrival_guard e tn i (Some (Some ts)) w = Inr ts"
    using assms by (auto simp: arrival_guard_def assertTenant_def assertArrivedAtBound_def
      loadVisitorExpectedAt_def split: option.splits)
  moreover have "transitionStatus e i Arrived a \<lparr>o_arrived_at = Some ts, o_checkout_source = None\<rparr> w =
      (Inl (PlainError ''check_violation''), w)"
    using assms by (simp add: transitionStatus_def transition_tx_def transition_allowed_def
      visitor_check_def transition_row_def)
  ultimately show ?thesis by (simp add: markArrived_def)
qed

theorem markArrived_fast_clock_refused_witness:
  "fst (markArrived (example_env 1500) True ''t'' ''v'' sweep_actor (Some (Some 2000)) example_visitors) =
    Inl (PlainError ''check_violation'')"
proof -
  have "select_by v_id ''v'' (visitors example_visitors) = Some example_visitor" by code_simp
  from markArrived_fast_clock_refused [OF this, of "''t''" "example_env 1500" 2000 True sweep_actor]
  show ?thesis by (simp add: example_visitor_def example_env_def)
qed

text \<open>
  The today view shows every visible visitor the query selects in exactly one of its
  four buckets; the branch for rows without a bucket is never taken.
\<close>

theorem today_buckets_partition:
  assumes "today e ds de visible tn b w = Inr view"
  shows "mset (tv_currently_arriving view @ tv_expected view @ tv_in_meeting view @ tv_checked_out_today view) =
    mset (filter (\<lambda>v. v_tenant_id v = tn \<and> v_building_id v = Some b \<and> v_id v \<in> set visible \<and>
      today_matches ds de v) (visitors w))"
proof -
  let ?since = "env_now e - ARRIVAL_RECENT_WINDOW_MINUTES * 60000"
  let ?rows = "today_rows (today_matches ds de) tn b visible w"
  let ?p = "\<lambda>n. filter (\<lambda>v. bucket_of ?since ds de v = Some n) ?rows"
  have split4: "mset rows = mset (filter (\<lambda>v. g v = Some ''currently_arriving'') rows) +
      mset (filter (\<lambda>v. g v = Some ''expected'') rows) + mset (filter (\<lambda>v. g v = Some ''in_meeting'') rows) +
      mset (filter (\<lambda>v. g v = Some ''checked_out_today'') rows)"
    if "\<forall>v\<in>set rows. g v \<in> {Some ''currently_arriving'', Some ''expected'', Some ''in_meeting'', Some ''checked_out_today''}"
    for rows :: "VisitorRow list" and g :: "VisitorRow \<Rightarrow> string option"
    using that by (induction rows) auto
  have "\<forall>v\<in>set ?rows. bucket_of ?since ds de v \<in>
      {Some ''currently_arriving'', Some ''expected'', Some ''in_meeting'', Some ''checked_out_today''}"
    by (auto simp: today_rows_def today_matches_def bucket_of_def)
  from split4 [OF this] show ?thesis
    using assms by (auto simp: today_def Let_def and_then_Inr_iff today_rows_def ac_simps)
qed

theorem today_buckets_partition_witness:
  "\<exists>view. today (example_env 1500) 0 86399999 [''v''] ''t'' ''b'' example_visitors = Inr view \<and>
    mset (tv_currently_arriving view @ tv_expected view @ tv_in_meeting view @ tv_checked_out_today view) =
      {#example_visitor#}"
proof -
  obtain view where v: "today (example_env 1500) 0 86399999 [''v''] ''t'' ''b'' example_visitors = Inr view"
    by (auto simp: today_def assertTenant_def example_env_def Let_def)
  from today_buckets_partition [OF v] v show ?thesis
    by (auto simp: example_visitors_def example_visitor_def today_matches_def in_range_def)
qed

text \<open>
  A cancelled bundle cancels exactly its visitors of the tenant who are still expected
  or awaiting approval; visitors already inside and visitors of other bundles keep their row.
\<close>

theorem bundle_cancelled_cancels:
  assumes "inserts_ok e" "distinct (map v_id (visitors w))" "\<forall>v\<in>set (visitors w). visitor_check v"
  shows "visitors (handleBundleCancelled e ev w) =
    map (\<lambda>v. if v_tenant_id v = bc_tenant_id ev \<and> v_booking_id v = Some (bc_bundle_id ev) \<and>
        v_status v \<in> {Expected, PendingApproval}
      then transition_row (e\<lparr>env_tenant := bc_tenant_id ev\<rparr>) Cancelled no_opts v else v) (visitors w)"
  unfolding handleBundleCancelled_def fold_cancelled_rows [OF assms]
proof (rule map_cong [OF refl])
  fix u assume u: "u \<in> set (visitors w)"
  have "v_id u \<in> set (map v_id (filter (\<lambda>v. v_tenant_id v = bc_tenant_id ev \<and>
        v_booking_id v = Some (bc_bundle_id ev)) (visitors w))) \<longleftrightarrow>
      v_tenant_id u = bc_tenant_id ev \<and> v_booking_id u = Some (bc_bundle_id ev)"
    using u assms(2) by (auto simp: inj_on_eq_iff distinct_map)
  then show "cancels e (bc_tenant_id ev) (\<lambda>i. i \<in> set (map v_id (filter (\<lambda>v. v_tenant_id v = bc_tenant_id ev \<and>
        v_booking_id v = Some (bc_bundle_id ev)) (visitors w)))) u =
      (if v_tenant_id u = bc_tenant_id ev \<and> v_booking_id u = Some (bc_bundle_id ev) \<and>
        v_status u \<in> {Expected, PendingApproval}
      then transition_row (e\<lparr>env_tenant := bc_tenant_id ev\<rparr>) Cancelled no_opts u else u)"
    unfolding cancels_def by auto
qed

theorem bundle_cancelled_cancels_witness:
  "map v_status (visitors (handleBundleCancelled (example_env 1500)
     \<lparr>bc_tenant_id = ''t'', bc_bundle_id = ''k''\<rparr> example_visitors)) = [Cancelled]"
proof -
  have ok: "inserts_ok (example_env 1500)" by (simp add: inserts_ok_def example_env_def)
  have ids: "distinct (map v_id (visitors example_visitors))" by (simp add: example_visitors_def)
  have chk: "\<forall>v\<in>set (visitors example_visitors). visitor_check v"
    by (simp add: example_visitors_def example_visitor_def visitor_check_def)
  show ?thesis unfolding bundle_cancelled_cancels [OF ok ids chk]
    by (simp add: example_visitors_def example_visitor_def)
qed

end
