(* ===== verification/Workflow_Graph.thy ===== *)
theory Workflow_Graph
  imports Js_Value
begin

section \<open>Workflow graphs and their validation\<close>

text \<open>
  \<open>modules/workflow/workflow-validator.service.ts\<close>: the graph of a workflow definition, the
  breadth-first search from its trigger, the checks of each node's configuration and the list
  of errors that \<open>publish\<close> requires to be empty. A check that reads a property of \<open>null\<close> throws,
  so the checks return results. \<open>graph_spec\<close> says what a graph without errors is.
\<close>

subsection \<open>Graphs\<close>

record wf_node =
  nd_id :: string
  nd_type :: string
  nd_config :: "(string \<times> jsval) list"

record wf_edge =
  ed_from :: string
  ed_to :: string
  ed_condition :: "string option"

record wf_graph =
  g_nodes :: "wf_node list"
  g_edges :: "wf_edge list"

record ValidationError =
  ve_code :: string
  ve_message :: string
  ve_node :: "string option"
  ve_edge :: "nat option"

record ValidationResult =
  vr_ok :: bool
  vr_errors :: "ValidationError list"

definition config_get :: "wf_node \<Rightarrow> string \<Rightarrow> jsval" where
  "config_get n k = obj_get (nd_config n) k"

definition out_edges :: "wf_edge list \<Rightarrow> string \<Rightarrow> wf_edge list" where
  "out_edges es i = filter (\<lambda>e. ed_from e = i) es"

definition global_error :: "string \<Rightarrow> string \<Rightarrow> ValidationError" where
  "global_error code msg = \<lparr>ve_code = code, ve_message = msg, ve_node = None, ve_edge = None\<rparr>"

definition node_error :: "wf_node \<Rightarrow> string \<Rightarrow> string \<Rightarrow> ValidationError" where
  "node_error n code msg = \<lparr>ve_code = code, ve_message = msg, ve_node = Some (nd_id n), ve_edge = None\<rparr>"

definition edge_error :: "nat \<Rightarrow> string \<Rightarrow> string \<Rightarrow> ValidationError" where
  "edge_error i code msg = \<lparr>ve_code = code, ve_message = msg, ve_node = None, ve_edge = Some i\<rparr>"

subsection \<open>Breadth-first search\<close>

text \<open>The body of the inner loop on one edge, on the pair of the seen nodes and the queue.\<close>

definition bfs_edge :: "string \<Rightarrow> wf_edge \<Rightarrow> string list \<times> string list \<Rightarrow> string list \<times> string list" where
  "bfs_edge cur e sq = (case sq of (seen, queue) \<Rightarrow>
     if ed_from e = cur \<and> ed_to e \<notin> set seen then (seen @ [ed_to e], queue @ [ed_to e])
     else (seen, queue))"

lemma bfs_edge_pair:
  "bfs_edge cur e (seen, queue) =
     (if ed_from e = cur \<and> ed_to e \<notin> set seen then (seen @ [ed_to e], queue @ [ed_to e]) else (seen, queue))"
  by (simp add: bfs_edge_def)

lemma bfs_edges_new:
  "\<exists>new. fold (bfs_edge cur) es (seen, queue) = (seen @ new, queue @ new) \<and> distinct new \<and>
     set new = ed_to ` set (out_edges es cur) - set seen"
proof (induction es arbitrary: seen queue)
  case Nil
  show ?case by (simp add: out_edges_def)
next
  case (Cons e es)
  show ?case
  proof (cases "ed_from e = cur \<and> ed_to e \<notin> set seen")
    case True
    from Cons.IH [of "seen @ [ed_to e]" "queue @ [ed_to e]"] obtain new where
      "fold (bfs_edge cur) es (seen @ [ed_to e], queue @ [ed_to e]) =
         ((seen @ [ed_to e]) @ new, (queue @ [ed_to e]) @ new)"
      "distinct new" "set new = ed_to ` set (out_edges es cur) - set (seen @ [ed_to e])" by blast
    with True show ?thesis
      by (intro exI [of _ "ed_to e # new"]) (auto simp: bfs_edge_pair out_edges_def)
  next
    case False
    from Cons.IH [of seen queue] obtain new where
      "fold (bfs_edge cur) es (seen, queue) = (seen @ new, queue @ new)"
      "distinct new" "set new = ed_to ` set (out_edges es cur) - set seen" by blast
    with False show ?thesis
      by (intro exI [of _ new]) (auto simp: bfs_edge_pair out_edges_def)
  qed
qed

function bfs_loop :: "wf_edge list \<Rightarrow> string list \<Rightarrow> string list \<Rightarrow> string list" where
  "bfs_loop es seen [] = seen"
| "bfs_loop es seen (cur # queue) =
     (case fold (bfs_edge cur) es (seen, queue) of (seen', queue') \<Rightarrow> bfs_loop es seen' queue')"
  by pat_completeness auto

text \<open>
  Every step takes one node off the queue, and a node is put on the queue only when it leaves
  the set of edge targets not yet seen.
\<close>

termination
proof (relation "measure (\<lambda>(es, seen, queue). card (ed_to ` set es - set seen) + length queue)")
  fix es :: "wf_edge list" and seen queue seen' queue' :: "string list" and cur
  assume x: "(seen', queue') = fold (bfs_edge cur) es (seen, queue)"
  obtain new where new: "fold (bfs_edge cur) es (seen, queue) = (seen @ new, queue @ new)" "distinct new"
      "set new = ed_to ` set (out_edges es cur) - set seen"
    using bfs_edges_new by blast
  have sub: "set new \<subseteq> ed_to ` set es - set seen"
    using new(3) by (auto simp: out_edges_def)
  have "card (ed_to ` set es - set (seen @ new)) = card (ed_to ` set es - set seen) - length new"
    using sub new(2) card_Diff_subset [OF _ sub] by (simp add: distinct_card Diff_eq Int_assoc)
  moreover have "length new \<le> card (ed_to ` set es - set seen)"
    using card_mono [OF _ sub] new(2) by (simp add: distinct_card)
  ultimately show "((es, seen', queue'), es, seen, cur # queue)
      \<in> measure (\<lambda>(es, seen, queue). card (ed_to ` set es - set seen) + length queue)"
    using x new(1) by (simp del: set_append)
qed simp

definition bfs :: "string \<Rightarrow> wf_edge list \<Rightarrow> string list" where
  "bfs start es = bfs_loop es [start] [start]"

subsection \<open>Configuration of the nodes\<close>

text \<open>\<open>typeof v === 'string' && v.trim().length > 0\<close>\<close>

fun filled_string :: "jsval \<Rightarrow> bool" where
  "filled_string (JStr s) = (js_trim s \<noteq> [])"
| "filled_string _ = False"

fun nonempty_object :: "jsval \<Rightarrow> bool" where
  "nonempty_object (JObj fs) = (fs \<noteq> [])"
| "nonempty_object (JArr vs) = (vs \<noteq> [])"
| "nonempty_object _ = False"

text \<open>\<open>t.title\<close> of a task throws on \<open>null\<close> and is \<open>undefined\<close> on what is not an object.\<close>

definition task_titled :: "jsval \<Rightarrow> bool result" where
  "task_titled t =
     (case t of
        JUndef \<Rightarrow> Inl type_error
      | JNull \<Rightarrow> Inl type_error
      | JObj fs \<Rightarrow> Inr (filled_string (obj_get fs ''title''))
      | _ \<Rightarrow> Inr False)"

definition tasks_ok :: "jsval \<Rightarrow> bool result" where
  "tasks_ok v =
     (case v of
        JArr ts \<Rightarrow> if ts = [] then Inr False else every_result task_titled ts
      | _ \<Rightarrow> Inr False)"

definition req :: "wf_node \<Rightarrow> string \<Rightarrow> string \<Rightarrow> bool \<Rightarrow> ValidationError list" where
  "req n code msg ok = (if ok then [] else [node_error n code msg])"

definition validateNodeConfig :: "wf_node \<Rightarrow> ValidationError list result" where
  "validateNodeConfig n =
     (let c = config_get n; ty = nd_type n
      in if ty = ''assign'' then
           Inr (req n ''ASSIGN_TARGET'' ''Assign requires a team or user''
             (truthy_val (c ''team_id'') \<or> truthy_val (c ''user_id'')))
         else if ty = ''approval'' then
           Inr (req n ''APPROVAL_APPROVER'' ''Approval requires an approver''
             (truthy_val (c ''approver_person_id'') \<or> truthy_val (c ''approver_team_id'')))
         else if ty = ''notification'' then
           Inr (req n ''NOTIFY_SUBJECT'' ''Notification requires subject'' (filled_string (c ''subject'')) @
                req n ''NOTIFY_BODY'' ''Notification requires body'' (filled_string (c ''body'')))
         else if ty = ''condition'' then
           Inr (req n ''COND_FIELD'' ''Condition requires a field''
                  (case c ''field'' of JStr s \<Rightarrow> s \<noteq> [] | _ \<Rightarrow> False) @
                req n ''COND_OP'' ''Condition requires an operator''
                  (c ''operator'' \<in> {JStr ''equals'', JStr ''not_equals'', JStr ''in''}))
         else if ty = ''update_ticket'' then
           Inr (req n ''UPDATE_FIELDS'' ''Update Ticket requires fields'' (nonempty_object (c ''fields'')))
         else if ty = ''create_child_tasks'' then
           and_then (tasks_ok (c ''tasks'')) (\<lambda>ok. Inr (req n ''CHILD_TASKS_NONEMPTY''
             ''Create Child Tasks requires at least one task with a title'' ok))
         else if ty = ''wait_for'' then
           Inr (req n ''WAIT_TYPE'' ''Wait For requires a wait_type''
             (c ''wait_type'' \<in> {JStr ''child_tasks'', JStr ''status'', JStr ''event''}))
         else if ty = ''timer'' then
           Inr (req n ''TIMER_DELAY'' ''Timer requires delay_minutes > 0''
             (case c ''delay_minutes'' of JNum x \<Rightarrow> 0 < x | _ \<Rightarrow> False))
         else if ty = ''http_request'' then
           Inr (req n ''HTTP_URL'' ''HTTP Request requires a URL'' (filled_string (c ''url'')) @
                req n ''HTTP_METHOD'' ''HTTP Request requires a method''
                  (c ''method'' \<in> {JStr ''GET'', JStr ''POST'', JStr ''PUT'', JStr ''PATCH'', JStr ''DELETE''}))
         else Inr [])"

subsection \<open>Validation\<close>

definition has_branch :: "wf_edge list \<Rightarrow> string \<Rightarrow> bool" where
  "has_branch out b \<longleftrightarrow> (\<exists>e\<in>set out. ed_condition e = Some b)"

definition node_errors :: "wf_graph \<Rightarrow> wf_node \<Rightarrow> ValidationError list result" where
  "node_errors g n =
     (let out = out_edges (g_edges g) (nd_id n)
      in and_then (validateNodeConfig n) (\<lambda>cfg. Inr (
           (if nd_type n \<noteq> ''end'' \<and> out = []
            then [node_error n ''NO_OUTGOING'' (''Node \"'' @ nd_type n @ ''\" has no outgoing edge'')] else []) @
           (if nd_type n = ''condition''
            then req n ''MISSING_TRUE_EDGE'' ''Condition needs a \"true\" branch'' (has_branch out ''true'') @
                 req n ''MISSING_FALSE_EDGE'' ''Condition needs a \"false\" branch'' (has_branch out ''false'')
            else []) @
           (if nd_type n = ''approval''
            then req n ''MISSING_APPROVED_EDGE'' ''Approval needs an \"approved\" branch'' (has_branch out ''approved'') @
                 req n ''MISSING_REJECTED_EDGE'' ''Approval needs a \"rejected\" branch'' (has_branch out ''rejected'')
            else []) @ cfg)))"

fun concat_result :: "('a \<Rightarrow> 'b list result) \<Rightarrow> 'a list \<Rightarrow> 'b list result" where
  "concat_result f [] = Inr []"
| "concat_result f (x # xs) =
     and_then (f x) (\<lambda>ys. and_then (concat_result f xs) (\<lambda>zs. Inr (ys @ zs)))"

definition edge_errors :: "wf_graph \<Rightarrow> ValidationError list" where
  "edge_errors g = concat (map (\<lambda>(i, e).
     (if ed_from e \<in> nd_id ` set (g_nodes g) then []
      else [edge_error i ''DANGLING_EDGE_FROM'' (''Edge references unknown node '' @ ed_from e)]) @
     (if ed_to e \<in> nd_id ` set (g_nodes g) then []
      else [edge_error i ''DANGLING_EDGE_TO'' (''Edge references unknown node '' @ ed_to e)]))
     (enumerate 0 (g_edges g)))"

definition nodes_of_type :: "string \<Rightarrow> wf_graph \<Rightarrow> wf_node list" where
  "nodes_of_type ty g = filter (\<lambda>n. nd_type n = ty) (g_nodes g)"

definition unreachable_errors :: "wf_graph \<Rightarrow> ValidationError list" where
  "unreachable_errors g =
     (case nodes_of_type ''trigger'' g of
        [t] \<Rightarrow> (let reachable = bfs (nd_id t) (g_edges g)
          in map (\<lambda>n. node_error n ''UNREACHABLE'' (''Node \"'' @ nd_type n @ ''\" is not reachable from trigger''))
               (filter (\<lambda>n. nd_type n \<noteq> ''trigger'' \<and> nd_id n \<notin> set reachable) (g_nodes g)))
      | _ \<Rightarrow> [])"

definition validate_workflow :: "wf_graph \<Rightarrow> ValidationResult result" where
  "validate_workflow g =
     and_then (concat_result (node_errors g) (g_nodes g)) (\<lambda>per_node.
       let triggers = nodes_of_type ''trigger'' g;
           errors =
             (if triggers = [] then [global_error ''NO_TRIGGER'' ''Workflow must have a trigger node''] else []) @
             (if 1 < length triggers then [global_error ''MULTIPLE_TRIGGERS'' ''Workflow must have exactly one trigger''] else []) @
             (if nodes_of_type ''end'' g = [] then [global_error ''NO_END'' ''Workflow must have at least one end node''] else []) @
             edge_errors g @ per_node @ unreachable_errors g
       in Inr \<lparr>vr_ok = (errors = []), vr_errors = errors\<rparr>)"

subsection \<open>What the validator decides\<close>

definition edge_rel :: "wf_edge list \<Rightarrow> (string \<times> string) set" where
  "edge_rel es = (\<lambda>e. (ed_from e, ed_to e)) ` set es"

definition node_spec :: "wf_graph \<Rightarrow> wf_node \<Rightarrow> bool" where
  "node_spec g n \<longleftrightarrow>
     (let out = out_edges (g_edges g) (nd_id n)
      in validateNodeConfig n = Inr [] \<and> (nd_type n = ''end'' \<or> out \<noteq> []) \<and>
         (nd_type n = ''condition'' \<longrightarrow> has_branch out ''true'' \<and> has_branch out ''false'') \<and>
         (nd_type n = ''approval'' \<longrightarrow> has_branch out ''approved'' \<and> has_branch out ''rejected''))"

definition graph_spec :: "wf_graph \<Rightarrow> bool" where
  "graph_spec g \<longleftrightarrow>
     (\<exists>t. nodes_of_type ''trigger'' g = [t] \<and>
        (\<forall>n\<in>set (g_nodes g). nd_type n \<noteq> ''trigger'' \<longrightarrow> (nd_id t, nd_id n) \<in> (edge_rel (g_edges g))\<^sup>*)) \<and>
     (\<exists>n\<in>set (g_nodes g). nd_type n = ''end'') \<and>
     (\<forall>e\<in>set (g_edges g). ed_from e \<in> nd_id ` set (g_nodes g) \<and> ed_to e \<in> nd_id ` set (g_nodes g)) \<and>
     (\<forall>n\<in>set (g_nodes g). node_spec g n)"

lemma edge_rel_out: "(a, b) \<in> edge_rel es \<longleftrightarrow> b \<in> ed_to ` set (out_edges es a)"
  by (auto simp: edge_rel_def out_edges_def image_iff)

text \<open>
  The search keeps two facts: everything seen is reachable, and every successor of a seen node
  that is no longer queued has been seen.
\<close>

lemma bfs_loop_reach:
  assumes "set queue \<subseteq> set seen" "set seen \<subseteq> R" "edge_rel es `` R \<subseteq> R"
    "\<forall>v\<in>set seen - set queue. edge_rel es `` {v} \<subseteq> set seen"
  shows "set seen \<subseteq> set (bfs_loop es seen queue) \<and> set (bfs_loop es seen queue) \<subseteq> R \<and>
    edge_rel es `` set (bfs_loop es seen queue) \<subseteq> set (bfs_loop es seen queue)"
  using assms
proof (induction es seen queue rule: bfs_loop.induct)
  case (1 es seen)
  then show ?case by auto
next
  case (2 es seen cur queue)
  obtain new where new: "fold (bfs_edge cur) es (seen, queue) = (seen @ new, queue @ new)"
      "set new = ed_to ` set (out_edges es cur) - set seen"
    using bfs_edges_new by blast
  have succ: "edge_rel es `` {cur} \<subseteq> set (seen @ new)"
    using new(2) by (auto simp: edge_rel_out)
  have "cur \<in> R" using "2.prems"(1,2) by auto
  with "2.prems"(3) have "edge_rel es `` {cur} \<subseteq> R" by blast
  with new(2) have "set new \<subseteq> R" by (auto simp: edge_rel_out)
  moreover have "\<forall>v\<in>set (seen @ new) - set (queue @ new). edge_rel es `` {v} \<subseteq> set (seen @ new)"
    using succ "2.prems"(4) by auto
  ultimately have "set (seen @ new) \<subseteq> set (bfs_loop es (seen @ new) (queue @ new)) \<and>
      set (bfs_loop es (seen @ new) (queue @ new)) \<subseteq> R \<and>
      edge_rel es `` set (bfs_loop es (seen @ new) (queue @ new)) \<subseteq> set (bfs_loop es (seen @ new) (queue @ new))"
    using "2.prems"(1,2,3) by (intro "2.IH" [OF new(1) [symmetric]]) auto
  with new(1) show ?case by simp
qed

lemma set_bfs: "set (bfs start es) = (edge_rel es)\<^sup>* `` {start}"
proof
  have closed: "edge_rel es `` ((edge_rel es)\<^sup>* `` {start}) \<subseteq> (edge_rel es)\<^sup>* `` {start}"
    by (auto intro: rtrancl_into_rtrancl)
  from bfs_loop_reach [OF _ _ closed, of "[start]" "[start]"]
  have loop: "set [start] \<subseteq> set (bfs start es)" "set (bfs start es) \<subseteq> (edge_rel es)\<^sup>* `` {start}"
    "edge_rel es `` set (bfs start es) \<subseteq> set (bfs start es)"
    by (auto simp: bfs_def)
  from loop(2) show "set (bfs start es) \<subseteq> (edge_rel es)\<^sup>* `` {start}" .
  have "v \<in> set (bfs start es)" if "(start, v) \<in> (edge_rel es)\<^sup>*" for v
    using that loop(1,3) by (induction rule: rtrancl_induct) auto
  then show "(edge_rel es)\<^sup>* `` {start} \<subseteq> set (bfs start es)" by auto
qed

lemma concat_result_Nil:
  "concat_result f xs = Inr [] \<longleftrightarrow> (\<forall>x\<in>set xs. f x = Inr [])"
  by (induction xs) (auto simp: and_then_Inr_iff)

lemma req_Nil [simp]: "req n code msg ok = [] \<longleftrightarrow> ok"
  by (simp add: req_def)

lemma node_errors_Nil: "node_errors g n = Inr [] \<longleftrightarrow> node_spec g n"
  by (auto simp: node_errors_def node_spec_def Let_def and_then_Inr_iff)

lemma edge_errors_Nil:
  "edge_errors g = [] \<longleftrightarrow>
     (\<forall>e\<in>set (g_edges g). ed_from e \<in> nd_id ` set (g_nodes g) \<and> ed_to e \<in> nd_id ` set (g_nodes g))"
proof -
  have enum: "(\<forall>p\<in>set (enumerate k es). Q (snd p)) \<longleftrightarrow> (\<forall>e\<in>set es. Q e)"
    for k Q and es :: "wf_edge list"
    by (induction es arbitrary: k) auto
  show ?thesis
    unfolding edge_errors_def enum [of 0 "g_edges g", symmetric] by (auto split: if_splits)
qed

lemma unreachable_errors_Nil:
  assumes "nodes_of_type ''trigger'' g = [t]"
  shows "unreachable_errors g = [] \<longleftrightarrow> (\<forall>n\<in>set (g_nodes g). nd_type n \<noteq> ''trigger'' \<longrightarrow>
     (nd_id t, nd_id n) \<in> (edge_rel (g_edges g))\<^sup>*)"
  using assms by (auto simp: unreachable_errors_def Let_def set_bfs filter_empty_conv)

lemma validate_workflow_ok:
  "(\<exists>r. validate_workflow g = Inr r \<and> vr_ok r) \<longleftrightarrow> graph_spec g"
proof -
  have one: "(\<exists>t. xs = [t]) \<longleftrightarrow> xs \<noteq> [] \<and> \<not> 1 < length xs" for xs :: "wf_node list"
    by (cases xs) auto
  have "(\<exists>r. validate_workflow g = Inr r \<and> vr_ok r) \<longleftrightarrow>
      (\<exists>t. nodes_of_type ''trigger'' g = [t]) \<and> nodes_of_type ''end'' g \<noteq> [] \<and> edge_errors g = [] \<and>
      concat_result (node_errors g) (g_nodes g) = Inr [] \<and> unreachable_errors g = []"
    unfolding one by (auto simp: validate_workflow_def Let_def and_then_Inr_iff)
  also have "\<dots> \<longleftrightarrow> graph_spec g"
    unfolding graph_spec_def concat_result_Nil node_errors_Nil edge_errors_Nil
    using unreachable_errors_Nil [of g] by (auto simp: nodes_of_type_def filter_empty_conv)
  finally show ?thesis .
qed

text \<open>
  C21. The validator decides the specification: it returns without errors exactly on the graphs with
  one trigger, an end, no dangling edge, well-formed nodes with the branches they need, and every
  node reachable from the trigger by edges.
\<close>

theorem validator_decides: "(\<exists>r. validate_workflow g = Inr r \<and> vr_ok r) \<longleftrightarrow> graph_spec g"
  by (rule validate_workflow_ok)

end
