(* ===== verification/Workflow_Definitions.thy ===== *)
theory Workflow_Definitions
  imports Workflow_Graph Db_Tx
begin

section \<open>Workflow definitions\<close>

text \<open>
  The editor's operations of \<open>modules/workflow/workflow.service.ts\<close> on the table of workflow
  definitions (create, change the graph, publish, take back, clone), with
  \<open>common/errors/wrap-pg-error.ts\<close> for the errors of the database. A record \<open>def_env\<close> holds what a
  call draws from outside: the tenant, the clock, the id the database generates, the random
  node ids of a clone and the SQLSTATE of the write when the database refuses it.
\<close>

subsection \<open>Errors of the database\<close>

definition wrapPgError :: "string option \<Rightarrow> string \<Rightarrow> string option \<Rightarrow> app_error" where
  "wrapPgError code fallback notFoundCode =
     (if code = Some ''PGRST116'' then NotFoundWithCode (orElse notFoundCode ''generic.not_found'')
      else if code = Some ''23505'' then Conflict ''db.unique_violation''
      else if code = Some ''23503'' then Conflict ''db.fk_violation''
      else ServerError fallback)"

subsection \<open>The table\<close>

datatype def_status = DefDraft | DefPublished | DefArchived

record wf_definition =
  wd_id :: string
  wd_tenant :: string
  wd_name :: string
  wd_entity_type :: string
  wd_graph :: wf_graph
  wd_status :: def_status
  wd_version :: nat
  wd_published_at :: "int option"

record def_env =
  we_tenant :: string
  we_now :: int
  we_new_id :: string
  we_fresh :: "nat \<Rightarrow> string"
  we_fault :: "string option"

definition empty_graph :: wf_graph where
  "empty_graph = \<lparr>g_nodes = [], g_edges = []\<rparr>"

definition entity_types :: "string list" where
  "entity_types = [''case'', ''work_order'', ''booking'']"

definition own_def :: "def_env \<Rightarrow> string \<Rightarrow> wf_definition \<Rightarrow> bool" where
  "own_def env i d \<longleftrightarrow> wd_id d = i \<and> wd_tenant d = we_tenant env"

text \<open>An insert with \<open>.select().single()\<close>: the primary key and the check on the entity type.\<close>

definition insert_def :: "def_env \<Rightarrow> string \<Rightarrow> wf_definition \<Rightarrow> (wf_definition list, wf_definition) op" where
  "insert_def env fallback row defs =
     (case we_fault env of
        Some c \<Rightarrow> (Inl (wrapPgError (Some c) fallback None), defs)
      | None \<Rightarrow>
          if wd_id row \<in> wd_id ` set defs then (Inl (wrapPgError (Some ''23505'') fallback None), defs)
          else if wd_entity_type row \<notin> set entity_types then (Inl (wrapPgError (Some ''23514'') fallback None), defs)
          else (Inr row, defs @ [row]))"

text \<open>An update with \<open>.select().single()\<close>: no row that matches is the error \<open>PGRST116\<close>.\<close>

definition update_def ::
    "def_env \<Rightarrow> string \<Rightarrow> (wf_definition \<Rightarrow> bool) \<Rightarrow> (wf_definition \<Rightarrow> wf_definition) \<Rightarrow>
     (wf_definition list, wf_definition) op" where
  "update_def env fallback P f defs =
     (case we_fault env of
        Some c \<Rightarrow> (Inl (wrapPgError (Some c) fallback (Some ''workflow.not_found'')), defs)
      | None \<Rightarrow>
          (case find P defs of
             None \<Rightarrow> (Inl (wrapPgError (Some ''PGRST116'') fallback (Some ''workflow.not_found'')), defs)
           | Some d \<Rightarrow> (Inr (f d), update_where P f defs)))"

subsection \<open>Operations\<close>

definition getById :: "def_env \<Rightarrow> string \<Rightarrow> wf_definition list \<Rightarrow> wf_definition result" where
  "getById env i defs =
     (case find (own_def env i) defs of
        None \<Rightarrow> Inl (NotFoundWithCode ''workflow.not_found'')
      | Some d \<Rightarrow> Inr d)"

definition create_workflow ::
    "def_env \<Rightarrow> string \<Rightarrow> string option \<Rightarrow> wf_graph option \<Rightarrow> (wf_definition list, wf_definition) op" where
  "create_workflow env nm entity_type graph =
     insert_def env ''workflow.create_failed''
       \<lparr>wd_id = we_new_id env, wd_tenant = we_tenant env, wd_name = nm,
        wd_entity_type = orElse entity_type ''case'', wd_graph = orElse graph empty_graph,
        wd_status = DefDraft, wd_version = 1, wd_published_at = None\<rparr>"

definition updateGraph :: "def_env \<Rightarrow> string \<Rightarrow> wf_graph \<Rightarrow> (wf_definition list, wf_definition) op" where
  "updateGraph env i graph =
     update_def env ''workflow.update_graph_failed''
       (\<lambda>d. own_def env i d \<and> wd_status d = DefDraft) (\<lambda>d. d\<lparr>wd_graph := graph\<rparr>)"

text \<open>
  The two round trips of \<open>publish\<close>: the read with the validation, and the write, which asks for neither the graph nor
  the status it validated. \<open>publish\<close> is their composition with nothing in between; \<open>publish_race\<close> shows what a change
  of the graph in between leads to.
\<close>

definition publish_check :: "def_env \<Rightarrow> string \<Rightarrow> wf_definition list \<Rightarrow> unit result" where
  "publish_check env i defs =
     and_then (getById env i defs) (\<lambda>wf.
     and_then (validate_workflow (wd_graph wf)) (\<lambda>r.
     guard_ok (vr_ok r) (ValidationFailed ''workflow.invalid'')))"

definition publish_write :: "def_env \<Rightarrow> string \<Rightarrow> (wf_definition list, wf_definition) op" where
  "publish_write env i =
     update_def env ''workflow.publish_failed'' (own_def env i)
       (\<lambda>d. d\<lparr>wd_status := DefPublished, wd_published_at := Some (we_now env)\<rparr>)"

definition publish :: "def_env \<Rightarrow> string \<Rightarrow> (wf_definition list, wf_definition) op" where
  "publish env i defs =
     (case publish_check env i defs of
        Inl e \<Rightarrow> (Inl e, defs)
      | Inr _ \<Rightarrow> publish_write env i defs)"

definition unpublish :: "def_env \<Rightarrow> string \<Rightarrow> (wf_definition list, wf_definition) op" where
  "unpublish env i =
     update_def env ''workflow.unpublish_failed'' (own_def env i)
       (\<lambda>d. d\<lparr>wd_status := DefDraft, wd_published_at := None\<rparr>)"

text \<open>
  \<open>regenerateNodeIds\<close>: the i-th node gets the i-th random id; the map from the old ids keeps the
  last node of an id.
\<close>

definition id_map :: "(nat \<Rightarrow> string) \<Rightarrow> wf_node list \<Rightarrow> string \<Rightarrow> string option" where
  "id_map fresh ns = map_of (rev (zip (map nd_id ns) (map fresh [0..<length ns])))"

definition regenerateNodeIds :: "(nat \<Rightarrow> string) \<Rightarrow> wf_graph \<Rightarrow> wf_graph" where
  "regenerateNodeIds fresh g =
     (let m = id_map fresh (g_nodes g); re = (\<lambda>i. orElse (m i) i)
      in \<lparr>g_nodes = map (\<lambda>(i, n). n\<lparr>nd_id := fresh i\<rparr>) (enumerate 0 (g_nodes g)),
          g_edges = map (\<lambda>e. e\<lparr>ed_from := re (ed_from e), ed_to := re (ed_to e)\<rparr>) (g_edges g)\<rparr>)"

definition clone :: "def_env \<Rightarrow> string \<Rightarrow> string option \<Rightarrow> (wf_definition list, wf_definition) op" where
  "clone env i nm defs =
     (case getById env i defs of
        Inl e \<Rightarrow> (Inl e, defs)
      | Inr original \<Rightarrow>
          insert_def env ''workflow.clone_failed''
            \<lparr>wd_id = we_new_id env, wd_tenant = we_tenant env, wd_name = orElse nm (wd_name original @ '' (copy)''),
             wd_entity_type = wd_entity_type original,
             wd_graph = regenerateNodeIds (we_fresh env) (wd_graph original),
             wd_status = DefDraft, wd_version = 1, wd_published_at = None\<rparr> defs)"

subsection \<open>Published graphs are valid\<close>

datatype def_op =
    CreateDef def_env string "string option" "wf_graph option"
  | UpdateGraph def_env string wf_graph
  | Publish def_env string
  | Unpublish def_env string
  | Clone def_env string "string option"

fun run_def :: "def_op \<Rightarrow> wf_definition list \<Rightarrow> wf_definition list" where
  "run_def (CreateDef env nm ty g) defs = snd (create_workflow env nm ty g defs)"
| "run_def (UpdateGraph env i g) defs = snd (updateGraph env i g defs)"
| "run_def (Publish env i) defs = snd (publish env i defs)"
| "run_def (Unpublish env i) defs = snd (unpublish env i defs)"
| "run_def (Clone env i nm) defs = snd (clone env i nm defs)"

definition def_ok :: "wf_definition \<Rightarrow> bool" where
  "def_ok d \<longleftrightarrow> wd_entity_type d \<in> set entity_types \<and> (wd_status d = DefPublished \<longrightarrow> graph_spec (wd_graph d))"

definition defs_inv :: "wf_definition list \<Rightarrow> bool" where
  "defs_inv defs \<longleftrightarrow> distinct (map wd_id defs) \<and> (\<forall>d\<in>set defs. def_ok d)"

lemma insert_def_inv:
  assumes "defs_inv defs" "wd_status row \<noteq> DefPublished"
  shows "defs_inv (snd (insert_def env fallback row defs))"
  using assms by (auto simp: insert_def_def defs_inv_def def_ok_def split: option.splits)

lemma update_def_inv:
  assumes "defs_inv defs" "\<And>d. wd_id (f d) = wd_id d"
    "\<And>d. d \<in> set defs \<Longrightarrow> P d \<Longrightarrow> def_ok d \<Longrightarrow> def_ok (f d)"
  shows "defs_inv (snd (update_def env fallback P f defs))"
  using assms by (auto simp: update_def_def defs_inv_def ball_update_where split: option.splits)

lemma own_def_unique:
  assumes "defs_inv defs" "find (own_def env i) defs = Some d" "d' \<in> set defs" "own_def env i d'"
  shows "d' = d"
proof (rule key_inj [of wd_id defs])
  from assms(1) show "distinct (map wd_id defs)" by (simp add: defs_inv_def)
  from assms(2) have d: "d \<in> set defs \<and> own_def env i d" by (metis find_SomeD)
  then show "d \<in> set defs" ..
  from d assms(4) show "wd_id d' = wd_id d" by (simp add: own_def_def)
qed (rule assms(3))

lemma publish_check_valid:
  assumes "publish_check env i defs = Inr u"
  obtains d where "find (own_def env i) defs = Some d" "graph_spec (wd_graph d)"
proof (cases "find (own_def env i) defs")
  case None
  with assms show ?thesis by (simp add: publish_check_def getById_def)
next
  case (Some d)
  with assms obtain r where "validate_workflow (wd_graph d) = Inr r" "vr_ok r"
    by (auto simp: publish_check_def getById_def and_then_Inr_iff split: if_splits)
  with validate_workflow_ok Some that show ?thesis by blast
qed

lemma publish_inv:
  assumes "defs_inv defs"
  shows "defs_inv (snd (publish env i defs))"
proof (cases "publish_check env i defs")
  case (Inr u)
  then obtain d where d: "find (own_def env i) defs = Some d" "graph_spec (wd_graph d)"
    by (rule publish_check_valid)
  have "defs_inv (snd (publish_write env i defs))"
    unfolding publish_write_def
  proof (rule update_def_inv [OF assms])
    fix d' assume "d' \<in> set defs" "own_def env i d'" "def_ok d'"
    with own_def_unique [OF assms d(1)] d(2)
    show "def_ok (d'\<lparr>wd_status := DefPublished, wd_published_at := Some (we_now env)\<rparr>)"
      by (simp add: def_ok_def)
  qed simp
  with Inr show ?thesis by (simp add: publish_def)
qed (simp add: publish_def assms)

lemma run_def_inv: "defs_inv defs \<Longrightarrow> defs_inv (run_def x defs)"
proof (cases x)
  case (Publish env i)
  then show "defs_inv defs \<Longrightarrow> ?thesis" by (simp add: publish_inv)
qed (auto simp: create_workflow_def updateGraph_def unpublish_def clone_def def_ok_def
    intro!: insert_def_inv update_def_inv split: sum.splits)

interpretation def_calls: op_invariant run_def defs_inv
  by unfold_locales (rule run_def_inv)

lemma published_graphs_valid:
  assumes "d \<in> set (run_all run_def ops [])" "wd_status d = DefPublished"
  shows "graph_spec (wd_graph d)"
proof -
  have "defs_inv (run_all run_def ops [])"
    by (rule def_calls.run_all_inv) (simp add: defs_inv_def)
  with assms show ?thesis by (simp add: defs_inv_def def_ok_def)
qed

subsection \<open>A clone is as valid as its original\<close>

definition rename_ids :: "(string \<Rightarrow> string) \<Rightarrow> wf_graph \<Rightarrow> wf_graph" where
  "rename_ids r g =
     \<lparr>g_nodes = map (\<lambda>n. n\<lparr>nd_id := r (nd_id n)\<rparr>) (g_nodes g),
      g_edges = map (\<lambda>e. e\<lparr>ed_from := r (ed_from e), ed_to := r (ed_to e)\<rparr>) (g_edges g)\<rparr>"

lemma validateNodeConfig_rename:
  "validateNodeConfig (n\<lparr>nd_id := i\<rparr>) = Inr [] \<longleftrightarrow> validateNodeConfig n = Inr []"
  by (simp add: validateNodeConfig_def config_get_def Let_def and_then_Inr_iff)

lemma out_edges_rename:
  assumes "inj_on r V" "\<forall>e\<in>set es. ed_from e \<in> V" "i \<in> V"
  shows "out_edges (map (\<lambda>e. e\<lparr>ed_from := r (ed_from e), ed_to := r (ed_to e)\<rparr>) es) (r i) =
    map (\<lambda>e. e\<lparr>ed_from := r (ed_from e), ed_to := r (ed_to e)\<rparr>) (out_edges es i)"
  using assms by (induction es) (auto simp: out_edges_def dest: inj_onD)

lemma has_branch_rename:
  "has_branch (map (\<lambda>e. e\<lparr>ed_from := f e, ed_to := h e\<rparr>) es) b \<longleftrightarrow> has_branch es b"
  by (simp add: has_branch_def)

lemma edge_rel_rename:
  "(a, b) \<in> (edge_rel es)\<^sup>* \<Longrightarrow>
   (r a, r b) \<in> (edge_rel (map (\<lambda>e. e\<lparr>ed_from := r (ed_from e), ed_to := r (ed_to e)\<rparr>) es))\<^sup>*"
proof (induction rule: rtrancl_induct)
  case (step y z)
  then have "(r y, r z) \<in> edge_rel (map (\<lambda>e. e\<lparr>ed_from := r (ed_from e), ed_to := r (ed_to e)\<rparr>) es)"
    by (force simp: edge_rel_def)
  with step.IH show ?case by (rule rtrancl_into_rtrancl)
qed simp

lemma node_spec_rename:
  assumes "inj_on r (nd_id ` set (g_nodes g))" "n \<in> set (g_nodes g)" "node_spec g n"
    "\<forall>e\<in>set (g_edges g). ed_from e \<in> nd_id ` set (g_nodes g)"
  shows "node_spec (rename_ids r g) (n\<lparr>nd_id := r (nd_id n)\<rparr>)"
proof -
  have "nd_id n \<in> nd_id ` set (g_nodes g)" using assms(2) by simp
  from out_edges_rename [OF assms(1,4) this] assms(3) show ?thesis
    by (simp add: node_spec_def rename_ids_def validateNodeConfig_rename has_branch_rename Let_def)
qed

lemma graph_spec_rename:
  assumes "inj_on r (nd_id ` set (g_nodes g))" "graph_spec g"
  shows "graph_spec (rename_ids r g)"
proof -
  from assms(2) obtain t where t: "nodes_of_type ''trigger'' g = [t]"
    and reach: "\<forall>n\<in>set (g_nodes g). nd_type n \<noteq> ''trigger'' \<longrightarrow> (nd_id t, nd_id n) \<in> (edge_rel (g_edges g))\<^sup>*"
    and fin: "\<exists>n\<in>set (g_nodes g). nd_type n = ''end''"
    and edges: "\<forall>e\<in>set (g_edges g). ed_from e \<in> nd_id ` set (g_nodes g) \<and> ed_to e \<in> nd_id ` set (g_nodes g)"
    and nodes: "\<forall>n\<in>set (g_nodes g). node_spec g n"
    unfolding graph_spec_def by blast
  have type: "filter (\<lambda>n. nd_type n = ty) (map (\<lambda>n. n\<lparr>nd_id := r (nd_id n)\<rparr>) ns) =
      map (\<lambda>n. n\<lparr>nd_id := r (nd_id n)\<rparr>) (filter (\<lambda>n. nd_type n = ty) ns)" for ty ns
    by (induction ns) auto
  have "nodes_of_type ''trigger'' (rename_ids r g) = [t\<lparr>nd_id := r (nd_id t)\<rparr>]"
    using t by (simp add: nodes_of_type_def rename_ids_def type)
  moreover have "\<forall>n\<in>set (g_nodes (rename_ids r g)). nd_type n \<noteq> ''trigger'' \<longrightarrow>
      (r (nd_id t), nd_id n) \<in> (edge_rel (g_edges (rename_ids r g)))\<^sup>*"
    using reach by (auto simp: rename_ids_def intro: edge_rel_rename)
  moreover have "\<exists>n\<in>set (g_nodes (rename_ids r g)). nd_type n = ''end''"
    using fin by (auto simp: rename_ids_def)
  moreover have "\<forall>e\<in>set (g_edges (rename_ids r g)). ed_from e \<in> nd_id ` set (g_nodes (rename_ids r g)) \<and>
      ed_to e \<in> nd_id ` set (g_nodes (rename_ids r g))"
    using edges by (force simp: rename_ids_def image_iff)
  moreover have "\<forall>n\<in>set (g_nodes (rename_ids r g)). node_spec (rename_ids r g) n"
    using nodes node_spec_rename [OF assms(1)] edges by (auto simp: rename_ids_def)
  ultimately show ?thesis unfolding graph_spec_def by auto
qed

text \<open>With distinct node ids the random ids are a renaming.\<close>

lemma id_map_nth:
  assumes "distinct (map nd_id ns)" "i < length ns"
  shows "id_map fresh ns (nd_id (ns ! i)) = Some (fresh i)"
proof -
  let ?kv = "zip (map nd_id ns) (map fresh [0..<length ns])"
  have "distinct (map fst (rev ?kv))"
    using assms(1) by (simp flip: rev_map)
  moreover have "(nd_id (ns ! i), fresh i) \<in> set (rev ?kv)"
    using assms(2) by (auto simp: set_zip intro!: exI [of _ i])
  ultimately show ?thesis by (simp add: id_map_def map_of_eq_Some_iff del: map_map set_rev)
qed

lemma regenerateNodeIds_rename:
  assumes "distinct (map nd_id (g_nodes g))" "inj_on fresh {..<length (g_nodes g)}"
  obtains r where "inj_on r (nd_id ` set (g_nodes g))" "regenerateNodeIds fresh g = rename_ids r g"
proof -
  let ?r = "\<lambda>i. orElse (id_map fresh (g_nodes g) i) i"
  have r: "?r (nd_id (g_nodes g ! i)) = fresh i" if "i < length (g_nodes g)" for i
    using id_map_nth [OF assms(1) that] by simp
  have "inj_on ?r (nd_id ` set (g_nodes g))"
  proof (rule inj_onI)
    fix x y
    assume xy: "x \<in> nd_id ` set (g_nodes g)" "y \<in> nd_id ` set (g_nodes g)" "?r x = ?r y"
    then obtain i j where "i < length (g_nodes g)" "x = nd_id (g_nodes g ! i)"
        "j < length (g_nodes g)" "y = nd_id (g_nodes g ! j)"
      by (auto simp: in_set_conv_nth)
    with xy(3) r inj_onD [OF assms(2), of i j] show "x = y" by simp
  qed
  moreover have "regenerateNodeIds fresh g = rename_ids ?r g"
    unfolding regenerateNodeIds_def rename_ids_def Let_def
    by (intro arg_cong2 [of _ _ _ _ "\<lambda>x y. \<lparr>g_nodes = x, g_edges = y\<rparr>"] nth_equalityI)
      (simp_all add: nth_enumerate_eq r)
  ultimately show ?thesis by (rule that)
qed

lemma clone_graph_valid:
  assumes "distinct (map nd_id (g_nodes g))" "inj_on fresh {..<length (g_nodes g)}" "graph_spec g"
  shows "graph_spec (regenerateNodeIds fresh g)"
  using regenerateNodeIds_rename [OF assms(1,2)] graph_spec_rename assms(3) by metis

subsection \<open>Properties\<close>

text \<open>A small valid graph, used in the examples.\<close>

definition ex_line :: wf_graph where
  "ex_line =
     \<lparr>g_nodes = [\<lparr>nd_id = ''t'', nd_type = ''trigger'', nd_config = []\<rparr>,
        \<lparr>nd_id = ''c'', nd_type = ''condition'',
         nd_config = [(''field'', JStr ''status''), (''operator'', JStr ''equals''), (''value'', JStr ''open'')]\<rparr>,
        \<lparr>nd_id = ''w'', nd_type = ''wait_for'', nd_config = [(''wait_type'', JStr ''status'')]\<rparr>,
        \<lparr>nd_id = ''e'', nd_type = ''end'', nd_config = []\<rparr>],
      g_edges = [\<lparr>ed_from = ''t'', ed_to = ''c'', ed_condition = None\<rparr>,
        \<lparr>ed_from = ''c'', ed_to = ''w'', ed_condition = Some ''true''\<rparr>,
        \<lparr>ed_from = ''c'', ed_to = ''e'', ed_condition = Some ''false''\<rparr>,
        \<lparr>ed_from = ''w'', ed_to = ''e'', ed_condition = None\<rparr>]\<rparr>"

definition ex_def_env :: "string \<Rightarrow> def_env" where
  "ex_def_env i = \<lparr>we_tenant = ''T'', we_now = 5, we_new_id = i, we_fresh = (\<lambda>n. replicate (Suc n) (CHR ''n'')), we_fault = None\<rparr>"

definition ex_defs :: "wf_definition list" where
  "ex_defs = run_all run_def [CreateDef (ex_def_env ''d'') ''flow'' None (Some ex_line), Publish (ex_def_env []) ''d''] []"

lemma ex_line_valid: "graph_spec ex_line"
proof -
  have "(case validate_workflow ex_line of Inl _ \<Rightarrow> False | Inr r \<Rightarrow> vr_ok r)" by code_simp
  then show ?thesis by (auto simp flip: validate_workflow_ok split: sum.splits)
qed

text \<open>
  The check and the write of a publication are not one step. A change of the graph between them publishes a graph that
  no check has seen, here one without nodes.
\<close>

lemma publish_race:
  "let defs = run_def (CreateDef (ex_def_env ''d'') ''flow'' None (Some ex_line)) [];
       between = snd (updateGraph (ex_def_env []) ''d'' empty_graph defs);
       published = snd (publish_write (ex_def_env []) ''d'' between)
   in publish_check (ex_def_env []) ''d'' defs = Inr () \<and> map (\<lambda>d. (wd_status d, wd_graph d)) published = [(DefPublished, empty_graph)] \<and>
      publish_check (ex_def_env []) ''d'' published = Inl (ValidationFailed ''workflow.invalid'')"
  unfolding Let_def by (intro conjI; code_simp)

text \<open>
  C25. Only valid graphs are published: after any sequence of creations, graph changes, publications,
  withdrawals and clones, each taken as a whole, by any tenants and with any refusals of the database, the graph of every
  published definition satisfies the specification of the validator.
\<close>

theorem published_definitions_valid:
  assumes "d \<in> set (run_all run_def ops [])" "wd_status d = DefPublished"
  shows "graph_spec (wd_graph d)"
  using assms by (rule published_graphs_valid)

theorem published_definitions_valid_witness:
  "\<exists>d\<in>set ex_defs. wd_status d = DefPublished \<and> wd_graph d = ex_line \<and> graph_spec (wd_graph d)"
proof -
  have "ex_defs = [\<lparr>wd_id = ''d'', wd_tenant = ''T'', wd_name = ''flow'', wd_entity_type = ''case'', wd_graph = ex_line,
     wd_status = DefPublished, wd_version = 1, wd_published_at = Some 5\<rparr>]" by code_simp
  then show ?thesis
    using published_definitions_valid [of "hd ex_defs" "[CreateDef (ex_def_env ''d'') ''flow'' None (Some ex_line), Publish (ex_def_env []) ''d'']"]
    by (simp add: ex_defs_def)
qed

text \<open>
  A clone is a draft of its own whose graph is as valid as the original's: the fresh node ids are a
  consistent renaming of nodes and edges when the ids of the original are distinct and the
  random ids do not collide.
\<close>

theorem clone_keeps_validity:
  assumes "getById env i defs = Inr original" "clone env i nm defs = (Inr d, defs')"
    and "distinct (map nd_id (g_nodes (wd_graph original)))"
    and "inj_on (we_fresh env) {..<length (g_nodes (wd_graph original))}"
    and "graph_spec (wd_graph original)"
  shows "graph_spec (wd_graph d) \<and> wd_status d = DefDraft \<and> defs' = defs @ [d]"
proof -
  from assms(1,2) have "wd_graph d = regenerateNodeIds (we_fresh env) (wd_graph original)" "wd_status d = DefDraft" "defs' = defs @ [d]"
    by (auto simp: clone_def insert_def_def split: option.splits if_splits)
  with clone_graph_valid [OF assms(3-5)] show ?thesis by simp
qed

theorem clone_keeps_validity_witness:
  "case clone (ex_def_env ''d2'') ''d'' None ex_defs of
     (Inr d, defs') \<Rightarrow> graph_spec (wd_graph d) \<and> defs' = ex_defs @ [d] | _ \<Rightarrow> False"
proof -
  obtain d defs' where c: "clone (ex_def_env ''d2'') ''d'' None ex_defs = (Inr d, defs')"
  proof -
    have "isl (fst (clone (ex_def_env ''d2'') ''d'' None ex_defs)) = False" by code_simp
    then show ?thesis using that by (cases "clone (ex_def_env ''d2'') ''d'' None ex_defs"; cases "fst (clone (ex_def_env ''d2'') ''d'' None ex_defs)") auto
  qed
  have o: "getById (ex_def_env ''d2'') ''d'' ex_defs = Inr (hd ex_defs)" "wd_graph (hd ex_defs) = ex_line" by code_simp+
  have "inj_on (we_fresh (ex_def_env ''d2'')) A" for A
    by (auto simp: ex_def_env_def inj_on_def dest: arg_cong [where f = length])
  moreover have "distinct (map nd_id (g_nodes ex_line))" by code_simp
  ultimately show ?thesis
    using clone_keeps_validity [OF o(1) c] o(2) ex_line_valid c by simp
qed

end
