(* ===== verification/Workflow_Template.thy ===== *)
theory Workflow_Template
  imports Js_Value
begin

section \<open>Templates of the HTTP node\<close>

text \<open>
  \<open>substituteTemplate\<close> of \<open>modules/workflow/workflow-engine.service.ts\<close>: every \<open>{{ticket.field}}\<close> of a
  text is replaced by the value at its path. \<open>JSON.stringify\<close> is written out; the property test \<open>p in v\<close>
  is that of the own properties.
\<close>

subsection \<open>JSON text\<close>

definition hex_digit :: "nat \<Rightarrow> char" where
  "hex_digit n = (if n < 10 then char_of (48 + n) else char_of (87 + n))"

definition escape_char :: "char \<Rightarrow> string" where
  "escape_char c =
     (if c = CHR 0x22 then [CHR 0x5C, c]
      else if c = CHR 0x5C then [c, c]
      else if c = CHR 0x08 then [CHR 0x5C, CHR ''b'']
      else if c = CHR 0x0C then [CHR 0x5C, CHR ''f'']
      else if c = CHR 0x0A then [CHR 0x5C, CHR ''n'']
      else if c = CHR 0x0D then [CHR 0x5C, CHR ''r'']
      else if c = CHR 0x09 then [CHR 0x5C, CHR ''t'']
      else if (of_char c :: nat) < 32 then
        [CHR 0x5C] @ ''u00'' @ [hex_digit (of_char c div 16), hex_digit (of_char c mod 16)]
      else [c])"

definition quote_json :: "string \<Rightarrow> string" where
  "quote_json s = [CHR 0x22] @ concat (map escape_char s) @ [CHR 0x22]"

fun commas :: "string list \<Rightarrow> string" where
  "commas [] = []"
| "commas [x] = x"
| "commas (x # y # xs) = x @ '','' @ commas (y # xs)"

fun js_stringify :: "host \<Rightarrow> jsval \<Rightarrow> string" where
  "js_stringify h JUndef = ''null''"
| "js_stringify h JNull = ''null''"
| "js_stringify h (JBool b) = (if b then ''true'' else ''false'')"
| "js_stringify h (JNum n) = num_str h n"
| "js_stringify h (JStr s) = quote_json s"
| "js_stringify h (JArr vs) = ''['' @ commas (map (js_stringify h) vs) @ '']''"
| "js_stringify h (JObj fs) =
     [CHR 0x7B] @ commas (map (\<lambda>(k, v). quote_json k @ '':'' @ js_stringify h v)
        (filter (\<lambda>(k, v). v \<noteq> JUndef) fs)) @ [CHR 0x7D]"

subsection \<open>Substitution\<close>

definition is_word :: "char \<Rightarrow> bool" where
  "is_word c \<longleftrightarrow> (let n = (of_char c :: nat)
     in (48 \<le> n \<and> n \<le> 57) \<or> (65 \<le> n \<and> n \<le> 90) \<or> (97 \<le> n \<and> n \<le> 122) \<or> c = CHR ''_'' \<or> c = CHR ''.'')"

text \<open>A match of \<open>\{\{\s*([\w.]+)\s*\}\}\<close> at the head of the text: the path and what follows.\<close>

definition token_at :: "string \<Rightarrow> (string \<times> string) option" where
  "token_at s =
     (if starts_with s [CHR 0x7B, CHR 0x7B] then
        let r = dropWhile is_ws (drop 2 s);
            path = takeWhile is_word r;
            r' = dropWhile is_ws (dropWhile is_word r)
        in if path \<noteq> [] \<and> starts_with r' [CHR 0x7D, CHR 0x7D] then Some (path, drop 2 r') else None
      else None)"

lemma length_dropWhile: "length (dropWhile P xs) \<le> length xs"
  by (induction xs) auto

lemma token_at_shorter:
  assumes "token_at s = Some (p, rest)"
  shows "length rest < length s"
proof -
  let ?r = "dropWhile is_ws (drop 2 s)"
  from assms have s: "starts_with s [CHR 0x7B, CHR 0x7B]"
    and rest: "rest = drop 2 (dropWhile is_ws (dropWhile is_word ?r))"
    by (auto simp: token_at_def Let_def split: if_splits)
  from s have "length s \<ge> 2" by (auto simp: starts_with_iff)
  moreover have "length rest \<le> length (drop 2 s)"
    unfolding rest using length_dropWhile order_trans
    by (metis (no_types, lifting) diff_le_self length_drop)
  ultimately show ?thesis by simp
qed

function replace_tokens :: "(string \<Rightarrow> string) \<Rightarrow> string \<Rightarrow> string" where
  "replace_tokens f s =
     (case token_at s of
        Some (p, rest) \<Rightarrow> f p @ replace_tokens f rest
      | None \<Rightarrow> (case s of [] \<Rightarrow> [] | c # cs \<Rightarrow> c # replace_tokens f cs))"
  by pat_completeness auto

termination
  by (relation "measure (\<lambda>(f, s). length s)") (auto dest: token_at_shorter)

declare replace_tokens.simps [simp del]

fun has_prop :: "jsval \<Rightarrow> string \<Rightarrow> bool" where
  "has_prop (JObj fs) p = has_key fs p"
| "has_prop (JArr vs) p = (p = ''length'' \<or> (\<exists>i<length vs. nat_string i = p))"
| "has_prop _ p = False"

fun walk_path :: "jsval \<Rightarrow> string list \<Rightarrow> jsval option" where
  "walk_path v [] = Some v"
| "walk_path v (p # ps) = (if has_prop v p then walk_path (js_get v p) ps else None)"

fun show_value :: "host \<Rightarrow> jsval \<Rightarrow> string" where
  "show_value h JUndef = []"
| "show_value h JNull = []"
| "show_value h (JArr vs) = js_stringify h (JArr vs)"
| "show_value h (JObj fs) = js_stringify h (JObj fs)"
| "show_value h (JBool b) = (if b then ''true'' else ''false'')"
| "show_value h (JNum n) = num_str h n"
| "show_value h (JStr s) = s"

definition token_value :: "host \<Rightarrow> jsval \<Rightarrow> string \<Rightarrow> string" where
  "token_value h vars path =
     (case walk_path vars (split_on CHR ''.'' path) of None \<Rightarrow> [] | Some v \<Rightarrow> show_value h v)"

text \<open>A falsy template is returned as it is; \<open>replace\<close> on what is not a string throws.\<close>

definition substituteTemplate :: "host \<Rightarrow> jsval \<Rightarrow> jsval \<Rightarrow> jsval result" where
  "substituteTemplate h tpl vars =
     (if \<not> truthy_val tpl then Inr tpl
      else (case tpl of
              JStr s \<Rightarrow> Inr (JStr (replace_tokens (token_value h vars) s))
            | _ \<Rightarrow> Inl type_error))"

subsection \<open>What is replaced\<close>

lemma token_at_brace: "CHR 0x7B \<notin> set s \<Longrightarrow> token_at s = None"
  by (cases s) (auto simp: token_at_def starts_with_iff)

text \<open>A text without an opening brace is left alone.\<close>

lemma replace_tokens_plain: "CHR 0x7B \<notin> set s \<Longrightarrow> replace_tokens f s = s"
  by (induction s) (simp_all add: replace_tokens.simps [of f] token_at_brace)

lemma replace_tokens_prefix:
  "CHR 0x7B \<notin> set u \<Longrightarrow> replace_tokens f (u @ s) = u @ replace_tokens f s"
proof (induction u)
  case (Cons c u)
  then have "token_at (c # u @ s) = None" by (auto simp: token_at_def starts_with_iff)
  with Cons show ?case by (simp add: replace_tokens.simps [of f "c # u @ s"])
qed simp

lemma token_at_token:
  assumes "p \<noteq> []" "\<forall>c\<in>set p. is_word c"
  shows "token_at ([CHR 0x7B, CHR 0x7B] @ p @ [CHR 0x7D, CHR 0x7D] @ s) = Some (p, s)"
proof -
  have word: "\<not> is_ws (hd p)"
    using assms by (cases p) (auto simp: is_ws_def is_word_def Let_def)
  have "\<not> is_word (CHR 0x7D)" "\<not> is_ws (CHR 0x7D)"
    by (simp_all add: is_word_def is_ws_def)
  with assms word have "dropWhile is_ws (p @ [CHR 0x7D, CHR 0x7D] @ s) = p @ [CHR 0x7D, CHR 0x7D] @ s"
    "takeWhile is_word (p @ [CHR 0x7D, CHR 0x7D] @ s) = p"
    "dropWhile is_word (p @ [CHR 0x7D, CHR 0x7D] @ s) = [CHR 0x7D, CHR 0x7D] @ s"
    by (cases p; simp add: takeWhile_append dropWhile_append)+
  with assms(1) \<open>\<not> is_ws (CHR 0x7D)\<close> show ?thesis
    by (simp add: token_at_def)
qed

lemma replace_tokens_token:
  assumes "CHR 0x7B \<notin> set u" "p \<noteq> []" "\<forall>c\<in>set p. is_word c"
  shows "replace_tokens f (u @ [CHR 0x7B, CHR 0x7B] @ p @ [CHR 0x7D, CHR 0x7D] @ s) =
    u @ f p @ replace_tokens f s"
  using token_at_token [OF assms(2,3), of s] assms(1)
  by (simp add: replace_tokens_prefix replace_tokens.simps [of f "CHR 0x7B # CHR 0x7B # _"])

end
