(* ===== verification/Workflow_Engine.thy ===== *)
theory Workflow_Engine
  imports Workflow_Definitions Workflow_Template
begin

section \<open>The workflow engine\<close>

text \<open>
  \<open>modules/workflow/workflow-engine.service.ts\<close>: starting an instance, walking the graph node by node,
  waiting and resuming, and the dry run of \<open>workflow-simulator.service.ts\<close>.

  A run works on the pair of the database and, in a dry run, the context that collects events, path and
  stopping point. A context exists exactly in a dry run (the simulator is the only caller that passes
  one). Every recursive call \<open>advance\<close> of \<open>executeNode\<close> is the last thing its branch does, so a
  node yields an outcome: go on along a condition, stop, or throw. The walk may not end, hence
  \<open>advance\<close> is a partial function and \<open>None\<close> is a run that does not return.

  Other components are arguments, collected in \<open>wf_env\<close>: the stored procedures that assign and update
  a ticket, the SLA timers, the dispatch of child work orders, the HTTP client, the tables of persons
  and teams, and whether the insert of an approval row is refused. A write whose error the code does
  not look at is taken to be executed.
\<close>

subsection \<open>Data\<close>

datatype entity_kind = KindCase | KindWorkOrder | KindBooking

datatype inst_status = InstActive | InstWaiting | InstCompleted | InstFailed | InstCancelled

record wf_instance =
  wi_id :: string
  wi_tenant :: string
  wi_definition :: string
  wi_version :: nat
  wi_kind :: "entity_kind option"
  wi_case :: "string option"
  wi_work_order :: "string option"
  wi_booking :: "string option"
  wi_ticket :: "string option"
  wi_node :: string
  wi_status :: inst_status
  wi_waiting_for :: jsval
  wi_context :: "(string \<times> jsval) list"
  wi_completed_at :: "int option"
  wi_cancelled_reason :: "string option"

record wf_approval =
  wa_tenant :: string
  wa_target_type :: string
  wa_target_id :: string
  wa_person :: jsval
  wa_team :: jsval
  wa_chain :: "string option"
  wa_group :: "string option"
  wa_threshold :: jsval
  wa_instance :: "string option"
  wa_node :: "string option"
  wa_status :: string

record wf_notification =
  no_tenant :: string
  no_type :: jsval
  no_entity_type :: string
  no_entity_id :: string
  no_subject :: jsval
  no_body :: jsval

record EmittedEvent =
  em_type :: string
  em_node :: "string option"
  em_node_type :: "string option"
  em_decision :: "string option"
  em_payload :: "(string \<times> jsval) list"

record wf_event =
  evt_tenant :: string
  evt_instance :: string
  evt_event :: EmittedEvent

record wf_ticket =
  tk_id :: string
  tk_tenant :: string
  tk_fields :: "(string \<times> jsval) list"

record wf_link =
  lk_id :: string
  lk_tenant :: string
  lk_parent :: string
  lk_parent_node :: string
  lk_parent_kind :: entity_kind
  lk_parent_entity :: string
  lk_child :: "string option"
  lk_child_kind :: entity_kind
  lk_child_entity :: string
  lk_orphan :: bool
  lk_wait :: bool
  lk_grouped :: bool
  lk_wait_for :: "string option"
  lk_statuses :: "string list option"
  lk_timeout_at :: "int option"
  lk_timeout_branch :: "string option"
  lk_resolved_at :: "int option"
  lk_resolution :: "string option"

record wf_db =
  db_definitions :: "wf_definition list"
  db_instances :: "wf_instance list"
  db_approvals :: "wf_approval list"
  db_notifications :: "wf_notification list"
  db_events :: "wf_event list"
  db_tickets :: "wf_ticket list"
  db_work_orders :: "string list"
  db_links :: "wf_link list"

record StopPoint =
  sp_node :: string
  sp_node_type :: string
  sp_reason :: string

record WorkflowRunContext =
  cx_ticket :: "(string \<times> jsval) list"
  cx_events :: "EmittedEvent list"
  cx_path :: "string list"
  cx_stopped :: "StopPoint option"

record wf_run =
  rn_db :: wf_db
  rn_ctx :: "WorkflowRunContext option"

record http_call =
  hc_method :: jsval
  hc_url :: jsval
  hc_headers :: "(string \<times> jsval) list"
  hc_body :: "jsval option"

record http_answer =
  ha_status :: int
  ha_ok :: bool
  ha_text :: string

record wf_env =
  en_tenant :: string
  en_now :: int
  en_uuid :: string
  en_instance_id :: string
  en_tenants :: "string list"
  en_host :: host
  en_iso :: "rat \<Rightarrow> string option"
  en_json_parse :: "string \<Rightarrow> jsval option"
  en_assign :: "string \<Rightarrow> string \<Rightarrow> (string \<times> jsval) list \<Rightarrow> wf_ticket list \<Rightarrow> wf_ticket list result"
  en_update :: "string \<Rightarrow> string \<Rightarrow> (string \<times> jsval) list \<Rightarrow> wf_ticket list \<Rightarrow> wf_ticket list result"
  en_timers :: "jsval \<Rightarrow> string \<Rightarrow> jsval result"
  en_dispatch :: "string \<Rightarrow> jsval list \<Rightarrow> string \<Rightarrow> string option"
  en_fetch :: "http_call \<Rightarrow> string + http_answer"
  en_rows :: "string \<Rightarrow> (string \<times> string) list"
  en_is_uuid :: "string \<Rightarrow> bool"
  en_approval_refused :: "wf_approval \<Rightarrow> bool"

datatype node_outcome = Goto "string option" | Stop | Throw app_error

subsection \<open>Helpers\<close>

definition SPAWN_LINK_DEPTH_LIMIT :: nat where
  "SPAWN_LINK_DEPTH_LIMIT = 10"

definition UPDATE_TICKET_ALLOWED_FIELDS :: "string list" where
  "UPDATE_TICKET_ALLOWED_FIELDS = [''status'', ''status_category'', ''waiting_reason'', ''priority'',
     ''assigned_team_id'', ''assigned_user_id'', ''assigned_vendor_id'', ''sla_id'', ''title'',
     ''description'', ''cost'', ''tags'', ''watchers'']"

fun kind_name :: "entity_kind \<Rightarrow> string" where
  "kind_name KindCase = ''case''"
| "kind_name KindWorkOrder = ''work_order''"
| "kind_name KindBooking = ''booking''"

definition projectLegacyEntityType :: "entity_kind \<Rightarrow> string" where
  "projectLegacyEntityType k = (if k = KindCase then ''ticket'' else kind_name k)"

definition resolvePolymorphicEntity :: "wf_instance \<Rightarrow> entity_kind \<times> string option" where
  "resolvePolymorphicEntity row =
     (case orElse (wi_kind row) KindCase of
        KindCase \<Rightarrow> (KindCase, nullish (wi_case row) (wi_ticket row))
      | KindWorkOrder \<Rightarrow> (KindWorkOrder, wi_work_order row)
      | KindBooking \<Rightarrow> (KindBooking, wi_booking row))"

definition own_instance :: "string \<Rightarrow> string \<Rightarrow> wf_instance \<Rightarrow> bool" where
  "own_instance i tenant w \<longleftrightarrow> wi_id w = i \<and> wi_tenant w = tenant"

definition advance_failed :: app_error where
  "advance_failed = ServerError ''workflow.advance_failed''"

definition getEntityKindForInstance :: "wf_env \<Rightarrow> string \<Rightarrow> wf_db \<Rightarrow> (entity_kind \<times> string) result" where
  "getEntityKindForInstance env i db =
     (case maybe_single (filter (own_instance i (en_tenant env)) (db_instances db)) of
        None \<Rightarrow> Inl advance_failed
      | Some row \<Rightarrow>
          (case resolvePolymorphicEntity row of (kind, entityId) \<Rightarrow>
             if truthy entityId then Inr (kind, the entityId) else Inl advance_failed))"

definition mk_event :: "string \<Rightarrow> wf_node \<Rightarrow> (string \<times> jsval) list \<Rightarrow> EmittedEvent" where
  "mk_event ty n payload =
     \<lparr>em_type = ty, em_node = Some (nd_id n), em_node_type = Some (nd_type n), em_decision = None,
      em_payload = payload\<rparr>"

definition emit_row :: "string \<Rightarrow> string \<Rightarrow> EmittedEvent \<Rightarrow> wf_db \<Rightarrow> wf_db" where
  "emit_row tenant i e db =
     db\<lparr>db_events := db_events db @ [\<lparr>evt_tenant = tenant, evt_instance = i, evt_event = e\<rparr>]\<rparr>"

definition emit :: "wf_env \<Rightarrow> string \<Rightarrow> EmittedEvent \<Rightarrow> wf_run \<Rightarrow> wf_run" where
  "emit env i e st =
     (case rn_ctx st of
        Some c \<Rightarrow> st\<lparr>rn_ctx := Some (c\<lparr>cx_events := cx_events c @ [e]\<rparr>)\<rparr>
      | None \<Rightarrow> st\<lparr>rn_db := emit_row (en_tenant env) i e (rn_db st)\<rparr>)"

definition set_instance :: "wf_env \<Rightarrow> string \<Rightarrow> (wf_instance \<Rightarrow> wf_instance) \<Rightarrow> wf_run \<Rightarrow> wf_run" where
  "set_instance env i f st =
     st\<lparr>rn_db := (rn_db st)\<lparr>db_instances := update_where (own_instance i (en_tenant env)) f (db_instances (rn_db st))\<rparr>\<rparr>"

definition dry_run :: "wf_run \<Rightarrow> bool" where
  "dry_run st \<longleftrightarrow> rn_ctx st \<noteq> None"

text \<open>The ticket a condition or an HTTP node reads.\<close>

definition read_ticket :: "wf_env \<Rightarrow> string \<Rightarrow> wf_run \<Rightarrow> (string \<times> jsval) list option" where
  "read_ticket env ticketId st =
     (case rn_ctx st of
        Some c \<Rightarrow> Some (cx_ticket c)
      | None \<Rightarrow> map_option tk_fields (maybe_single
          (filter (\<lambda>t. tk_id t = ticketId \<and> tk_tenant t = en_tenant env) (db_tickets (rn_db st)))))"

definition assertTenantOwned :: "wf_env \<Rightarrow> string \<Rightarrow> jsval \<Rightarrow> string \<Rightarrow> unit result" where
  "assertTenantOwned env table v tenant =
     (if tenant = [] then Inl (ServerError ''reference.lookup_failed'')
      else (case v of
              JStr i \<Rightarrow>
                if \<not> en_is_uuid env i then Inl (ValidationFailed ''reference.invalid_uuid'')
                else (case maybe_single (filter (\<lambda>r. r = (i, tenant)) (en_rows env table)) of
                        None \<Rightarrow> Inl (ValidationFailed ''reference.not_in_tenant'')
                      | Some _ \<Rightarrow> Inr ())
            | _ \<Rightarrow> Inl (ValidationFailed ''reference.invalid_uuid'')))"

definition assert_if_given :: "wf_env \<Rightarrow> string \<Rightarrow> jsval \<Rightarrow> unit result" where
  "assert_if_given env table v =
     (if truthy_val v then assertTenantOwned env table v (en_tenant env) else Inr ())"

definition buildWorkflowAssignmentIdempotencyKey :: "string \<Rightarrow> string \<Rightarrow> string \<Rightarrow> string" where
  "buildWorkflowAssignmentIdempotencyKey i n e = ''workflow:assignment:'' @ i @ '':'' @ n @ '':'' @ e"

definition buildWorkflowUpdateTicketIdempotencyKey :: "string \<Rightarrow> string \<Rightarrow> string \<Rightarrow> string" where
  "buildWorkflowUpdateTicketIdempotencyKey i n e = ''workflow:update_ticket:'' @ i @ '':'' @ n @ '':'' @ e"

definition set_tickets :: "wf_run \<Rightarrow> wf_ticket list \<Rightarrow> wf_run" where
  "set_tickets st ts = st\<lparr>rn_db := (rn_db st)\<lparr>db_tickets := ts\<rparr>\<rparr>"

definition pick :: "(string \<times> jsval) list \<Rightarrow> string list \<Rightarrow> (string \<times> jsval) list" where
  "pick fs ks = map (\<lambda>k. (k, obj_get fs k)) (filter (has_key fs) ks)"

definition grouped :: "string \<Rightarrow> (string \<times> jsval) list \<Rightarrow> (string \<times> jsval) list" where
  "grouped k fs = (if fs = [] then [] else [(k, JObj fs)])"

definition buildPatchesFromUpdateTicketFields ::
    "wf_env \<Rightarrow> (string \<times> jsval) list \<Rightarrow> string \<Rightarrow> (string \<times> jsval) list result" where
  "buildPatchesFromUpdateTicketFields env fs tenantId =
     (let flat = pick fs [''status'', ''status_category'', ''waiting_reason'', ''priority''];
          assignment = grouped ''assignment''
            (pick fs [''assigned_team_id'', ''assigned_user_id'', ''assigned_vendor_id'']);
          metadata = grouped ''metadata'' (pick fs [''title'', ''description'', ''cost'', ''tags'', ''watchers'']);
          sla = obj_get fs ''sla_id''
      in and_then
           (if \<not> has_key fs ''sla_id'' then Inr []
            else if is_nullish sla then Inr [(''sla'', JObj [(''sla_id'', sla)])]
            else and_then (en_timers env sla tenantId) (\<lambda>timers.
                   Inr [(''sla'', JObj [(''sla_id'', sla), (''timers'', timers)])]))
           (\<lambda>sla_patch. Inr (flat @ assignment @ sla_patch @ metadata)))"

subsection \<open>The nodes\<close>

definition exec_assign :: "wf_env \<Rightarrow> string \<Rightarrow> wf_node \<Rightarrow> string \<Rightarrow> wf_run \<Rightarrow> node_outcome \<times> wf_run" where
  "exec_assign env i n ticketId st =
     (let teamId = config_get n ''team_id''; userId = config_get n ''user_id''
      in if \<not> dry_run st \<and> (teamId \<noteq> JUndef \<or> userId \<noteq> JUndef) then
           (case en_assign env (buildWorkflowAssignmentIdempotencyKey i (nd_id n) ticketId) ticketId
                   ((if teamId \<noteq> JUndef then [(''assigned_team_id'', teamId)] else []) @
                    (if userId \<noteq> JUndef then [(''assigned_user_id'', userId)] else []))
                   (db_tickets (rn_db st)) of
              Inl e \<Rightarrow> (Throw e, st)
            | Inr ts \<Rightarrow> (Goto None, set_tickets st ts))
         else (Goto None, st))"

definition exec_update_ticket :: "wf_env \<Rightarrow> string \<Rightarrow> wf_node \<Rightarrow> string \<Rightarrow> wf_run \<Rightarrow> node_outcome \<times> wf_run" where
  "exec_update_ticket env i n ticketId st =
     (let fields = config_get n ''fields''; fs = object_entries fields
      in if dry_run st \<or> \<not> truthy_val fields then (Goto None, st)
         else if \<exists>k\<in>fst ` set fs. k \<notin> set UPDATE_TICKET_ALLOWED_FIELDS
           then (Throw (Unprocessable ''workflow.update_ticket_field_not_allowed''), st)
         else if fs = [] then (Goto None, st)
         else (case buildPatchesFromUpdateTicketFields env fs (en_tenant env) of
                 Inl e \<Rightarrow> (Throw e, st)
               | Inr patches \<Rightarrow>
                   if patches = [] then (Goto None, st)
                   else (case en_update env (buildWorkflowUpdateTicketIdempotencyKey i (nd_id n) ticketId)
                                ticketId patches (db_tickets (rn_db st)) of
                           Inl e \<Rightarrow> (Throw e, st)
                         | Inr ts \<Rightarrow> (Goto None, set_tickets st ts))))"

definition exec_notification :: "wf_env \<Rightarrow> string \<Rightarrow> wf_node \<Rightarrow> string \<Rightarrow> wf_run \<Rightarrow> node_outcome \<times> wf_run" where
  "exec_notification env i n ticketId st =
     (Goto None,
      if dry_run st then st
      else st\<lparr>rn_db := (rn_db st)\<lparr>db_notifications := db_notifications (rn_db st) @
        [\<lparr>no_tenant = en_tenant env,
          no_type = or_default (config_get n ''notification_type'') (JStr ''workflow_notification''),
          no_entity_type = projectLegacyEntityType KindCase, no_entity_id = ticketId,
          no_subject = or_default (config_get n ''subject'') (JStr ''Workflow notification''),
          no_body = or_default (config_get n ''body'') (JStr [])\<rparr>]\<rparr>\<rparr>)"

definition decide :: "jsval \<Rightarrow> jsval \<Rightarrow> jsval \<Rightarrow> bool" where
  "decide operator v actual \<longleftrightarrow>
     (operator = JStr ''equals'' \<and> strict_eq actual v) \<or>
     (operator = JStr ''not_equals'' \<and> \<not> strict_eq actual v) \<or>
     (operator = JStr ''in'' \<and> (case v of JArr vs \<Rightarrow> js_includes vs actual | _ \<Rightarrow> False))"

text \<open>\<open>ticket[field]\<close> converts the field to a key, which can throw; a field named like an inherited property is not modelled.\<close>

definition exec_condition :: "wf_env \<Rightarrow> string \<Rightarrow> wf_node \<Rightarrow> string \<Rightarrow> wf_run \<Rightarrow> node_outcome \<times> wf_run" where
  "exec_condition env i n ticketId st =
     (case read_ticket env ticketId st of
        None \<Rightarrow> (Stop, st)
      | Some ticket \<Rightarrow>
          (case js_String (en_host env) (config_get n ''field'') of
             Inl e \<Rightarrow> (Throw e, st)
           | Inr field \<Rightarrow>
               let result = (if decide (config_get n ''operator'') (config_get n ''value'') (obj_get ticket field)
                             then ''true'' else ''false'')
               in (Goto (Some result),
                   emit env i ((mk_event ''decision_made'' n [])\<lparr>em_decision := Some result\<rparr>) st)))"

text \<open>One task of \<open>create_child_tasks\<close> as the dispatch service expects it.\<close>

definition task_dto :: "nat \<Rightarrow> jsval \<Rightarrow> jsval result" where
  "task_dto i task =
     (if is_nullish task then Inl type_error
      else and_then
        (case js_get task ''title'' of
           JUndef \<Rightarrow> Inr [] | JNull \<Rightarrow> Inr [] | JStr s \<Rightarrow> Inr (js_trim s) | _ \<Rightarrow> Inl type_error)
        (\<lambda>title. Inr (JObj
          ([(''title'', JStr (if title = [] then ''Subtask '' @ nat_string (i + 1) else title))] @
           map (\<lambda>k. (k, js_get task k)) [''description'', ''assigned_team_id'', ''assigned_user_id'',
             ''assigned_vendor_id'', ''priority'', ''interaction_mode''] @
           (case task of
              JObj fs \<Rightarrow> if has_key fs ''sla_policy_id''
                         then [(''sla_id'', or_default (obj_get fs ''sla_policy_id'') JNull)] else []
            | _ \<Rightarrow> [])))))"

fun js_length :: "jsval \<Rightarrow> nat" where
  "js_length (JArr vs) = length vs"
| "js_length (JStr s) = length s"
| "js_length _ = 0"

definition exec_children :: "wf_env \<Rightarrow> string \<Rightarrow> wf_node \<Rightarrow> string \<Rightarrow> wf_run \<Rightarrow> node_outcome \<times> wf_run" where
  "exec_children env i n ticketId st =
     (let tasks = config_get n ''tasks''
      in if dry_run st then
           (Goto None, emit env i (mk_event ''node_entered'' n
              [(''dry_run_would_create'', JNum (of_nat (js_length tasks)))]) st)
         else if js_length tasks = 0 then (Goto None, st)
         else (case tasks of
                 JArr ts \<Rightarrow>
                   (case map_result (\<lambda>(j, t). task_dto j t) (enumerate 0 ts) of
                      Inl e \<Rightarrow> (Throw e, st)
                    | Inr dtos \<Rightarrow>
                        (case en_dispatch env ticketId dtos (''workflow:'' @ i @ '':'' @ nd_id n) of
                           None \<Rightarrow> (Goto None, st)
                         | Some msg \<Rightarrow>
                             (Stop, emit env i (mk_event ''node_failed'' n
                                [(''reason'', JStr ''dispatch_batch_failed''), (''message'', JStr msg),
                                 (''task_count'', JNum (of_nat (length dtos)))])
                               (set_instance env i (\<lambda>w. w\<lparr>wi_status := InstFailed\<rparr>) st))))
               | _ \<Rightarrow> (Throw type_error, st)))"

text \<open>
  The partial unique index \<open>uq_approvals_pending_dedup\<close> on \<open>(target_entity_id, approver_person_id)\<close> where the status is
  pending: nulls do not collide, so a row for a team never does. The other refusals of the table are \<open>en_approval_refused\<close>.
\<close>

definition pending_duplicate :: "wf_approval \<Rightarrow> wf_approval \<Rightarrow> bool" where
  "pending_duplicate a r \<longleftrightarrow> wa_status a = ''pending'' \<and> wa_status r = ''pending'' \<and> wa_target_id a = wa_target_id r \<and>
     wa_person a = wa_person r \<and> \<not> is_nullish (wa_person a)"

definition insert_approval :: "wf_env \<Rightarrow> wf_approval \<Rightarrow> wf_run \<Rightarrow> unit result \<times> wf_run" where
  "insert_approval env a st =
     (if en_approval_refused env a \<or> list_ex (pending_duplicate a) (db_approvals (rn_db st)) then (Inl advance_failed, st)
      else (Inr (), st\<lparr>rn_db := (rn_db st)\<lparr>db_approvals := db_approvals (rn_db st) @ [a]\<rparr>\<rparr>))"

text \<open>The loop over \<open>required_approvers\<close>: each row is checked and inserted before the next one.\<close>

fun insert_approvers :: "wf_env \<Rightarrow> (jsval \<Rightarrow> jsval \<Rightarrow> wf_approval) \<Rightarrow> jsval list \<Rightarrow> wf_run \<Rightarrow> unit result \<times> wf_run" where
  "insert_approvers env row [] st = (Inr (), st)"
| "insert_approvers env row (approver # rest) st =
     (if is_nullish approver then (Inl type_error, st)
      else
        let person = (if js_get approver ''type'' = JStr ''person'' then js_get approver ''id'' else JUndef);
            team = (if js_get approver ''type'' = JStr ''team'' then js_get approver ''id'' else JUndef)
        in (case and_then (assert_if_given env ''persons'' person) (\<lambda>_. assert_if_given env ''teams'' team) of
              Inl e \<Rightarrow> (Inl e, st)
            | Inr _ \<Rightarrow>
                (case insert_approval env (row person team) st of
                   (Inl e, st') \<Rightarrow> (Inl e, st')
                 | (Inr _, st') \<Rightarrow> insert_approvers env row rest st')))"

definition chain_row :: "wf_env \<Rightarrow> string \<Rightarrow> wf_node \<Rightarrow> entity_kind \<Rightarrow> string \<Rightarrow> jsval \<Rightarrow> jsval \<Rightarrow> wf_approval" where
  "chain_row env i n kind entityId person team =
     (let threshold = or_default (config_get n ''threshold'') (JStr ''all'')
      in \<lparr>wa_tenant = en_tenant env, wa_target_type = projectLegacyEntityType kind, wa_target_id = entityId,
          wa_person = person, wa_team = team, wa_chain = Some (en_uuid env),
          wa_group = (if threshold = JStr ''all'' then Some (''wf-'' @ nd_id n @ ''-'' @ i) else None),
          wa_threshold = threshold, wa_instance = Some i, wa_node = Some (nd_id n), wa_status = ''pending''\<rparr>)"

definition legacy_row :: "wf_env \<Rightarrow> string \<Rightarrow> jsval \<Rightarrow> jsval \<Rightarrow> wf_approval" where
  "legacy_row env ticketId person team =
     \<lparr>wa_tenant = en_tenant env, wa_target_type = projectLegacyEntityType KindCase, wa_target_id = ticketId,
      wa_person = person, wa_team = team, wa_chain = None, wa_group = None, wa_threshold = JStr ''all'',
      wa_instance = None, wa_node = None, wa_status = ''pending''\<rparr>"

definition create_approvals :: "wf_env \<Rightarrow> string \<Rightarrow> wf_node \<Rightarrow> string \<Rightarrow> wf_run \<Rightarrow> unit result \<times> wf_run" where
  "create_approvals env i n ticketId st =
     (let approvers = config_get n ''required_approvers'';
          person = config_get n ''approver_person_id''; team = config_get n ''approver_team_id''
      in (case approvers of
            JArr (a # as) \<Rightarrow>
              (case getEntityKindForInstance env i (rn_db st) of
                 Inl e \<Rightarrow> (Inl e, st)
               | Inr (kind, entityId) \<Rightarrow> insert_approvers env (chain_row env i n kind entityId) (a # as) st)
          | _ \<Rightarrow>
              (case and_then (assert_if_given env ''persons'' person) (\<lambda>_. assert_if_given env ''teams'' team) of
                 Inl e \<Rightarrow> (Inl e, st)
               | Inr _ \<Rightarrow> insert_approval env (legacy_row env ticketId person team) st)))"

definition set_stopped :: "wf_node \<Rightarrow> string \<Rightarrow> wf_run \<Rightarrow> wf_run" where
  "set_stopped n reason st =
     st\<lparr>rn_ctx := map_option (\<lambda>c. c\<lparr>cx_stopped := Some \<lparr>sp_node = nd_id n, sp_node_type = nd_type n,
        sp_reason = reason\<rparr>\<rparr>) (rn_ctx st)\<rparr>"

definition set_waiting :: "wf_env \<Rightarrow> string \<Rightarrow> jsval \<Rightarrow> wf_run \<Rightarrow> wf_run" where
  "set_waiting env i what = set_instance env i (\<lambda>w. w\<lparr>wi_status := InstWaiting, wi_waiting_for := what\<rparr>)"

definition exec_approval :: "wf_env \<Rightarrow> string \<Rightarrow> wf_node \<Rightarrow> string \<Rightarrow> wf_run \<Rightarrow> node_outcome \<times> wf_run" where
  "exec_approval env i n ticketId st =
     (let waiting = mk_event ''instance_waiting'' n [(''waiting_for'', JStr ''approval'')]
      in if dry_run st then (Stop, emit env i waiting (set_stopped n ''approval'' st))
         else (case create_approvals env i n ticketId st of
                 (Inl e, st') \<Rightarrow> (Throw e, st')
               | (Inr _, st') \<Rightarrow> (Stop, emit env i waiting (set_waiting env i (JStr ''approval'') st'))))"

definition exec_wait_for :: "wf_env \<Rightarrow> string \<Rightarrow> wf_node \<Rightarrow> wf_run \<Rightarrow> node_outcome \<times> wf_run" where
  "exec_wait_for env i n st =
     (let waitType = config_get n ''wait_type'';
          waiting = mk_event ''instance_waiting'' n [(''wait_type'', waitType)]
      in (Stop, emit env i waiting
            (if dry_run st then set_stopped n ''wait_for'' st else set_waiting env i waitType st)))"

definition exec_timer :: "wf_env \<Rightarrow> string \<Rightarrow> wf_node \<Rightarrow> wf_run \<Rightarrow> node_outcome \<times> wf_run" where
  "exec_timer env i n st =
     (let delayMinutes = config_get n ''delay_minutes''
      in if dry_run st then
           (Stop, emit env i (mk_event ''instance_waiting'' n [(''delay_minutes'', delayMinutes)])
             (set_stopped n ''timer'' st))
         else if \<not> truthy_val delayMinutes then (Stop, st)
         else (case and_then (js_Number (en_host env) delayMinutes) (\<lambda>delay.
                        case Option.bind delay (\<lambda>d. en_iso env (of_int (en_now env) + d * 60000)) of
                          None \<Rightarrow> Inl (PlainError ''RangeError'') | Some resumeAt \<Rightarrow> Inr resumeAt) of
                 Inl e \<Rightarrow> (Throw e, st)
               | Inr resumeAt \<Rightarrow>
                   (Stop, emit env i (mk_event ''instance_waiting'' n [(''resume_at'', JStr resumeAt)])
                     (set_instance env i (\<lambda>w. w\<lparr>wi_status := InstWaiting, wi_waiting_for := JStr ''timer'',
                        wi_context := [(''timer_resume_at'', JStr resumeAt), (''timer_node_id'', JStr (nd_id n))]\<rparr>) st))))"

definition exec_end :: "wf_env \<Rightarrow> string \<Rightarrow> wf_node \<Rightarrow> wf_run \<Rightarrow> node_outcome \<times> wf_run" where
  "exec_end env i n st =
     (Stop, emit env i (mk_event ''instance_completed'' n [])
        (if dry_run st then st
         else set_instance env i (\<lambda>w. w\<lparr>wi_status := InstCompleted, wi_completed_at := Some (en_now env)\<rparr>) st))"

definition http_request_of ::
    "host \<Rightarrow> wf_node \<Rightarrow> (string \<times> jsval) list option \<Rightarrow> http_call result" where
  "http_request_of h n ticket =
     (let vars = JObj [(''ticket'', case ticket of None \<Rightarrow> JNull | Some fs \<Rightarrow> JObj fs)];
          meth = or_default (config_get n ''method'') (JStr ''POST'')
      in and_then (substituteTemplate h (config_get n ''url'') vars) (\<lambda>url.
         and_then (map_result (\<lambda>(k, v). and_then (substituteTemplate h v vars) (\<lambda>v'. Inr (k, v')))
                     (object_entries (or_default (config_get n ''headers'') (JObj [])))) (\<lambda>headers.
         and_then (substituteTemplate h (or_default (config_get n ''body'') (JStr [])) vars) (\<lambda>body.
           Inr \<lparr>hc_method = meth, hc_url = url,
                hc_headers = fold (\<lambda>(k, v) hs. obj_set hs k v) headers
                               [(''Content-Type'', JStr ''application/json'')],
                hc_body = (if meth \<noteq> JStr ''GET'' \<and> meth \<noteq> JStr ''DELETE'' \<and> truthy_val body
                           then Some body else None)\<rparr>))))"

text \<open>The key under which the response is saved is converted inside the \<open>try\<close>: a failure there is recorded, not thrown.\<close>

definition save_response :: "wf_env \<Rightarrow> string \<Rightarrow> wf_node \<Rightarrow> jsval \<Rightarrow> jsval \<Rightarrow> wf_run \<Rightarrow> wf_run" where
  "save_response env i n url parsed st =
     (let saveAs = or_default (config_get n ''save_response_as'') (JStr [])
      in if truthy_val saveAs then
           (case js_String (en_host env) saveAs of
              Inl _ \<Rightarrow> emit env i (mk_event ''instance_failed'' n
                [(''error'', JStr ''Cannot convert object to primitive value''), (''url'', url)]) st
            | Inr k \<Rightarrow> set_instance env i (\<lambda>w. w\<lparr>wi_context := obj_set (wi_context w) k parsed\<rparr>) st)
         else st)"

definition exec_http :: "wf_env \<Rightarrow> string \<Rightarrow> wf_node \<Rightarrow> string \<Rightarrow> wf_run \<Rightarrow> node_outcome \<times> wf_run" where
  "exec_http env i n ticketId st =
     (case http_request_of (en_host env) n (read_ticket env ticketId st) of
        Inl e \<Rightarrow> (Throw e, st)
      | Inr call \<Rightarrow>
          if dry_run st then
            (Goto None, emit env i (mk_event ''node_entered'' n [(''dry_run_would_call'',
               JObj [(''method'', hc_method call), (''url'', hc_url call)])]) st)
          else
            (Goto None,
             case en_fetch env call of
               Inl msg \<Rightarrow> emit env i (mk_event ''instance_failed'' n
                 [(''error'', JStr msg), (''url'', hc_url call)]) st
             | Inr res \<Rightarrow>
                 (let parsed = (if ha_text res = [] then JNull
                                else orElse (en_json_parse env (ha_text res)) (JStr (ha_text res)))
                  in save_response env i n (hc_url call) parsed
                       (emit env i (mk_event ''node_entered'' n
                          [(''status'', JNum (of_int (ha_status res))), (''ok'', JBool (ha_ok res)),
                           (''url'', hc_url call), (''method'', hc_method call)]) st))))"

definition push_path :: "string \<Rightarrow> wf_run \<Rightarrow> wf_run" where
  "push_path i st = st\<lparr>rn_ctx := map_option (\<lambda>c. c\<lparr>cx_path := cx_path c @ [i]\<rparr>) (rn_ctx st)\<rparr>"

definition executeNode :: "wf_env \<Rightarrow> string \<Rightarrow> wf_node \<Rightarrow> string \<Rightarrow> wf_run \<Rightarrow> node_outcome \<times> wf_run" where
  "executeNode env i n ticketId st0 =
     (let st = push_path (nd_id n) (emit env i (mk_event ''node_entered'' n []) st0); ty = nd_type n
      in if ty = ''trigger'' then (Goto None, st)
         else if ty = ''assign'' then exec_assign env i n ticketId st
         else if ty = ''update_ticket'' then exec_update_ticket env i n ticketId st
         else if ty = ''notification'' then exec_notification env i n ticketId st
         else if ty = ''condition'' then exec_condition env i n ticketId st
         else if ty = ''create_child_tasks'' then exec_children env i n ticketId st
         else if ty = ''approval'' then exec_approval env i n ticketId st
         else if ty = ''wait_for'' then exec_wait_for env i n st
         else if ty = ''timer'' then exec_timer env i n st
         else if ty = ''end'' then exec_end env i n st
         else if ty = ''http_request'' then exec_http env i n ticketId st
         else (Goto None, st))"

subsection \<open>The walk\<close>

definition next_node :: "wf_graph \<Rightarrow> string \<Rightarrow> string option \<Rightarrow> wf_node option" where
  "next_node g fromId cond =
     (case out_edges (g_edges g) fromId of
        [] \<Rightarrow> None
      | e # es \<Rightarrow>
          let nextEdge = (if truthy cond then orElse (find (\<lambda>d. ed_condition d = cond) (e # es)) e else e)
          in find (\<lambda>n. nd_id n = ed_to nextEdge) (g_nodes g))"

definition enter_node :: "wf_env \<Rightarrow> string \<Rightarrow> wf_node \<Rightarrow> wf_run \<Rightarrow> wf_run" where
  "enter_node env i n st =
     (if dry_run st then st else set_instance env i (\<lambda>w. w\<lparr>wi_node := nd_id n\<rparr>) st)"

partial_function (option) advance ::
    "wf_env \<Rightarrow> string \<Rightarrow> wf_graph \<Rightarrow> string \<Rightarrow> string \<Rightarrow> string option \<Rightarrow> wf_run \<Rightarrow> (unit result \<times> wf_run) option" where
  "advance env i g ticketId fromId cond st =
     (case next_node g fromId cond of
        None \<Rightarrow> Some (Inr (), st)
      | Some n \<Rightarrow>
          (case executeNode env i n ticketId (enter_node env i n st) of
             (Goto c, st') \<Rightarrow> advance env i g ticketId (nd_id n) c st'
           | (Stop, st') \<Rightarrow> Some (Inr (), st')
           | (Throw e, st') \<Rightarrow> Some (Inl e, st')))"

declare advance.simps [code]

subsection \<open>Starting\<close>

definition live_status :: "inst_status \<Rightarrow> bool" where
  "live_status s \<longleftrightarrow> s = InstActive \<or> s = InstWaiting"

definition not_published :: app_error where
  "not_published = Unprocessable ''workflow.definition_not_published''"

text \<open>The published definition; \<open>None\<close> when there is none of that id, an error when it is not published.\<close>

definition load_published :: "wf_env \<Rightarrow> string \<Rightarrow> wf_db \<Rightarrow> wf_definition option result" where
  "load_published env defId db =
     (let own = filter (\<lambda>d. wd_id d = defId \<and> wd_tenant d = en_tenant env) (db_definitions db)
      in case maybe_single (filter (\<lambda>d. wd_status d = DefPublished) own) of
           Some d \<Rightarrow> Inr (Some d)
         | None \<Rightarrow> if maybe_single own \<noteq> None then Inl not_published else Inr None)"

text \<open>
  The insert of an instance with the triggers of the table: \<open>derive_polymorphic_entity_from_ticket_id\<close>
  (migration 00232) fills the kind and its column from the ticket id,
  \<open>validate_workflow_instance_polymorphism\<close> (00369) requires exactly the column of the kind, and the
  unique indexes of 00369 allow one live instance per entity.
\<close>

definition derive_entity :: "wf_db \<Rightarrow> wf_instance \<Rightarrow> wf_instance" where
  "derive_entity db w =
     (case (wi_kind w, wi_ticket w) of
        (None, Some t) \<Rightarrow>
          if t \<in> tk_id ` set (db_tickets db) then w\<lparr>wi_kind := Some KindCase, wi_case := Some t\<rparr>
          else if t \<in> set (db_work_orders db) then w\<lparr>wi_kind := Some KindWorkOrder, wi_work_order := Some t\<rparr>
          else w
      | _ \<Rightarrow> w)"

fun one_of_kind :: "entity_kind option \<Rightarrow> string option \<Rightarrow> string option \<Rightarrow> string option \<Rightarrow> bool" where
  "one_of_kind (Some KindCase) c w b = (c \<noteq> None \<and> w = None \<and> b = None)"
| "one_of_kind (Some KindWorkOrder) c w b = (c = None \<and> w \<noteq> None \<and> b = None)"
| "one_of_kind (Some KindBooking) c w b = (c = None \<and> w = None \<and> b \<noteq> None)"
| "one_of_kind None c w b = False"

fun kind_id :: "entity_kind \<Rightarrow> wf_instance \<Rightarrow> string option" where
  "kind_id KindCase w = wi_case w"
| "kind_id KindWorkOrder w = wi_work_order w"
| "kind_id KindBooking w = wi_booking w"

definition same_live_entity :: "wf_instance \<Rightarrow> wf_instance \<Rightarrow> bool" where
  "same_live_entity v w \<longleftrightarrow>
     live_status (wi_status v) \<and> live_status (wi_status w) \<and> wi_tenant v = wi_tenant w \<and>
     (\<exists>k\<in>{KindCase, KindWorkOrder, KindBooking}.
        wi_kind v = Some k \<and> wi_kind w = Some k \<and> kind_id k v \<noteq> None \<and> kind_id k v = kind_id k w)"

definition insert_instance :: "string \<Rightarrow> wf_instance \<Rightarrow> wf_db \<Rightarrow> (wf_instance \<times> wf_db) result" where
  "insert_instance fallback row db =
     (let w = derive_entity db row
      in if \<not> one_of_kind (wi_kind w) (wi_case w) (wi_work_order w) (wi_booking w)
           then Inl (wrapPgError (Some ''P0001'') fallback None)
         else if wi_id w \<in> wi_id ` set (db_instances db) \<or> (\<exists>v\<in>set (db_instances db). same_live_entity v w)
           then Inl (wrapPgError (Some ''23505'') fallback None)
         else Inr (w, db\<lparr>db_instances := db_instances db @ [w]\<rparr>))"

definition fresh_instance :: "wf_env \<Rightarrow> wf_definition \<Rightarrow> wf_node \<Rightarrow> wf_instance" where
  "fresh_instance env d trigger =
     \<lparr>wi_id = en_instance_id env, wi_tenant = en_tenant env, wi_definition = wd_id d, wi_version = wd_version d,
      wi_kind = None, wi_case = None, wi_work_order = None, wi_booking = None, wi_ticket = None,
      wi_node = nd_id trigger, wi_status = InstActive, wi_waiting_for = JNull, wi_context = [],
      wi_completed_at = None, wi_cancelled_reason = None\<rparr>"

text \<open>What both start methods share; they differ in the columns of the new row.\<close>

definition start_instance ::
    "wf_env \<Rightarrow> string \<Rightarrow> string \<Rightarrow> string \<Rightarrow> (wf_instance \<Rightarrow> wf_instance) \<Rightarrow> wf_db \<Rightarrow>
     (wf_instance option result \<times> wf_db) option" where
  "start_instance env defId entityId fallback bind_entity db =
     (case load_published env defId db of
        Inl e \<Rightarrow> Some (Inl e, db)
      | Inr None \<Rightarrow> Some (Inr None, db)
      | Inr (Some d) \<Rightarrow>
          (case find (\<lambda>n. nd_type n = ''trigger'') (g_nodes (wd_graph d)) of
             None \<Rightarrow> Some (Inr None, db)
           | Some trigger \<Rightarrow>
               (case insert_instance fallback (bind_entity (fresh_instance env d trigger)) db of
                  Inl e \<Rightarrow> Some (Inl e, db)
                | Inr (w, db1) \<Rightarrow>
                    (case advance env (wi_id w) (wd_graph d) entityId (nd_id trigger) None
                            \<lparr>rn_db = emit_row (en_tenant env) (wi_id w) (mk_event ''instance_started'' trigger []) db1,
                             rn_ctx = None\<rparr> of
                       None \<Rightarrow> None
                     | Some (Inl e, st) \<Rightarrow> Some (Inl e, rn_db st)
                     | Some (Inr _, st) \<Rightarrow> Some (Inr (Some w), rn_db st)))))"

definition startForTicket :: "wf_env \<Rightarrow> string \<Rightarrow> string \<Rightarrow> wf_db \<Rightarrow> (wf_instance option result \<times> wf_db) option" where
  "startForTicket env ticketId defId =
     start_instance env defId ticketId ''workflow.instance_create_ticket_failed'' (\<lambda>w. w\<lparr>wi_ticket := Some ticketId\<rparr>)"

definition startForBooking :: "wf_env \<Rightarrow> string \<Rightarrow> string \<Rightarrow> wf_db \<Rightarrow> (wf_instance option result \<times> wf_db) option" where
  "startForBooking env bookingId defId =
     start_instance env defId bookingId ''workflow.instance_create_booking_failed''
       (\<lambda>w. w\<lparr>wi_kind := Some KindBooking, wi_booking := Some bookingId\<rparr>)"

definition start_workflow ::
    "wf_env \<Rightarrow> string \<Rightarrow> entity_kind \<Rightarrow> string \<Rightarrow> wf_db \<Rightarrow> (wf_instance option result \<times> wf_db) option" where
  "start_workflow env defId kind entityId db =
     (case kind of
        KindCase \<Rightarrow> startForTicket env entityId defId db
      | KindBooking \<Rightarrow> startForBooking env entityId defId db
      | KindWorkOrder \<Rightarrow> Some (Inl advance_failed, db))"

subsection \<open>Resuming\<close>

text \<open>The first write claims the instance; only the caller that finds it waiting goes on.\<close>

definition resume :: "wf_env \<Rightarrow> string \<Rightarrow> string \<Rightarrow> string option \<Rightarrow> wf_db \<Rightarrow> (unit result \<times> wf_db) option" where
  "resume env i tenantId cond db =
     (let waiting = (\<lambda>w. own_instance i tenantId w \<and> wi_status w = InstWaiting);
          claim = (\<lambda>w. w\<lparr>wi_status := InstActive, wi_waiting_for := JNull\<rparr>)
      in case maybe_single (filter waiting (db_instances db)) of
           None \<Rightarrow> Some (Inr (), db)
         | Some w \<Rightarrow>
             let db1 = db\<lparr>db_instances := update_where waiting claim (db_instances db)\<rparr>;
                 entityId = snd (resolvePolymorphicEntity w)
             in if \<not> truthy entityId then Some (Inl advance_failed, db1)
                else (case maybe_single (filter (\<lambda>d. wd_id d = wi_definition w \<and> wd_tenant d = tenantId) (db_definitions db)) of
                        None \<Rightarrow> Some (Inr (), db1)
                      | Some d \<Rightarrow>
                          if en_tenant env \<noteq> tenantId \<and> tenantId \<notin> set (en_tenants env) then Some (Inr (), db1)
                          else
                            (case advance (env\<lparr>en_tenant := tenantId\<rparr>) i (wd_graph d) (the entityId) (wi_node w) cond
                                    \<lparr>rn_db = emit_row tenantId i
                                       \<lparr>em_type = ''instance_resumed'', em_node = None, em_node_type = None,
                                        em_decision = None, em_payload = [(''edge_condition'', of_str_opt cond)]\<rparr> db1,
                                     rn_ctx = None\<rparr> of
                               None \<Rightarrow> None
                             | Some (r, st) \<Rightarrow> Some (r, rn_db st))))"

subsection \<open>Simulating\<close>

record SimResult =
  sr_path :: "string list"
  sr_events :: "EmittedEvent list"
  sr_terminated :: bool
  sr_stopped :: "StopPoint option"
  sr_errors :: "string list"

definition simulate ::
    "wf_env \<Rightarrow> string \<Rightarrow> (string \<times> jsval) list \<Rightarrow> wf_db \<Rightarrow> (SimResult result \<times> wf_db) option" where
  "simulate env workflowId simulatedTicket db =
     (case maybe_single (filter (\<lambda>d. wd_id d = workflowId \<and> wd_tenant d = en_tenant env) (db_definitions db)) of
        None \<Rightarrow> Some (Inl (NotFoundWithCode ''workflow.not_found''), db)
      | Some d \<Rightarrow>
          (case find (\<lambda>n. nd_type n = ''trigger'') (g_nodes (wd_graph d)) of
             None \<Rightarrow> Some (Inr \<lparr>sr_path = [], sr_events = [], sr_terminated = False, sr_stopped = None,
                                sr_errors = [''NO_TRIGGER'']\<rparr>, db)
           | Some trigger \<Rightarrow>
               (case advance env ''dry-run'' (wd_graph d) ''dry-run'' (nd_id trigger) None
                       \<lparr>rn_db = db, rn_ctx = Some \<lparr>cx_ticket = simulatedTicket, cx_events = [], cx_path = [],
                          cx_stopped = None\<rparr>\<rparr> of
                  None \<Rightarrow> None
                | Some (Inl e, st) \<Rightarrow> Some (Inl e, rn_db st)
                | Some (Inr _, st) \<Rightarrow>
                    (case rn_ctx st of
                       None \<Rightarrow> None
                     | Some c \<Rightarrow> Some (Inr \<lparr>sr_path = cx_path c, sr_events = cx_events c,
                         sr_terminated = (\<exists>e\<in>set (cx_events c). em_type e = ''instance_completed''),
                         sr_stopped = cx_stopped c, sr_errors = []\<rparr>, rn_db st)))))"

end
