(* ===== verification/Workflow_Cancel.thy ===== *)
theory Workflow_Cancel
  imports Workflow_Engine
begin

section \<open>Cancelling workflow instances\<close>

text \<open>
  The cancellation half of \<open>modules/workflow/workflow-engine.service.ts\<close> with the stored procedure
  \<open>cancel_workflow_instance_with_approvals\<close> (migration 00400): an instance is claimed, its pending
  approvals expire, and the cancellation goes down the links to the children, entity first, child
  workflow second, link last. The check before a spawn (\<open>checkSpawnLinkSafety\<close>) walks the links up.

  A record \<open>cancel_env\<close> holds the answers of the database calls whose errors the code handles; each is
  asked at most once per instance or link. \<open>delete_booking_with_guard\<close> belongs to the bookings: its
  answer is an argument, its effect here is the foreign key \<open>ON DELETE SET NULL\<close> of 00369. The
  recursion has a bound on its depth as first argument: each nested call has claimed one more
  live instance, so the number of live instances is enough.
\<close>

subsection \<open>The stored procedure\<close>

definition live_instance :: "string \<Rightarrow> string \<Rightarrow> wf_instance \<Rightarrow> bool" where
  "live_instance i tenant w \<longleftrightarrow> own_instance i tenant w \<and> live_status (wi_status w)"

definition entity_text :: "wf_instance \<Rightarrow> string" where
  "entity_text w = orElse (nullish (wi_case w) (nullish (wi_work_order w) (wi_booking w))) ''unknown''"

definition pending_of :: "string \<Rightarrow> string \<Rightarrow> wf_approval \<Rightarrow> bool" where
  "pending_of i tenant a \<longleftrightarrow> wa_instance a = Some i \<and> wa_tenant a = tenant \<and> wa_status a = ''pending''"

definition cancel_with_approvals :: "string \<Rightarrow> string \<Rightarrow> string \<Rightarrow> wf_db \<Rightarrow> (bool \<times> nat) \<times> wf_db" where
  "cancel_with_approvals i tenant reason db =
     (case find (live_instance i tenant) (db_instances db) of
        None \<Rightarrow> ((False, 0), db)
      | Some w \<Rightarrow>
          let expired = length (filter (pending_of i tenant) (db_approvals db))
          in ((True, expired),
              emit_row tenant i
                \<lparr>em_type = ''instance_cancelled'', em_node = None, em_node_type = None, em_decision = None,
                 em_payload = [(''reason'', JStr reason),
                   (''entity_kind'', JStr (case wi_kind w of None \<Rightarrow> ''unknown'' | Some k \<Rightarrow> kind_name k)),
                   (''entity_id'', JStr (entity_text w)),
                   (''approvals_expired_ct'', JNum (of_nat expired))]\<rparr>
                (db\<lparr>db_instances := update_where (live_instance i tenant)
                       (\<lambda>v. v\<lparr>wi_status := InstCancelled, wi_cancelled_reason := Some reason\<rparr>) (db_instances db),
                    db_approvals := update_where (pending_of i tenant) (\<lambda>a. a\<lparr>wa_status := ''expired''\<rparr>)
                       (db_approvals db)\<rparr>)))"

subsection \<open>Links\<close>

datatype delete_answer =
    RolledBack
  | PartialFailure "string list"
  | DeleteError string
  | DeleteThrows string
  | MalformedPayload

datatype booking_outcome = OutcomeOk | OutcomeNotFound | OutcomePending

record cancel_env =
  ca_tenant :: string
  ca_now :: int
  ca_rpc_fails :: "string \<Rightarrow> bool"
  ca_delete :: "string \<Rightarrow> delete_answer"
  ca_resolve_fails :: "string \<Rightarrow> bool"
  ca_message :: "app_error \<Rightarrow> string"
  ca_resolve_message :: "string \<Rightarrow> string"

definition link_event :: "string \<Rightarrow> wf_link \<Rightarrow> string \<Rightarrow> (string \<times> jsval) list \<Rightarrow> EmittedEvent" where
  "link_event ty l parent extra =
     \<lparr>em_type = ty, em_node = None, em_node_type = None, em_decision = None,
      em_payload = [(''link_id'', JStr (lk_id l)), (''parent_instance_id'', JStr parent),
        (''child_entity_kind'', JStr (kind_name (lk_child_kind l))),
        (''child_entity_id'', JStr (lk_child_entity l))] @ extra\<rparr>"

definition emit_link :: "cancel_env \<Rightarrow> string \<Rightarrow> wf_link \<Rightarrow> string \<Rightarrow> (string \<times> jsval) list \<Rightarrow> wf_db \<Rightarrow> wf_db" where
  "emit_link env ty l parent extra = emit_row (ca_tenant env) parent (link_event ty l parent extra)"

definition link_pending :: "cancel_env \<Rightarrow> wf_link \<Rightarrow> string \<Rightarrow> string \<Rightarrow> (string \<times> jsval) list \<Rightarrow> wf_db \<Rightarrow> wf_db" where
  "link_pending env l parent reason extra =
     emit_link env ''link_pending_entity_cancel'' l parent ((''reason'', JStr reason) # extra)"

definition booking_deleted :: "string \<Rightarrow> wf_db \<Rightarrow> wf_db" where
  "booking_deleted b db =
     db\<lparr>db_instances := update_where (\<lambda>w. wi_booking w = Some b) (\<lambda>w. w\<lparr>wi_booking := None\<rparr>) (db_instances db)\<rparr>"

definition tryCancelBookingForCascade ::
    "cancel_env \<Rightarrow> wf_link \<Rightarrow> string \<Rightarrow> wf_db \<Rightarrow> booking_outcome \<times> wf_db" where
  "tryCancelBookingForCascade env l parent db =
     (case ca_delete env (lk_id l) of
        DeleteThrows msg \<Rightarrow>
          (OutcomePending, link_pending env l parent ''booking_compensation_exception'' [(''error'', JStr msg)] db)
      | DeleteError msg \<Rightarrow>
          if str_includes msg ''booking.not_found'' then (OutcomeNotFound, db)
          else (OutcomePending, link_pending env l parent ''booking_compensation_exception'' [(''error'', JStr msg)] db)
      | MalformedPayload \<Rightarrow>
          (OutcomePending, link_pending env l parent ''booking_compensation_malformed_payload'' [] db)
      | PartialFailure blocked \<Rightarrow>
          (OutcomePending, link_pending env l parent ''booking_guard_partial_failure''
             [(''blocked_by'', JArr (map JStr blocked))] db)
      | RolledBack \<Rightarrow> (OutcomeOk, booking_deleted (lk_child_entity l) db))"

definition open_link :: "string \<Rightarrow> string \<Rightarrow> wf_link \<Rightarrow> bool" where
  "open_link i tenant l \<longleftrightarrow> lk_id l = i \<and> lk_tenant l = tenant \<and> lk_resolved_at l = None"

definition resolveLinkRow :: "cancel_env \<Rightarrow> wf_link \<Rightarrow> string \<Rightarrow> string \<Rightarrow> wf_db \<Rightarrow> wf_db" where
  "resolveLinkRow env l parent tenant db =
     (if ca_resolve_fails env (lk_id l) then link_pending env l parent ''link_resolve_update_failed''
         [(''error'', JStr (ca_resolve_message env (lk_id l)))] db
      else if \<not> (\<exists>x\<in>set (db_links db). open_link (lk_id l) tenant x) then db
      else emit_link env ''link_resolved'' l parent [(''resolution_kind'', JStr ''parent_cancelled'')]
             (db\<lparr>db_links := update_where (open_link (lk_id l) tenant)
                (\<lambda>x. x\<lparr>lk_resolved_at := Some (ca_now env), lk_resolution := Some ''parent_cancelled''\<rparr>) (db_links db)\<rparr>))"

subsection \<open>The cascade\<close>

type_synonym cancel_state = "wf_db \<times> string list"
type_synonym cancel_answer = "(unit result \<times> cancel_state) option"

definition cancel_failed :: app_error where
  "cancel_failed = ServerError ''workflow.cancel_with_approvals_failed''"

text \<open>Entity, child workflow, link: what is done for a link once its entity is out of the way.\<close>

definition cancel_child_workflow ::
    "(string \<Rightarrow> string \<Rightarrow> string \<Rightarrow> cancel_state \<Rightarrow> cancel_answer) \<Rightarrow> cancel_env \<Rightarrow> string \<Rightarrow> string \<Rightarrow>
     wf_link \<Rightarrow> cancel_state \<Rightarrow> cancel_state option" where
  "cancel_child_workflow rec env i tenant l s =
     (if truthy (lk_child l) then
        (case rec (the (lk_child l)) tenant ''parent_workflow_cancelled'' s of
           None \<Rightarrow> None
         | Some (Inl e, (db, visited)) \<Rightarrow> Some (link_pending env l i ''cascade_error'' [(''error'', JStr (ca_message env e))] db, visited)
         | Some (Inr _, (db, visited)) \<Rightarrow> Some (resolveLinkRow env l i tenant db, visited))
      else (case s of (db, visited) \<Rightarrow> Some (resolveLinkRow env l i tenant db, visited)))"

definition cascade_link ::
    "(string \<Rightarrow> string \<Rightarrow> string \<Rightarrow> cancel_state \<Rightarrow> cancel_answer) \<Rightarrow> cancel_env \<Rightarrow> string \<Rightarrow> string \<Rightarrow>
     wf_link \<Rightarrow> cancel_state \<Rightarrow> cancel_state option" where
  "cascade_link rec env i tenant l s =
     (case s of (db, visited) \<Rightarrow>
        if lk_orphan l then Some (resolveLinkRow env l i tenant db, visited)
        else if lk_child_kind l = KindBooking then
          (case tryCancelBookingForCascade env l i db of
             (OutcomePending, db') \<Rightarrow> Some (db', visited)
           | (_, db') \<Rightarrow> cancel_child_workflow rec env i tenant l (db', visited))
        else cancel_child_workflow rec env i tenant l
               (link_pending env l i (''phase_1b_'' @ kind_name (lk_child_kind l) @ ''_entity_cancel_pending'') [] db, visited))"

fun cascade_links ::
    "(string \<Rightarrow> string \<Rightarrow> string \<Rightarrow> cancel_state \<Rightarrow> cancel_answer) \<Rightarrow> cancel_env \<Rightarrow> string \<Rightarrow> string \<Rightarrow>
     wf_link list \<Rightarrow> cancel_state \<Rightarrow> cancel_state option" where
  "cascade_links rec env i tenant [] s = Some s"
| "cascade_links rec env i tenant (l # ls) s =
     (case cascade_link rec env i tenant l s of
        None \<Rightarrow> None
      | Some s' \<Rightarrow> cascade_links rec env i tenant ls s')"

definition links_of :: "string \<Rightarrow> string \<Rightarrow> wf_db \<Rightarrow> wf_link list" where
  "links_of i tenant db = filter (\<lambda>l. lk_parent l = i \<and> lk_tenant l = tenant) (db_links db)"

fun cancelInstanceById ::
    "nat \<Rightarrow> cancel_env \<Rightarrow> string \<Rightarrow> string \<Rightarrow> string \<Rightarrow> cancel_state \<Rightarrow> cancel_answer" where
  "cancelInstanceById 0 env i tenant reason s = None"
| "cancelInstanceById (Suc depth) env i tenant reason (db, visited) =
     (if i \<in> set visited then Some (Inr (), (db, visited))
      else if ca_rpc_fails env i then Some (Inl cancel_failed, (db, visited @ [i]))
      else (case cancel_with_approvals i tenant reason db of
              ((False, _), db') \<Rightarrow> Some (Inr (), (db', visited @ [i]))
            | ((True, _), db') \<Rightarrow>
                map_option (\<lambda>s'. (Inr (), s'))
                  (cascade_links (cancelInstanceById depth env) env i tenant (links_of i tenant db') (db', visited @ [i]))))"

subsection \<open>Entry points\<close>

definition cancel_depth :: "wf_db \<Rightarrow> nat" where
  "cancel_depth db = Suc (length (filter (\<lambda>w. live_status (wi_status w)) (db_instances db)))"

definition cancel_root :: "cancel_env \<Rightarrow> string \<Rightarrow> string \<Rightarrow> string \<Rightarrow> wf_db \<Rightarrow> (unit result \<times> wf_db) option" where
  "cancel_root env i tenant reason db =
     map_option (\<lambda>(r, (db', _)). (r, db')) (cancelInstanceById (cancel_depth db) env i tenant reason (db, []))"

definition cancelInstance ::
    "cancel_env \<Rightarrow> entity_kind \<Rightarrow> string \<Rightarrow> string \<Rightarrow> string \<Rightarrow> wf_db \<Rightarrow> (unit result \<times> wf_db) option" where
  "cancelInstance env kind entityId tenant reason db =
     (case find (\<lambda>w. wi_kind w = Some kind \<and> kind_id kind w = Some entityId \<and> wi_tenant w = tenant \<and>
                  live_status (wi_status w)) (db_instances db) of
        None \<Rightarrow> Some (Inr (), db)
      | Some w \<Rightarrow> cancel_root env (wi_id w) tenant reason db)"

definition cancelInstanceForTicket ::
    "cancel_env \<Rightarrow> string \<Rightarrow> string \<Rightarrow> string \<Rightarrow> wf_db \<Rightarrow> (unit result \<times> wf_db) option" where
  "cancelInstanceForTicket env ticketId = cancelInstance env KindCase ticketId"

text \<open>Each instance of the booking's approvals is cancelled on its own; an error of one is logged.\<close>

fun cancel_each :: "cancel_env \<Rightarrow> string \<Rightarrow> string \<Rightarrow> string list \<Rightarrow> wf_db \<Rightarrow> wf_db option" where
  "cancel_each env tenant reason [] db = Some db"
| "cancel_each env tenant reason (i # is) db =
     (case cancel_root env i tenant reason db of
        None \<Rightarrow> None
      | Some (_, db') \<Rightarrow> cancel_each env tenant reason is db')"

definition booking_instances :: "string \<Rightarrow> string \<Rightarrow> wf_db \<Rightarrow> string list" where
  "booking_instances bookingId tenant db =
     fold set_add (List.map_filter wa_instance
       (filter (\<lambda>a. wa_tenant a = tenant \<and> wa_target_type a = ''booking'' \<and> wa_target_id a = bookingId)
          (db_approvals db))) []"

definition cancelInstanceForBooking ::
    "cancel_env \<Rightarrow> bool \<Rightarrow> string \<Rightarrow> string \<Rightarrow> string \<Rightarrow> wf_db \<Rightarrow> (unit result \<times> wf_db) option" where
  "cancelInstanceForBooking env lookup_fails bookingId tenant reason db =
     (if lookup_fails then Some (Inl cancel_failed, db)
      else map_option (\<lambda>db'. (Inr (), db'))
             (cancel_each env tenant reason (booking_instances bookingId tenant db) db))"

subsection \<open>Before a spawn\<close>

datatype spawn_reason = ParentTerminated | CycleDetected | DepthExceeded

datatype spawn_check = SpawnOk | SpawnRefused spawn_reason "nat option"

definition inbound_link :: "string \<Rightarrow> string \<Rightarrow> wf_db \<Rightarrow> wf_link option" where
  "inbound_link tenant i db = find (\<lambda>l. lk_tenant l = tenant \<and> lk_child l = Some i) (db_links db)"

function spawn_walk :: "string \<Rightarrow> entity_kind \<Rightarrow> string \<Rightarrow> wf_db \<Rightarrow> nat \<Rightarrow> string \<Rightarrow> spawn_check" where
  "spawn_walk tenant kind entityId db depth cursor =
     (if cursor = [] then SpawnOk
      else (case inbound_link tenant cursor db of
              None \<Rightarrow> SpawnOk
            | Some l \<Rightarrow>
                if lk_parent_kind l = kind \<and> lk_parent_entity l = entityId
                then SpawnRefused CycleDetected (Some depth)
                else if SPAWN_LINK_DEPTH_LIMIT \<le> depth + 1 then SpawnRefused DepthExceeded (Some (depth + 1))
                else spawn_walk tenant kind entityId db (depth + 1) (lk_parent l)))"
  by pat_completeness auto

termination
  by (relation "measure (\<lambda>(_, _, _, _, depth, _). SPAWN_LINK_DEPTH_LIMIT - depth)") auto

declare spawn_walk.simps [simp del]

definition checkSpawnLinkSafety :: "string \<Rightarrow> string \<Rightarrow> entity_kind \<Rightarrow> string \<Rightarrow> wf_db \<Rightarrow> spawn_check" where
  "checkSpawnLinkSafety parentId tenant kind entityId db =
     (case maybe_single (filter (own_instance parentId tenant) (db_instances db)) of
        None \<Rightarrow> SpawnRefused ParentTerminated None
      | Some p \<Rightarrow>
          if \<not> live_status (wi_status p) then SpawnRefused ParentTerminated None
          else if wi_kind p = Some kind \<and> kind_id kind p = Some entityId
            then SpawnRefused CycleDetected (Some 0)
          else spawn_walk tenant kind entityId db 0 parentId)"

fun reason_name :: "spawn_reason \<Rightarrow> string" where
  "reason_name ParentTerminated = ''parent_terminated''"
| "reason_name CycleDetected = ''cycle_detected''"
| "reason_name DepthExceeded = ''depth_exceeded''"

definition assertSpawnLinkSafe :: "string \<Rightarrow> string \<Rightarrow> entity_kind \<Rightarrow> string \<Rightarrow> wf_db \<Rightarrow> unit result" where
  "assertSpawnLinkSafe parentId tenant kind entityId db =
     (case checkSpawnLinkSafety parentId tenant kind entityId db of
        SpawnOk \<Rightarrow> Inr ()
      | SpawnRefused r _ \<Rightarrow> Inl (Unprocessable (''spawn_link.'' @ reason_name r)))"

subsection \<open>What the cascade changes\<close>

definition live_ids :: "string \<Rightarrow> wf_db \<Rightarrow> string set" where
  "live_ids tenant db = {wi_id w | w. w \<in> set (db_instances db) \<and> wi_tenant w = tenant \<and> live_status (wi_status w)}"

definition link_core :: "wf_link \<Rightarrow> wf_link" where
  "link_core l = l\<lparr>lk_resolved_at := None, lk_resolution := None\<rparr>"

text \<open>A link along which the cancellation goes on to the child workflow.\<close>

definition deletable :: "cancel_env \<Rightarrow> wf_link \<Rightarrow> bool" where
  "deletable env l \<longleftrightarrow> lk_child_kind l \<noteq> KindBooking \<or>
     (case ca_delete env (lk_id l) of
        RolledBack \<Rightarrow> True | DeleteError msg \<Rightarrow> str_includes msg ''booking.not_found'' | _ \<Rightarrow> False)"

definition passes_on :: "cancel_env \<Rightarrow> wf_link \<Rightarrow> bool" where
  "passes_on env l \<longleftrightarrow> \<not> lk_orphan l \<and> truthy (lk_child l) \<and> deletable env l"

definition spawned :: "cancel_env \<Rightarrow> string \<Rightarrow> wf_db \<Rightarrow> (string \<times> string) set" where
  "spawned env tenant db =
     {(lk_parent l, the (lk_child l)) | l. l \<in> set (db_links db) \<and> lk_tenant l = tenant \<and> passes_on env l \<and>
        lk_parent l \<in> live_ids tenant db}"

lemma link_core_simps [simp]:
  "lk_parent (link_core l) = lk_parent l" "lk_tenant (link_core l) = lk_tenant l"
  "lk_child (link_core l) = lk_child l" "passes_on env (link_core l) = passes_on env l"
  by (simp_all add: link_core_def passes_on_def deletable_def)

text \<open>
  What every part of the cascade keeps: nothing comes back to life, links change only in their
  resolution, approvals only expire. \<open>quiet\<close> is a part that cancels nothing.
\<close>

definition steady :: "string \<Rightarrow> wf_db \<Rightarrow> wf_db \<Rightarrow> bool" where
  "steady tenant db db' \<longleftrightarrow>
     live_ids tenant db' \<subseteq> live_ids tenant db \<and> map link_core (db_links db') = map link_core (db_links db) \<and>
     (\<forall>i. (\<exists>a\<in>set (db_approvals db'). pending_of i tenant a) \<longrightarrow> (\<exists>a\<in>set (db_approvals db). pending_of i tenant a))"

lemma steady_refl: "steady tenant db db"
  by (simp add: steady_def)

lemma steady_trans: "steady tenant a b \<Longrightarrow> steady tenant b c \<Longrightarrow> steady tenant a c"
  by (auto simp: steady_def)

definition quiet :: "string \<Rightarrow> wf_db \<Rightarrow> wf_db \<Rightarrow> bool" where
  "quiet tenant db db' \<longleftrightarrow> steady tenant db db' \<and> live_ids tenant db' = live_ids tenant db"

lemma live_ids_cong: "db_instances db' = db_instances db \<Longrightarrow> live_ids tenant db' = live_ids tenant db"
  by (simp add: live_ids_def)

lemma emit_row_simps [simp]:
  "db_instances (emit_row t i e db) = db_instances db" "db_links (emit_row t i e db) = db_links db"
  "db_approvals (emit_row t i e db) = db_approvals db" "db_definitions (emit_row t i e db) = db_definitions db"
  by (simp_all add: emit_row_def)

lemma quiet_link_pending: "quiet tenant db (link_pending env l parent reason extra db)"
  by (simp add: quiet_def steady_def link_pending_def emit_link_def live_ids_def)

lemma quiet_resolved:
  "quiet tenant db (emit_link env ty l parent extra (db\<lparr>db_links := update_where P
     (\<lambda>x. x\<lparr>lk_resolved_at := a, lk_resolution := b\<rparr>) (db_links db)\<rparr>))"
  unfolding quiet_def steady_def emit_link_def live_ids_def
  by (simp add: link_core_def update_where_def)

lemma quiet_refl: "quiet tenant db db"
  by (simp add: quiet_def steady_refl)

lemma quiet_resolveLinkRow: "quiet tenant db (resolveLinkRow env l parent t db)"
  unfolding resolveLinkRow_def by (simp add: quiet_link_pending quiet_resolved quiet_refl)

lemma live_ids_iff:
  "x \<in> live_ids tenant db \<longleftrightarrow>
     (\<exists>w\<in>set (db_instances db). wi_id w = x \<and> wi_tenant w = tenant \<and> live_status (wi_status w))"
  by (auto simp: live_ids_def)

lemma live_ids_booking_deleted: "live_ids tenant (booking_deleted b db) = live_ids tenant db"
proof (rule set_eqI)
  fix x
  have "(wi_id (if Q then w\<lparr>wi_booking := None\<rparr> else w) = x \<and> wi_tenant (if Q then w\<lparr>wi_booking := None\<rparr> else w) = tenant \<and>
      live_status (wi_status (if Q then w\<lparr>wi_booking := None\<rparr> else w))) =
      (wi_id w = x \<and> wi_tenant w = tenant \<and> live_status (wi_status w))" for Q and w :: wf_instance
    by simp
  moreover have "db_instances (booking_deleted b db) =
      update_where (\<lambda>w. wi_booking w = Some b) (\<lambda>w. w\<lparr>wi_booking := None\<rparr>) (db_instances db)"
    by (simp add: booking_deleted_def)
  ultimately show "x \<in> live_ids tenant (booking_deleted b db) \<longleftrightarrow> x \<in> live_ids tenant db"
    unfolding live_ids_iff by (simp only: bex_update_where)
qed

lemma quiet_booking_deleted: "quiet tenant db (booking_deleted b db)"
  unfolding quiet_def steady_def live_ids_booking_deleted by (simp add: booking_deleted_def)

lemma quiet_tryCancel:
  assumes "tryCancelBookingForCascade env l parent db = (out, db')"
  shows "quiet tenant db db'"
  using assms quiet_link_pending [of tenant db env l parent] quiet_booking_deleted [of tenant db "lk_child_entity l"]
    quiet_refl [of tenant db]
  unfolding tryCancelBookingForCascade_def by (cases "ca_delete env (lk_id l)") (auto split: if_splits)

lemma tryCancel_pending:
  assumes "tryCancelBookingForCascade env l parent db = (out, db')" "lk_child_kind l = KindBooking"
  shows "out = OutcomePending \<longleftrightarrow> \<not> deletable env l"
  using assms unfolding tryCancelBookingForCascade_def deletable_def
  by (cases "ca_delete env (lk_id l)") (auto split: if_splits)

lemma live_ids_cancel:
  assumes "cancel_with_approvals i tenant reason db = ((True, k), db')"
  shows "live_ids tenant db' = live_ids tenant db - {i}" "i \<in> live_ids tenant db" "steady tenant db db'"
    "db_links db' = db_links db" "\<not> (\<exists>a\<in>set (db_approvals db'). pending_of i tenant a)"
proof -
  from assms obtain w where w: "find (live_instance i tenant) (db_instances db) = Some w"
    and db': "db_instances db' = update_where (live_instance i tenant)
        (\<lambda>v. v\<lparr>wi_status := InstCancelled, wi_cancelled_reason := Some reason\<rparr>) (db_instances db)"
      "db_links db' = db_links db"
      "db_approvals db' = update_where (pending_of i tenant) (\<lambda>a. a\<lparr>wa_status := ''expired''\<rparr>) (db_approvals db)"
    by (auto simp: cancel_with_approvals_def Let_def split: option.splits)
  show live: "live_ids tenant db' = live_ids tenant db - {i}"
  proof (rule set_eqI)
    fix x
    let ?f = "\<lambda>v. if live_instance i tenant v then v\<lparr>wi_status := InstCancelled, wi_cancelled_reason := Some reason\<rparr> else v"
    have "(wi_id (?f v) = x \<and> wi_tenant (?f v) = tenant \<and> live_status (wi_status (?f v))) =
        ((wi_id v = x \<and> wi_tenant v = tenant \<and> live_status (wi_status v)) \<and> x \<noteq> i)" for v
      by (auto simp: live_instance_def own_instance_def live_status_def)
    then have "x \<in> live_ids tenant db' \<longleftrightarrow> (\<exists>v\<in>set (db_instances db).
        (wi_id v = x \<and> wi_tenant v = tenant \<and> live_status (wi_status v)) \<and> x \<noteq> i)"
      unfolding live_ids_iff by (simp only: db'(1) bex_update_where)
    then show "x \<in> live_ids tenant db' \<longleftrightarrow> x \<in> live_ids tenant db - {i}"
      unfolding live_ids_iff [of x tenant db] by (simp add: live_ids_iff) blast
  qed
  from find_SomeD [OF w] show "i \<in> live_ids tenant db"
    by (auto simp: live_ids_def live_instance_def own_instance_def)
  have "pending_of j tenant (if pending_of i tenant a then a\<lparr>wa_status := ''expired''\<rparr> else a) \<longleftrightarrow>
      pending_of j tenant a \<and> j \<noteq> i" for j a
    by (auto simp: pending_of_def)
  then have pend: "(\<exists>a\<in>set (db_approvals db'). pending_of j tenant a) \<longleftrightarrow>
      (\<exists>a\<in>set (db_approvals db). pending_of j tenant a \<and> j \<noteq> i)" for j
    by (simp only: db'(3) bex_update_where)
  then show "\<not> (\<exists>a\<in>set (db_approvals db'). pending_of i tenant a)" by simp
  show "db_links db' = db_links db" by (rule db'(2))
  show "steady tenant db db'"
    unfolding steady_def live db'(2) pend by auto
qed

lemma cancel_unclaimed:
  assumes "cancel_with_approvals i tenant reason db = ((False, k), db')"
  shows "db' = db" "i \<notin> live_ids tenant db"
proof -
  from assms have none: "find (live_instance i tenant) (db_instances db) = None" and "db' = db"
    by (auto simp: cancel_with_approvals_def Let_def split: option.splits)
  then show "db' = db" by simp
  from none show "i \<notin> live_ids tenant db"
    by (auto simp: find_None_iff live_ids_def live_instance_def own_instance_def)
qed

subsection \<open>The contract of a cancellation\<close>

text \<open>
  From one state to another: what died passed its death on to every child workflow that could be
  told, nothing died that was not spawned from the roots, and the approvals of what died have
  expired. \<open>visited\<close> holds only instances that are dead or whose procedure call failed.
\<close>

definition vis_ok :: "cancel_env \<Rightarrow> string \<Rightarrow> cancel_state \<Rightarrow> bool" where
  "vis_ok env tenant s \<longleftrightarrow> (\<forall>v\<in>set (snd s). v \<in> live_ids tenant (fst s) \<longrightarrow> ca_rpc_fails env v)"

definition reachable_child :: "cancel_env \<Rightarrow> string \<Rightarrow> wf_link \<Rightarrow> bool" where
  "reachable_child env tenant l \<longleftrightarrow>
     lk_tenant l = tenant \<and> passes_on env l \<and> \<not> ca_rpc_fails env (the (lk_child l))"

definition closed_under :: "cancel_env \<Rightarrow> string \<Rightarrow> wf_db \<Rightarrow> wf_db \<Rightarrow> bool" where
  "closed_under env tenant db db' \<longleftrightarrow>
     (\<forall>l\<in>set (db_links db). reachable_child env tenant l \<longrightarrow>
        lk_parent l \<in> live_ids tenant db - live_ids tenant db' \<longrightarrow> the (lk_child l) \<notin> live_ids tenant db')"

definition died_from :: "cancel_env \<Rightarrow> string \<Rightarrow> string set \<Rightarrow> wf_db \<Rightarrow> wf_db \<Rightarrow> bool" where
  "died_from env tenant R db db' \<longleftrightarrow>
     live_ids tenant db - live_ids tenant db' \<subseteq> (spawned env tenant db)\<^sup>* `` R"

definition approvals_done :: "string \<Rightarrow> wf_db \<Rightarrow> wf_db \<Rightarrow> bool" where
  "approvals_done tenant db db' \<longleftrightarrow>
     (\<forall>i\<in>live_ids tenant db - live_ids tenant db'. \<not> (\<exists>a\<in>set (db_approvals db'). pending_of i tenant a))"

definition cascaded :: "cancel_env \<Rightarrow> string \<Rightarrow> string set \<Rightarrow> cancel_state \<Rightarrow> cancel_state \<Rightarrow> bool" where
  "cascaded env tenant R s s' \<longleftrightarrow>
     steady tenant (fst s) (fst s') \<and> closed_under env tenant (fst s) (fst s') \<and>
     died_from env tenant R (fst s) (fst s') \<and> approvals_done tenant (fst s) (fst s') \<and>
     (vis_ok env tenant s \<longrightarrow> vis_ok env tenant s')"

lemma steady_links:
  assumes "steady tenant db db'"
  shows "link_core ` set (db_links db') = link_core ` set (db_links db)"
  using assms unfolding steady_def by (metis list.set_map)

lemma steady_live: "steady tenant db db' \<Longrightarrow> x \<in> live_ids tenant db' \<Longrightarrow> x \<in> live_ids tenant db"
  by (auto simp: steady_def)

lemma steady_link:
  assumes "steady tenant db db'" "l \<in> set (db_links db)"
  obtains l' where "l' \<in> set (db_links db')" "link_core l' = link_core l"
proof -
  from assms(2) have "link_core l \<in> link_core ` set (db_links db')"
    unfolding steady_links [OF assms(1)] by (rule imageI)
  then show ?thesis using that by (metis imageE)
qed

lemma core_fields:
  assumes "link_core l' = link_core l"
  shows "lk_parent l' = lk_parent l" "lk_tenant l' = lk_tenant l" "lk_child l' = lk_child l"
    "passes_on env l' = passes_on env l" "reachable_child env tenant l' = reachable_child env tenant l"
proof -
  show a: "lk_parent l' = lk_parent l" "lk_tenant l' = lk_tenant l" "lk_child l' = lk_child l"
    "passes_on env l' = passes_on env l"
    using assms link_core_simps by metis+
  from a show "reachable_child env tenant l' = reachable_child env tenant l" by (simp add: reachable_child_def)
qed

lemma spawned_mono:
  assumes "steady tenant db db'"
  shows "spawned env tenant db' \<subseteq> spawned env tenant db"
proof
  fix x assume "x \<in> spawned env tenant db'"
  then obtain l where l: "x = (lk_parent l, the (lk_child l))" "l \<in> set (db_links db')" "lk_tenant l = tenant"
    "passes_on env l" "lk_parent l \<in> live_ids tenant db'"
    by (auto simp: spawned_def)
  from l(2) have "link_core l \<in> link_core ` set (db_links db)"
    unfolding steady_links [OF assms, symmetric] by (rule imageI)
  then obtain k where k: "k \<in> set (db_links db)" "link_core k = link_core l" by (metis imageE)
  from core_fields [OF k(2)] l k(1) steady_live [OF assms] show "x \<in> spawned env tenant db"
    unfolding spawned_def by (intro CollectI exI [of _ k]) simp
qed

lemma cascaded_quiet:
  assumes "quiet tenant db db'"
  shows "cascaded env tenant R (db, v) (db', v)"
  using assms by (simp add: cascaded_def quiet_def closed_under_def died_from_def approvals_done_def vis_ok_def)

lemma cascaded_mono: "cascaded env tenant R s s' \<Longrightarrow> R \<subseteq> R' \<Longrightarrow> cascaded env tenant R' s s'"
  unfolding cascaded_def died_from_def by blast

lemma closed_under_trans:
  assumes "steady tenant a b" "steady tenant b c" "closed_under env tenant a b" "closed_under env tenant b c"
  shows "closed_under env tenant a c"
  unfolding closed_under_def
proof (intro ballI impI)
  fix l assume l: "l \<in> set (db_links a)" "reachable_child env tenant l"
    "lk_parent l \<in> live_ids tenant a - live_ids tenant c"
  show "the (lk_child l) \<notin> live_ids tenant c"
  proof (cases "lk_parent l \<in> live_ids tenant b")
    case True
    obtain l' where l': "l' \<in> set (db_links b)" "link_core l' = link_core l"
      using steady_link [OF assms(1) l(1)] .
    from assms(4) l' True l(2,3) core_fields [OF l'(2)] show ?thesis unfolding closed_under_def by auto
  next
    case False
    with assms(3) l have "the (lk_child l) \<notin> live_ids tenant b" unfolding closed_under_def by blast
    with steady_live [OF assms(2)] show ?thesis by blast
  qed
qed

lemma died_from_trans:
  assumes "steady tenant a b" "died_from env tenant R a b" "died_from env tenant R b c"
  shows "died_from env tenant R a c"
proof -
  have "(spawned env tenant b)\<^sup>* `` R \<subseteq> (spawned env tenant a)\<^sup>* `` R"
    using rtrancl_mono [OF spawned_mono [OF assms(1)]] by blast
  with assms(2,3) show ?thesis unfolding died_from_def by blast
qed

lemma approvals_done_trans:
  assumes "steady tenant b c" "approvals_done tenant a b" "approvals_done tenant b c"
  shows "approvals_done tenant a c"
  unfolding approvals_done_def
proof
  fix i assume i: "i \<in> live_ids tenant a - live_ids tenant c"
  show "\<not> (\<exists>x\<in>set (db_approvals c). pending_of i tenant x)"
  proof (cases "i \<in> live_ids tenant b")
    case True
    with i assms(3) show ?thesis unfolding approvals_done_def by blast
  next
    case False
    with i assms(2) have "\<not> (\<exists>x\<in>set (db_approvals b). pending_of i tenant x)"
      unfolding approvals_done_def by blast
    with assms(1) show ?thesis unfolding steady_def by blast
  qed
qed

lemma cascaded_trans:
  assumes "cascaded env tenant R s s'" "cascaded env tenant R s' s''"
  shows "cascaded env tenant R s s''"
proof -
  from assms have st: "steady tenant (fst s) (fst s')" "steady tenant (fst s') (fst s'')"
    by (simp_all add: cascaded_def)
  with assms show ?thesis
    unfolding cascaded_def
    using steady_trans [OF st] closed_under_trans [OF st] died_from_trans [OF st(1)] approvals_done_trans [OF st(2)]
    by blast
qed

definition told :: "cancel_env \<Rightarrow> wf_link list \<Rightarrow> string set" where
  "told env ls = {the (lk_child l) | l. l \<in> set ls \<and> passes_on env l}"

text \<open>
  The interface between the loop over the links and the cancellation of a child: whatever
  cancels one instance by this contract makes the loop over any links keep it, too.
\<close>

locale child_cancel =
  fixes rec :: "string \<Rightarrow> string \<Rightarrow> string \<Rightarrow> cancel_state \<Rightarrow> cancel_answer"
    and env :: cancel_env and tenant :: string
  assumes rec_contract: "rec i tenant reason s = Some (r, s') \<Longrightarrow> vis_ok env tenant s \<Longrightarrow>
      cascaded env tenant {i} s s' \<and> (\<not> ca_rpc_fails env i \<longrightarrow> i \<notin> live_ids tenant (fst s'))"
begin

lemma child_workflow:
  assumes "cancel_child_workflow rec env i tenant l s = Some s'" "vis_ok env tenant s"
  shows "cascaded env tenant {the (lk_child l) | _ :: unit. truthy (lk_child l)} s s' \<and>
    (truthy (lk_child l) \<longrightarrow> \<not> ca_rpc_fails env (the (lk_child l)) \<longrightarrow> the (lk_child l) \<notin> live_ids tenant (fst s'))"
proof (cases "truthy (lk_child l)")
  case True
  with assms(1) obtain r db v where rec: "rec (the (lk_child l)) tenant ''parent_workflow_cancelled'' s = Some (r, (db, v))"
    and s': "s' = (case r of Inl e \<Rightarrow> (link_pending env l i ''cascade_error'' [(''error'', JStr (ca_message env e))] db, v)
      | Inr _ \<Rightarrow> (resolveLinkRow env l i tenant db, v))"
    by (auto simp: cancel_child_workflow_def split: option.splits sum.splits)
  have last: "quiet tenant db (fst s')" "s' = (fst s', v)"
    unfolding s' by (auto simp: quiet_link_pending quiet_resolveLinkRow split: sum.splits)
  have "cascaded env tenant {the (lk_child l)} (db, v) s'"
    using cascaded_quiet [OF last(1)] last(2) by metis
  with rec_contract [OF rec assms(2)] have "cascaded env tenant {the (lk_child l)} s s'"
    by (blast intro: cascaded_trans)
  moreover have "live_ids tenant (fst s') = live_ids tenant db" using last(1) by (simp add: quiet_def)
  ultimately show ?thesis using rec_contract [OF rec assms(2)] True by simp
next
  case False
  obtain db v where s: "s = (db, v)" by (cases s)
  with assms(1) False have "s' = (resolveLinkRow env l i tenant db, v)"
    by (simp add: cancel_child_workflow_def)
  with s False show ?thesis by (simp add: cascaded_quiet quiet_resolveLinkRow)
qed

text \<open>A link that tells nobody, and one that goes on to the child after a part that cancels nothing.\<close>

lemma link_halts:
  assumes "quiet tenant (fst s) (fst s')" "snd s' = snd s" "\<not> passes_on env l"
  shows "cascaded env tenant {the (lk_child l) | _ :: unit. passes_on env l} s s'"
  using cascaded_quiet [OF assms(1), of env "{the (lk_child l) | _ :: unit. passes_on env l}" "snd s"] assms(2)
  by (metis prod.collapse)

lemma link_goes_on:
  assumes "cancel_child_workflow rec env i tenant l (db', v) = Some s'" "quiet tenant db db'"
    "vis_ok env tenant (db, v)" "passes_on env l \<longleftrightarrow> truthy (lk_child l)"
  shows "cascaded env tenant {the (lk_child l) | _ :: unit. passes_on env l} (db, v) s' \<and>
    (passes_on env l \<longrightarrow> \<not> ca_rpc_fails env (the (lk_child l)) \<longrightarrow> the (lk_child l) \<notin> live_ids tenant (fst s'))"
proof -
  let ?R = "{the (lk_child l) | _ :: unit. passes_on env l}"
  have q: "cascaded env tenant ?R (db, v) (db', v)" by (rule cascaded_quiet [OF assms(2)])
  then have "vis_ok env tenant (db', v)" using assms(3) by (simp add: cascaded_def)
  from child_workflow [OF assms(1) this] q cascaded_trans show ?thesis
    unfolding assms(4) by blast
qed

lemma child_link:
  assumes "cascade_link rec env i tenant l s = Some s'" "vis_ok env tenant s"
  shows "cascaded env tenant {the (lk_child l) | _ :: unit. passes_on env l} s s' \<and>
    (passes_on env l \<longrightarrow> \<not> ca_rpc_fails env (the (lk_child l)) \<longrightarrow> the (lk_child l) \<notin> live_ids tenant (fst s'))"
proof -
  obtain db v where s: "s = (db, v)" by (cases s)
  note vis = assms(2) [unfolded s]
  show ?thesis
  proof (cases "lk_orphan l")
    case True
    with assms(1) s have s': "s' = (resolveLinkRow env l i tenant db, v)" by (simp add: cascade_link_def)
    from True have "\<not> passes_on env l" by (simp add: passes_on_def)
    with link_halts [of s s' l] s s' show ?thesis by (simp add: quiet_resolveLinkRow)
  next
    case orphan: False
    show ?thesis
    proof (cases "lk_child_kind l = KindBooking")
      case True
      obtain out db' where try_: "tryCancelBookingForCascade env l i db = (out, db')" by fastforce
      note q = quiet_tryCancel [OF try_, of tenant]
      show ?thesis
      proof (cases "out = OutcomePending")
        case pending: True
        with assms(1) s orphan True try_ have s': "s' = (db', v)" by (simp add: cascade_link_def)
        from tryCancel_pending [OF try_ True] pending have "\<not> passes_on env l" by (simp add: passes_on_def)
        with link_halts [of s s' l] q s s' show ?thesis by simp
      next
        case False
        with assms(1) s orphan True try_ have child: "cancel_child_workflow rec env i tenant l (db', v) = Some s'"
          by (cases out) (simp_all add: cascade_link_def)
        from tryCancel_pending [OF try_ True] False orphan have "passes_on env l \<longleftrightarrow> truthy (lk_child l)"
          by (simp add: passes_on_def)
        from link_goes_on [OF child q vis this] show ?thesis unfolding s .
      qed
    next
      case False
      with assms(1) s orphan have child: "cancel_child_workflow rec env i tenant l
          (link_pending env l i (''phase_1b_'' @ kind_name (lk_child_kind l) @ ''_entity_cancel_pending'') [] db, v) = Some s'"
        by (simp add: cascade_link_def)
      from False orphan have "passes_on env l \<longleftrightarrow> truthy (lk_child l)" by (simp add: passes_on_def deletable_def)
      from link_goes_on [OF child quiet_link_pending vis this] show ?thesis unfolding s .
    qed
  qed
qed

lemma child_links:
  assumes "cascade_links rec env i tenant ls s = Some s'" "vis_ok env tenant s"
  shows "cascaded env tenant (told env ls) s s' \<and>
    (\<forall>l\<in>set ls. passes_on env l \<longrightarrow> \<not> ca_rpc_fails env (the (lk_child l)) \<longrightarrow>
       the (lk_child l) \<notin> live_ids tenant (fst s'))"
  using assms
proof (induction ls arbitrary: s)
  case Nil
  obtain db v where s: "s = (db, v)" by (cases s)
  with Nil have "s' = (db, v)" by simp
  with s show ?case using cascaded_quiet [OF quiet_refl, of env tenant "told env []" db v] by simp
next
  case (Cons l ls)
  from Cons.prems obtain s1 where s1: "cascade_link rec env i tenant l s = Some s1"
    "cascade_links rec env i tenant ls s1 = Some s'"
    by (auto split: option.splits)
  note link = child_link [OF s1(1) Cons.prems(2)]
  from link Cons.prems(2) have "vis_ok env tenant s1" by (simp add: cascaded_def)
  note rest = Cons.IH [OF s1(2) this]
  have sub: "{the (lk_child l) | _ :: unit. passes_on env l} \<subseteq> told env (l # ls)" "told env ls \<subseteq> told env (l # ls)"
    by (auto simp: told_def)
  have first: "cascaded env tenant (told env (l # ls)) s s1" using link sub(1) by (blast intro: cascaded_mono)
  have second: "cascaded env tenant (told env (l # ls)) s1 s'" using rest sub(2) by (blast intro: cascaded_mono)
  have down: "x \<in> live_ids tenant (fst s') \<Longrightarrow> x \<in> live_ids tenant (fst s1)" for x
    using second steady_live unfolding cascaded_def by blast
  from cascaded_trans [OF first second] link rest down show ?case by auto
qed

end

subsection \<open>The cascade keeps the contract\<close>

lemma cascaded_visit:
  assumes "i \<in> live_ids tenant db \<longrightarrow> ca_rpc_fails env i"
  shows "cascaded env tenant R (db, v) (db, v @ [i])"
  using assms by (auto simp: cascaded_def steady_refl closed_under_def died_from_def approvals_done_def vis_ok_def)

text \<open>Claiming an instance and passing it on to all its links.\<close>

lemma cascaded_claim:
  assumes claim: "cancel_with_approvals i tenant reason db = ((True, k), db')"
    and links: "cascaded env tenant (told env (links_of i tenant db')) (db', v @ [i]) s'"
    and dead: "\<forall>l\<in>set (links_of i tenant db'). passes_on env l \<longrightarrow>
      \<not> ca_rpc_fails env (the (lk_child l)) \<longrightarrow> the (lk_child l) \<notin> live_ids tenant (fst s')"
    and vis': "vis_ok env tenant (db', v @ [i])"
  shows "cascaded env tenant {i} (db, v) s'" "i \<notin> live_ids tenant (fst s')"
proof -
  note c = live_ids_cancel [OF claim]
  have st: "steady tenant db' (fst s')" using links by (simp add: cascaded_def)
  show dead_i: "i \<notin> live_ids tenant (fst s')"
    using steady_live [OF st] c(1) by blast
  have closed: "closed_under env tenant db (fst s')"
    unfolding closed_under_def
  proof (intro ballI impI)
    fix l assume l: "l \<in> set (db_links db)" "reachable_child env tenant l"
      "lk_parent l \<in> live_ids tenant db - live_ids tenant (fst s')"
    show "the (lk_child l) \<notin> live_ids tenant (fst s')"
    proof (cases "lk_parent l = i")
      case True
      with l(1,2) c(4) have "l \<in> set (links_of i tenant db')"
        by (simp add: links_of_def reachable_child_def)
      with dead l(2) show ?thesis by (auto simp: reachable_child_def)
    next
      case False
      with links l c(1,4) show ?thesis by (auto simp: cascaded_def closed_under_def)
    qed
  qed
  have "told env (links_of i tenant db') \<subseteq> (spawned env tenant db)\<^sup>* `` {i}"
    using c(2,4) by (auto simp: told_def links_of_def spawned_def)
  moreover have "(spawned env tenant db')\<^sup>* \<subseteq> (spawned env tenant db)\<^sup>*"
    using spawned_mono [OF c(3)] by (rule rtrancl_mono)
  ultimately have reach: "(spawned env tenant db')\<^sup>* `` told env (links_of i tenant db') \<subseteq> (spawned env tenant db)\<^sup>* `` {i}"
    by (auto simp: subset_iff intro: rtrancl_trans)
  have died: "died_from env tenant {i} db (fst s')"
    unfolding died_from_def
  proof
    fix x assume x: "x \<in> live_ids tenant db - live_ids tenant (fst s')"
    show "x \<in> (spawned env tenant db)\<^sup>* `` {i}"
    proof (cases "x = i")
      case False
      with x c(1) have "x \<in> live_ids tenant db' - live_ids tenant (fst s')" by blast
      with links have "x \<in> (spawned env tenant db')\<^sup>* `` told env (links_of i tenant db')"
        by (simp add: cascaded_def died_from_def subset_iff)
      with reach show ?thesis by blast
    qed simp
  qed
  have "approvals_done tenant db db'" using c(1,5) unfolding approvals_done_def by auto
  then have "approvals_done tenant db (fst s')"
    using approvals_done_trans [OF st] links by (simp add: cascaded_def)
  with closed died steady_trans [OF c(3) st] links vis' show "cascaded env tenant {i} (db, v) s'"
    by (simp add: cascaded_def)
qed

lemma cancelInstanceById_contract:
  assumes "cancelInstanceById depth env i tenant reason s = Some (r, s')" "vis_ok env tenant s"
  shows "cascaded env tenant {i} s s' \<and> (\<not> ca_rpc_fails env i \<longrightarrow> i \<notin> live_ids tenant (fst s'))"
  using assms
proof (induction depth arbitrary: i reason s r s')
  case 0
  then show ?case by simp
next
  case (Suc depth)
  obtain db v where s: "s = (db, v)" by (cases s)
  consider (seen) "i \<in> set v" | (fails) "i \<notin> set v" "ca_rpc_fails env i"
    | (lost) k db' where "i \<notin> set v" "\<not> ca_rpc_fails env i" "cancel_with_approvals i tenant reason db = ((False, k), db')"
    | (claim) k db' where "i \<notin> set v" "\<not> ca_rpc_fails env i" "cancel_with_approvals i tenant reason db = ((True, k), db')"
    by (metis surj_pair)
  then show ?case
  proof cases
    case seen
    with Suc.prems s have "s' = (db, v)" by simp
    moreover from seen Suc.prems(2) s have "\<not> ca_rpc_fails env i \<longrightarrow> i \<notin> live_ids tenant db"
      by (auto simp: vis_ok_def)
    ultimately show ?thesis using cascaded_quiet [OF quiet_refl, of env tenant "{i}" db v] s by simp
  next
    case fails
    with Suc.prems s have "s' = (db, v @ [i])" by simp
    with fails s show ?thesis by (simp add: cascaded_visit)
  next
    case lost
    with Suc.prems s cancel_unclaimed [OF lost(3)] have "s' = (db, v @ [i])" by simp
    with s cancel_unclaimed [OF lost(3)] show ?thesis by (simp add: cascaded_visit)
  next
    case claim
    with Suc.prems(1) s have links: "cascade_links (cancelInstanceById depth env) env i tenant
        (links_of i tenant db') (db', v @ [i]) = Some s'" by auto
    have "child_cancel (cancelInstanceById depth env) env tenant"
      by unfold_locales (rule Suc.IH)
    moreover have "vis_ok env tenant (db', v @ [i])"
      using Suc.prems(2) s live_ids_cancel (1) [OF claim(3)] by (auto simp: vis_ok_def)
    ultimately have "cascaded env tenant {i} (db, v) s'" "i \<notin> live_ids tenant (fst s')"
      using cascaded_claim [OF claim(3)] child_cancel.child_links [OF _ links] by blast+
    with s show ?thesis by simp
  qed
qed

interpretation cascade: child_cancel "cancelInstanceById depth env" env tenant for depth env tenant
  by unfold_locales (rule cancelInstanceById_contract)

subsection \<open>The depth is enough\<close>

lemma finite_live_ids [simp]: "finite (live_ids tenant db)"
proof -
  have "live_ids tenant db \<subseteq> wi_id ` set (db_instances db)" by (auto simp: live_ids_def)
  then show ?thesis by (rule finite_subset) simp
qed

definition shallow :: "cancel_env \<Rightarrow> string \<Rightarrow> nat \<Rightarrow> cancel_state \<Rightarrow> bool" where
  "shallow env tenant n s \<longleftrightarrow> vis_ok env tenant s \<and> card (live_ids tenant (fst s)) < n"

definition answers :: "cancel_env \<Rightarrow> string \<Rightarrow> nat \<Rightarrow>
    (string \<Rightarrow> string \<Rightarrow> string \<Rightarrow> cancel_state \<Rightarrow> cancel_answer) \<Rightarrow> bool" where
  "answers env tenant n rec \<longleftrightarrow>
     (\<forall>i reason s. shallow env tenant n s \<longrightarrow> (\<exists>r db v. rec i tenant reason s = Some (r, (db, v))))"

lemma shallow_cascaded:
  assumes "cascaded env tenant R s s'" "shallow env tenant n s"
  shows "shallow env tenant n s'"
proof -
  from assms have "live_ids tenant (fst s') \<subseteq> live_ids tenant (fst s)" "vis_ok env tenant s'"
    by (simp_all add: cascaded_def steady_def shallow_def)
  with assms(2) card_mono [OF finite_live_ids this(1)] show ?thesis by (simp add: shallow_def)
qed

lemma child_workflow_returns:
  assumes "answers env tenant n rec" "shallow env tenant n s"
  shows "\<exists>s'. cancel_child_workflow rec env i tenant l s = Some s'"
proof -
  from assms obtain r db v where "rec (the (lk_child l)) tenant ''parent_workflow_cancelled'' s = Some (r, (db, v))"
    unfolding answers_def by blast
  then show ?thesis by (cases r; cases s) (simp_all add: cancel_child_workflow_def)
qed

lemma cascade_link_returns:
  assumes "answers env tenant n rec" "shallow env tenant n s"
  shows "\<exists>s'. cascade_link rec env i tenant l s = Some s'"
proof -
  obtain db v where s: "s = (db, v)" by (cases s)
  have child: "\<exists>s'. cancel_child_workflow rec env i tenant l (db', v) = Some s'" if "quiet tenant db db'" for db'
    by (rule child_workflow_returns [OF assms(1) shallow_cascaded [OF cascaded_quiet [OF that] assms(2) [unfolded s]]])
  obtain out db' where try_: "tryCancelBookingForCascade env l i db = (out, db')" by fastforce
  note child [OF quiet_tryCancel [OF try_]] child [OF quiet_link_pending]
  with try_ show ?thesis
    unfolding cascade_link_def s by (cases out) simp_all
qed

lemma cascade_links_returns:
  assumes "child_cancel rec env tenant" "answers env tenant n rec" "shallow env tenant n s"
  shows "\<exists>s'. cascade_links rec env i tenant ls s = Some s'"
  using assms(3)
proof (induction ls arbitrary: s)
  case (Cons l ls)
  from cascade_link_returns [OF assms(2) Cons.prems] obtain s1 where s1: "cascade_link rec env i tenant l s = Some s1"
    by blast
  from Cons.prems have "vis_ok env tenant s" by (simp add: shallow_def)
  from child_cancel.child_link [OF assms(1) s1 this] Cons.prems have "shallow env tenant n s1"
    by (blast intro: shallow_cascaded)
  from Cons.IH [OF this] s1 show ?case by simp
qed simp

lemma shallow_claim:
  assumes "cancel_with_approvals i tenant reason db = ((True, k), db')" "shallow env tenant (Suc depth) (db, v)"
  shows "shallow env tenant depth (db', v @ [i])"
proof -
  note c = live_ids_cancel (1,2) [OF assms(1)]
  have "0 < card (live_ids tenant db)" using c(2) by (auto simp: card_gt_0_iff)
  moreover have "card (live_ids tenant db) < Suc depth" using assms(2) by (simp add: shallow_def)
  moreover have "card (live_ids tenant db') = card (live_ids tenant db) - 1"
    unfolding c(1) using c(2) by (rule card_Diff_singleton)
  ultimately have "card (live_ids tenant db') < depth" by linarith
  moreover have "vis_ok env tenant (db', v @ [i])"
    using assms(2) c(1) by (auto simp: shallow_def vis_ok_def)
  ultimately show ?thesis by (simp add: shallow_def)
qed

lemma cancelInstanceById_answers: "answers env tenant depth (cancelInstanceById depth env)"
proof (induction depth)
  case 0
  show ?case by (simp add: answers_def shallow_def)
next
  case (Suc depth)
  show ?case
    unfolding answers_def
  proof (intro allI impI)
    fix i reason s assume sh: "shallow env tenant (Suc depth) s"
    obtain db v where s: "s = (db, v)" by (cases s)
    obtain b k db' where rpc: "cancel_with_approvals i tenant reason db = ((b, k), db')" by (metis surj_pair)
    show "\<exists>r db v. cancelInstanceById (Suc depth) env i tenant reason s = Some (r, (db, v))"
    proof (cases "i \<in> set v \<or> ca_rpc_fails env i \<or> \<not> b")
      case True
      with s rpc show ?thesis by auto
    next
      case False
      with rpc have claim: "cancel_with_approvals i tenant reason db = ((True, k), db')" by simp
      from cascade_links_returns [OF cascade.child_cancel_axioms Suc shallow_claim [OF claim sh [unfolded s]]]
      obtain s' where "cascade_links (cancelInstanceById depth env) env i tenant (links_of i tenant db') (db', v @ [i]) = Some s'"
        by blast
      with False s claim show ?thesis by (cases s') auto
    qed
  qed
qed

lemma cancel_depth_enough: "shallow env tenant (cancel_depth db) (db, [])"
proof -
  have "live_ids tenant db \<subseteq> wi_id ` set (filter (\<lambda>w. live_status (wi_status w)) (db_instances db))"
    by (auto simp: live_ids_def)
  then have "card (live_ids tenant db) \<le> length (filter (\<lambda>w. live_status (wi_status w)) (db_instances db))"
    by (metis (no_types, lifting) List.finite_set card_image_le card_length card_mono finite_imageI le_trans)
  then show ?thesis by (simp add: shallow_def vis_ok_def cancel_depth_def)
qed

lemma cancel_root_contract:
  obtains r db' v where "cancel_root env i tenant reason db = Some (r, db')"
    "cascaded env tenant {i} (db, []) (db', v)" "\<not> ca_rpc_fails env i \<longrightarrow> i \<notin> live_ids tenant db'"
proof -
  from cancelInstanceById_answers [of env tenant "cancel_depth db"] cancel_depth_enough
  obtain r db' v where *: "cancelInstanceById (cancel_depth db) env i tenant reason (db, []) = Some (r, (db', v))"
    unfolding answers_def by blast
  have "vis_ok env tenant (db, [])" by (simp add: vis_ok_def)
  note contract = cancelInstanceById_contract [OF * this]
  have "cancel_root env i tenant reason db = Some (r, db')" by (simp add: cancel_root_def *)
  with contract that [of r db' v] show ?thesis by simp
qed

text \<open>
  With every procedure call answered, the instances that die are exactly those the links lead to
  from the root through instances that were live.
\<close>

lemma cancel_exact:
  assumes "\<And>x. \<not> ca_rpc_fails env x"
  shows "\<exists>r db'. cancel_root env i tenant reason db = Some (r, db') \<and>
    live_ids tenant db' = live_ids tenant db - (spawned env tenant db)\<^sup>* `` {i} \<and> approvals_done tenant db db'"
proof -
  obtain r db' v where root: "cancel_root env i tenant reason db = Some (r, db')"
    and c: "cascaded env tenant {i} (db, []) (db', v)" and i: "i \<notin> live_ids tenant db'"
    using cancel_root_contract [of env i tenant reason db] assms by metis
  have "j \<notin> live_ids tenant db'" if "(i, j) \<in> (spawned env tenant db)\<^sup>*" for j
    using that
  proof (induction rule: rtrancl_induct)
    case (step p x)
    then obtain l where "l \<in> set (db_links db)" "lk_tenant l = tenant" "passes_on env l"
      "lk_parent l = p" "the (lk_child l) = x" "p \<in> live_ids tenant db"
      by (auto simp: spawned_def)
    with step.IH c assms show ?case by (auto simp: cascaded_def closed_under_def reachable_child_def)
  qed (rule i)
  moreover have "live_ids tenant db' \<subseteq> live_ids tenant db" "live_ids tenant db - live_ids tenant db' \<subseteq> (spawned env tenant db)\<^sup>* `` {i}"
    using c by (simp_all add: cascaded_def steady_def died_from_def)
  ultimately have "live_ids tenant db' = live_ids tenant db - (spawned env tenant db)\<^sup>* `` {i}" by blast
  moreover from c have "approvals_done tenant db db'" by (simp add: cascaded_def)
  ultimately show ?thesis using root by blast
qed

subsection \<open>Relations along a cascade\<close>

text \<open>
  A relation between databases that every single write of the cascade satisfies relates the
  databases before and after a whole cancellation.
\<close>

locale cascade_rel =
  fixes R :: "wf_db \<Rightarrow> wf_db \<Rightarrow> bool" and env :: cancel_env
  assumes R_refl: "R db db"
    and R_trans: "R a b \<Longrightarrow> R b c \<Longrightarrow> R a c"
    and R_claim: "cancel_with_approvals i tenant reason db = ((True, k), db') \<Longrightarrow> R db db'"
    and R_pending: "R db (link_pending env l parent reason extra db)"
    and R_deleted: "R db (booking_deleted bookingId db)"
    and R_resolve: "R db (resolveLinkRow env l parent tenant db)"
begin

lemma R_tryCancel: "tryCancelBookingForCascade env l parent db = (out, db') \<Longrightarrow> R db db'"
  using R_refl R_pending R_deleted unfolding tryCancelBookingForCascade_def
  by (cases "ca_delete env (lk_id l)") (auto split: if_splits)

lemma R_child:
  assumes "cancel_child_workflow rec env i tenant l s = Some s'"
    and rec: "\<And>i tenant reason s r s'. rec i tenant reason s = Some (r, s') \<Longrightarrow> R (fst s) (fst s')"
  shows "R (fst s) (fst s')"
proof (cases "truthy (lk_child l)")
  case True
  with assms(1) obtain r db v where r: "rec (the (lk_child l)) tenant ''parent_workflow_cancelled'' s = Some (r, (db, v))"
    and s': "fst s' = (case r of Inl e \<Rightarrow> link_pending env l i ''cascade_error'' [(''error'', JStr (ca_message env e))] db
      | Inr _ \<Rightarrow> resolveLinkRow env l i tenant db)"
    by (auto simp: cancel_child_workflow_def split: option.splits sum.splits)
  have "R db (fst s')" unfolding s' by (cases r) (simp_all add: R_pending R_resolve)
  with rec [OF r] show ?thesis by (auto intro: R_trans)
next
  case False
  with assms(1) show ?thesis by (cases s) (auto simp: cancel_child_workflow_def R_resolve)
qed

lemma R_link:
  assumes "cascade_link rec env i tenant l s = Some s'"
    and rec: "\<And>i tenant reason s r s'. rec i tenant reason s = Some (r, s') \<Longrightarrow> R (fst s) (fst s')"
  shows "R (fst s) (fst s')"
proof -
  obtain db v where s: "s = (db, v)" by (cases s)
  obtain out db' where try_: "tryCancelBookingForCascade env l i db = (out, db')" by fastforce
  have child: "R db (fst s')" if "R db d" "cancel_child_workflow rec env i tenant l (d, v) = Some s'" for d
    using R_trans [OF that(1)] R_child [OF that(2) rec] by simp
  from assms(1) R_tryCancel [OF try_] child [OF R_tryCancel [OF try_]] child [OF R_pending] R_resolve try_
  show ?thesis unfolding s cascade_link_def by (cases out) (auto split: if_splits)
qed

lemma R_links:
  assumes "cascade_links rec env i tenant ls s = Some s'"
    and rec: "\<And>i tenant reason s r s'. rec i tenant reason s = Some (r, s') \<Longrightarrow> R (fst s) (fst s')"
  shows "R (fst s) (fst s')"
  using assms(1)
proof (induction ls arbitrary: s)
  case (Cons l ls)
  then obtain s1 where s1: "cascade_link rec env i tenant l s = Some s1" "cascade_links rec env i tenant ls s1 = Some s'"
    by (auto split: option.splits)
  from R_link [OF s1(1) rec] Cons.IH [OF s1(2)] show ?case by (rule R_trans)
qed (simp add: R_refl)

lemma R_cancel: "cancelInstanceById depth env i tenant reason s = Some (r, s') \<Longrightarrow> R (fst s) (fst s')"
proof (induction depth arbitrary: i tenant reason s r s')
  case (Suc depth)
  obtain db v where s: "s = (db, v)" by (cases s)
  obtain b k db' where rpc: "cancel_with_approvals i tenant reason db = ((b, k), db')" by (metis surj_pair)
  show ?case
  proof (cases "i \<in> set v \<or> ca_rpc_fails env i \<or> \<not> b")
    case True
    with Suc.prems s rpc cancel_unclaimed(1) [of i tenant reason db k db'] show ?thesis
      by (auto simp: R_refl split: if_splits)
  next
    case False
    with rpc have claim: "cancel_with_approvals i tenant reason db = ((True, k), db')" by simp
    with Suc.prems s False have links: "cascade_links (cancelInstanceById depth env) env i tenant
        (links_of i tenant db') (db', v @ [i]) = Some s'" by auto
    from R_trans [OF R_claim [OF claim]] R_links [OF links Suc.IH] s show ?thesis by simp
  qed
qed simp

lemma R_root: "cancel_root env i tenant reason db = Some (r, db') \<Longrightarrow> R db db'"
  by (auto simp: cancel_root_def dest!: R_cancel)

end

subsection \<open>A link is closed only when its entity is out of the way\<close>

definition closable :: "cancel_env \<Rightarrow> wf_link \<Rightarrow> bool" where
  "closable env l \<longleftrightarrow> lk_orphan l \<or> deletable env l"

text \<open>Every link that is resolved now was resolved before, or its entity was cancelled or to be left alone.\<close>

definition links_honest :: "cancel_env \<Rightarrow> wf_db \<Rightarrow> wf_db \<Rightarrow> bool" where
  "links_honest env db db' \<longleftrightarrow>
     map link_core (db_links db') = map link_core (db_links db) \<and>
     (\<forall>l'\<in>set (db_links db'). lk_resolved_at l' \<noteq> None \<longrightarrow>
        (\<exists>l\<in>set (db_links db). lk_id l = lk_id l' \<and> (lk_resolved_at l \<noteq> None \<or> closable env l)))"

lemma core_mem:
  assumes "map link_core (db_links db') = map link_core (db_links db)" "l \<in> set (db_links db')"
  obtains k where "k \<in> set (db_links db)" "lk_id k = lk_id l" "closable env k \<longleftrightarrow> closable env l" "lk_parent k = lk_parent l"
proof -
  from assms have "link_core l \<in> link_core ` set (db_links db)" by (metis image_eqI list.set_map)
  then obtain k where k: "k \<in> set (db_links db)" "link_core k = link_core l" by (metis imageE)
  have core: "lk_id (link_core x) = lk_id x" "closable env (link_core x) \<longleftrightarrow> closable env x" for x
    by (simp_all add: link_core_def closable_def deletable_def)
  from core [of k] core [of l] k(2) core_fields(1) [OF k(2)] that [OF k(1)] show ?thesis by metis
qed

lemma links_honest_same: "db_links db' = db_links db \<Longrightarrow> links_honest env db db'"
  by (auto simp: links_honest_def)

lemma links_honest_trans:
  assumes "links_honest env a b" "links_honest env b c"
  shows "links_honest env a c"
  unfolding links_honest_def
proof (intro conjI ballI impI)
  show "map link_core (db_links c) = map link_core (db_links a)" using assms by (simp add: links_honest_def)
  fix l assume "l \<in> set (db_links c)" "lk_resolved_at l \<noteq> None"
  with assms(2) obtain k where k: "k \<in> set (db_links b)" "lk_id k = lk_id l" "lk_resolved_at k \<noteq> None \<or> closable env k"
    unfolding links_honest_def by blast
  show "\<exists>x\<in>set (db_links a). lk_id x = lk_id l \<and> (lk_resolved_at x \<noteq> None \<or> closable env x)"
  proof (cases "lk_resolved_at k = None")
    case True
    with k(3) have "closable env k" by simp
    moreover have "map link_core (db_links b) = map link_core (db_links a)" using assms(1) by (simp add: links_honest_def)
    ultimately show ?thesis using core_mem [of b a k env] k(1,2) by metis
  next
    case False
    with assms(1) k(1,2) show ?thesis unfolding links_honest_def by metis
  qed
qed

lemma honest_resolveLinkRow:
  assumes "l' \<in> set (db_links db)" "lk_id l' = lk_id l" "closable env l'"
  shows "links_honest env db (resolveLinkRow env l parent tenant db)"
proof -
  let ?f = "\<lambda>x. x\<lparr>lk_resolved_at := Some (ca_now env), lk_resolution := Some ''parent_cancelled''\<rparr>"
  have "links_honest env db (db\<lparr>db_links := update_where (open_link (lk_id l) tenant) ?f (db_links db)\<rparr>)"
    unfolding links_honest_def
  proof (intro conjI)
    show "map link_core (db_links (db\<lparr>db_links := update_where (open_link (lk_id l) tenant) ?f (db_links db)\<rparr>)) =
        map link_core (db_links db)"
      by (simp add: update_where_def link_core_def)
    have "\<exists>x\<in>set (db_links db). lk_id x = lk_id (if open_link (lk_id l) tenant r then ?f r else r) \<and>
        (lk_resolved_at x \<noteq> None \<or> closable env x)"
      if "r \<in> set (db_links db)" "lk_resolved_at (if open_link (lk_id l) tenant r then ?f r else r) \<noteq> None" for r
    proof (cases "open_link (lk_id l) tenant r")
      case True
      then have "lk_id r = lk_id l" by (simp add: open_link_def)
      with assms True show ?thesis by (intro bexI [of _ l']) simp_all
    next
      case False
      with that show ?thesis by (intro bexI [of _ r]) simp_all
    qed
    then show "\<forall>l'\<in>set (db_links (db\<lparr>db_links := update_where (open_link (lk_id l) tenant) ?f (db_links db)\<rparr>)).
        lk_resolved_at l' \<noteq> None \<longrightarrow> (\<exists>x\<in>set (db_links db). lk_id x = lk_id l' \<and> (lk_resolved_at x \<noteq> None \<or> closable env x))"
      by (simp add: ball_update_where del: ex_simps)
  qed
  then show ?thesis
    by (simp add: resolveLinkRow_def link_pending_def emit_link_def links_honest_same)
       (simp add: links_honest_def emit_row_def)
qed

lemma honest_link_pending: "links_honest env db (link_pending env l parent reason extra db)"
  by (simp add: links_honest_same link_pending_def emit_link_def)

lemma honest_tryCancel:
  assumes "tryCancelBookingForCascade env l parent db = (out, db')"
  shows "links_honest env db db'"
  using assms honest_link_pending [of env db l parent] unfolding tryCancelBookingForCascade_def
  by (cases "ca_delete env (lk_id l)") (auto simp: links_honest_same booking_deleted_def split: if_splits)

locale honest_cancel =
  fixes rec :: "string \<Rightarrow> string \<Rightarrow> string \<Rightarrow> cancel_state \<Rightarrow> cancel_answer" and env :: cancel_env
  assumes rec_honest: "rec i tenant reason s = Some (r, s') \<Longrightarrow> links_honest env (fst s) (fst s')"
begin

lemma honest_child_workflow:
  assumes "cancel_child_workflow rec env i tenant l s = Some s'" "k \<in> set (db_links (fst s))" "lk_id k = lk_id l"
    "closable env k"
  shows "links_honest env (fst s) (fst s')"
proof (cases "truthy (lk_child l)")
  case True
  with assms(1) obtain r db v where rec: "rec (the (lk_child l)) tenant ''parent_workflow_cancelled'' s = Some (r, (db, v))"
    and s': "fst s' = (case r of Inl e \<Rightarrow> link_pending env l i ''cascade_error'' [(''error'', JStr (ca_message env e))] db
      | Inr _ \<Rightarrow> resolveLinkRow env l i tenant db)"
    by (auto simp: cancel_child_workflow_def split: option.splits sum.splits)
  have h: "links_honest env (fst s) db" using rec_honest [OF rec] by simp
  then have "map link_core (db_links (fst s)) = map link_core (db_links db)" by (simp add: links_honest_def)
  from core_mem [OF this assms(2), of env] obtain k' where "k' \<in> set (db_links db)" "lk_id k' = lk_id l" "closable env k'"
    using assms(3,4) by metis
  from honest_resolveLinkRow [OF this] have "links_honest env db (fst s')"
    unfolding s' by (cases r) (simp_all add: honest_link_pending)
  with h show ?thesis by (rule links_honest_trans)
next
  case False
  obtain db v where s: "s = (db, v)" by (cases s)
  with assms False honest_resolveLinkRow [of k db l env i tenant] show ?thesis
    by (simp add: cancel_child_workflow_def) (metis fst_conv)
qed

lemma honest_link:
  assumes "cascade_link rec env i tenant l s = Some s'" "k \<in> set (db_links (fst s))" "link_core k = link_core l"
  shows "links_honest env (fst s) (fst s')"
proof -
  obtain db v where s: "s = (db, v)" by (cases s)
  have core: "lk_id (link_core x) = lk_id x" "closable env (link_core x) \<longleftrightarrow> closable env x" for x
    by (simp_all add: link_core_def closable_def deletable_def)
  have k: "lk_id k = lk_id l" "closable env k \<longleftrightarrow> closable env l" using core [of k] core [of l] assms(3) by metis+
  have go: ?thesis if "links_honest env db db'" "cancel_child_workflow rec env i tenant l (db', v) = Some s'" "deletable env l" for db'
  proof -
    from that(1) have "map link_core (db_links db) = map link_core (db_links db')" by (simp add: links_honest_def)
    from core_mem [OF this, of k env] assms(2) s obtain k' where
      k': "k' \<in> set (db_links db')" "lk_id k' = lk_id k" "closable env k' \<longleftrightarrow> closable env k" by auto
    have "links_honest env (fst (db', v)) (fst s')"
      by (rule honest_child_workflow [OF that(2), of k']) (use k' k that(3) in \<open>simp_all add: closable_def\<close>)
    with that(1) s show ?thesis by (simp add: links_honest_trans)
  qed
  obtain out db' where try_: "tryCancelBookingForCascade env l i db = (out, db')" by fastforce
  show ?thesis
  proof (cases "lk_orphan l")
    case True
    then have "closable env k" using k(2) by (simp add: closable_def)
    with honest_resolveLinkRow [of k db l env i tenant] assms(1,2) s k(1) True show ?thesis
      by (auto simp: cascade_link_def)
  next
    case orphan: False
    show ?thesis
    proof (cases "lk_child_kind l = KindBooking")
      case True
      note pend = tryCancel_pending [OF try_ True]
      show ?thesis
      proof (cases "out = OutcomePending")
        case True
        with assms(1) s orphan \<open>lk_child_kind l = KindBooking\<close> try_ have "fst s' = db'" by (auto simp: cascade_link_def)
        with honest_tryCancel [OF try_] s show ?thesis by simp
      next
        case False
        with assms(1) s orphan True try_ have "cancel_child_workflow rec env i tenant l (db', v) = Some s'"
          by (cases out) (simp_all add: cascade_link_def)
        with go [OF honest_tryCancel [OF try_]] pend False show ?thesis by blast
      qed
    next
      case False
      with assms(1) s orphan have "cancel_child_workflow rec env i tenant l
          (link_pending env l i (''phase_1b_'' @ kind_name (lk_child_kind l) @ ''_entity_cancel_pending'') [] db, v) = Some s'"
        by (simp add: cascade_link_def)
      with go [OF honest_link_pending] False show ?thesis by (simp add: deletable_def)
    qed
  qed
qed

lemma honest_links:
  assumes "cascade_links rec env i tenant ls s = Some s'" "\<forall>l\<in>set ls. link_core l \<in> link_core ` set (db_links (fst s))"
  shows "links_honest env (fst s) (fst s')"
  using assms
proof (induction ls arbitrary: s)
  case Nil
  then show ?case by (simp add: links_honest_same)
next
  case (Cons l ls)
  from Cons.prems(1) obtain s1 where s1: "cascade_link rec env i tenant l s = Some s1"
    "cascade_links rec env i tenant ls s1 = Some s'"
    by (auto split: option.splits)
  from Cons.prems(2) obtain k where "k \<in> set (db_links (fst s))" "link_core k = link_core l"
    by (metis imageE list.set_intros(1))
  from honest_link [OF s1(1) this] have h: "links_honest env (fst s) (fst s1)" .
  then have "link_core ` set (db_links (fst s1)) = link_core ` set (db_links (fst s))"
    by (metis links_honest_def list.set_map)
  with Cons.prems(2) have "\<forall>l\<in>set ls. link_core l \<in> link_core ` set (db_links (fst s1))" by simp
  from Cons.IH [OF s1(2) this] h show ?case by (blast intro: links_honest_trans)
qed

end

lemma cancelInstanceById_honest:
  assumes "cancelInstanceById depth env i tenant reason s = Some (r, s')"
  shows "links_honest env (fst s) (fst s')"
  using assms
proof (induction depth arbitrary: i tenant reason s r s')
  case 0
  then show ?case by simp
next
  case (Suc depth)
  obtain db v where s: "s = (db, v)" by (cases s)
  obtain b k db' where rpc: "cancel_with_approvals i tenant reason db = ((b, k), db')" by (metis surj_pair)
  show ?case
  proof (cases "i \<in> set v \<or> ca_rpc_fails env i \<or> \<not> b")
    case True
    with Suc.prems s rpc cancel_unclaimed(1) [of i tenant reason db k db'] show ?thesis
      by (auto simp: links_honest_same split: if_splits)
  next
    case False
    with rpc have claim: "cancel_with_approvals i tenant reason db = ((True, k), db')" by simp
    with Suc.prems s False have links: "cascade_links (cancelInstanceById depth env) env i tenant
        (links_of i tenant db') (db', v @ [i]) = Some s'" by auto
    have "honest_cancel (cancelInstanceById depth env) env" by unfold_locales (rule Suc.IH)
    from honest_cancel.honest_links [OF this links] have "links_honest env db' (fst s')"
      by (simp add: links_of_def)
    with links_honest_same [OF live_ids_cancel(4) [OF claim]] s show ?thesis
      by (metis fst_conv links_honest_trans)
  qed
qed

interpretation closing: honest_cancel "cancelInstanceById depth env" env for depth env
  by unfold_locales (rule cancelInstanceById_honest)

subsection \<open>A safe spawn\<close>

text \<open>The links above an instance, nearest first, at most \<open>n\<close> of them.\<close>

fun links_above :: "string \<Rightarrow> wf_db \<Rightarrow> nat \<Rightarrow> string \<Rightarrow> wf_link list" where
  "links_above tenant db 0 i = []"
| "links_above tenant db (Suc n) i =
     (if i = [] then []
      else (case inbound_link tenant i db of None \<Rightarrow> [] | Some l \<Rightarrow> l # links_above tenant db n (lk_parent l)))"

definition link_is :: "entity_kind \<Rightarrow> string \<Rightarrow> wf_link \<Rightarrow> bool" where
  "link_is kind entityId l \<longleftrightarrow> lk_parent_kind l = kind \<and> lk_parent_entity l = entityId"

lemma spawn_walk_ok:
  assumes "depth < SPAWN_LINK_DEPTH_LIMIT"
  shows "spawn_walk tenant kind entityId db depth i = SpawnOk \<longleftrightarrow>
    length (links_above tenant db (SPAWN_LINK_DEPTH_LIMIT - depth) i) < SPAWN_LINK_DEPTH_LIMIT - depth \<and>
    (\<forall>l\<in>set (links_above tenant db (SPAWN_LINK_DEPTH_LIMIT - depth) i). \<not> link_is kind entityId l)"
  using assms
proof (induction tenant kind entityId db depth i rule: spawn_walk.induct)
  case (1 tenant kind entityId db depth i)
  from "1.prems" obtain n where n: "SPAWN_LINK_DEPTH_LIMIT - depth = Suc n" by (metis Suc_diff_Suc)
  show ?case
  proof (cases "i = [] \<or> inbound_link tenant i db = None")
    case True
    with n show ?thesis by (auto simp: spawn_walk.simps [of tenant kind entityId db depth i])
  next
    case False
    then obtain l where l: "i \<noteq> []" "inbound_link tenant i db = Some l" by auto
    show ?thesis
    proof (cases "link_is kind entityId l \<or> SPAWN_LINK_DEPTH_LIMIT \<le> depth + 1")
      case True
      with l n show ?thesis
        by (auto simp: spawn_walk.simps [of tenant kind entityId db depth i] link_is_def)
    next
      case False
      with n have "SPAWN_LINK_DEPTH_LIMIT - (depth + 1) = n" by simp
      with False l n "1.IH" [OF l] show ?thesis
        by (auto simp: spawn_walk.simps [of tenant kind entityId db depth i] link_is_def)
    qed
  qed
qed

subsection \<open>Properties\<close>

lemma spawnedI:
  "l \<in> set (db_links db) \<Longrightarrow> lk_tenant l = tenant \<Longrightarrow> passes_on env l \<Longrightarrow> lk_parent l \<in> live_ids tenant db \<Longrightarrow>
    (lk_parent l, the (lk_child l)) \<in> spawned env tenant db"
  by (auto simp: spawned_def)

definition ex_instance :: "string \<Rightarrow> inst_status \<Rightarrow> wf_instance" where
  "ex_instance i s = \<lparr>wi_id = i, wi_tenant = ''T'', wi_definition = ''d'', wi_version = 1, wi_kind = Some KindCase,
     wi_case = Some (''case-'' @ i), wi_work_order = None, wi_booking = None, wi_ticket = None, wi_node = ''n'',
     wi_status = s, wi_waiting_for = JNull, wi_context = [], wi_completed_at = None, wi_cancelled_reason = None\<rparr>"

definition ex_link :: "string \<Rightarrow> string \<Rightarrow> entity_kind \<Rightarrow> wf_link" where
  "ex_link p c k = \<lparr>lk_id = p @ c, lk_tenant = ''T'', lk_parent = p, lk_parent_node = ''n'', lk_parent_kind = KindCase,
     lk_parent_entity = ''case-'' @ p, lk_child = Some c, lk_child_kind = k, lk_child_entity = ''b-'' @ c, lk_orphan = False,
     lk_wait = True, lk_grouped = False, lk_wait_for = Some ''either'', lk_statuses = None, lk_timeout_at = Some 10,
     lk_timeout_branch = Some ''timeout'', lk_resolved_at = None, lk_resolution = None\<rparr>"

text \<open>Three generations of live instances, the youngest with a pending approval.\<close>

definition ex_family :: wf_db where
  "ex_family = \<lparr>db_definitions = [], db_instances = [ex_instance ''p'' InstWaiting, ex_instance ''c'' InstWaiting, ex_instance ''g'' InstActive],
     db_approvals = [\<lparr>wa_tenant = ''T'', wa_target_type = ''ticket'', wa_target_id = ''case-g'', wa_person = JStr ''p1'', wa_team = JUndef,
        wa_chain = None, wa_group = None, wa_threshold = JStr ''all'', wa_instance = Some ''g'', wa_node = Some ''n'', wa_status = ''pending''\<rparr>],
     db_notifications = [], db_events = [], db_tickets = [], db_work_orders = [],
     db_links = [ex_link ''p'' ''c'' KindBooking, ex_link ''c'' ''g'' KindCase]\<rparr>"

definition ex_cancel :: "delete_answer \<Rightarrow> cancel_env" where
  "ex_cancel a = \<lparr>ca_tenant = ''T'', ca_now = 7, ca_rpc_fails = (\<lambda>_. False), ca_delete = (\<lambda>_. a), ca_resolve_fails = (\<lambda>_. False),
     ca_message = (\<lambda>_. []), ca_resolve_message = (\<lambda>_. [])\<rparr>"

text \<open>
  C1. A cancellation returns and reaches exactly what it should: with every procedure call answered,
  the instances that stop being live are those to which links lead from the root through live
  instances, where a link is followed unless its child is to be left alone or its booking cannot be
  deleted; no approval of a cancelled instance stays pending. Chains of links may contain cycles.
\<close>

theorem cancellation_reaches_exactly:
  assumes "\<And>x. \<not> ca_rpc_fails env x"
  shows "\<exists>r db'. cancel_root env i tenant reason db = Some (r, db') \<and>
    live_ids tenant db' = live_ids tenant db - (spawned env tenant db)\<^sup>* `` {i} \<and>
    (\<forall>j\<in>live_ids tenant db - live_ids tenant db'. \<forall>a\<in>set (db_approvals db'). \<not> pending_of j tenant a)"
  using cancel_exact [OF assms] by (fastforce simp: approvals_done_def)

theorem cancellation_reaches_exactly_witness:
  "\<exists>r db'. cancel_root (ex_cancel RolledBack) ''p'' ''T'' ''done'' ex_family = Some (r, db') \<and> ''g'' \<in> live_ids ''T'' ex_family \<and>
     ''g'' \<notin> live_ids ''T'' db' \<and> (\<forall>a\<in>set (db_approvals db'). \<not> pending_of ''g'' ''T'' a)"
proof -
  let ?env = "ex_cancel RolledBack"
  have live: "x \<in> live_ids ''T'' ex_family \<longleftrightarrow> x \<in> {''p'', ''c'', ''g''}" for x
    by (auto simp: live_ids_iff ex_family_def ex_instance_def live_status_def)
  have "(''p'', ''c'') \<in> spawned ?env ''T'' ex_family" "(''c'', ''g'') \<in> spawned ?env ''T'' ex_family"
    using spawnedI [of "ex_link ''p'' ''c'' KindBooking" ex_family "''T''" ?env] spawnedI [of "ex_link ''c'' ''g'' KindCase" ex_family "''T''" ?env] live
    by (simp_all add: ex_link_def ex_family_def passes_on_def deletable_def ex_cancel_def)
  then have "(''p'', ''g'') \<in> (spawned ?env ''T'' ex_family)\<^sup>*" by (meson r_into_rtrancl rtrancl_trans)
  moreover have "\<not> ca_rpc_fails ?env x" for x by (simp add: ex_cancel_def)
  ultimately show ?thesis using cancellation_reaches_exactly [of ?env "''p''" "''T''" "''done''" ex_family] live by fastforce
qed

text \<open>
  C26. A cascade closes a link to a booking only for a reason: after a cancellation, of any depth and with
  any failures of the database, a link to a booking that carries a resolution carried one before, or its
  child was to be left alone, or the booking has been deleted or did not exist any more.
\<close>

theorem booking_links_close_honestly:
  assumes "cancel_root env i tenant reason db = Some (r, db')"
    and "l' \<in> set (db_links db')" "lk_resolved_at l' \<noteq> None" "distinct (map lk_id (db_links db))"
    and "l \<in> set (db_links db)" "lk_id l = lk_id l'" "lk_child_kind l = KindBooking"
  shows "lk_resolved_at l \<noteq> None \<or> lk_orphan l \<or> ca_delete env (lk_id l) = RolledBack \<or>
    (\<exists>msg. ca_delete env (lk_id l) = DeleteError msg \<and> str_includes msg ''booking.not_found'')"
proof -
  from assms(1) obtain s' where "cancelInstanceById (cancel_depth db) env i tenant reason (db, []) = Some (r, s')" "fst s' = db'"
    by (auto simp: cancel_root_def)
  with cancelInstanceById_honest have "links_honest env db db'" by fastforce
  with assms(2,3) obtain x where x: "x \<in> set (db_links db)" "lk_id x = lk_id l'" "lk_resolved_at x \<noteq> None \<or> closable env x"
    unfolding links_honest_def by blast
  from key_inj [OF assms(4) x(1) assms(5)] x(2) assms(6) have "x = l" by simp
  with x(3) assms(7) show ?thesis by (auto simp: closable_def deletable_def split: delete_answer.splits)
qed

theorem booking_links_close_honestly_witness:
  "(\<exists>r db' l'. cancel_root (ex_cancel RolledBack) ''p'' ''T'' ''done'' ex_family = Some (r, db') \<and> l' \<in> set (db_links db') \<and>
     lk_id l' = ''pc'' \<and> lk_resolved_at l' = Some 7) \<and> ca_delete (ex_cancel RolledBack) ''pc'' = RolledBack"
proof -
  let ?env = "ex_cancel RolledBack" and ?l = "ex_link ''p'' ''c'' KindBooking"
  have c: "map_option (\<lambda>(_, db'). map (\<lambda>l. (lk_id l, lk_resolved_at l)) (db_links db')) (cancel_root ?env ''p'' ''T'' ''done'' ex_family) =
      Some [(''pc'', Some 7), (''cg'', Some 7)]" by code_simp
  then obtain r db' where db': "cancel_root ?env ''p'' ''T'' ''done'' ex_family = Some (r, db')"
    "map (\<lambda>l. (lk_id l, lk_resolved_at l)) (db_links db') = [(''pc'', Some 7), (''cg'', Some 7)]" by auto
  then have "(''pc'', Some 7) \<in> (\<lambda>l. (lk_id l, lk_resolved_at l)) ` set (db_links db')" by (simp only: db'(2) image_set) simp
  then obtain l' where l': "l' \<in> set (db_links db')" "lk_id l' = ''pc''" "lk_resolved_at l' = Some 7" by auto
  have l: "distinct (map lk_id (db_links ex_family))" "?l \<in> set (db_links ex_family)" "lk_id ?l = ''pc''" "lk_child_kind ?l = KindBooking"
    "lk_resolved_at ?l = None" "\<not> lk_orphan ?l"
    by (simp_all add: ex_family_def ex_link_def)
  have "lk_resolved_at l' \<noteq> None" "lk_id ?l = lk_id l'" using l'(2,3) l(3) by simp_all
  from booking_links_close_honestly [OF db'(1) l'(1) this(1) l(1,2) this(2) l(4)] l(3,5,6)
  have "ca_delete ?env ''pc'' = RolledBack" by (simp add: ex_cancel_def)
  with db'(1) l' show ?thesis by blast
qed

text \<open>
  C27. What a safe spawn is: the check lets an entity be spawned exactly when the parent instance exists
  in the tenant and is live, is not bound to that entity itself, fewer than ten links lie above it
  and none of them starts at that entity.
\<close>

theorem spawn_check_decides:
  "checkSpawnLinkSafety parentId tenant kind entityId db = SpawnOk \<longleftrightarrow>
     (\<exists>p. maybe_single (filter (own_instance parentId tenant) (db_instances db)) = Some p \<and> live_status (wi_status p) \<and>
        (wi_kind p, kind_id kind p) \<noteq> (Some kind, Some entityId)) \<and>
     length (links_above tenant db SPAWN_LINK_DEPTH_LIMIT parentId) < SPAWN_LINK_DEPTH_LIMIT \<and>
     list_all (\<lambda>l. (lk_parent_kind l, lk_parent_entity l) \<noteq> (kind, entityId)) (links_above tenant db SPAWN_LINK_DEPTH_LIMIT parentId)"
  using spawn_walk_ok [of 0 tenant kind entityId db parentId]
  by (auto simp: checkSpawnLinkSafety_def SPAWN_LINK_DEPTH_LIMIT_def link_is_def list_all_iff split: option.splits)

end
