(* ===== verification/Workflow_Runs.thy ===== *)
theory Workflow_Runs
  imports Workflow_Cancel
begin

section \<open>Runs of the workflow engine\<close>

text \<open>
  What the walk over a graph does: a dry run writes nothing, a walk through a graph in which
  the nodes that pass control on form no cycle comes to an end, a validated graph leaves the
  simulator only at an end or at a waiting node, and a real run touches no other instance.
  One fact about each kind of node carries the walk: \<open>executeNode_dry\<close> and \<open>executeNode_frame\<close>.
\<close>

lemmas exec_defs =
  exec_assign_def exec_update_ticket_def exec_notification_def exec_condition_def exec_children_def
  exec_approval_def exec_wait_for_def exec_timer_def exec_end_def exec_http_def

subsection \<open>Induction along a walk\<close>

text \<open>
  A walk that returns has ended because there is no next node, because a node stopped, because a
  node threw, or it is a node that passed control on followed by such a walk.
\<close>

lemma advance_induct [consumes 1, case_names Done Goto Stop Throw]:
  assumes "advance env i g t fromId cond st = Some (r, st')"
    and done_: "\<And>fromId cond st. next_node g fromId cond = None \<Longrightarrow> P fromId cond st (Inr ()) st"
    and goto: "\<And>fromId cond st n c st1 r st'. next_node g fromId cond = Some n \<Longrightarrow>
      executeNode env i n t (enter_node env i n st) = (Goto c, st1) \<Longrightarrow>
      P (nd_id n) c st1 r st' \<Longrightarrow> P fromId cond st r st'"
    and stop: "\<And>fromId cond st n st'. next_node g fromId cond = Some n \<Longrightarrow>
      executeNode env i n t (enter_node env i n st) = (Stop, st') \<Longrightarrow> P fromId cond st (Inr ()) st'"
    and throw: "\<And>fromId cond st n e st'. next_node g fromId cond = Some n \<Longrightarrow>
      executeNode env i n t (enter_node env i n st) = (Throw e, st') \<Longrightarrow> P fromId cond st (Inl e) st'"
  shows "P fromId cond st r st'"
proof -
  define Q where "Q env' i' g' t' fromId' cond' st1 y \<longleftrightarrow>
      (env' = env \<and> i' = i \<and> g' = g \<and> t' = t \<longrightarrow> P fromId' cond' st1 (fst y) (snd y))"
    for env' i' g' t' fromId' cond' st1 and y :: "unit result \<times> wf_run"
  have "Q env i g t fromId cond st (r, st')"
  proof (rule advance.raw_induct [OF _ assms(1), of Q])
    fix adv :: "wf_env \<Rightarrow> string \<Rightarrow> wf_graph \<Rightarrow> string \<Rightarrow> string \<Rightarrow> string option \<Rightarrow> wf_run \<Rightarrow> (unit result \<times> wf_run) option"
    fix env' i' g' t' fromId' cond' st1 y
    assume IH: "\<And>i g ticketId fromId cond st b y. adv i g ticketId fromId cond st b = Some y \<Longrightarrow> Q i g ticketId fromId cond st b y"
    assume body: "(case next_node g' fromId' cond' of None \<Rightarrow> Some (Inr (), st1)
        | Some n \<Rightarrow> (case executeNode env' i' n t' (enter_node env' i' n st1) of
            (Goto c, st') \<Rightarrow> adv env' i' g' t' (nd_id n) c st'
          | (Stop, st') \<Rightarrow> Some (Inr (), st')
          | (Throw e, st') \<Rightarrow> Some (Inl e, st'))) = Some y"
    show "Q env' i' g' t' fromId' cond' st1 y"
      unfolding Q_def
    proof (intro impI, elim conjE)
      assume same: "env' = env" "i' = i" "g' = g" "t' = t"
      show "P fromId' cond' st1 (fst y) (snd y)"
      proof (cases "next_node g' fromId' cond'")
        case None
        with body same done_ show ?thesis by auto
      next
        case (Some n)
        obtain out st2 where ex: "executeNode env' i' n t' (enter_node env' i' n st1) = (out, st2)"
          by (cases "executeNode env' i' n t' (enter_node env' i' n st1)")
        show ?thesis
        proof (cases out)
          case (Goto c)
          with body Some ex have "adv env' i' g' t' (nd_id n) c st2 = Some y" by simp
          from IH [OF this] same goto [of fromId' cond' n st1 c st2] Some ex Goto show ?thesis by (simp add: Q_def)
        next
          case Stop
          with body Some ex same stop [of fromId' cond' n st1 st2] show ?thesis by auto
        next
          case (Throw e)
          with body Some ex same throw [of fromId' cond' n st1 e st2] show ?thesis by auto
        qed
      qed
    qed
  qed
  then show ?thesis by (simp add: Q_def)
qed

subsection \<open>Dry runs\<close>

lemma dry_emit: "rn_ctx st = Some c \<Longrightarrow>
    emit env i e st = st\<lparr>rn_ctx := Some (c\<lparr>cx_events := cx_events c @ [e]\<rparr>)\<rparr>"
  by (simp add: emit_def)

text \<open>
  A node of a dry run leaves the database and the simulated ticket alone. It stops at the
  waiting nodes, which note where, and at an end, which is recorded as completion.
\<close>

lemma executeNode_dry:
  assumes "executeNode env i n t st = (r, st')" "rn_ctx st = Some c"
  shows "rn_db st' = rn_db st"
    and "\<exists>c'. rn_ctx st' = Some c' \<and> cx_ticket c' = cx_ticket c \<and>
      (r = Stop \<longrightarrow> cx_stopped c' \<noteq> None \<or> (\<exists>e\<in>set (cx_events c'). em_type e = ''instance_completed''))"
proof -
  have "rn_db st' = rn_db st \<and> (\<exists>c'. rn_ctx st' = Some c' \<and> cx_ticket c' = cx_ticket c \<and>
      (r = Stop \<longrightarrow> cx_stopped c' \<noteq> None \<or> (\<exists>e\<in>set (cx_events c'). em_type e = ''instance_completed'')))"
    using assms
    by (auto simp: executeNode_def Let_def exec_defs dry_emit push_path_def dry_run_def read_ticket_def
        set_stopped_def mk_event_def split: if_splits sum.splits)
  then show "rn_db st' = rn_db st"
    "\<exists>c'. rn_ctx st' = Some c' \<and> cx_ticket c' = cx_ticket c \<and>
      (r = Stop \<longrightarrow> cx_stopped c' \<noteq> None \<or> (\<exists>e\<in>set (cx_events c'). em_type e = ''instance_completed''))"
    by blast+
qed

lemma enter_node_dry [simp]: "rn_ctx st = Some c \<Longrightarrow> enter_node env i n st = st"
  by (simp add: enter_node_def dry_run_def)

lemma advance_dry:
  assumes "advance env i g t fromId cond st = Some (r, st')" "rn_ctx st = Some c"
  shows "rn_db st' = rn_db st \<and> (\<exists>c'. rn_ctx st' = Some c' \<and> cx_ticket c' = cx_ticket c)"
  using assms
proof (induction arbitrary: c rule: advance_induct)
  case (Goto fromId cond st n d st1 r st')
  from Goto.hyps(2) Goto.prems have ex: "executeNode env i n t st = (Goto d, st1)" by simp
  from executeNode_dry (2) [OF ex Goto.prems] obtain c1 where
    "rn_ctx st1 = Some c1" "cx_ticket c1 = cx_ticket c" by blast
  with Goto.IH [of c1] executeNode_dry (1) [OF ex Goto.prems] show ?case by simp
qed (use executeNode_dry in fastforce)+

subsection \<open>Simulation\<close>

lemma simulate_pure:
  assumes "simulate env workflowId ticket db = Some (r, db')"
  shows "db' = db"
proof -
  have "rn_db st' = db" if "advance env ''dry-run'' g ''dry-run'' k None \<lparr>rn_db = db, rn_ctx = Some c\<rparr> = Some (x, st')"
    for g k c x st'
    using advance_dry [OF that] by simp
  with assms show ?thesis
    by (auto simp: simulate_def split: option.splits sum.splits)
qed

subsection \<open>Walks that end\<close>

definition halting_types :: "string list" where
  "halting_types = [''approval'', ''wait_for'', ''timer'', ''end'']"

text \<open>Only a node that is neither waiting nor an end passes control on.\<close>

lemma executeNode_Goto:
  assumes "executeNode env i n t st = (Goto c, st')"
  shows "nd_type n \<notin> set halting_types"
  using assms
  by (auto simp: executeNode_def Let_def exec_defs halting_types_def
      split: if_splits sum.splits prod.splits option.splits)

lemma next_edge_in:
  "(if truthy cond then orElse (find P (e # es)) e else e) \<in> set (e # es)"
proof (cases "find P (e # es)")
  case (Some d)
  from find_SomeD [OF this] Some show ?thesis by simp
qed simp

lemma next_node_edge:
  assumes "next_node g fromId cond = Some n"
  shows "(fromId, nd_id n) \<in> edge_rel (g_edges g)"
    and "find (\<lambda>m. nd_id m = nd_id n) (g_nodes g) = Some n"
proof -
  from assms obtain e es d where out: "out_edges (g_edges g) fromId = e # es"
    and d: "d = (if truthy cond then orElse (find (\<lambda>d. ed_condition d = cond) (e # es)) e else e)"
    and n: "find (\<lambda>n. nd_id n = ed_to d) (g_nodes g) = Some n"
    by (auto simp: next_node_def Let_def split: list.splits)
  have "d \<in> set (e # es)" unfolding d by (rule next_edge_in)
  with out have "d \<in> set (out_edges (g_edges g) fromId)" by simp
  moreover from find_SomeD [OF n] have id: "nd_id n = ed_to d" by simp
  ultimately show "(fromId, nd_id n) \<in> edge_rel (g_edges g)" by (auto simp: edge_rel_out)
  from n id show "find (\<lambda>m. nd_id m = nd_id n) (g_nodes g) = Some n" by simp
qed

text \<open>The edges a walk can follow without stopping: those that leave a node that passes control on.\<close>

definition pass_rel :: "wf_graph \<Rightarrow> (string \<times> string) set" where
  "pass_rel g = {(a, b) \<in> edge_rel (g_edges g).
     \<exists>n. find (\<lambda>m. nd_id m = a) (g_nodes g) = Some n \<and> nd_type n \<notin> set halting_types}"

lemma advance_returns:
  assumes "acyclic (pass_rel g)"
  shows "\<exists>r st'. advance env i g t fromId cond st = Some (r, st')"
proof -
  have step: "\<exists>r st'. advance env i g t a cond st = Some (r, st')"
    if next_ok: "\<And>n c st1. next_node g a cond = Some n \<Longrightarrow>
        nd_type n \<notin> set halting_types \<Longrightarrow> \<exists>r st'. advance env i g t (nd_id n) c st1 = Some (r, st')"
    for a cond st
  proof (cases "next_node g a cond")
    case (Some n)
    obtain out st1 where ex: "executeNode env i n t (enter_node env i n st) = (out, st1)"
      by (cases "executeNode env i n t (enter_node env i n st)")
    with Some executeNode_Goto [of env i n t _ _ st1] next_ok [OF Some] show ?thesis
      by (cases out) (simp_all add: advance.simps [of env i g t a])
  qed (simp add: advance.simps [of env i g t a])
  have "finite (edge_rel (g_edges g))" by (simp add: edge_rel_def)
  then have "finite (pass_rel g)" by (rule rev_finite_subset) (auto simp: pass_rel_def)
  from finite_acyclic_wf_converse [OF this assms] have wf: "wf ((pass_rel g)\<inverse>)" .
  have passing: "(\<exists>n. find (\<lambda>m. nd_id m = a) (g_nodes g) = Some n \<and> nd_type n \<notin> set halting_types) \<longrightarrow>
      (\<forall>cond st. \<exists>r st'. advance env i g t a cond st = Some (r, st'))" for a
  proof (induction a rule: wf_induct_rule [OF wf])
    case (1 a)
    show ?case
    proof (intro impI allI)
      fix cond st
      assume pass: "\<exists>n. find (\<lambda>m. nd_id m = a) (g_nodes g) = Some n \<and> nd_type n \<notin> set halting_types"
      show "\<exists>r st'. advance env i g t a cond st = Some (r, st')"
      proof (rule step)
        fix n c st1
        assume n: "next_node g a cond = Some n" "nd_type n \<notin> set halting_types"
        with pass next_node_edge [OF n(1)] have "(nd_id n, a) \<in> (pass_rel g)\<inverse>" by (simp add: pass_rel_def)
        from 1 [OF this] next_node_edge (2) [OF n(1)] n(2)
        show "\<exists>r st'. advance env i g t (nd_id n) c st1 = Some (r, st')" by blast
      qed
    qed
  qed
  show ?thesis
  proof (rule step)
    fix n c st1
    assume "next_node g fromId cond = Some n" "nd_type n \<notin> set halting_types"
    with passing [of "nd_id n"] next_node_edge (2) show "\<exists>r st'. advance env i g t (nd_id n) c st1 = Some (r, st')"
      by blast
  qed
qed

subsection \<open>Validated graphs\<close>

lemma graph_specD:
  assumes "graph_spec g"
  shows "e \<in> set (g_edges g) \<Longrightarrow> \<exists>n\<in>set (g_nodes g). nd_id n = ed_to e"
    and "n \<in> set (g_nodes g) \<Longrightarrow> node_spec g n"
proof -
  from assms have *: "\<forall>e\<in>set (g_edges g). ed_from e \<in> nd_id ` set (g_nodes g) \<and> ed_to e \<in> nd_id ` set (g_nodes g)"
    "\<forall>n\<in>set (g_nodes g). node_spec g n"
    unfolding graph_spec_def by blast+
  from *(2) show "n \<in> set (g_nodes g) \<Longrightarrow> node_spec g n" by blast
  assume "e \<in> set (g_edges g)"
  with *(1) have "ed_to e \<in> nd_id ` set (g_nodes g)" by blast
  then show "\<exists>n\<in>set (g_nodes g). nd_id n = ed_to e" by auto
qed

lemma graph_spec_trigger:
  assumes "graph_spec g"
  obtains t where "find (\<lambda>n. nd_type n = ''trigger'') (g_nodes g) = Some t" "out_edges (g_edges g) (nd_id t) \<noteq> []"
proof -
  from assms obtain t where "nodes_of_type ''trigger'' g = [t]" unfolding graph_spec_def by blast
  then have "t \<in> set (filter (\<lambda>n. nd_type n = ''trigger'') (g_nodes g))" by (simp add: nodes_of_type_def)
  then obtain u where u: "find (\<lambda>n. nd_type n = ''trigger'') (g_nodes g) = Some u"
    by (cases "find (\<lambda>n. nd_type n = ''trigger'') (g_nodes g)") (auto simp: find_None_iff)
  from find_SomeD [OF u] graph_specD (2) [OF assms, of u] have "out_edges (g_edges g) (nd_id u) \<noteq> []"
    by (auto simp: node_spec_def Let_def)
  with u that show ?thesis by blast
qed

lemma next_node_spec:
  assumes "graph_spec g" "out_edges (g_edges g) a \<noteq> []"
  obtains n where "next_node g a cond = Some n" "n \<in> set (g_nodes g)"
proof -
  from assms(2) obtain e es where out: "out_edges (g_edges g) a = e # es" by (cases "out_edges (g_edges g) a") auto
  define d where "d = (if truthy cond then orElse (find (\<lambda>d. ed_condition d = cond) (e # es)) e else e)"
  have "d \<in> set (out_edges (g_edges g) a)"
    unfolding out d_def by (rule next_edge_in)
  then have "d \<in> set (g_edges g)" by (simp add: out_edges_def)
  from graph_specD (1) [OF assms(1) this] obtain m where "m \<in> set (g_nodes g)" "nd_id m = ed_to d" by blast
  then obtain n where n: "find (\<lambda>n. nd_id n = ed_to d) (g_nodes g) = Some n"
    by (cases "find (\<lambda>n. nd_id n = ed_to d) (g_nodes g)") (auto simp: find_None_iff)
  from out n have "next_node g a cond = Some n"
    unfolding next_node_def Let_def d_def by simp
  with that find_SomeD [OF n] show ?thesis by blast
qed

text \<open>A branch that the validator requires is the one that is taken.\<close>

lemma next_node_branch:
  assumes "graph_spec g" "has_branch (out_edges (g_edges g) a) b" "b \<noteq> []"
  shows "\<exists>e n. e \<in> set (g_edges g) \<and> ed_from e = a \<and> ed_condition e = Some b \<and>
    next_node g a (Some b) = Some n \<and> nd_id n = ed_to e"
proof -
  let ?out = "out_edges (g_edges g) a"
  from assms(2) have ne: "?out \<noteq> []" by (auto simp: has_branch_def)
  then obtain x xs where out: "?out = x # xs" by (cases ?out) auto
  from assms(2) have "find (\<lambda>d. ed_condition d = Some b) ?out \<noteq> None"
    unfolding find_None_iff has_branch_def by blast
  then obtain e where e: "find (\<lambda>d. ed_condition d = Some b) ?out = Some e" by blast
  from next_node_spec [OF assms(1) ne, of "Some b"] obtain n where n: "next_node g a (Some b) = Some n" by blast
  from n e out assms(3) have "find (\<lambda>n. nd_id n = ed_to e) (g_nodes g) = Some n"
    by (simp add: next_node_def Let_def del: find.simps)
  with find_SomeD [OF e] n show ?thesis
    by (auto simp: out_edges_def dest!: find_SomeD)
qed

lemma advance_dry_settles:
  assumes "advance env i g t fromId cond st = Some (r, st')"
    and "graph_spec g" "rn_ctx st = Some c" "out_edges (g_edges g) fromId \<noteq> []" "r = Inr ()"
  shows "\<exists>c'. rn_ctx st' = Some c' \<and>
    (cx_stopped c' \<noteq> None \<or> (\<exists>e\<in>set (cx_events c'). em_type e = ''instance_completed''))"
  using assms
proof (induction arbitrary: c rule: advance_induct)
  case (Done fromId cond st)
  from next_node_spec [OF Done.prems(1,3), of cond] Done.hyps show ?case by force
next
  case (Goto fromId cond st n d st1 r st')
  from Goto.hyps(2) Goto.prems(2) have ex: "executeNode env i n t st = (Goto d, st1)" by simp
  from executeNode_dry (2) [OF ex Goto.prems(2)] obtain c1 where c1: "rn_ctx st1 = Some c1" by blast
  have "n \<in> set (g_nodes g)" using next_node_edge (2) [OF Goto.hyps(1)] find_SomeD by metis
  with graph_specD (2) [OF Goto.prems(1)] executeNode_Goto [OF ex]
  have "out_edges (g_edges g) (nd_id n) \<noteq> []" by (force simp: node_spec_def Let_def halting_types_def)
  with Goto.IH [OF Goto.prems(1) c1] Goto.prems(4) show ?case by blast
next
  case (Stop fromId cond st n st')
  from Stop.hyps(2) Stop.prems(2) have "executeNode env i n t st = (Stop, st')" by simp
  from executeNode_dry (2) [OF this Stop.prems(2)] show ?case by blast
qed simp

text \<open>
  What can throw in a dry run of a valid definition: the validator asks for the texts of a condition and for the url, not
  for the headers and the body of an HTTP node. A header or a body that is neither falsy nor a string has no \<open>replace\<close>.
\<close>

definition text_value :: "jsval \<Rightarrow> bool" where
  "text_value v = (case v of JStr _ \<Rightarrow> True | _ \<Rightarrow> \<not> truthy_val v)"

definition http_texts :: "wf_node \<Rightarrow> bool" where
  "http_texts n \<longleftrightarrow> (nd_type n = ''http_request'' \<longrightarrow>
     list_all (\<lambda>(k, v). text_value v) (object_entries (or_default (config_get n ''headers'') (JObj []))) \<and>
     text_value (or_default (config_get n ''body'') (JStr [])))"

lemma substituteTemplate_settles [settle]: "(b \<Longrightarrow> text_value v) \<Longrightarrow> settles b (substituteTemplate h v vars)"
  by (cases v) (auto simp: substituteTemplate_def text_value_def)

lemma http_request_settles:
  assumes "validateNodeConfig n = Inr []" "nd_type n = ''http_request''"
  shows "settles (http_texts n) (http_request_of h n ticket)"
proof -
  from assms have "text_value (config_get n ''url'')"
    by (auto simp: validateNodeConfig_def Let_def req_def filled_string.simps text_value_def split: if_splits jsval.splits)
  with assms(2) show ?thesis
    unfolding http_request_of_def Let_def
    by (intro settle) (auto simp: http_texts_def list_all_iff intro!: settle)
qed

lemma executeNode_dry_throw:
  assumes "executeNode env i n t st = (Throw e, st')" "rn_ctx st = Some c" "validateNodeConfig n = Inr []"
  shows "e = type_error \<and> \<not> http_texts n"
proof (cases "nd_type n = ''http_request''")
  case True
  from assms(1) True obtain ticket where "http_request_of (en_host env) n ticket = Inl e"
    by (auto simp: executeNode_def Let_def exec_http_def split: sum.splits if_splits)
  with http_request_settles [OF assms(3) True, of "en_host env" ticket] show ?thesis by simp
next
  case False
  have "\<exists>s. config_get n ''field'' = JStr s" if "nd_type n = ''condition''"
    using assms(3) that by (auto simp: validateNodeConfig_def Let_def req_def split: if_splits jsval.splits)
  with assms(1,2) False show ?thesis
    by (auto simp: executeNode_def Let_def exec_defs dry_emit push_path_def dry_run_def read_ticket_def
        set_stopped_def mk_event_def split: if_splits)
qed

lemma advance_dry_throw:
  assumes "advance env i g t fromId cond st = Some (r, st')" "graph_spec g" "rn_ctx st = Some c" "r = Inl e"
  shows "e = type_error \<and> \<not> list_all http_texts (g_nodes g)"
  using assms
proof (induction arbitrary: c rule: advance_induct)
  case (Goto fromId cond st n d st1 r st')
  from Goto.hyps(2) Goto.prems(2) have ex: "executeNode env i n t st = (Goto d, st1)" by simp
  from executeNode_dry (2) [OF ex Goto.prems(2)] Goto.IH [OF Goto.prems(1) _ Goto.prems(3)] show ?case by blast
next
  case (Throw fromId cond st n e' st')
  from Throw.hyps(2) Throw.prems(2) have ex: "executeNode env i n t st = (Throw e', st')" by simp
  have n: "n \<in> set (g_nodes g)" using next_node_edge (2) [OF Throw.hyps(1)] find_SomeD by metis
  with graph_specD (2) [OF Throw.prems(1)] have "validateNodeConfig n = Inr []" by (simp add: node_spec_def Let_def)
  from executeNode_dry_throw [OF ex Throw.prems(2) this] n Throw.prems(3) show ?case by (auto simp: list_all_iff)
qed simp_all

subsection \<open>A run touches one instance\<close>

definition keeps_identity :: "(wf_instance \<Rightarrow> wf_instance) \<Rightarrow> bool" where
  "keeps_identity f \<longleftrightarrow> (\<forall>w. wi_id (f w) = wi_id w \<and> wi_tenant (f w) = wi_tenant w \<and> wi_kind (f w) = wi_kind w \<and>
     wi_case (f w) = wi_case w \<and> wi_work_order (f w) = wi_work_order w \<and> wi_booking (f w) = wi_booking w)"

definition new_approvals :: "string \<Rightarrow> string \<Rightarrow> wf_approval list \<Rightarrow> bool" where
  "new_approvals i tenant as \<longleftrightarrow>
     (\<forall>a\<in>set as. wa_tenant a = tenant \<and> wa_status a = ''pending'' \<and> wa_instance a \<in> {None, Some i})"

definition only_touches :: "string \<Rightarrow> string \<Rightarrow> wf_db \<Rightarrow> wf_db \<Rightarrow> bool" where
  "only_touches i tenant db db' \<longleftrightarrow>
     db_definitions db' = db_definitions db \<and> db_links db' = db_links db \<and> db_work_orders db' = db_work_orders db \<and>
     (\<exists>f. keeps_identity f \<and> db_instances db' = update_where (own_instance i tenant) f (db_instances db)) \<and>
     (\<exists>as. new_approvals i tenant as \<and> db_approvals db' = db_approvals db @ as)"

lemma only_touchesI:
  assumes "db_definitions db' = db_definitions db" "db_links db' = db_links db" "db_work_orders db' = db_work_orders db"
    "keeps_identity f" "db_instances db' = update_where (own_instance i tenant) f (db_instances db)"
    "new_approvals i tenant as" "db_approvals db' = db_approvals db @ as"
  shows "only_touches i tenant db db'"
  unfolding only_touches_def using assms by blast

lemma update_where_id [simp]: "update_where P (\<lambda>w. w) rows = rows"
  by (simp add: update_where_def)

lemma only_touches_same:
  assumes "db_definitions db' = db_definitions db" "db_links db' = db_links db" "db_work_orders db' = db_work_orders db"
    "db_instances db' = db_instances db" "db_approvals db' = db_approvals db"
  shows "only_touches i tenant db db'"
  using assms by (intro only_touchesI [where f = "\<lambda>w. w" and as = "[]"]) (simp_all add: keeps_identity_def new_approvals_def)

lemma only_touches_refl: "only_touches i tenant db db"
  by (rule only_touches_same) simp_all

lemma only_touches_trans:
  assumes "only_touches i tenant a b" "only_touches i tenant b c"
  shows "only_touches i tenant a c"
proof -
  from assms(1) obtain f as where f: "keeps_identity f" "db_instances b = update_where (own_instance i tenant) f (db_instances a)"
    "new_approvals i tenant as" "db_approvals b = db_approvals a @ as"
    unfolding only_touches_def by blast
  from assms(2) obtain h bs where h: "keeps_identity h" "db_instances c = update_where (own_instance i tenant) h (db_instances b)"
    "new_approvals i tenant bs" "db_approvals c = db_approvals b @ bs"
    unfolding only_touches_def by blast
  have "update_where (own_instance i tenant) h (update_where (own_instance i tenant) f xs) =
      update_where (own_instance i tenant) (h \<circ> f) xs" for xs
    using f(1) by (simp add: update_where_def keeps_identity_def own_instance_def)
  with f h assms show ?thesis
    by (intro only_touchesI [where f = "h \<circ> f" and as = "as @ bs"])
      (simp_all add: only_touches_def keeps_identity_def new_approvals_def ball_Un)
qed

lemma touches_emit: "only_touches i (en_tenant env) (rn_db st) (rn_db (emit env j e st))"
  by (rule only_touches_same) (simp_all add: emit_def emit_row_def split: option.splits)

lemma touches_push_path [simp]: "rn_db (push_path k st) = rn_db st"
  by (simp add: push_path_def)

lemma touches_set_stopped [simp]: "rn_db (set_stopped n r st) = rn_db st"
  by (simp add: set_stopped_def)

lemma touches_set_tickets: "only_touches i tenant (rn_db st) (rn_db (set_tickets st ts))"
  by (rule only_touches_same) (simp_all add: set_tickets_def)

lemma touches_set_instance:
  "keeps_identity f \<Longrightarrow> only_touches i (en_tenant env) (rn_db st) (rn_db (set_instance env i f st))"
  by (rule only_touchesI [where f = f and as = "[]"]) (simp_all add: set_instance_def new_approvals_def)

lemma touches_insert_approval:
  assumes "insert_approval env a st = (r, st')" "new_approvals i (en_tenant env) [a]"
  shows "only_touches i (en_tenant env) (rn_db st) (rn_db st')"
  using assms
  by (intro only_touchesI [where f = "\<lambda>w. w" and as = "case r of Inl e \<Rightarrow> [] | Inr _ \<Rightarrow> [a]"])
    (auto simp: insert_approval_def keeps_identity_def new_approvals_def split: if_splits)

lemma insert_approvers_Cons:
  assumes "insert_approvers env row (a # as) st = (r, st')"
  shows "st' = st \<or> (\<exists>p q r1 st1. insert_approval env (row p q) st = (r1, st1) \<and>
    (st' = st1 \<or> insert_approvers env row as st1 = (r, st')))"
  using assms by (auto simp: Let_def split: if_splits sum.splits prod.splits)

lemma touches_insert_approvers:
  assumes "insert_approvers env row as st = (r, st')" "\<And>p t. new_approvals i (en_tenant env) [row p t]"
  shows "only_touches i (en_tenant env) (rn_db st) (rn_db st')"
  using assms(1)
proof (induction as arbitrary: st)
  case Nil
  then show ?case by (simp add: only_touches_refl)
next
  case (Cons a as)
  from insert_approvers_Cons [OF Cons.prems] show ?case
  proof (elim disjE exE conjE)
    fix p q r1 st1
    assume ins: "insert_approval env (row p q) st = (r1, st1)" and "insert_approvers env row as st1 = (r, st')"
    from Cons.IH [OF this(2)] touches_insert_approval [OF ins assms(2)] show ?thesis by (blast intro: only_touches_trans)
  next
    fix p q r1 st1
    assume ins: "insert_approval env (row p q) st = (r1, st1)" and "st' = st1"
    with touches_insert_approval [OF ins assms(2)] show ?thesis by simp
  qed (simp add: only_touches_refl)
qed

lemma touches_create_approvals:
  assumes "create_approvals env i n t st = (r, st')"
  shows "only_touches i (en_tenant env) (rn_db st) (rn_db st')"
proof -
  have chain: "new_approvals i (en_tenant env) [chain_row env i n kind e p q]" for kind e p q
    by (simp add: new_approvals_def chain_row_def Let_def)
  have legacy: "new_approvals i (en_tenant env) [legacy_row env t p q]" for p q
    by (simp add: new_approvals_def legacy_row_def)
  have "only_touches i (en_tenant env) (rn_db st) (rn_db st')"
    if "insert_approvers env (chain_row env i n kind e) as st = (r, st')" for kind e as
    using touches_insert_approvers [OF that chain] .
  with assms touches_insert_approval [OF _ legacy] show ?thesis
    by (auto simp: create_approvals_def Let_def only_touches_refl simp del: insert_approvers.simps
        split: jsval.splits list.splits sum.splits)
qed

lemma touches_save_response: "only_touches i (en_tenant env) (rn_db st) (rn_db (save_response env i n url v st))"
  by (simp add: save_response_def Let_def only_touches_refl touches_set_instance touches_emit keeps_identity_def split: sum.split)

lemmas touches =
  only_touches_refl touches_emit touches_set_tickets touches_set_instance touches_save_response

lemma emit_after:
  assumes "only_touches i (en_tenant env) db (rn_db st)"
  shows "only_touches i (en_tenant env) db (rn_db (emit env j e st))"
  using assms touches_emit by (rule only_touches_trans)

lemma save_after:
  assumes "only_touches i (en_tenant env) db (rn_db st)"
  shows "only_touches i (en_tenant env) db (rn_db (save_response env i n url v st))"
  using assms touches_save_response by (rule only_touches_trans)

lemma exec_touches:
  "exec_assign env i n t st = (r, st') \<Longrightarrow> only_touches i (en_tenant env) (rn_db st) (rn_db st')"
  "exec_update_ticket env i n t st = (r, st') \<Longrightarrow> only_touches i (en_tenant env) (rn_db st) (rn_db st')"
  "exec_notification env i n t st = (r, st') \<Longrightarrow> only_touches i (en_tenant env) (rn_db st) (rn_db st')"
  "exec_condition env i n t st = (r, st') \<Longrightarrow> only_touches i (en_tenant env) (rn_db st) (rn_db st')"
  "exec_children env i n t st = (r, st') \<Longrightarrow> only_touches i (en_tenant env) (rn_db st) (rn_db st')"
  "exec_wait_for env i n st = (r, st') \<Longrightarrow> only_touches i (en_tenant env) (rn_db st) (rn_db st')"
  "exec_timer env i n st = (r, st') \<Longrightarrow> only_touches i (en_tenant env) (rn_db st) (rn_db st')"
  "exec_end env i n st = (r, st') \<Longrightarrow> only_touches i (en_tenant env) (rn_db st) (rn_db st')"
  "exec_http env i n t st = (r, st') \<Longrightarrow> only_touches i (en_tenant env) (rn_db st) (rn_db st')"
proof -
  show "exec_assign env i n t st = (r, st') \<Longrightarrow> only_touches i (en_tenant env) (rn_db st) (rn_db st')"
    by (auto simp: exec_assign_def Let_def touches split: if_splits sum.splits)
  show "exec_update_ticket env i n t st = (r, st') \<Longrightarrow> only_touches i (en_tenant env) (rn_db st) (rn_db st')"
    by (auto simp: exec_update_ticket_def Let_def touches split: if_splits sum.splits)
  show "exec_notification env i n t st = (r, st') \<Longrightarrow> only_touches i (en_tenant env) (rn_db st) (rn_db st')"
    by (auto simp: exec_notification_def touches only_touches_same split: if_splits)
  show "exec_condition env i n t st = (r, st') \<Longrightarrow> only_touches i (en_tenant env) (rn_db st) (rn_db st')"
    by (auto simp: exec_condition_def Let_def touches split: option.splits sum.splits)
  show "exec_children env i n t st = (r, st') \<Longrightarrow> only_touches i (en_tenant env) (rn_db st) (rn_db st')"
    by (auto simp: exec_children_def Let_def touches keeps_identity_def intro!: emit_after
        split: if_splits jsval.splits sum.splits option.splits)
  show "exec_wait_for env i n st = (r, st') \<Longrightarrow> only_touches i (en_tenant env) (rn_db st) (rn_db st')"
    by (auto simp: exec_wait_for_def Let_def set_waiting_def touches keeps_identity_def intro!: emit_after split: if_splits)
  show "exec_timer env i n st = (r, st') \<Longrightarrow> only_touches i (en_tenant env) (rn_db st) (rn_db st')"
    by (auto simp: exec_timer_def Let_def touches keeps_identity_def intro!: emit_after split: if_splits sum.splits)
  show "exec_end env i n st = (r, st') \<Longrightarrow> only_touches i (en_tenant env) (rn_db st) (rn_db st')"
    by (auto simp: exec_end_def touches keeps_identity_def intro!: emit_after split: if_splits)
  show "exec_http env i n t st = (r, st') \<Longrightarrow> only_touches i (en_tenant env) (rn_db st) (rn_db st')"
    by (auto simp: exec_http_def Let_def touches intro!: emit_after save_after split: if_splits sum.splits)
qed

lemma exec_approval_touches:
  assumes "exec_approval env i n t st = (r, st')"
  shows "only_touches i (en_tenant env) (rn_db st) (rn_db st')"
proof (cases "dry_run st")
  case True
  with assms show ?thesis by (auto simp: exec_approval_def Let_def touches intro!: emit_after)
next
  case False
  obtain r1 st1 where c: "create_approvals env i n t st = (r1, st1)" by fastforce
  have "only_touches i (en_tenant env) (rn_db st1) (rn_db (set_waiting env i (JStr ''approval'') st1))"
    by (simp add: set_waiting_def touches_set_instance keeps_identity_def)
  with touches_create_approvals [OF c] have
    "only_touches i (en_tenant env) (rn_db st) (rn_db (set_waiting env i (JStr ''approval'') st1))"
    by (rule only_touches_trans)
  with assms False c touches_create_approvals [OF c] show ?thesis
    by (auto simp: exec_approval_def Let_def intro!: emit_after split: sum.splits)
qed

lemma executeNode_touches:
  assumes "executeNode env i n t st = (r, st')"
  shows "only_touches i (en_tenant env) (rn_db st) (rn_db st')"
proof -
  define st1 where "st1 = push_path (nd_id n) (emit env i (mk_event ''node_entered'' n []) st)"
  have "only_touches i (en_tenant env) (rn_db st1) (rn_db st')"
    using assms
    by (auto simp: executeNode_def st1_def [symmetric] Let_def only_touches_refl
        intro: exec_touches exec_approval_touches split: if_splits)
  moreover have "only_touches i (en_tenant env) (rn_db st) (rn_db st1)" by (simp add: st1_def touches_emit)
  ultimately show ?thesis by (blast intro: only_touches_trans)
qed

lemma enter_node_touches: "only_touches i (en_tenant env) (rn_db st) (rn_db (enter_node env i n st))"
  by (simp add: enter_node_def only_touches_refl touches_set_instance keeps_identity_def)

lemma advance_touches:
  assumes "advance env i g t fromId cond st = Some (r, st')"
  shows "only_touches i (en_tenant env) (rn_db st) (rn_db st')"
  using assms
  by (induction rule: advance_induct)
    (blast intro: only_touches_refl only_touches_trans enter_node_touches executeNode_touches)+

subsection \<open>Properties\<close>

definition ex_wf_env :: wf_env where
  "ex_wf_env =
     \<lparr>en_tenant = ''T'', en_now = 7, en_uuid = ''u'', en_instance_id = ''i'', en_tenants = [''T''],
      en_host = \<lparr>date_parse = (\<lambda>_. None), str_num = (\<lambda>_. None), num_str = (\<lambda>_. [])\<rparr>,
      en_iso = (\<lambda>_. None), en_json_parse = (\<lambda>_. None), en_assign = (\<lambda>_ _ _ ts. Inr ts),
      en_update = (\<lambda>_ _ _ ts. Inr ts), en_timers = (\<lambda>_ _. Inr JNull), en_dispatch = (\<lambda>_ _ _. None),
      en_fetch = (\<lambda>_. Inl []), en_rows = (\<lambda>_. [(''p1'', ''T''), (''p2'', ''T'')]), en_is_uuid = (\<lambda>_. True),
      en_approval_refused = (\<lambda>_. False)\<rparr>"

definition ex_wf_db :: "wf_definition list \<Rightarrow> wf_db" where
  "ex_wf_db defs = \<lparr>db_definitions = defs, db_instances = [], db_approvals = [], db_notifications = [], db_events = [],
     db_tickets = [], db_work_orders = [], db_links = []\<rparr>"

text \<open>
  A simulation writes nothing: whatever the graph, the ticket and the outcome, error or not, the
  database after a dry run is the database before it.
\<close>

theorem simulation_writes_nothing:
  assumes "simulate env workflowId ticket db = Some (r, db')"
  shows "db' = db"
  using assms by (rule simulate_pure)

theorem simulation_writes_nothing_witness:
  "\<exists>r. simulate ex_wf_env ''d'' [(''status'', JStr ''open'')] (ex_wf_db ex_defs) = Some (r, ex_wf_db ex_defs)"
proof -
  have "map_option fst (simulate ex_wf_env ''d'' [(''status'', JStr ''open'')] (ex_wf_db ex_defs)) \<noteq> None" by code_simp
  then obtain r db' where s: "simulate ex_wf_env ''d'' [(''status'', JStr ''open'')] (ex_wf_db ex_defs) = Some (r, db')" by auto
  from simulation_writes_nothing [OF s] s show ?thesis by blast
qed

text \<open>
  C9. When the nodes that pass control on form no cycle, the simulation of a valid definition returns,
  writes nothing, and has either reached an end or says at which waiting node it stopped. There is one exception: an
  HTTP node whose headers or body hold something else than texts, which the validator lets through, can make it throw a
  \<open>TypeError\<close>; nothing else throws.
\<close>

theorem simulation_settles:
  assumes "filter (\<lambda>d. wd_id d = workflowId \<and> wd_tenant d = en_tenant env) (db_definitions db) = [d]"
    and "graph_spec (wd_graph d)" "acyclic (pass_rel (wd_graph d))"
  shows "\<exists>r. simulate env workflowId ticket db = Some (r, db) \<and>
    ((\<exists>s. r = Inr s \<and> sr_errors s = [] \<and> (sr_terminated s \<or> sr_stopped s \<noteq> None)) \<or>
     r = Inl type_error \<and> \<not> list_all http_texts (g_nodes (wd_graph d)))"
proof -
  let ?g = "wd_graph d" and ?c = "\<lparr>cx_ticket = ticket, cx_events = [], cx_path = [], cx_stopped = None\<rparr>"
  obtain t where t: "find (\<lambda>n. nd_type n = ''trigger'') (g_nodes ?g) = Some t" "out_edges (g_edges ?g) (nd_id t) \<noteq> []"
    using graph_spec_trigger [OF assms(2)] .
  obtain r st' where adv: "advance env ''dry-run'' ?g ''dry-run'' (nd_id t) None \<lparr>rn_db = db, rn_ctx = Some ?c\<rparr> = Some (r, st')"
    using advance_returns [OF assms(3)] by blast
  from advance_dry [OF adv, of ?c] obtain c' where c': "rn_db st' = db" "rn_ctx st' = Some c'" by auto
  show ?thesis
  proof (cases r)
    case (Inl e)
    with advance_dry_throw [OF adv assms(2), of ?c e] assms(1) t adv c' show ?thesis by (simp add: simulate_def)
  next
    case (Inr u)
    with advance_dry_settles [OF adv assms(2), of ?c] t(2) c'(2)
    have "cx_stopped c' \<noteq> None \<or> (\<exists>e\<in>set (cx_events c'). em_type e = ''instance_completed'')" by simp
    with Inr assms(1) t adv c' show ?thesis by (auto simp: simulate_def)
  qed
qed

lemma ex_line_acyclic: "acyclic (pass_rel ex_line)"
proof (rule acyclicI_order [where f = "\<lambda>i. if i = ''t'' then 2 else if i = ''c'' then 1 else (0 :: nat)"])
  fix a b assume "(a, b) \<in> pass_rel ex_line"
  then show "(if b = ''t'' then 2 else if b = ''c'' then 1 else (0 :: nat)) < (if a = ''t'' then 2 else if a = ''c'' then 1 else 0)"
    by (auto simp: pass_rel_def edge_rel_def ex_line_def halting_types_def)
qed

theorem simulation_settles_witness:
  "\<exists>s. simulate ex_wf_env ''d'' [(''status'', JStr ''open'')] (ex_wf_db ex_defs) = Some (Inr s, ex_wf_db ex_defs) \<and>
     sr_errors s = [] \<and> (sr_terminated s \<or> sr_stopped s \<noteq> None)"
proof -
  have d: "filter (\<lambda>d. wd_id d = ''d'' \<and> wd_tenant d = en_tenant ex_wf_env) (db_definitions (ex_wf_db ex_defs)) = [hd ex_defs]"
    "wd_graph (hd ex_defs) = ex_line" "list_all http_texts (g_nodes ex_line)" by code_simp+
  then have "graph_spec (wd_graph (hd ex_defs))" "acyclic (pass_rel (wd_graph (hd ex_defs)))"
    by (simp_all add: ex_line_valid ex_line_acyclic)
  from simulation_settles [OF d(1) this, of "[(''status'', JStr ''open'')]"] d(2,3) show ?thesis by auto
qed

text \<open>A valid definition whose simulation throws: the body of its HTTP node is a number.\<close>

definition ex_http_graph :: wf_graph where
  "ex_http_graph = \<lparr>g_nodes = [\<lparr>nd_id = ''t'', nd_type = ''trigger'', nd_config = []\<rparr>,
       \<lparr>nd_id = ''h'', nd_type = ''http_request'', nd_config = [(''url'', JStr ''https://x''), (''method'', JStr ''POST''), (''body'', JNum 1)]\<rparr>,
       \<lparr>nd_id = ''e'', nd_type = ''end'', nd_config = []\<rparr>],
     g_edges = [\<lparr>ed_from = ''t'', ed_to = ''h'', ed_condition = None\<rparr>, \<lparr>ed_from = ''h'', ed_to = ''e'', ed_condition = None\<rparr>]\<rparr>"

lemma valid_http_throws:
  "\<exists>r. validate_workflow ex_http_graph = Inr r \<and> vr_ok r"
  "map_option fst (simulate ex_wf_env ''d'' [] (ex_wf_db [(hd ex_defs)\<lparr>wd_graph := ex_http_graph\<rparr>])) = Some (Inl type_error)"
proof -
  have "(case validate_workflow ex_http_graph of Inl _ \<Rightarrow> False | Inr r \<Rightarrow> vr_ok r)" by code_simp
  then show "\<exists>r. validate_workflow ex_http_graph = Inr r \<and> vr_ok r" by (auto split: sum.splits)
qed code_simp

text \<open>A condition whose true branch leads back to itself.\<close>

definition ex_loop :: wf_graph where
  "ex_loop = ex_line\<lparr>g_nodes := filter (\<lambda>n. nd_id n \<noteq> ''w'') (g_nodes ex_line),
     g_edges := [\<lparr>ed_from = ''t'', ed_to = ''c'', ed_condition = None\<rparr>,
        \<lparr>ed_from = ''c'', ed_to = ''c'', ed_condition = Some ''true''\<rparr>,
        \<lparr>ed_from = ''c'', ed_to = ''e'', ed_condition = Some ''false''\<rparr>]\<rparr>"

lemma ex_loop_next:
  "next_node ex_loop ''t'' None = Some (g_nodes ex_loop ! 1)" "next_node ex_loop ''c'' (Some ''true'') = Some (g_nodes ex_loop ! 1)"
  by code_simp+

lemma ex_loop_node:
  assumes "rn_ctx st = Some c" "obj_get (cx_ticket c) ''status'' = JStr ''open''"
  shows "\<exists>st1. executeNode env i (g_nodes ex_loop ! 1) t (enter_node env i (g_nodes ex_loop ! 1) st) = (Goto (Some ''true''), st1)"
  using assms
  by (simp add: executeNode_def Let_def exec_condition_def read_ticket_def ex_loop_def ex_line_def config_get_def
      decide_def dry_emit push_path_def)

lemma ex_loop_endless:
  assumes "advance env i ex_loop t fromId cond st = Some (r, st')"
    and "(fromId, cond) \<in> {(''t'', None), (''c'', Some ''true'')}" "rn_ctx st = Some c"
      "obj_get (cx_ticket c) ''status'' = JStr ''open''"
  shows False
  using assms
proof (induction arbitrary: c rule: advance_induct)
  case (Done fromId cond st)
  with ex_loop_next show ?case by auto
next
  case (Goto fromId cond st n b st1 r st')
  have n: "n = g_nodes ex_loop ! 1" using Goto.hyps(1) Goto.prems(1) ex_loop_next by auto
  obtain st2 where "executeNode env i n t (enter_node env i n st) = (Goto (Some ''true''), st2)"
    unfolding n using ex_loop_node [OF Goto.prems(2,3)] by blast
  with Goto.hyps(2) have b: "b = Some ''true''" by simp
  from Goto.hyps(2) Goto.prems(2) have "executeNode env i n t st = (Goto b, st1)" by simp
  from executeNode_dry (2) [OF this Goto.prems(2)] obtain c1 where "rn_ctx st1 = Some c1" "cx_ticket c1 = cx_ticket c"
    by auto
  moreover have "nd_id n = ''c''" unfolding n by code_simp
  ultimately show ?case using Goto.IH [of c1] Goto.prems(3) b by simp
next
  case (Stop fromId cond st n st')
  with ex_loop_next ex_loop_node [OF Stop.prems(2,3), of env i t] show ?case by auto
next
  case (Throw fromId cond st n e st')
  with ex_loop_next ex_loop_node [OF Throw.prems(2,3), of env i t] show ?case by auto
qed

text \<open>
  C33. A valid definition can loop for ever: the validator accepts a condition whose true branch leads
  back to it, and on a ticket that satisfies the condition the simulation does not return.
\<close>

theorem valid_loop_never_returns:
  assumes "obj_get ticket ''status'' = JStr ''open''"
    and "filter (\<lambda>d. wd_id d = workflowId \<and> wd_tenant d = en_tenant env) (db_definitions db) = [d]" "wd_graph d = ex_loop"
  shows "(\<exists>r. validate_workflow (wd_graph d) = Inr r \<and> vr_ok r) \<and> simulate env workflowId ticket db = None"
proof -
  have trigger: "find (\<lambda>n. nd_type n = ''trigger'') (g_nodes ex_loop) = Some \<lparr>nd_id = ''t'', nd_type = ''trigger'', nd_config = []\<rparr>"
    by code_simp
  have "advance env ''dry-run'' ex_loop ''dry-run'' ''t'' None
      \<lparr>rn_db = db, rn_ctx = Some \<lparr>cx_ticket = ticket, cx_events = [], cx_path = [], cx_stopped = None\<rparr>\<rparr> \<noteq> Some x" for x
    using ex_loop_endless [of env "''dry-run''" "''dry-run''" "''t''" None _ "fst x" "snd x"] assms(1) by fastforce
  moreover have "(case validate_workflow ex_loop of Inl _ \<Rightarrow> False | Inr r \<Rightarrow> vr_ok r)" by code_simp
  ultimately show ?thesis using assms(2,3) trigger by (auto simp: simulate_def split: sum.splits option.splits)
qed

definition ex_loop_defs :: "wf_definition list" where
  "ex_loop_defs = run_all run_def [CreateDef (ex_def_env ''d'') ''flow'' None (Some ex_loop), Publish (ex_def_env []) ''d''] []"

theorem valid_loop_never_returns_witness:
  "wd_status (hd ex_loop_defs) = DefPublished \<and>
   simulate ex_wf_env ''d'' [(''status'', JStr ''open'')] (ex_wf_db ex_loop_defs) = None"
proof -
  have "filter (\<lambda>d. wd_id d = ''d'' \<and> wd_tenant d = en_tenant ex_wf_env) (db_definitions (ex_wf_db ex_loop_defs)) = [hd ex_loop_defs]"
    "wd_graph (hd ex_loop_defs) = ex_loop" "wd_status (hd ex_loop_defs) = DefPublished"
    "obj_get [(''status'', JStr ''open'')] ''status'' = JStr ''open''" by code_simp+
  with valid_loop_never_returns [of "[(''status'', JStr ''open'')]" "''d''" ex_wf_env "ex_wf_db ex_loop_defs"] show ?thesis by simp
qed

text \<open>
  The branch that a condition decides is the branch that is taken: in a valid graph a condition
  node that lets the walk go on does so with true or false, and the next node is the target of
  an edge that leaves the node under that label.
\<close>

theorem condition_takes_its_branch:
  assumes "graph_spec g" "n \<in> set (g_nodes g)" "nd_type n = ''condition''"
    and "executeNode env i n t st = (Goto c, st')"
  shows "\<exists>b e m. c = Some b \<and> b \<in> {''true'', ''false''} \<and> e \<in> set (g_edges g) \<and> ed_from e = nd_id n \<and>
    ed_condition e = Some b \<and> next_node g (nd_id n) c = Some m \<and> nd_id m = ed_to e"
proof -
  from assms(3,4) obtain b where b: "c = Some b" "b \<in> {''true'', ''false''}"
    by (auto simp: executeNode_def Let_def exec_condition_def split: option.splits sum.splits if_splits)
  from graph_specD (2) [OF assms(1,2)] assms(3) b(2) have "has_branch (out_edges (g_edges g) (nd_id n)) b"
    by (auto simp: node_spec_def Let_def)
  from next_node_branch [OF assms(1) this] b show ?thesis by auto
qed

theorem condition_takes_its_branch_witness:
  "\<exists>c m. fst (executeNode ex_wf_env ''i'' (g_nodes ex_line ! 1) ''x'' \<lparr>rn_db = ex_wf_db [], rn_ctx = Some \<lparr>cx_ticket = [],
     cx_events = [], cx_path = [], cx_stopped = None\<rparr>\<rparr>) = Goto c \<and> next_node ex_line ''c'' c = Some m"
proof -
  let ?st = "\<lparr>rn_db = ex_wf_db [], rn_ctx = Some \<lparr>cx_ticket = [], cx_events = [], cx_path = [], cx_stopped = None\<rparr>\<rparr>"
  have n: "g_nodes ex_line ! 1 \<in> set (g_nodes ex_line)" "nd_type (g_nodes ex_line ! 1) = ''condition''" "nd_id (g_nodes ex_line ! 1) = ''c''"
    by code_simp+
  have "fst (executeNode ex_wf_env ''i'' (g_nodes ex_line ! 1) ''x'' ?st) = Goto (Some ''false'')" by code_simp
  then obtain st' where ex: "executeNode ex_wf_env ''i'' (g_nodes ex_line ! 1) ''x'' ?st = (Goto (Some ''false''), st')"
    by (cases "executeNode ex_wf_env ''i'' (g_nodes ex_line ! 1) ''x'' ?st") simp
  from condition_takes_its_branch [OF ex_line_valid n(1,2) ex] n(3) ex show ?thesis by auto
qed

end
