(* ===== verification/Workflow_Life.thy ===== *)
theory Workflow_Life
  imports Workflow_Runs
begin

section \<open>The life of workflow instances\<close>

text \<open>
  Starts, resumptions and cancellations in any order. Two things hold along every such sequence: no
  entity has two live instances, and an instance that has completed, failed or been cancelled
  keeps its outcome. The last part shows what becomes of a resumption that throws.
\<close>

subsection \<open>Operations\<close>

datatype wf_op =
    StartWorkflow wf_env string entity_kind string
  | ResumeWorkflow wf_env string string "string option"
  | CancelEntity cancel_env entity_kind string string string
  | CancelBooking cancel_env bool string string string

text \<open>\<open>None\<close> is the state after an operation that did not return.\<close>

fun run_wf :: "wf_op \<Rightarrow> wf_db option \<Rightarrow> wf_db option" where
  "run_wf x None = None"
| "run_wf (StartWorkflow env defId kind entityId) (Some db) = map_option snd (start_workflow env defId kind entityId db)"
| "run_wf (ResumeWorkflow env i tenant cond) (Some db) = map_option snd (resume env i tenant cond db)"
| "run_wf (CancelEntity env kind entityId tenant reason) (Some db) =
     map_option snd (cancelInstance env kind entityId tenant reason db)"
| "run_wf (CancelBooking env fails bookingId tenant reason) (Some db) =
     map_option snd (cancelInstanceForBooking env fails bookingId tenant reason db)"

definition inst_inv :: "wf_db \<Rightarrow> bool" where
  "inst_inv db \<longleftrightarrow> distinct (map wi_id (db_instances db)) \<and>
     (\<forall>v\<in>set (db_instances db). \<forall>w\<in>set (db_instances db). v \<noteq> w \<longrightarrow> \<not> same_live_entity v w)"

definition inst_outcome :: "wf_instance \<Rightarrow> string \<times> string \<times> inst_status \<times> string \<times> (string \<times> jsval) list \<times> int option" where
  "inst_outcome w = (wi_id w, wi_tenant w, wi_status w, wi_node w, wi_context w, wi_completed_at w)"

definition settled_kept :: "wf_db \<Rightarrow> wf_db \<Rightarrow> bool" where
  "settled_kept db db' \<longleftrightarrow>
     (\<forall>w\<in>set (db_instances db). \<not> live_status (wi_status w) \<longrightarrow> inst_outcome w \<in> inst_outcome ` set (db_instances db'))"

subsection \<open>Steps that change instances in place\<close>

text \<open>
  One row before and after: the identity stays, an entity column can only be emptied, a live row
  may take any status, a settled one keeps its outcome.
\<close>

definition ages :: "wf_instance \<Rightarrow> wf_instance \<Rightarrow> bool" where
  "ages w w' \<longleftrightarrow> wi_id w' = wi_id w \<and> wi_tenant w' = wi_tenant w \<and> wi_kind w' = wi_kind w \<and>
     (\<forall>k. kind_id k w' = kind_id k w \<or> kind_id k w' = None) \<and>
     (\<not> live_status (wi_status w) \<longrightarrow> inst_outcome w' = inst_outcome w)"

definition aged :: "wf_db \<Rightarrow> wf_db \<Rightarrow> bool" where
  "aged db db' \<longleftrightarrow> list_all2 ages (db_instances db) (db_instances db')"

lemma ages_refl: "ages w w"
  by (simp add: ages_def)

lemma ages_trans:
  assumes "ages u v" "ages v w"
  shows "ages u w"
proof -
  have "kind_id k w = kind_id k u \<or> kind_id k w = None" for k
    using assms unfolding ages_def by metis
  moreover have "inst_outcome w = inst_outcome u" if "\<not> live_status (wi_status u)"
    using assms that by (auto simp: ages_def inst_outcome_def)
  ultimately show ?thesis using assms by (simp add: ages_def)
qed

lemma aged_refl: "aged db db"
  by (simp add: aged_def list.rel_refl ages_refl)

lemma aged_trans: "aged a b \<Longrightarrow> aged b c \<Longrightarrow> aged a c"
  unfolding aged_def by (rule list_all2_trans [OF ages_trans])

lemma aged_same: "db_instances db' = db_instances db \<Longrightarrow> aged db db'"
  by (simp add: aged_def list.rel_refl ages_refl)

lemma aged_update:
  assumes "db_instances db' = update_where P f (db_instances db)"
    "\<And>w. w \<in> set (db_instances db) \<Longrightarrow> P w \<Longrightarrow> ages w (f w)"
  shows "aged db db'"
  using assms unfolding aged_def update_where_def
  by (auto simp: list_all2_conv_all_nth ages_refl)

lemma same_live_ages:
  assumes "ages v v'" "ages w w'" "same_live_entity v' w'"
  shows "same_live_entity v w"
proof -
  from assms(3) have live': "live_status (wi_status v')" "live_status (wi_status w')" by (simp_all add: same_live_entity_def)
  with assms(1,2) have live: "live_status (wi_status v)" "live_status (wi_status w)"
    by (auto simp: ages_def inst_outcome_def)
  from assms(3) obtain k where k: "wi_kind v' = Some k" "wi_kind w' = Some k" "kind_id k v' \<noteq> None" "kind_id k v' = kind_id k w'"
    unfolding same_live_entity_def by blast
  with assms(1,2) have "kind_id k v = kind_id k v'" "kind_id k w = kind_id k w'" "wi_kind v = Some k" "wi_kind w = Some k"
    unfolding ages_def by metis+
  with k live assms show ?thesis unfolding same_live_entity_def ages_def by (cases k) auto
qed

lemma aged_inv:
  assumes "aged db db'" "inst_inv db"
  shows "inst_inv db'"
proof -
  let ?xs = "db_instances db" and ?ys = "db_instances db'"
  have len: "length ?ys = length ?xs" and nth: "\<And>k. k < length ?xs \<Longrightarrow> ages (?xs ! k) (?ys ! k)"
    using assms(1) by (auto simp: aged_def list_all2_conv_all_nth)
  have "map wi_id ?ys = map wi_id ?xs"
    by (rule nth_equalityI) (use len nth in \<open>auto simp: ages_def\<close>)
  moreover have "\<not> same_live_entity v w" if vw: "v \<in> set ?ys" "w \<in> set ?ys" "v \<noteq> w" for v w
  proof -
    from vw obtain j k where jk: "j < length ?xs" "?ys ! j = v" "k < length ?xs" "?ys ! k = w" "j \<noteq> k"
      using len by (metis in_set_conv_nth)
    with assms(2) have "?xs ! j \<noteq> ?xs ! k"
      unfolding inst_inv_def by (metis distinct_map nth_eq_iff_index_eq)
    with assms(2) jk have "\<not> same_live_entity (?xs ! j) (?xs ! k)" unfolding inst_inv_def by (metis nth_mem)
    with same_live_ages [OF nth [OF jk(1)] nth [OF jk(3)]] jk show ?thesis by blast
  qed
  ultimately show ?thesis using assms(2) by (simp add: inst_inv_def)
qed

lemma aged_settled:
  assumes "aged db db'"
  shows "settled_kept db db'"
  unfolding settled_kept_def
proof (intro ballI impI)
  fix w assume "w \<in> set (db_instances db)" "\<not> live_status (wi_status w)"
  then obtain k where "k < length (db_instances db)" "db_instances db ! k = w" by (metis in_set_conv_nth)
  with assms \<open>\<not> live_status (wi_status w)\<close> have "k < length (db_instances db')" "inst_outcome (db_instances db' ! k) = inst_outcome w"
    by (auto simp: aged_def list_all2_conv_all_nth ages_def)
  then show "inst_outcome w \<in> inst_outcome ` set (db_instances db')" by (metis image_eqI nth_mem)
qed

subsection \<open>Cancellation ages\<close>

interpretation ageing: cascade_rel aged env for env
proof
  show "aged db db'" if "cancel_with_approvals i tenant reason db = ((True, k), db')" for i tenant reason db k db'
  proof (rule aged_update)
    from that show "db_instances db' = update_where (live_instance i tenant)
        (\<lambda>v. v\<lparr>wi_status := InstCancelled, wi_cancelled_reason := Some reason\<rparr>) (db_instances db)"
      by (auto simp: cancel_with_approvals_def Let_def split: option.splits)
    fix w assume "live_instance i tenant w"
    then show "ages w (w\<lparr>wi_status := InstCancelled, wi_cancelled_reason := Some reason\<rparr>)"
      by (auto simp: ages_def live_instance_def elim!: kind_id.elims)
  qed
  show "aged db (booking_deleted b db)" for db b
    by (rule aged_update [where P = "\<lambda>w. wi_booking w = Some b" and f = "\<lambda>w. w\<lparr>wi_booking := None\<rparr>"])
      (auto simp: booking_deleted_def ages_def inst_outcome_def elim!: kind_id.elims)
  show "aged db (resolveLinkRow env l parent tenant db)" for env l parent tenant db
    by (rule aged_same) (simp add: resolveLinkRow_def link_pending_def emit_link_def)
qed (auto simp: aged_refl link_pending_def emit_link_def intro: aged_trans aged_same)

lemma cancel_each_aged: "cancel_each env tenant reason is db = Some db' \<Longrightarrow> aged db db'"
proof (induction "is" arbitrary: db)
  case (Cons i "is")
  then obtain r db1 where "cancel_root env i tenant reason db = Some (r, db1)" "cancel_each env tenant reason is db1 = Some db'"
    by (auto split: option.splits)
  with Cons.IH ageing.R_root show ?case by (blast intro: aged_trans)
qed (simp add: aged_refl)

lemma cancel_aged:
  "cancelInstance env kind entityId tenant reason db = Some (r, db') \<Longrightarrow> aged db db'"
  "cancelInstanceForBooking env fails bookingId tenant reason db = Some (r, db') \<Longrightarrow> aged db db'"
  by (auto simp: cancelInstance_def cancelInstanceForBooking_def aged_refl split: option.splits if_splits
      dest: ageing.R_root cancel_each_aged)

subsection \<open>Runs age\<close>

lemma touched_aged:
  assumes "only_touches i tenant db db'"
    "\<And>w. w \<in> set (db_instances db) \<Longrightarrow> own_instance i tenant w \<Longrightarrow> live_status (wi_status w)"
  shows "aged db db'"
proof -
  from assms(1) obtain f where f: "keeps_identity f" "db_instances db' = update_where (own_instance i tenant) f (db_instances db)"
    unfolding only_touches_def by blast
  have "kind_id k (f w) = kind_id k w" for k w using f(1) by (cases k) (simp_all add: keeps_identity_def)
  with f assms(2) show ?thesis
    by (intro aged_update [OF f(2)]) (simp add: ages_def keeps_identity_def)
qed

lemma live_row:
  assumes "inst_inv db" "w \<in> set (db_instances db)" "live_status (wi_status w)" "v \<in> set (db_instances db)"
    "own_instance (wi_id w) tenant v"
  shows "live_status (wi_status v)"
  using assms key_inj [of wi_id "db_instances db" v w] by (simp add: inst_inv_def own_instance_def)

lemma advance_aged:
  assumes "advance env (wi_id w) g t fromId cond st = Some (r, st')" "inst_inv (rn_db st)"
    "w \<in> set (db_instances (rn_db st))" "live_status (wi_status w)"
  shows "aged (rn_db st) (rn_db st')"
  using advance_touches [OF assms(1)] live_row [OF assms(2-4)] by (blast intro: touched_aged)

subsection \<open>Starting and resuming\<close>

lemma insert_instance_inv:
  assumes "insert_instance fallback row db = Inr (w, db')" "inst_inv db"
  shows "inst_inv db'" "settled_kept db db'" "w \<in> set (db_instances db')" "wi_id w = wi_id row" "wi_status w = wi_status row"
proof -
  from assms(1) have w: "w = derive_entity db row" and db': "db_instances db' = db_instances db @ [w]"
    and fresh: "wi_id w \<notin> wi_id ` set (db_instances db)" "\<forall>v\<in>set (db_instances db). \<not> same_live_entity v w"
    by (auto simp: insert_instance_def Let_def split: if_splits)
  have sym: "same_live_entity u v \<Longrightarrow> same_live_entity v u" for u v
    unfolding same_live_entity_def by metis
  with assms(2) fresh show "inst_inv db'" unfolding inst_inv_def db' by auto
  show "settled_kept db db'" by (auto simp: settled_kept_def db')
  show "w \<in> set (db_instances db')" by (simp add: db')
  show "wi_id w = wi_id row" "wi_status w = wi_status row"
    by (auto simp: w derive_entity_def split: option.splits if_splits)
qed

lemma settled_trans:
  assumes "settled_kept a b" "settled_kept b c"
  shows "settled_kept a c"
  unfolding settled_kept_def
proof (intro ballI impI)
  fix w assume w: "w \<in> set (db_instances a)" "\<not> live_status (wi_status w)"
  with assms(1) obtain v where v: "v \<in> set (db_instances b)" "inst_outcome v = inst_outcome w"
    unfolding settled_kept_def by (metis imageE)
  then have "\<not> live_status (wi_status v)" using w(2) by (simp add: inst_outcome_def)
  with assms(2) v show "inst_outcome w \<in> inst_outcome ` set (db_instances c)" unfolding settled_kept_def by metis
qed

lemma start_instance_step:
  assumes "start_instance env defId entityId fallback bind db = Some (r, db')" "inst_inv db"
    "\<And>w. wi_id (bind w) = wi_id w" "\<And>w. wi_status (bind w) = wi_status w"
  shows "inst_inv db' \<and> settled_kept db db'"
proof -
  have refl: "inst_inv db \<and> settled_kept db db" using assms(2) by (auto simp: settled_kept_def)
  show ?thesis
  proof (cases "db' = db")
    case False
    with assms(1) obtain d trigger w db1 x st where
      ins: "insert_instance fallback (bind (fresh_instance env d trigger)) db = Inr (w, db1)"
      and adv: "advance env (wi_id w) (wd_graph d) entityId (nd_id trigger) None
          \<lparr>rn_db = emit_row (en_tenant env) (wi_id w) (mk_event ''instance_started'' trigger []) db1, rn_ctx = None\<rparr> = Some (x, st)"
      and db': "db' = rn_db st"
      unfolding start_instance_def by (auto split: sum.splits option.splits)
    note i = insert_instance_inv [OF ins assms(2)]
    have live: "live_status (wi_status w)" using i(5) assms(4) by (simp add: fresh_instance_def live_status_def)
    let ?db2 = "emit_row (en_tenant env) (wi_id w) (mk_event ''instance_started'' trigger []) db1"
    have inv2: "inst_inv ?db2" using i(1) by (simp add: inst_inv_def)
    have aged: "aged ?db2 db'"
      unfolding db' using advance_aged [OF adv] inv2 i(3) live by simp
    have "settled_kept db ?db2" using i(2) by (simp add: settled_kept_def)
    with aged_inv [OF aged inv2] aged_settled [OF aged] show ?thesis by (blast intro: settled_trans)
  qed (use refl in simp)
qed

lemma start_step:
  assumes "start_workflow env defId kind entityId db = Some (r, db')" "inst_inv db"
  shows "inst_inv db' \<and> settled_kept db db'"
proof (cases kind)
  case KindWorkOrder
  with assms show ?thesis by (auto simp: start_workflow_def settled_kept_def)
next
  case KindCase
  with assms show ?thesis
    by (auto simp: start_workflow_def startForTicket_def elim!: start_instance_step [THEN conjunct1]
        start_instance_step [THEN conjunct2])
next
  case KindBooking
  with assms show ?thesis
    by (auto simp: start_workflow_def startForBooking_def elim!: start_instance_step [THEN conjunct1]
        start_instance_step [THEN conjunct2])
qed

definition claimed :: "string \<Rightarrow> string \<Rightarrow> wf_db \<Rightarrow> wf_db" where
  "claimed i tenant db = db\<lparr>db_instances := update_where (\<lambda>w. own_instance i tenant w \<and> wi_status w = InstWaiting)
     (\<lambda>w. w\<lparr>wi_status := InstActive, wi_waiting_for := JNull\<rparr>) (db_instances db)\<rparr>"

lemma resume_cases:
  assumes "resume env i tenant cond db = Some (r, db')"
  shows "(r = Inr () \<and> db' = db \<and>
      maybe_single (filter (\<lambda>w. own_instance i tenant w \<and> wi_status w = InstWaiting) (db_instances db)) = None) \<or>
    (\<exists>w. w \<in> set (db_instances db) \<and> own_instance i tenant w \<and> wi_status w = InstWaiting \<and>
      (db' = claimed i tenant db \<or>
       (\<exists>g t e st. advance (env\<lparr>en_tenant := tenant\<rparr>) i g t (wi_node w) cond
           \<lparr>rn_db = emit_row tenant i e (claimed i tenant db), rn_ctx = None\<rparr> = Some (r, st) \<and> db' = rn_db st)))"
proof (cases "maybe_single (filter (\<lambda>w. own_instance i tenant w \<and> wi_status w = InstWaiting) (db_instances db))")
  case None
  with assms show ?thesis by (simp add: resume_def Let_def)
next
  case (Some w)
  let ?d = "maybe_single (filter (\<lambda>d. wd_id d = wi_definition w \<and> wd_tenant d = tenant) (db_definitions db))"
  have "db' = claimed i tenant db \<or>
      (\<exists>g t e st. advance (env\<lparr>en_tenant := tenant\<rparr>) i g t (wi_node w) cond
           \<lparr>rn_db = emit_row tenant i e (claimed i tenant db), rn_ctx = None\<rparr> = Some (r, st) \<and> db' = rn_db st)"
  proof (cases "\<not> truthy (snd (resolvePolymorphicEntity w)) \<or> ?d = None \<or> en_tenant env \<noteq> tenant \<and> tenant \<notin> set (en_tenants env)")
    case True
    with assms Some show ?thesis
      by (auto simp: resume_def Let_def claimed_def split: if_splits option.splits)
  next
    case False
    then obtain d where d: "?d = Some d" by auto
    let ?e = "\<lparr>em_type = ''instance_resumed'', em_node = None, em_node_type = None,
        em_decision = None, em_payload = [(''edge_condition'', of_str_opt cond)]\<rparr>"
    from False d assms Some obtain st where
      "advance (env\<lparr>en_tenant := tenant\<rparr>) i (wd_graph d) (the (snd (resolvePolymorphicEntity w))) (wi_node w) cond
           \<lparr>rn_db = emit_row tenant i ?e (claimed i tenant db), rn_ctx = None\<rparr> = Some (r, st)" "db' = rn_db st"
      unfolding resume_def Let_def claimed_def by (auto split: option.splits)
    then show ?thesis by blast
  qed
  moreover from maybe_single_in_set [OF Some] have "w \<in> set (db_instances db)" "own_instance i tenant w" "wi_status w = InstWaiting"
    by simp_all
  ultimately show ?thesis by blast
qed

lemma claimed_aged: "aged db (claimed i tenant db)"
proof (rule aged_update)
  show "db_instances (claimed i tenant db) = update_where (\<lambda>w. own_instance i tenant w \<and> wi_status w = InstWaiting)
      (\<lambda>w. w\<lparr>wi_status := InstActive, wi_waiting_for := JNull\<rparr>) (db_instances db)"
    by (simp add: claimed_def)
  have "kind_id k (w\<lparr>wi_status := InstActive, wi_waiting_for := JNull\<rparr>) = kind_id k w" for k w by (cases k) simp_all
  then show "ages w (w\<lparr>wi_status := InstActive, wi_waiting_for := JNull\<rparr>)"
    if "own_instance i tenant w \<and> wi_status w = InstWaiting" for w
    using that by (simp add: ages_def live_status_def)
qed

lemma claimed_row:
  assumes "w \<in> set (db_instances db)" "own_instance i tenant w" "wi_status w = InstWaiting"
  shows "w\<lparr>wi_status := InstActive, wi_waiting_for := JNull\<rparr> \<in> set (db_instances (claimed i tenant db))"
  using assms by (force simp: claimed_def update_where_def)

lemma resume_aged:
  assumes "resume env i tenant cond db = Some (r, db')" "inst_inv db"
  shows "aged db db'"
proof -
  have "aged db (rn_db st)"
    if w: "w \<in> set (db_instances db)" "own_instance i tenant w" "wi_status w = InstWaiting"
      and adv: "advance (env\<lparr>en_tenant := tenant\<rparr>) i g t (wi_node w) cond
           \<lparr>rn_db = emit_row tenant i e (claimed i tenant db), rn_ctx = None\<rparr> = Some (r, st)" for w g t e st
  proof -
    let ?w = "w\<lparr>wi_status := InstActive, wi_waiting_for := JNull\<rparr>"
    have "inst_inv (emit_row tenant i e (claimed i tenant db))"
      using aged_inv [OF claimed_aged assms(2)] by (simp add: inst_inv_def)
    moreover have "wi_id ?w = i" using w(2) by (simp add: own_instance_def)
    ultimately have "aged (rn_db \<lparr>rn_db = emit_row tenant i e (claimed i tenant db), rn_ctx = None\<rparr>) (rn_db st)"
      using claimed_row [OF w] adv by (intro advance_aged [where w = ?w]) (simp_all add: live_status_def)
    moreover have "aged db (emit_row tenant i e (claimed i tenant db))"
      using claimed_aged [of db i tenant] by (simp add: aged_def)
    ultimately show ?thesis by (auto intro: aged_trans)
  qed
  with resume_cases [OF assms(1)] show ?thesis
    by (elim disjE exE conjE) (simp_all add: aged_refl claimed_aged)
qed

subsection \<open>Sequences of operations\<close>

definition state_inv :: "wf_db option \<Rightarrow> bool" where
  "state_inv x = (case x of None \<Rightarrow> True | Some db \<Rightarrow> inst_inv db)"

lemma run_wf_step:
  assumes "run_wf x (Some db) = Some db'" "inst_inv db"
  shows "inst_inv db' \<and> settled_kept db db'"
proof (cases x)
  case (StartWorkflow env defId kind entityId)
  with assms start_step show ?thesis by auto
next
  case (ResumeWorkflow env i tenant cond)
  with assms have "aged db db'" by (auto intro: resume_aged)
  with aged_inv aged_settled assms(2) show ?thesis by blast
next
  case (CancelEntity env kind entityId tenant reason)
  with assms have "aged db db'" by (auto intro: cancel_aged)
  with aged_inv aged_settled assms(2) show ?thesis by blast
next
  case (CancelBooking env fails bookingId tenant reason)
  with assms have "aged db db'" by (auto intro: cancel_aged)
  with aged_inv aged_settled assms(2) show ?thesis by blast
qed

interpretation workflow_calls: op_invariant run_wf state_inv
proof
  fix w x assume "state_inv w"
  then show "state_inv (run_wf x w)"
    using run_wf_step by (cases w) (auto simp: state_inv_def split: option.splits)
qed

lemma run_all_None: "run_all run_wf ops None = None"
  by (induction ops) simp_all

lemma run_all_settled:
  assumes "run_all run_wf ops (Some db) = Some db'" "inst_inv db"
  shows "settled_kept db db'"
  using assms
proof (induction ops arbitrary: db)
  case Nil
  then show ?case by (auto simp: settled_kept_def)
next
  case (Cons x ops)
  then obtain db1 where db1: "run_wf x (Some db) = Some db1" by (cases "run_wf x (Some db)") (auto simp: run_all_None)
  with Cons.prems run_wf_step [OF db1] Cons.IH show ?case by (auto intro: settled_trans)
qed

subsection \<open>A resumption that throws\<close>

definition statuses :: "wf_db \<Rightarrow> inst_status list" where
  "statuses db = map wi_status (db_instances db)"

lemma statuses_simps [simp]:
  "statuses (rn_db (emit env j e st)) = statuses (rn_db st)"
  "statuses (rn_db (push_path k st)) = statuses (rn_db st)"
  "statuses (rn_db (set_tickets st ts)) = statuses (rn_db st)"
  "statuses (emit_row t j e db) = statuses db"
  by (simp_all add: statuses_def emit_def emit_row_def set_tickets_def split: option.splits)

lemma statuses_set_instance:
  "(\<And>w. wi_status (f w) = wi_status w) \<Longrightarrow> statuses (rn_db (set_instance env i f st)) = statuses (rn_db st)"
  by (simp add: statuses_def set_instance_def update_where_def)

lemma statuses_insert_approval: "insert_approval env a st = (r, st') \<Longrightarrow> statuses (rn_db st') = statuses (rn_db st)"
  by (auto simp: insert_approval_def statuses_def split: if_splits)

lemma statuses_insert_approvers:
  "insert_approvers env row as st = (r, st') \<Longrightarrow> statuses (rn_db st') = statuses (rn_db st)"
proof (induction as arbitrary: st)
  case (Cons a as)
  from insert_approvers_Cons [OF Cons.prems] Cons.IH statuses_insert_approval show ?case by metis
qed simp

lemma statuses_create_approvals:
  "create_approvals env i n t st = (r, st') \<Longrightarrow> statuses (rn_db st') = statuses (rn_db st)"
  by (auto simp: create_approvals_def Let_def simp del: insert_approvers.simps
      dest: statuses_insert_approvers statuses_insert_approval split: jsval.splits list.splits sum.splits)

text \<open>A node that does not stop the walk leaves every status as it is.\<close>

lemma executeNode_statuses:
  assumes "executeNode env i n t st = (r, st')" "r \<noteq> Stop"
  shows "statuses (rn_db st') = statuses (rn_db st)"
proof -
  define st1 where "st1 = push_path (nd_id n) (emit env i (mk_event ''node_entered'' n []) st)"
  have "statuses (rn_db st') = statuses (rn_db st1)"
  proof (cases "nd_type n = ''approval''")
    case True
    with assms have "exec_approval env i n t st1 = (r, st')"
      by (simp add: executeNode_def st1_def [symmetric] Let_def)
    with assms(2) statuses_create_approvals show ?thesis
      by (auto simp: exec_approval_def Let_def split: if_splits sum.splits prod.splits)
  next
    case False
    have save: "statuses (rn_db (save_response env i n url v s)) = statuses (rn_db s)" for url v s
      by (simp add: save_response_def Let_def statuses_set_instance split: sum.split)
    have noted: "statuses (rn_db (snd (exec_notification env i n t s))) = statuses (rn_db s)" for s
      by (simp add: exec_notification_def statuses_def)
    consider "exec_notification env i n t st1 = (r, st')" | "exec_notification env i n t st1 \<noteq> (r, st')" by blast
    then show ?thesis
    proof cases
      case 1
      with noted [of st1] show ?thesis by simp
    next
      case 2
      with assms False show ?thesis
        by (auto simp: executeNode_def st1_def [symmetric] Let_def exec_assign_def exec_update_ticket_def
            exec_condition_def exec_children_def exec_wait_for_def exec_timer_def exec_end_def exec_http_def save
            split: if_splits sum.splits option.splits jsval.splits)
    qed
  qed
  then show ?thesis by (simp add: st1_def)
qed

lemma enter_node_statuses [simp]: "statuses (rn_db (enter_node env i n st)) = statuses (rn_db st)"
  by (simp add: enter_node_def statuses_set_instance)

lemma advance_throw_statuses:
  assumes "advance env i g t fromId cond st = Some (r, st')" "r = Inl e"
  shows "statuses (rn_db st') = statuses (rn_db st)"
  using assms
proof (induction rule: advance_induct)
  case (Goto fromId cond st n c st1 r st')
  with executeNode_statuses [OF Goto.hyps(2)] show ?case by simp
next
  case (Throw fromId cond st n e st')
  with executeNode_statuses [OF Throw.hyps(2)] show ?case by simp
qed simp_all

lemma no_waiting_after_claim:
  assumes "statuses db' = statuses (claimed i tenant db)" "map (\<lambda>w. (wi_id w, wi_tenant w)) (db_instances db') =
      map (\<lambda>w. (wi_id w, wi_tenant w)) (db_instances db)"
  shows "filter (\<lambda>w. own_instance i tenant w \<and> wi_status w = InstWaiting) (db_instances db') = []"
proof -
  have "\<not> (own_instance i tenant w \<and> wi_status w = InstWaiting)" if w: "w \<in> set (db_instances db')" for w
  proof -
    from w obtain k where k: "k < length (db_instances db')" "db_instances db' ! k = w" by (metis in_set_conv_nth)
    from assms(2) have len: "length (db_instances db') = length (db_instances db)" by (metis length_map)
    from assms(1) k len have "wi_status w = wi_status (db_instances (claimed i tenant db) ! k)"
      by (metis (no_types, lifting) length_map nth_map statuses_def)
    moreover have "(wi_id w, wi_tenant w) = (wi_id (db_instances db ! k), wi_tenant (db_instances db ! k))"
      using assms(2) k len by (metis (mono_tags, lifting) nth_map)
    ultimately show ?thesis
      using k len by (auto simp: claimed_def update_where_def own_instance_def)
  qed
  then show ?thesis by (simp add: filter_empty_conv)
qed

lemma aged_keys: "aged db db' \<Longrightarrow> map (\<lambda>w. (wi_id w, wi_tenant w)) (db_instances db') =
    map (\<lambda>w. (wi_id w, wi_tenant w)) (db_instances db)"
  unfolding aged_def by (rule nth_equalityI) (auto simp: list_all2_conv_all_nth ages_def)

lemma resume_throw_statuses:
  assumes "resume env i tenant cond db = Some (Inl e, db')"
  shows "statuses db' = statuses (claimed i tenant db)"
proof -
  from resume_cases [OF assms] consider "db' = claimed i tenant db"
    | g t x e' st where "advance (env\<lparr>en_tenant := tenant\<rparr>) i g t x cond
         \<lparr>rn_db = emit_row tenant i e' (claimed i tenant db), rn_ctx = None\<rparr> = Some (Inl e, st)" "db' = rn_db st"
    by blast
  then show ?thesis
  proof cases
    case 2
    from advance_throw_statuses [OF 2(1) refl] 2(2) show ?thesis by simp
  qed simp
qed

lemma resume_lost:
  assumes "filter (\<lambda>w. own_instance i tenant w \<and> wi_status w = InstWaiting) (db_instances db) = []"
  shows "resume env i tenant cond db = Some (Inr (), db)"
  using assms by (simp add: resume_def Let_def)

lemma retry_does_nothing:
  assumes "inst_inv db" "resume env i tenant cond db = Some (Inl e, db')"
  shows "resume env' i tenant cond' db' = Some (Inr (), db')"
  by (intro resume_lost no_waiting_after_claim [OF resume_throw_statuses [OF assms(2)]] aged_keys
      resume_aged [OF assms(2,1)])

subsection \<open>Properties\<close>

text \<open>A booking workflow is started, cancelled, and started again.\<close>

definition ex_first :: "wf_op list" where
  "ex_first = [StartWorkflow ex_wf_env ''d'' KindBooking ''b'', CancelEntity (ex_cancel RolledBack) KindBooking ''b'' ''T'' ''changed'']"

definition ex_second :: "wf_op list" where
  "ex_second = [StartWorkflow (ex_wf_env\<lparr>en_instance_id := ''j''\<rparr>) ''d'' KindBooking ''b'',
     StartWorkflow (ex_wf_env\<lparr>en_instance_id := ''k''\<rparr>) ''d'' KindBooking ''b'', ResumeWorkflow ex_wf_env ''i'' ''T'' None]"

definition wf_view :: "wf_db \<Rightarrow> (string \<times> inst_status \<times> string option) list" where
  "wf_view db = map (\<lambda>w. (wi_id w, wi_status w, wi_booking w)) (db_instances db)"

lemma ex_runs:
  obtains db1 db2 where "run_all run_wf ex_first (Some (ex_wf_db ex_defs)) = Some db1" "wf_view db1 = [(''i'', InstCancelled, Some ''b'')]"
    "run_all run_wf ex_second (Some db1) = Some db2" "wf_view db2 = [(''i'', InstCancelled, Some ''b''), (''j'', InstActive, Some ''b'')]"
proof -
  have "map_option wf_view (run_all run_wf ex_first (Some (ex_wf_db ex_defs))) = Some [(''i'', InstCancelled, Some ''b'')]"
    by code_simp
  then obtain db1 where 1: "run_all run_wf ex_first (Some (ex_wf_db ex_defs)) = Some db1" "wf_view db1 = [(''i'', InstCancelled, Some ''b'')]"
    by auto
  have "map_option wf_view (run_all run_wf ex_second (run_all run_wf ex_first (Some (ex_wf_db ex_defs)))) =
      Some [(''i'', InstCancelled, Some ''b''), (''j'', InstActive, Some ''b'')]"
    by code_simp
  with 1 that show ?thesis by auto
qed

text \<open>
  C10. No entity has two live workflows: after any sequence of starts, resumptions and cancellations
  that returns, of any tenants and with any answers from outside, two instances that are active or
  waiting for the same entity of a tenant are the same instance.
\<close>

theorem one_live_instance_per_entity:
  assumes "run_all run_wf ops (Some db) = Some db'" "db_instances db = []"
    and "v \<in> set (db_instances db')" "w \<in> set (db_instances db')" "live_status (wi_status v)" "live_status (wi_status w)"
    and "wi_tenant v = wi_tenant w" "wi_kind v = Some k" "wi_kind w = Some k" "kind_id k v = Some e" "kind_id k w = Some e"
  shows "v = w"
proof -
  have "state_inv (run_all run_wf ops (Some db))"
    by (rule workflow_calls.run_all_inv) (simp add: state_inv_def inst_inv_def assms(2))
  with assms(1) have "inst_inv db'" by (simp add: state_inv_def)
  moreover have "same_live_entity v w" using assms(5-11) unfolding same_live_entity_def by (cases k) auto
  ultimately show ?thesis using assms(3,4) unfolding inst_inv_def by blast
qed

theorem one_live_instance_per_entity_witness:
  "\<exists>db'. run_all run_wf (ex_first @ ex_second) (Some (ex_wf_db ex_defs)) = Some db' \<and>
     (\<forall>v\<in>set (db_instances db'). \<forall>w\<in>set (db_instances db'). live_status (wi_status v) \<and> live_status (wi_status w) \<and>
        wi_tenant v = wi_tenant w \<and> wi_kind v = Some KindBooking \<and> wi_kind w = Some KindBooking \<and>
        wi_booking v = Some ''b'' \<and> wi_booking w = Some ''b'' \<longrightarrow> v = w)"
proof -
  have "map_option wf_view (run_all run_wf (ex_first @ ex_second) (Some (ex_wf_db ex_defs))) \<noteq> None" by code_simp
  then obtain db' where db': "run_all run_wf (ex_first @ ex_second) (Some (ex_wf_db ex_defs)) = Some db'" by auto
  have "db_instances (ex_wf_db ex_defs) = []" by (simp add: ex_wf_db_def)
  from one_live_instance_per_entity [OF db' this] db' show ?thesis by fastforce
qed

text \<open>
  C24. A settled workflow stays settled: an instance that has completed, failed or been cancelled at some
  point of a sequence of operations keeps its status, node, context and completion time for the rest of it.
\<close>

theorem settled_workflows_final:
  assumes "run_all run_wf ops (Some db) = Some db1" "db_instances db = []" "run_all run_wf ops' (Some db1) = Some db2"
    and "w \<in> set (db_instances db1)" "\<not> live_status (wi_status w)"
  shows "\<exists>w'\<in>set (db_instances db2). inst_outcome w' = inst_outcome w"
proof -
  have "state_inv (run_all run_wf ops (Some db))"
    by (rule workflow_calls.run_all_inv) (simp add: state_inv_def inst_inv_def assms(2))
  with assms(1) have "inst_inv db1" by (simp add: state_inv_def)
  from run_all_settled [OF assms(3) this] assms(4,5) show ?thesis unfolding settled_kept_def by (metis imageE)
qed

theorem settled_workflows_final_witness:
  "\<exists>db1 db2 w. run_all run_wf ex_first (Some (ex_wf_db ex_defs)) = Some db1 \<and> run_all run_wf ex_second (Some db1) = Some db2 \<and>
     w \<in> set (db_instances db2) \<and> wi_status w = InstCancelled"
proof -
  obtain db1 db2 where db1: "run_all run_wf ex_first (Some (ex_wf_db ex_defs)) = Some db1" "wf_view db1 = [(''i'', InstCancelled, Some ''b'')]"
    and db2: "run_all run_wf ex_second (Some db1) = Some db2" using ex_runs by blast
  from db1(2) obtain w where w: "w \<in> set (db_instances db1)" "wi_status w = InstCancelled" by (auto simp: wf_view_def)
  have none: "db_instances (ex_wf_db ex_defs) = []" by (simp add: ex_wf_db_def)
  from w(2) have "\<not> live_status (wi_status w)" by (simp add: live_status_def)
  from settled_workflows_final [OF db1(1) none db2 w(1) this] db1(1) db2 w(2) show ?thesis by (auto simp: inst_outcome_def)
qed

end
