(* ===== verification/Workflow_Wait.thy ===== *)
theory Workflow_Wait
  imports Workflow_Life Outbox
begin

section \<open>Waking waiting workflows\<close>

text \<open>
  A workflow that waits for something it spawned is woken in two ways. The sweeper
  (\<open>modules/workflow/workflow-wait-sweeper.cron.ts\<close>) claims links whose wait has timed out and resumes
  the parent on the timeout branch; the outbox handler
  (\<open>modules/outbox/handlers/workflow-spawn-wake.handler.ts\<close>) claims links whose entity has reached a
  status they wait for. A claim sets \<open>resolved_at\<close> on a link that is still open; when the resumption
  throws, the claim is taken back.

  The record \<open>wake_env\<close> holds the clock at the two reads, the batch size, the tenants found and the
  database calls that fail, by link. Instants are milliseconds, on which the comparison of ISO strings that
  the handler makes agrees with the comparison of instants.
\<close>

record wake_env =
  wk_select_now :: int
  wk_now :: int
  wk_batch :: nat
  wk_select_fails :: bool
  wk_claim_fails :: "string \<Rightarrow> bool"
  wk_parent_fails :: "string \<Rightarrow> bool"
  wk_unclaim_fails :: "string \<Rightarrow> bool"
  wk_tenants :: "string list"
  wk_engine :: wf_env
  wk_cancel :: cancel_env
  wk_lookup_fails :: bool

definition parent_of :: "wf_link \<Rightarrow> wf_db \<Rightarrow> wf_instance option" where
  "parent_of l db = maybe_single (filter (\<lambda>w. wi_id w = lk_parent l) (db_instances db))"

definition claim_link :: "(wf_link \<Rightarrow> bool) \<Rightarrow> int \<Rightarrow> string \<Rightarrow> wf_db \<Rightarrow> wf_db" where
  "claim_link P now kind db =
     db\<lparr>db_links := update_where P (\<lambda>x. x\<lparr>lk_resolved_at := Some now, lk_resolution := Some kind\<rparr>) (db_links db)\<rparr>"

definition unclaim_link :: "(wf_link \<Rightarrow> bool) \<Rightarrow> bool \<Rightarrow> wf_db \<Rightarrow> wf_db" where
  "unclaim_link P fails db =
     (if fails then db
      else db\<lparr>db_links := update_where P (\<lambda>x. x\<lparr>lk_resolved_at := None, lk_resolution := None\<rparr>) (db_links db)\<rparr>)"

subsection \<open>The sweeper\<close>

definition timed_out :: "int \<Rightarrow> wf_link \<Rightarrow> bool" where
  "timed_out now x \<longleftrightarrow> (case lk_timeout_at x of None \<Rightarrow> False | Some t \<Rightarrow> t \<le> now)"

definition sweep_claimable :: "wake_env \<Rightarrow> wf_link \<Rightarrow> wf_link \<Rightarrow> bool" where
  "sweep_claimable env l x \<longleftrightarrow> lk_id x = lk_id l \<and> lk_tenant x = lk_tenant l \<and> lk_resolved_at x = None \<and> timed_out (wk_now env) x"

definition sweep_row :: "wf_link \<Rightarrow> wf_link \<Rightarrow> bool" where
  "sweep_row l x \<longleftrightarrow> lk_id x = lk_id l \<and> lk_tenant x = lk_tenant l"

definition processOne :: "wake_env \<Rightarrow> wf_link \<Rightarrow> wf_db \<Rightarrow> (bool result \<times> wf_db) option" where
  "processOne env l db =
     (if wk_claim_fails env (lk_id l) then Some (Inl (PlainError ''workflow-wait-sweeper.claim_failed''), db)
      else if \<not> (\<exists>x\<in>set (db_links db). sweep_claimable env l x) then Some (Inr False, db)
      else
        let db1 = claim_link (sweep_claimable env l) (wk_now env) ''timeout'' db
        in if wk_parent_fails env (lk_id l) then
             Some (Inl (PlainError ''workflow-wait-sweeper.parent_read_failed''),
                   unclaim_link (sweep_row l) (wk_unclaim_fails env (lk_id l)) db1)
           else (case parent_of l db1 of
             None \<Rightarrow> Some (Inr True, db1)
           | Some p \<Rightarrow>
               if wi_tenant p \<noteq> lk_tenant l then Some (Inr True, db1)
               else if lk_tenant l \<notin> set (wk_tenants env) then Some (Inr True, db1)
               else (case lk_timeout_branch l of
                 None \<Rightarrow>
                   Some (Inr True, emit_row (lk_tenant l) (lk_parent l)
                     (link_event ''link_pending_entity_cancel'' l (lk_parent l)
                        [(''parent_node_id'', JStr (lk_parent_node l)),
                         (''reason'', JStr ''on_timeout_branch_null_resume_skipped'')]) db1)
               | Some branch \<Rightarrow>
                   (case resume ((wk_engine env)\<lparr>en_tenant := lk_tenant l\<rparr>) (lk_parent l) (lk_tenant l) (Some branch)
                           (emit_row (lk_tenant l) (lk_parent l)
                              (link_event ''link_resolved'' l (lk_parent l) [(''resolution_kind'', JStr ''timeout'')]) db1) of
                      None \<Rightarrow> None
                    | Some (Inr _, db2) \<Rightarrow> Some (Inr True, db2)
                    | Some (Inl e, db2) \<Rightarrow>
                        Some (Inl e, unclaim_link (sweep_row l) (wk_unclaim_fails env (lk_id l)) db2)))))"

definition sweep_candidates :: "wake_env \<Rightarrow> wf_db \<Rightarrow> wf_link list" where
  "sweep_candidates env db =
     take (wk_batch env) (sort_key (\<lambda>x. orElse (lk_timeout_at x) 0)
       (filter (\<lambda>x. lk_resolved_at x = None \<and> lk_wait x \<and> \<not> lk_grouped x \<and> timed_out (wk_select_now env) x) (db_links db)))"

fun process_each :: "wake_env \<Rightarrow> wf_link list \<Rightarrow> wf_db \<Rightarrow> (nat \<times> wf_db) option" where
  "process_each env [] db = Some (0, db)"
| "process_each env (l # ls) db =
     (case processOne env l db of
        None \<Rightarrow> None
      | Some (r, db') \<Rightarrow>
          map_option (\<lambda>(handled, db''). ((if r = Inr True then handled + 1 else handled), db'')) (process_each env ls db'))"

definition sweepOnce :: "wake_env \<Rightarrow> wf_db \<Rightarrow> (nat result \<times> wf_db) option" where
  "sweepOnce env db =
     (if wk_select_fails env then Some (Inl (PlainError ''workflow-wait-sweeper.candidates_failed''), db)
      else map_option (\<lambda>(handled, db'). (Inr handled, db')) (process_each env (sweep_candidates env db) db))"

text \<open>The tick of the cron: switched off or already running it does nothing, and an error of the sweep is logged.\<close>

definition sweepExpiredWaits :: "bool \<Rightarrow> bool \<Rightarrow> wake_env \<Rightarrow> wf_db \<Rightarrow> wf_db option" where
  "sweepExpiredWaits enabled sweeping env db =
     (if \<not> enabled \<or> sweeping then Some db else map_option snd (sweepOnce env db))"

subsection \<open>The wake handler\<close>

datatype booking_event = BookingCreated | BookingCancelled | BookingStatusChanged

record wake_event =
  we_event_tenant :: string
  we_payload_tenant :: "string option"
  we_booking :: jsval
  we_to_status :: "string option"
  we_status :: "string option"

definition isWaitMatch :: "booking_event \<Rightarrow> wake_event \<Rightarrow> wf_link \<Rightarrow> bool" where
  "isWaitMatch src ev l =
     (let allowList = orElse (lk_statuses l) []; matchAny = (allowList = [])
      in case src of
           BookingCancelled \<Rightarrow> matchAny \<or> ''cancelled'' \<in> set allowList
         | BookingCreated \<Rightarrow> matchAny \<or> ''created'' \<in> set allowList
         | BookingStatusChanged \<Rightarrow>
             (case nullish (we_to_status ev) (we_status ev) of
                None \<Rightarrow> False
              | Some newStatus \<Rightarrow> matchAny \<or> newStatus \<in> set allowList))"

definition wake_candidates :: "wake_env \<Rightarrow> booking_event \<Rightarrow> wake_event \<Rightarrow> string \<Rightarrow> wf_db \<Rightarrow> wf_link list" where
  "wake_candidates env src ev bookingId db =
     filter (\<lambda>x. \<not> timed_out (wk_select_now env) x \<and> isWaitMatch src ev x)
       (filter (\<lambda>x. lk_tenant x = we_event_tenant ev \<and> lk_child_entity x = bookingId \<and> lk_wait x \<and>
          lk_resolved_at x = None \<and> \<not> lk_grouped x \<and> lk_wait_for x \<in> {Some ''entity_status'', Some ''either''}) (db_links db))"

definition wake_claimable :: "wake_env \<Rightarrow> wf_link \<Rightarrow> wf_link \<Rightarrow> bool" where
  "wake_claimable env l x \<longleftrightarrow> lk_id x = lk_id l \<and> lk_resolved_at x = None \<and> \<not> timed_out (wk_now env) x"

text \<open>What one link of the loop comes to: go on, go on with a failure noted, or leave the handler.\<close>

datatype wake_step = WakeNext | WakeFailed | WakeAbort handler_outcome

definition wake_unclaim :: "wake_env \<Rightarrow> wf_link \<Rightarrow> wf_db \<Rightarrow> wake_step \<times> wf_db" where
  "wake_unclaim env l db =
     (if wk_unclaim_fails env (lk_id l) then (WakeAbort (HandlerError ''workflow_spawn_wake.unclaim_failed''), db)
      else (WakeFailed, unclaim_link (\<lambda>x. lk_id x = lk_id l) False db))"

definition wake_one :: "wake_env \<Rightarrow> string \<Rightarrow> wf_link \<Rightarrow> wf_db \<Rightarrow> (wake_step \<times> wf_db) option" where
  "wake_one env tenant l db =
     (if wk_claim_fails env (lk_id l) then Some (WakeFailed, db)
      else if \<not> (\<exists>x\<in>set (db_links db). wake_claimable env l x) then Some (WakeNext, db)
      else
        let db1 = claim_link (wake_claimable env l) (wk_now env) ''condition_met'' db
        in if wk_parent_fails env (lk_id l) then Some (wake_unclaim env l db1)
           else (case parent_of l db1 of
             None \<Rightarrow> Some (WakeNext, db1)
           | Some p \<Rightarrow>
               if wi_tenant p \<noteq> tenant
               then Some (WakeAbort (HandlerDeadLetter ''workflow_spawn_wake.parent_tenant_mismatch''), db1)
               else (case resume ((wk_engine env)\<lparr>en_tenant := tenant\<rparr>) (lk_parent l) tenant (Some ''condition_met'') db1 of
                       None \<Rightarrow> None
                     | Some (Inr _, db2) \<Rightarrow> Some (WakeNext, db2)
                     | Some (Inl e, db2) \<Rightarrow> Some (wake_unclaim env l db2))))"

fun wake_each :: "wake_env \<Rightarrow> string \<Rightarrow> bool \<Rightarrow> wf_link list \<Rightarrow> wf_db \<Rightarrow> (handler_outcome \<times> wf_db) option" where
  "wake_each env tenant failed [] db =
     Some (if failed then HandlerError ''workflow_spawn_wake.partial_failure'' else HandlerOk, db)"
| "wake_each env tenant failed (l # ls) db =
     (case wake_one env tenant l db of
        None \<Rightarrow> None
      | Some (WakeAbort out, db') \<Rightarrow> Some (out, db')
      | Some (WakeFailed, db') \<Rightarrow> wake_each env tenant True ls db'
      | Some (WakeNext, db') \<Rightarrow> wake_each env tenant failed ls db')"

definition runWake :: "wake_env \<Rightarrow> booking_event \<Rightarrow> wake_event \<Rightarrow> wf_db \<Rightarrow> (handler_outcome \<times> wf_db) option" where
  "runWake env src ev db =
     (if we_payload_tenant ev \<noteq> Some (we_event_tenant ev)
      then Some (HandlerDeadLetter ''workflow_spawn_wake.tenant_mismatch'', db)
      else (case we_booking ev of
              JStr bookingId \<Rightarrow>
                if \<not> en_is_uuid (wk_engine env) bookingId
                then Some (HandlerDeadLetter ''workflow_spawn_wake.booking_id_invalid'', db)
                else if wk_select_fails env
                then Some (HandlerError ''workflow_spawn_wake.candidates_failed'', db)
                else wake_each env (we_event_tenant ev) False (wake_candidates env src ev bookingId db) db
            | _ \<Rightarrow> Some (HandlerDeadLetter ''workflow_spawn_wake.booking_id_invalid'', db)))"

text \<open>The handler of \<open>booking.cancelled\<close> first cancels the workflow that drives the booking.\<close>

definition handle_booking_cancelled :: "wake_env \<Rightarrow> wake_event \<Rightarrow> wf_db \<Rightarrow> (handler_outcome \<times> wf_db) option" where
  "handle_booking_cancelled env ev db =
     (case (if we_payload_tenant ev = Some (we_event_tenant ev) then
              (case we_booking ev of
                 JStr bookingId \<Rightarrow> cancelInstanceForBooking (wk_cancel env) (wk_lookup_fails env) bookingId
                                    (we_event_tenant ev) ''booking_cancelled'' db
               | _ \<Rightarrow> Some (Inr (), db))
            else Some (Inr (), db)) of
        None \<Rightarrow> None
      | Some (Inl e, db') \<Rightarrow> Some (HandlerError ''workflow.cancel_with_approvals_failed'', db')
      | Some (Inr _, db') \<Rightarrow> runWake env BookingCancelled ev db')"

subsection \<open>Claims\<close>

lemma resume_links: "resume env i tenant cond db = Some (r, db') \<Longrightarrow> db_links db' = db_links db"
  using resume_cases [of env i tenant cond db r db']
  by (auto simp: claimed_def dest!: advance_touches simp: only_touches_def)

lemma parent_of_mem:
  "inst_inv db \<Longrightarrow> w \<in> set (db_instances db) \<Longrightarrow> wi_id w = lk_parent l \<Longrightarrow> parent_of l db = Some w"
  using filter_key_single [of wi_id "db_instances db" w] by (simp add: parent_of_def inst_inv_def)

lemma parent_of_aged:
  assumes "aged db db'" "inst_inv db" "parent_of l db = Some p"
  shows "\<exists>p'. parent_of l db' = Some p' \<and> wi_tenant p' = wi_tenant p"
proof -
  from maybe_single_in_set [OF assms(3) [unfolded parent_of_def]] have p: "p \<in> set (db_instances db)" "wi_id p = lk_parent l"
    by simp_all
  then obtain k where k: "k < length (db_instances db)" "db_instances db ! k = p" by (metis in_set_conv_nth)
  with assms(1) have "k < length (db_instances db')" "ages p (db_instances db' ! k)"
    by (auto simp: aged_def list_all2_conv_all_nth)
  with p(2) parent_of_mem [OF aged_inv [OF assms(1,2)], of "db_instances db' ! k" l] show ?thesis
    by (auto simp: ages_def)
qed

lemma inst_inv_cong: "db_instances db' = db_instances db \<Longrightarrow> inst_inv db' = inst_inv db"
  by (simp add: inst_inv_def)

lemma link_writes [simp]:
  "db_instances (claim_link P now kind db) = db_instances db" "db_instances (unclaim_link Q fails db) = db_instances db"
  by (simp_all add: claim_link_def unclaim_link_def)

text \<open>A claimed link of unique id is open for nobody.\<close>

lemma claimed_not_claimable:
  assumes "distinct (map lk_id (db_links db))" "x \<in> set (db_links db)" "sweep_claimable env l x"
    "db_links db' = db_links (claim_link (sweep_claimable env l) now kind db)"
  shows "\<not> (\<exists>y\<in>set (db_links db'). sweep_claimable env' l y)"
proof -
  have "\<not> sweep_claimable env' l (if sweep_claimable env l y
      then y\<lparr>lk_resolved_at := Some now, lk_resolution := Some kind\<rparr> else y)" if y: "y \<in> set (db_links db)" for y
  proof (cases "y = x")
    case True
    with assms(3) show ?thesis by (simp add: sweep_claimable_def)
  next
    case False
    with key_inj [OF assms(1) y assms(2)] assms(3) have "lk_id y \<noteq> lk_id l" by (auto simp: sweep_claimable_def)
    then show ?thesis by (simp add: sweep_claimable_def)
  qed
  then show ?thesis
    by (simp add: assms(4) claim_link_def bex_update_where)
qed

lemma processOne_claims:
  assumes "processOne env l db = Some (Inr True, db')"
  shows "(\<exists>x\<in>set (db_links db). sweep_claimable env l x) \<and>
    db_links db' = db_links (claim_link (sweep_claimable env l) (wk_now env) ''timeout'' db)"
  using assms
  by (auto simp: processOne_def Let_def split: if_splits option.splits sum.splits dest!: resume_links)

lemma sweep_again:
  assumes "distinct (map lk_id (db_links db))" "processOne env l db = Some (Inr True, db')"
    "\<not> wk_claim_fails env' (lk_id l)"
  shows "processOne env' l db' = Some (Inr False, db')"
proof -
  from processOne_claims [OF assms(2)] obtain x where "x \<in> set (db_links db)" "sweep_claimable env l x"
    "db_links db' = db_links (claim_link (sweep_claimable env l) (wk_now env) ''timeout'' db)" by blast
  from claimed_not_claimable [OF assms(1) this, of env'] assms(3) show ?thesis
    by (simp add: processOne_def)
qed

subsection \<open>A resumption that throws\<close>

lemma processOne_throws:
  assumes "processOne env l db = Some (Inl e, db')" "\<not> wk_claim_fails env (lk_id l)"
    "\<not> wk_parent_fails env (lk_id l)" "\<not> wk_unclaim_fails env (lk_id l)"
  obtains p branch ev db1 where "lk_timeout_branch l = Some branch" "parent_of l db = Some p" "wi_tenant p = lk_tenant l"
    "\<exists>x\<in>set (db_links db). sweep_claimable env l x"
    "resume ((wk_engine env)\<lparr>en_tenant := lk_tenant l\<rparr>) (lk_parent l) (lk_tenant l) (Some branch)
       (emit_row (lk_tenant l) (lk_parent l) ev (claim_link (sweep_claimable env l) (wk_now env) ''timeout'' db)) = Some (Inl e, db1)"
    "db' = unclaim_link (sweep_row l) False db1"
proof -
  have par: "parent_of l (claim_link P now kind db) = parent_of l db" for P now kind by (simp add: parent_of_def)
  from assms that show ?thesis
    by (auto simp: processOne_def Let_def par split: if_splits option.splits sum.splits)
qed

text \<open>
  After a failed resumption the link is open again, but the parent no longer waits: the next sweep
  closes the link for good and the parent has not moved.
\<close>

lemma retry_strands:
  assumes inv: "inst_inv db"
    and first: "processOne env l db = Some (Inl e, db1)" "\<not> wk_claim_fails env (lk_id l)"
      "\<not> wk_parent_fails env (lk_id l)" "\<not> wk_unclaim_fails env (lk_id l)"
    and again: "wk_now env \<le> wk_now env'" "\<not> wk_claim_fails env' (lk_id l)" "\<not> wk_parent_fails env' (lk_id l)"
      "lk_tenant l \<in> set (wk_tenants env')"
  shows "\<exists>db2. processOne env' l db1 = Some (Inr True, db2) \<and> db_instances db2 = db_instances db1"
proof -
  obtain p branch ev dbr where b: "lk_timeout_branch l = Some branch" and p: "parent_of l db = Some p" "wi_tenant p = lk_tenant l"
    and x: "\<exists>x\<in>set (db_links db). sweep_claimable env l x"
    and res: "resume ((wk_engine env)\<lparr>en_tenant := lk_tenant l\<rparr>) (lk_parent l) (lk_tenant l) (Some branch)
       (emit_row (lk_tenant l) (lk_parent l) ev (claim_link (sweep_claimable env l) (wk_now env) ''timeout'' db)) = Some (Inl e, dbr)"
    and db1: "db1 = unclaim_link (sweep_row l) False dbr"
    by (rule processOne_throws [OF first])
  let ?db0 = "emit_row (lk_tenant l) (lk_parent l) ev (claim_link (sweep_claimable env l) (wk_now env) ''timeout'' db)"
  have inv0: "inst_inv ?db0" using inv by (simp add: inst_inv_def)
  note aged = resume_aged [OF res inv0] and still = resume_throw_statuses [OF res]
  let ?dbc = "claim_link (sweep_claimable env' l) (wk_now env') ''timeout'' db1"
  have inst: "db_instances ?dbc = db_instances dbr" "db_instances db1 = db_instances dbr" by (simp_all add: db1)
  have par0: "parent_of l ?db0 = Some p" using p(1) by (simp add: parent_of_def)
  from parent_of_aged [OF aged inv0 par0] p(2) inst(1) obtain p' where p': "parent_of l ?dbc = Some p'" "wi_tenant p' = lk_tenant l"
    by (auto simp: parent_of_def)
  from x obtain y where y: "y \<in> set (db_links db)" "sweep_claimable env l y" by blast
  have links: "db_links dbr = db_links (claim_link (sweep_claimable env l) (wk_now env) ''timeout'' db)"
    using resume_links [OF res] by simp
  have claimable: "\<exists>x\<in>set (db_links db1). sweep_claimable env' l x"
    unfolding db1 unclaim_link_def using y again(1)
    by (auto simp: links claim_link_def bex_update_where sweep_row_def sweep_claimable_def timed_out_def split: option.splits
        intro!: bexI [of _ y])
  have "filter (\<lambda>w. own_instance (lk_parent l) (lk_tenant l) w \<and> wi_status w = InstWaiting) (db_instances dbr) = []"
    by (rule no_waiting_after_claim [OF still aged_keys [OF aged]])
  then have "resume env2 (lk_parent l) (lk_tenant l) c (emit_row t i ev2 ?dbc) =
      Some (Inr (), emit_row t i ev2 ?dbc)" for env2 c t i ev2
    by (intro resume_lost) (simp add: inst(2))
  with claimable again(2-4) p' b inst show ?thesis
    by (simp add: processOne_def Let_def)
qed

subsection \<open>Properties\<close>

text \<open>
  The parent waits at a node whose timeout branch leads to an assignment that the ticket procedure
  refuses at the first attempt.
\<close>

definition ex_wait_graph :: wf_graph where
  "ex_wait_graph =
     \<lparr>g_nodes = [\<lparr>nd_id = ''n'', nd_type = ''wait_for'', nd_config = [(''wait_type'', JStr ''event'')]\<rparr>,
        \<lparr>nd_id = ''a'', nd_type = ''assign'', nd_config = [(''team_id'', JStr ''p1'')]\<rparr>,
        \<lparr>nd_id = ''e'', nd_type = ''end'', nd_config = []\<rparr>],
      g_edges = [\<lparr>ed_from = ''n'', ed_to = ''a'', ed_condition = Some ''timeout''\<rparr>,
        \<lparr>ed_from = ''a'', ed_to = ''e'', ed_condition = None\<rparr>]\<rparr>"

definition ex_waiting :: wf_db where
  "ex_waiting = ex_family\<lparr>db_definitions := [\<lparr>wd_id = ''d'', wd_tenant = ''T'', wd_name = [], wd_entity_type = ''case'',
     wd_graph = ex_wait_graph, wd_status = DefPublished, wd_version = 1, wd_published_at = None\<rparr>]\<rparr>"

definition ex_wake :: "wf_env \<Rightarrow> wake_env" where
  "ex_wake e = \<lparr>wk_select_now = 20, wk_now = 20, wk_batch = 10, wk_select_fails = False, wk_claim_fails = (\<lambda>_. False),
     wk_parent_fails = (\<lambda>_. False), wk_unclaim_fails = (\<lambda>_. False), wk_tenants = [''T''], wk_engine = e,
     wk_cancel = ex_cancel RolledBack, wk_lookup_fails = False\<rparr>"

abbreviation ex_pc :: wf_link where
  "ex_pc \<equiv> ex_link ''p'' ''c'' KindBooking"

definition ex_refusing :: wf_env where
  "ex_refusing = ex_wf_env\<lparr>en_assign := (\<lambda>_ _ _ _. Inl (PlainError ''deadlock''))\<rparr>"

text \<open>
  A link is swept once: after a sweep has handled a link, another sweep of the same candidate, by any
  worker at any time, finds nothing to claim and changes nothing.
\<close>

theorem swept_link_claimed_once:
  assumes "distinct (map lk_id (db_links db))" "processOne env l db = Some (Inr True, db')" "\<not> wk_claim_fails env' (lk_id l)"
  shows "processOne env' l db' = Some (Inr False, db')"
  using assms by (rule sweep_again)

theorem swept_link_claimed_once_witness:
  "\<exists>db'. processOne (ex_wake ex_wf_env) ex_pc ex_waiting = Some (Inr True, db') \<and>
     processOne (ex_wake ex_wf_env) ex_pc db' = Some (Inr False, db')"
proof -
  have "map_option fst (processOne (ex_wake ex_wf_env) ex_pc ex_waiting) = Some (Inr True)" by code_simp
  then obtain db' where db': "processOne (ex_wake ex_wf_env) ex_pc ex_waiting = Some (Inr True, db')" by auto
  have "distinct (map lk_id (db_links ex_waiting))" "\<not> wk_claim_fails (ex_wake ex_wf_env) (lk_id ex_pc)" by code_simp+
  from swept_link_claimed_once [OF this(1) db' this(2)] db' show ?thesis by blast
qed

text \<open>
  C31. A resumption that throws strands the workflow: the sweeper takes its claim on the link back so that
  the next sweep tries again, but the parent has already left the waiting status. The next sweep, at any
  later time and with every call succeeding, counts the link as handled and leaves all instances as they are.
\<close>

theorem failed_resumption_strands:
  assumes "inst_inv db"
    and "processOne env l db = Some (Inl e, db1)" "\<not> wk_claim_fails env (lk_id l)"
      "\<not> wk_parent_fails env (lk_id l)" "\<not> wk_unclaim_fails env (lk_id l)"
    and "wk_now env \<le> wk_now env'" "\<not> wk_claim_fails env' (lk_id l)" "\<not> wk_parent_fails env' (lk_id l)"
      "lk_tenant l \<in> set (wk_tenants env')"
  shows "\<exists>db2. processOne env' l db1 = Some (Inr True, db2) \<and> db_instances db2 = db_instances db1"
  using assms by (rule retry_strands)

theorem failed_resumption_strands_witness:
  "\<exists>e db1 db2. processOne (ex_wake ex_refusing) ex_pc ex_waiting = Some (Inl e, db1) \<and>
     processOne (ex_wake ex_wf_env) ex_pc db1 = Some (Inr True, db2) \<and> db_instances db2 = db_instances db1"
proof -
  have "map_option (isl \<circ> fst) (processOne (ex_wake ex_refusing) ex_pc ex_waiting) = Some True" by code_simp
  then obtain e db1 where db1: "processOne (ex_wake ex_refusing) ex_pc ex_waiting = Some (Inl e, db1)"
    by (auto simp: isl_def)
  have inv: "inst_inv ex_waiting"
    by (auto simp: inst_inv_def same_live_entity_def ex_waiting_def ex_family_def ex_instance_def)
  have "\<not> wk_claim_fails (ex_wake x) y" "\<not> wk_parent_fails (ex_wake x) y" "\<not> wk_unclaim_fails (ex_wake x) y"
    "wk_now (ex_wake x) = 20" "lk_tenant ex_pc \<in> set (wk_tenants (ex_wake x))" for x y
    by (simp_all add: ex_wake_def ex_link_def)
  with failed_resumption_strands [OF inv db1, of "ex_wake ex_wf_env"] db1 show ?thesis by fastforce
qed

text \<open>
  A failed cancellation of a booking's workflow is acknowledged: when the cancellation procedure fails
  for the instance behind the booking's approvals, the handler of the cancelled booking still reports success,
  so the event is not retried, and the database is as before, the instance live and its approvals pending.
\<close>

theorem failed_booking_cancel_acknowledged:
  assumes "we_payload_tenant ev = Some (we_event_tenant ev)" "we_booking ev = JStr bookingId"
    and "en_is_uuid (wk_engine env) bookingId" "\<not> wk_lookup_fails env" "\<not> wk_select_fails env"
    and "booking_instances bookingId (we_event_tenant ev) db = [i]" "ca_rpc_fails (wk_cancel env) i"
    and "wake_candidates env BookingCancelled ev bookingId db = []"
  shows "handle_booking_cancelled env ev db = Some (HandlerOk, db)"
  using assms by (simp add: handle_booking_cancelled_def cancelInstanceForBooking_def cancel_root_def cancel_depth_def runWake_def)

definition ex_booked :: wf_db where
  "ex_booked = ex_family\<lparr>db_approvals := map (\<lambda>a. a\<lparr>wa_target_type := ''booking'', wa_target_id := ''b1''\<rparr>) (db_approvals ex_family)\<rparr>"

theorem failed_booking_cancel_acknowledged_witness:
  "\<exists>env ev. ca_rpc_fails (wk_cancel env) ''g'' \<and> handle_booking_cancelled env ev ex_booked = Some (HandlerOk, ex_booked) \<and>
     ''g'' \<in> live_ids ''T'' ex_booked"
proof -
  let ?env = "(ex_wake ex_wf_env)\<lparr>wk_cancel := (ex_cancel RolledBack)\<lparr>ca_rpc_fails := (\<lambda>_. True)\<rparr>\<rparr>"
  let ?ev = "\<lparr>we_event_tenant = ''T'', we_payload_tenant = Some ''T'', we_booking = JStr ''b1'', we_to_status = None, we_status = None\<rparr>"
  have "booking_instances ''b1'' (we_event_tenant ?ev) ex_booked = [''g'']" "wake_candidates ?env BookingCancelled ?ev ''b1'' ex_booked = []"
    "en_is_uuid (wk_engine ?env) ''b1''" "\<not> wk_lookup_fails ?env" "\<not> wk_select_fails ?env" "ca_rpc_fails (wk_cancel ?env) ''g''"
    by code_simp+
  with failed_booking_cancel_acknowledged [of ?ev "''b1''" ?env ex_booked "''g''"]
  have "handle_booking_cancelled ?env ?ev ex_booked = Some (HandlerOk, ex_booked)" "ca_rpc_fails (wk_cancel ?env) ''g''" by simp_all
  moreover have "''g'' \<in> live_ids ''T'' ex_booked"
    by (simp add: live_ids_iff ex_booked_def ex_family_def ex_instance_def live_status_def)
  ultimately show ?thesis by blast
qed

end
