(* ===== verification/Predicate_Engine.thy ===== *)
theory Predicate_Engine
  imports Js_Value
begin

section \<open>The predicate engine of the booking rules\<close>

text \<open>
  \<open>modules/room-booking-rules/predicate-engine.service.ts\<close>: the evaluator of the JSON
  predicates \<open>applies_when\<close>, the static validator that guards what is saved, and the
  hydration step that asks the database for the helper data before evaluation.

  A predicate is the JSON value read from the database, not a typed tree: the code
  inspects keys at run time, and so does the model. The context is a record: the JSON
  fields of the booking, the permission map, and the two maps of pre-resolved helper data.
  \<open>Date.now()\<close> is the argument \<open>now\<close>; the two remote procedures are arguments of
  \<open>hydrateContextHelpers\<close>. Conversions to a string or a number can throw (\<open>js_String\<close>, \<open>js_Number\<close>), and the maps that
  are indexed with an operand answer for the properties that every object inherits (\<open>OBJECT_KEYS\<close>). Outside the
  model are references \<open>$.a.b\<close> that end in such an inherited property, and infinite numbers.
\<close>

record eval_ctx =
  c_fields :: "(string \<times> jsval) list"
  c_permissions :: "string \<Rightarrow> bool option"
  c_org_descendants :: "string \<Rightarrow> string list option"
  c_in_business_hours :: "string \<Rightarrow> bool option"

definition invalid_predicate :: app_error where
  "invalid_predicate = ValidationFailed ''room_rule.invalid_predicate''"

definition KNOWN_OPS :: "string list" where
  "KNOWN_OPS = [''eq'', ''ne'', ''in'', ''gt'', ''gte'', ''lt'', ''lte'', ''contains'']"

definition KNOWN_FNS :: "string list" where
  "KNOWN_FNS = [''in_business_hours'', ''in_org_descendants'', ''duration_minutes_lt'',
     ''duration_minutes_gt'', ''lead_minutes_lt'', ''lead_minutes_gt'', ''has_permission'',
     ''array_intersects'', ''attendees_over_capacity_factor'', ''attendees_below_min'']"

subsection \<open>References into the context\<close>

fun ref_walk :: "jsval \<Rightarrow> string list \<Rightarrow> jsval" where
  "ref_walk v [] = v"
| "ref_walk v (k # ks) = ref_walk (js_get v k) ks"

text \<open>
  The context itself as the start of the walk. An object whose content no operation looks
  at (the permission map, the maps of helper data, a set of ids) is the empty object.
\<close>

fun ctx_path :: "eval_ctx \<Rightarrow> string list \<Rightarrow> jsval" where
  "ctx_path c [] = JObj []"
| "ctx_path c (k # ks) =
     (if k = ''permissions'' then
        (case ks of [] \<Rightarrow> JObj []
         | q # qs \<Rightarrow> ref_walk (case c_permissions c q of None \<Rightarrow> JUndef | Some b \<Rightarrow> JBool b) qs)
      else if k = ''resolved'' then
        (case ks of [] \<Rightarrow> JObj []
         | q # qs \<Rightarrow>
             if q = ''org_descendants'' then
               (case qs of [] \<Rightarrow> JObj []
                | r # rs \<Rightarrow>
                    ref_walk (if c_org_descendants c r = None then JUndef else JObj []) rs)
             else if q = ''in_business_hours'' then
               (case qs of [] \<Rightarrow> JObj []
                | r # rs \<Rightarrow>
                    ref_walk (case c_in_business_hours c r of None \<Rightarrow> JUndef
                              | Some b \<Rightarrow> JBool b) rs)
             else JUndef)
      else ref_walk (obj_get (c_fields c) k) ks)"

definition resolveRef :: "jsval \<Rightarrow> eval_ctx \<Rightarrow> jsval" where
  "resolveRef v c =
     (case v of
        JStr s \<Rightarrow> if starts_with s ''$.'' then ctx_path c (split_on (CHR ''.'') (drop 2 s)) else v
      | _ \<Rightarrow> v)"

subsection \<open>Comparisons\<close>

definition looseEq :: "host \<Rightarrow> jsval \<Rightarrow> jsval \<Rightarrow> bool result" where
  "looseEq h a b =
     (if strict_eq a b then Inr True
      else if is_nullish a \<or> is_nullish b then Inr False
      else and_then (js_String h a) (\<lambda>x. and_then (js_String h b) (\<lambda>y. Inr (x = y))))"

fun num_sub :: "rat option \<Rightarrow> rat option \<Rightarrow> rat option" where
  "num_sub (Some x) (Some y) = Some (x - y)"
| "num_sub _ _ = None"

fun is_num :: "jsval \<Rightarrow> bool" where
  "is_num (JNum n) = True"
| "is_num _ = False"

fun date_of_str :: "host \<Rightarrow> jsval \<Rightarrow> int option" where
  "date_of_str h (JStr s) = date_parse h s"
| "date_of_str h _ = None"

text \<open>\<open>String(a ?? '')\<close>.\<close>

definition str_or_empty :: "host \<Rightarrow> jsval \<Rightarrow> string result" where
  "str_or_empty h v = (if is_nullish v then Inr [] else js_String h v)"

text \<open>The difference that \<open>cmp\<close> returns; \<open>None\<close> is \<open>NaN\<close>, which is neither above, below nor equal to 0.\<close>

definition cmp :: "host \<Rightarrow> jsval \<Rightarrow> jsval \<Rightarrow> rat option result" where
  "cmp h a b =
     (if is_num a \<or> is_num b then
        and_then (js_Number h a) (\<lambda>x. and_then (js_Number h b) (\<lambda>y. Inr (num_sub x y)))
      else (case (date_of_str h a, date_of_str h b) of
              (Some x, Some y) \<Rightarrow> Inr (Some (of_int (x - y)))
            | _ \<Rightarrow>
                and_then (str_or_empty h a) (\<lambda>sa. and_then (str_or_empty h b) (\<lambda>sb.
                Inr (Some (if sa < sb then -1 else if sa > sb then 1 else 0))))))"

fun num_test :: "(rat \<Rightarrow> bool) \<Rightarrow> rat option \<Rightarrow> bool" where
  "num_test P None = False"
| "num_test P (Some x) = P x"

definition cmp_test :: "host \<Rightarrow> (rat \<Rightarrow> bool) \<Rightarrow> jsval \<Rightarrow> jsval \<Rightarrow> bool result" where
  "cmp_test h P a b = and_then (cmp h a b) (\<lambda>d. Inr (num_test P d))"

fun num_less :: "rat option \<Rightarrow> rat option \<Rightarrow> bool" where
  "num_less (Some x) (Some y) = (x < y)"
| "num_less _ _ = False"

fun is_array :: "jsval \<Rightarrow> bool" where
  "is_array (JArr vs) = True"
| "is_array _ = False"

definition evalOp :: "host \<Rightarrow> (string \<times> jsval) list \<Rightarrow> eval_ctx \<Rightarrow> bool result" where
  "evalOp h node c =
     (let left = resolveRef (obj_get node ''left'') c;
          right = resolveRef (obj_get node ''right'') c;
          op = obj_get node ''op''
      in if op = JStr ''eq'' then looseEq h left right
         else if op = JStr ''ne'' then and_then (looseEq h left right) (\<lambda>b. Inr (\<not> b))
         else if op = JStr ''in'' then
           (case right of JArr vs \<Rightarrow> some_result (\<lambda>v. looseEq h v left) vs | _ \<Rightarrow> Inr False)
         else if op = JStr ''gt'' then cmp_test h (\<lambda>x. x > 0) left right
         else if op = JStr ''gte'' then cmp_test h (\<lambda>x. x \<ge> 0) left right
         else if op = JStr ''lt'' then cmp_test h (\<lambda>x. x < 0) left right
         else if op = JStr ''lte'' then cmp_test h (\<lambda>x. x \<le> 0) left right
         else if op = JStr ''contains'' then
           (case left of
              JArr vs \<Rightarrow> some_result (\<lambda>v. looseEq h v right) vs
            | JStr s \<Rightarrow> (case right of JStr t \<Rightarrow> Inr (str_includes s t) | _ \<Rightarrow> Inr False)
            | _ \<Rightarrow> Inr False)
         else Inl invalid_predicate)"

subsection \<open>Helper functions\<close>

text \<open>
  The clock of the lead-time helpers: the field \<open>resolution_basis_at\<close> of the context when it
  is a string that parses, \<open>Date.now()\<close> otherwise.
\<close>

definition basisNowMs :: "host \<Rightarrow> int \<Rightarrow> eval_ctx \<Rightarrow> int" where
  "basisNowMs h now c =
     orElse (date_of_str h (obj_get (c_fields c) ''resolution_basis_at'')) now"

text \<open>Element \<open>i\<close> of a destructured argument list, \<open>undefined\<close> past its end.\<close>

definition arg_at :: "jsval list \<Rightarrow> nat \<Rightarrow> jsval" where
  "arg_at args i = (if i < length args then args ! i else JUndef)"

text \<open>\<open>Date.parse(v)\<close> of any value, and the difference of two instants in minutes.\<close>

definition parse_val :: "host \<Rightarrow> jsval \<Rightarrow> int option result" where
  "parse_val h v = and_then (js_String h v) (\<lambda>s. Inr (date_parse h s))"

fun minutes_between :: "int option \<Rightarrow> int option \<Rightarrow> rat option" where
  "minutes_between (Some s) (Some e) = Some (of_int (e - s) / 60000)"
| "minutes_between _ _ = None"

text \<open>\<open>Number.isFinite(d) && d < Number(mins)\<close>: the bound is converted only when the difference is a number.\<close>

fun minutes_test :: "host \<Rightarrow> (rat option \<Rightarrow> rat option \<Rightarrow> bool) \<Rightarrow> rat option \<Rightarrow> jsval \<Rightarrow> bool result" where
  "minutes_test h P None mins = Inr False"
| "minutes_test h P (Some d) mins = and_then (js_Number h mins) (\<lambda>m. Inr (P (Some d) m))"

definition business_key :: "host \<Rightarrow> jsval \<Rightarrow> jsval \<Rightarrow> string result" where
  "business_key h tm cal = and_then (js_String h tm) (\<lambda>x. and_then (js_String h cal) (\<lambda>y. Inr (x @ ''|'' @ y)))"

text \<open>
  The two maps indexed with an operand. An inherited property is truthy: as a permission it is granted, and as a set of
  descendants it has no method \<open>has\<close>. (The keys of \<open>in_business_hours\<close> contain a bar, as no inherited name does.)
\<close>

definition permission_of :: "eval_ctx \<Rightarrow> string \<Rightarrow> bool" where
  "permission_of c q = (case c_permissions c q of None \<Rightarrow> q \<in> set OBJECT_KEYS | Some b \<Rightarrow> b)"

definition in_descendants :: "eval_ctx \<Rightarrow> string \<Rightarrow> jsval \<Rightarrow> bool result" where
  "in_descendants c r node =
     (case c_org_descendants c r of
        None \<Rightarrow> if r \<in> set OBJECT_KEYS then Inl type_error else Inr False
      | Some ids \<Rightarrow> Inr (case node of JStr s \<Rightarrow> s \<in> set ids | _ \<Rightarrow> False))"

text \<open>\<open>array_intersects\<close> converts all of the right array first, then the left one up to the first hit.\<close>

definition arrays_intersect :: "host \<Rightarrow> jsval list \<Rightarrow> jsval list \<Rightarrow> bool result" where
  "arrays_intersect h xs ys =
     and_then (map_result (js_String h) ys) (\<lambda>right.
     some_result (\<lambda>v. and_then (js_String h v) (\<lambda>s. Inr (s \<in> set right))) xs)"

fun num_times :: "rat option \<Rightarrow> rat option \<Rightarrow> rat option" where
  "num_times (Some x) (Some y) = Some (x * y)"
| "num_times _ _ = None"

definition evalFn :: "host \<Rightarrow> int \<Rightarrow> jsval \<Rightarrow> jsval list \<Rightarrow> eval_ctx \<Rightarrow> bool result" where
  "evalFn h now fn rawArgs c =
     (let args = map (\<lambda>a. resolveRef a c) rawArgs;
          a0 = arg_at args 0; a1 = arg_at args 1; a2 = arg_at args 2;
          duration = (\<lambda>P. and_then (parse_val h a1) (\<lambda>e. and_then (parse_val h a0) (\<lambda>s.
            minutes_test h P (minutes_between s e) a2)));
          lead = (\<lambda>P. and_then (parse_val h a0) (\<lambda>s.
            minutes_test h P (minutes_between (Some (basisNowMs h now c)) s) a1))
      in if fn = JStr ''in_business_hours'' then
           (if \<not> truthy_val a0 \<or> \<not> truthy_val a1 then Inr False
            else and_then (business_key h a0 a1) (\<lambda>k. Inr (c_in_business_hours c k = Some True)))
         else if fn = JStr ''in_org_descendants'' then
           (if \<not> truthy_val a0 \<or> \<not> truthy_val a1 then Inr False
            else and_then (js_String h a1) (\<lambda>r. in_descendants c r a0))
         else if fn = JStr ''duration_minutes_lt'' then duration num_less
         else if fn = JStr ''duration_minutes_gt'' then duration (\<lambda>d m. num_less m d)
         else if fn = JStr ''lead_minutes_lt'' then lead num_less
         else if fn = JStr ''lead_minutes_gt'' then lead (\<lambda>d m. num_less m d)
         else if fn = JStr ''has_permission'' then
           and_then (js_String h a0) (\<lambda>q. Inr (permission_of c q))
         else if fn = JStr ''array_intersects'' then
           (case a0 of
              JArr xs \<Rightarrow> (case a1 of JArr ys \<Rightarrow> arrays_intersect h xs ys | _ \<Rightarrow> Inr False)
            | _ \<Rightarrow> Inr False)
         else if fn = JStr ''attendees_over_capacity_factor'' then
           (if is_nullish a0 \<or> is_nullish a1 then Inr False
            else and_then (js_Number h a0) (\<lambda>att. and_then (js_Number h a1) (\<lambda>cap. and_then (js_Number h a2) (\<lambda>factor.
              Inr (num_less (num_times cap factor) att)))))
         else if fn = JStr ''attendees_below_min'' then
           (if is_nullish a0 \<or> is_nullish a1 then Inr False
            else and_then (js_Number h a0) (\<lambda>att. and_then (js_Number h a1) (\<lambda>least. Inr (num_less att least))))
         else Inl invalid_predicate)"

subsection \<open>Evaluation and validation\<close>

text \<open>
  \<open>predicate.args ?? []\<close>, mapped: a missing or null value is the empty list, a value that
  is not an array has no \<open>map\<close> method.
\<close>

fun fn_args :: "jsval \<Rightarrow> jsval list result" where
  "fn_args JUndef = Inr []"
| "fn_args JNull = Inr []"
| "fn_args (JArr vs) = Inr vs"
| "fn_args _ = Inl type_error"

text \<open>
  The recursion is bounded by the depth counter of the code: past depth 10 the evaluator
  throws, so \<open>11 - depth\<close> decreases at every call.
\<close>

function evaluate :: "host \<Rightarrow> int \<Rightarrow> jsval \<Rightarrow> eval_ctx \<Rightarrow> nat \<Rightarrow> bool result" where
  "evaluate h now p c depth =
     (if depth > 10 then Inl invalid_predicate
      else case p of
        JObj fs \<Rightarrow>
          if has_key fs ''and'' then
            (case obj_get fs ''and'' of
               JArr ps \<Rightarrow> every_result (\<lambda>q. evaluate h now q c (depth + 1)) ps
             | _ \<Rightarrow> Inl invalid_predicate)
          else if has_key fs ''or'' then
            (case obj_get fs ''or'' of
               JArr ps \<Rightarrow> some_result (\<lambda>q. evaluate h now q c (depth + 1)) ps
             | _ \<Rightarrow> Inl invalid_predicate)
          else if has_key fs ''not'' then
            and_then (evaluate h now (obj_get fs ''not'') c (depth + 1)) (\<lambda>b. Inr (\<not> b))
          else if has_key fs ''fn'' then
            and_then (fn_args (obj_get fs ''args'')) (\<lambda>args. evalFn h now (obj_get fs ''fn'') args c)
          else if has_key fs ''op'' then evalOp h fs c
          else Inl invalid_predicate
      | _ \<Rightarrow> Inl invalid_predicate)"
  by pat_completeness auto
termination
  by (relation "measure (\<lambda>(h, now, p, c, depth). 11 - depth)") auto

declare evaluate.simps [simp del]

definition known_name :: "string list \<Rightarrow> jsval \<Rightarrow> bool" where
  "known_name names v = (case v of JStr s \<Rightarrow> s \<in> set names | _ \<Rightarrow> False)"

function validate :: "jsval \<Rightarrow> nat \<Rightarrow> unit result" where
  "validate p depth =
     (if depth > 10 then Inl invalid_predicate
      else case p of
        JObj fs \<Rightarrow>
          if has_key fs ''and'' then
            (case obj_get fs ''and'' of
               JArr ps \<Rightarrow> if ps = [] then Inl invalid_predicate
                          else each_result (\<lambda>q. validate q (depth + 1)) ps
             | _ \<Rightarrow> Inl invalid_predicate)
          else if has_key fs ''or'' then
            (case obj_get fs ''or'' of
               JArr ps \<Rightarrow> if ps = [] then Inl invalid_predicate
                          else each_result (\<lambda>q. validate q (depth + 1)) ps
             | _ \<Rightarrow> Inl invalid_predicate)
          else if has_key fs ''not'' then validate (obj_get fs ''not'') (depth + 1)
          else if has_key fs ''fn'' then
            (if \<not> known_name KNOWN_FNS (obj_get fs ''fn'') then Inl invalid_predicate
             else if \<not> is_array (obj_get fs ''args'') then Inl invalid_predicate
             else Inr ())
          else if has_key fs ''op'' then
            (if \<not> known_name KNOWN_OPS (obj_get fs ''op'') then Inl invalid_predicate
             else if \<not> has_key fs ''left'' then Inl invalid_predicate
             else if obj_get fs ''op'' \<noteq> JStr ''in'' \<and> \<not> has_key fs ''right''
               then Inl invalid_predicate
             else Inr ())
          else Inl invalid_predicate
      | _ \<Rightarrow> Inl invalid_predicate)"
  by pat_completeness auto
termination
  by (relation "measure (\<lambda>(p, depth). 11 - depth)") auto

declare validate.simps [simp del]

subsection \<open>Hydration\<close>

text \<open>
  What \<open>visit\<close> collects from a predicate: the roots of \<open>in_org_descendants\<close> and the keys of
  \<open>in_business_hours\<close>, in the order of the walk. Unlike the evaluator it looks at every
  key of a node and has no depth limit; it ends because a field of an object is smaller
  than the object.
\<close>

datatype helper_key = OrgRoot string | BusinessKey string

lemma size_obj_get:
  "map_of fs k = Some v \<Longrightarrow> size v < size (JObj fs)"
proof -
  assume "map_of fs k = Some v"
  then have "(k, v) \<in> set fs" by (rule map_of_SomeD)
  then have "size v \<le> size_list (size_prod (\<lambda>_. 0) size) fs"
    by (rule size_list_estimation') simp
  then show ?thesis by simp
qed

lemma size_field_elem:
  assumes "obj_get fs k = JArr ps" and "q \<in> set ps"
  shows "size q < size (JObj fs)"
proof -
  from assms(1) have "map_of fs k = Some (JArr ps)" by (auto split: option.splits)
  then have "size (JArr ps) < size (JObj fs)" by (rule size_obj_get)
  moreover from assms(2) have "size q < size (JArr ps)"
    using size_list_estimation' [of q ps "size q" size] by simp
  ultimately show ?thesis by simp
qed

lemma size_field_truthy:
  assumes "truthy_val (obj_get fs k)"
  shows "size (obj_get fs k) < size (JObj fs)"
  using assms by (auto split: option.splits dest!: size_obj_get)

fun array_elems :: "jsval \<Rightarrow> jsval list" where
  "array_elems (JArr vs) = vs"
| "array_elems _ = []"

lemma array_elems_size: "q \<in> set (array_elems (obj_get fs k)) \<Longrightarrow> size q < size (JObj fs)"
  by (cases "obj_get fs k") (auto intro: size_field_elem simp del: obj_get.simps jsval.size)

definition visit_fn :: "eval_ctx \<Rightarrow> jsval \<Rightarrow> jsval list \<Rightarrow> helper_key list" where
  "visit_fn c fn rawArgs =
     (let args = map (\<lambda>a. resolveRef a c) rawArgs
      in if fn = JStr ''in_org_descendants'' then
           (case arg_at args 1 of JStr rt \<Rightarrow> [OrgRoot rt] | _ \<Rightarrow> [])
         else if fn = JStr ''in_business_hours'' then
           (case (arg_at args 0, arg_at args 1) of
              (JStr tm, JStr cal) \<Rightarrow> [BusinessKey (tm @ ''|'' @ cal)]
            | _ \<Rightarrow> [])
         else [])"

function visit :: "eval_ctx \<Rightarrow> jsval \<Rightarrow> helper_key list" where
  "visit c p =
     (case p of
        JObj fs \<Rightarrow>
          concat (map (visit c) (array_elems (obj_get fs ''and''))) @
          concat (map (visit c) (array_elems (obj_get fs ''or''))) @
          (if truthy_val (obj_get fs ''not'') then visit c (obj_get fs ''not'') else []) @
          (if is_array (obj_get fs ''args'')
           then visit_fn c (obj_get fs ''fn'') (array_elems (obj_get fs ''args'')) else [])
      | _ \<Rightarrow> [])"
  by pat_completeness auto
termination
  by (relation "measure (\<lambda>(c, p). size p)")
     (simp_all add: array_elems_size size_field_truthy del: obj_get.simps jsval.size)

declare visit.simps [simp del]

fun org_roots :: "helper_key list \<Rightarrow> string list" where
  "org_roots [] = []"
| "org_roots (OrgRoot r # ks) = r # org_roots ks"
| "org_roots (BusinessKey b # ks) = org_roots ks"

fun business_keys :: "helper_key list \<Rightarrow> string list" where
  "business_keys [] = []"
| "business_keys (OrgRoot r # ks) = business_keys ks"
| "business_keys (BusinessKey b # ks) = b # business_keys ks"

text \<open>
  One round trip per root that the context does not hold yet, by its own or by an inherited property; empty ids are
  dropped.
\<close>

fun hydrate_org :: "(string \<Rightarrow> string list result) \<Rightarrow> string list \<Rightarrow> eval_ctx \<Rightarrow> eval_ctx result" where
  "hydrate_org rpc [] c = Inr c"
| "hydrate_org rpc (r # rs) c =
     (if c_org_descendants c r \<noteq> None \<or> r \<in> set OBJECT_KEYS then hydrate_org rpc rs c
      else (case rpc r of
              Inl e \<Rightarrow> Inl (ServerError ''room_rule.org_descendants_resolve_failed'')
            | Inr ids \<Rightarrow>
                hydrate_org rpc rs
                  (c\<lparr>c_org_descendants := (c_org_descendants c)(r \<mapsto> filter (\<lambda>i. i \<noteq> []) ids)\<rparr>)))"

text \<open>\<open>const [at, cal] = key.split('|')\<close> and the remote procedure on the two parts.\<close>

definition business_rpc :: "(string \<Rightarrow> string \<Rightarrow> bool result) \<Rightarrow> string \<Rightarrow> bool result" where
  "business_rpc rpc key =
     (case split_on (CHR ''|'') key of
        tm # cal # _ \<Rightarrow> rpc tm cal
      | _ \<Rightarrow> Inl type_error)"

fun hydrate_business ::
    "(string \<Rightarrow> string \<Rightarrow> bool result) \<Rightarrow> string list \<Rightarrow> eval_ctx \<Rightarrow> eval_ctx result" where
  "hydrate_business rpc [] c = Inr c"
| "hydrate_business rpc (k # ks) c =
     (if c_in_business_hours c k \<noteq> None then hydrate_business rpc ks c
      else (case business_rpc rpc k of
              Inl e \<Rightarrow> Inl (ServerError ''room_rule.business_hours_resolve_failed'')
            | Inr b \<Rightarrow>
                hydrate_business rpc ks
                  (c\<lparr>c_in_business_hours := (c_in_business_hours c)(k \<mapsto> b)\<rparr>)))"

definition hydrateContextHelpers ::
    "(string \<Rightarrow> string list result) \<Rightarrow> (string \<Rightarrow> string \<Rightarrow> bool result) \<Rightarrow>
     jsval list \<Rightarrow> eval_ctx \<Rightarrow> eval_ctx result" where
  "hydrateContextHelpers orgRpc hoursRpc ps c =
     (let found = concat (map (visit c) ps);
          orgRoots = fold set_add (org_roots found) [];
          businessHourKeys = fold set_add (business_keys found) []
      in and_then (hydrate_org orgRpc orgRoots c)
           (\<lambda>c1. hydrate_business hoursRpc businessHourKeys c1))"

subsection \<open>A validated predicate evaluates\<close>

lemma known_nameE:
  assumes "known_name names v"
  obtains s where "v = JStr s" and "s \<in> set names"
  using assms by (auto simp: known_name_def split: jsval.splits)

text \<open>
  Operands that convert: the resolved operands of a comparison or of a helper have no field \<open>toString\<close>, and the root of
  \<open>in_org_descendants\<close> is no inherited name.
\<close>

definition root_ok :: "eval_ctx \<Rightarrow> string \<Rightarrow> bool" where
  "root_ok c r \<longleftrightarrow> c_org_descendants c r \<noteq> None \<or> r \<notin> set OBJECT_KEYS"

definition plain_args :: "host \<Rightarrow> eval_ctx \<Rightarrow> jsval \<Rightarrow> jsval list \<Rightarrow> bool" where
  "plain_args h c fn rawArgs =
     (let args = map (\<lambda>a. resolveRef a c) rawArgs
      in list_all plain_val args \<and>
         (fn = JStr ''in_org_descendants'' \<longrightarrow> (case js_String h (arg_at args 1) of Inl _ \<Rightarrow> False | Inr r \<Rightarrow> root_ok c r)))"

definition plain_sides :: "eval_ctx \<Rightarrow> (string \<times> jsval) list \<Rightarrow> bool" where
  "plain_sides c fs \<longleftrightarrow> plain_val (resolveRef (obj_get fs ''left'') c) \<and> plain_val (resolveRef (obj_get fs ''right'') c)"

function plain_operands :: "host \<Rightarrow> eval_ctx \<Rightarrow> jsval \<Rightarrow> bool" where
  "plain_operands h c p =
     (case p of
        JObj fs \<Rightarrow>
          list_all (plain_operands h c) (array_elems (obj_get fs ''and'')) \<and>
          list_all (plain_operands h c) (array_elems (obj_get fs ''or'')) \<and>
          (if truthy_val (obj_get fs ''not'') then plain_operands h c (obj_get fs ''not'') else True) \<and>
          plain_args h c (obj_get fs ''fn'') (array_elems (obj_get fs ''args'')) \<and> plain_sides c fs
      | _ \<Rightarrow> True)"
  by pat_completeness auto
termination
  by (relation "measure (\<lambda>(h, c, p). size p)")
     (simp_all add: array_elems_size size_field_truthy del: obj_get.simps jsval.size)

declare plain_operands.simps [simp del]

lemma looseEq_settles [settle]: "(b \<Longrightarrow> plain_val v) \<Longrightarrow> (b \<Longrightarrow> plain_val w) \<Longrightarrow> settles b (looseEq h v w)"
  unfolding looseEq_def by (intro settle)

lemma cmp_test_settles [settle]: "(b \<Longrightarrow> plain_val v) \<Longrightarrow> (b \<Longrightarrow> plain_val w) \<Longrightarrow> settles b (cmp_test h P v w)"
  by (auto simp: cmp_test_def cmp_def str_or_empty_def split: option.split intro!: settle)

lemma parse_val_settles [settle]: "(b \<Longrightarrow> plain_val v) \<Longrightarrow> settles b (parse_val h v)"
  unfolding parse_val_def by (intro settle)

lemma minutes_test_settles [settle]: "(b \<Longrightarrow> plain_val v) \<Longrightarrow> settles b (minutes_test h P d v)"
  by (cases d) (auto intro!: settle)

lemma business_key_settles [settle]: "(b \<Longrightarrow> plain_val v) \<Longrightarrow> (b \<Longrightarrow> plain_val w) \<Longrightarrow> settles b (business_key h v w)"
  unfolding business_key_def by (intro settle)

lemma in_descendants_settles [settle]: "(b \<Longrightarrow> root_ok c r) \<Longrightarrow> settles b (in_descendants c r v)"
  by (auto simp: in_descendants_def root_ok_def split: option.split)

lemma arrays_intersect_settles [settle]:
  "(b \<Longrightarrow> list_all plain_val xs) \<Longrightarrow> (b \<Longrightarrow> list_all plain_val ys) \<Longrightarrow> settles b (arrays_intersect h xs ys)"
  by (auto simp: arrays_intersect_def list_all_iff intro!: settle)

lemma plain_elem: "plain_val (JArr vs) \<Longrightarrow> v \<in> set vs \<Longrightarrow> plain_val v"
  by (simp add: list_all_iff)

lemma evalOp_settles:
  assumes "known_name KNOWN_OPS (obj_get fs ''op'')"
  shows "settles (plain_sides c fs) (evalOp h fs c)"
proof -
  let ?l = "resolveRef (obj_get fs ''left'') c" and ?r = "resolveRef (obj_get fs ''right'') c"
  have parts: "plain_sides c fs \<Longrightarrow> plain_val ?l" "plain_sides c fs \<Longrightarrow> plain_val ?r" by (simp_all add: plain_sides_def)
  have "settles (plain_sides c fs) (case ?r of JArr vs \<Rightarrow> some_result (\<lambda>v. looseEq h v ?l) vs | _ \<Rightarrow> Inr False)"
    "settles (plain_sides c fs) (case ?l of JArr vs \<Rightarrow> some_result (\<lambda>v. looseEq h v ?r) vs
       | JStr s \<Rightarrow> (case ?r of JStr t \<Rightarrow> Inr (str_includes s t) | _ \<Rightarrow> Inr False) | _ \<Rightarrow> Inr False)"
    using parts plain_elem by (cases ?r; cases ?l; auto intro!: settle simp del: plain_val.simps)+
  note lists = this
  from assms have "obj_get fs ''op'' \<in> JStr ` set KNOWN_OPS" by (rule known_nameE) simp
  then have "list_ex (\<lambda>s. obj_get fs ''op'' = JStr s) KNOWN_OPS" by (auto simp: list_ex_iff)
  then show ?thesis
    unfolding KNOWN_OPS_def list_ex_Nil_iff list_ex_Cons_iff
  proof (elim disjE)
  qed (simp add: evalOp_def Let_def del: obj_get.simps; (rule lists | intro settle; erule parts)?)+
qed

lemma arg_at_plain: "list_all plain_val args \<Longrightarrow> plain_val (arg_at args i)"
  by (simp add: arg_at_def list_all_length)

lemma evalFn_settles:
  assumes "known_name KNOWN_FNS fn"
  shows "settles (plain_args h c fn raw) (evalFn h now fn raw c)"
proof -
  define args where "args = map (\<lambda>a. resolveRef a c) raw"
  have plain: "plain_args h c f raw \<Longrightarrow> plain_val (arg_at args i)" for f i
    by (simp add: plain_args_def Let_def arg_at_plain flip: args_def)
  have rt: "plain_args h c (JStr ''in_org_descendants'') raw \<Longrightarrow> root_ok c r" if "js_String h (arg_at args (Suc 0)) = Inr r" for r
    using that by (simp add: plain_args_def Let_def flip: args_def)
  have arrays: "settles (plain_args h c f raw) (case arg_at args 0 of
      JArr xs \<Rightarrow> (case arg_at args (Suc 0) of JArr ys \<Rightarrow> arrays_intersect h xs ys | _ \<Rightarrow> Inr False) | _ \<Rightarrow> Inr False)" for f
    using plain [of f 0] plain [of f "Suc 0"] by (cases "arg_at args 0"; cases "arg_at args (Suc 0)"; auto intro!: settle)
  from assms have "fn \<in> JStr ` set KNOWN_FNS" by (rule known_nameE) simp
  then have "list_ex (\<lambda>s. fn = JStr s) KNOWN_FNS" by (auto simp: list_ex_iff)
  then show ?thesis
    unfolding KNOWN_FNS_def list_ex_Nil_iff list_ex_Cons_iff
  proof (elim disjE)
  qed (simp add: evalFn_def Let_def flip: args_def; (rule arrays | intro impI conjI settle; (erule plain | erule (1) rt))?)+
qed

lemma validateE:
  assumes "validate p depth = Inr ()"
  obtains (conj) fs ps where "p = JObj fs" "depth \<le> 10" "has_key fs ''and''"
      "obj_get fs ''and'' = JArr ps" "\<forall>q\<in>set ps. validate q (depth + 1) = Inr ()"
  | (disj) fs ps where "p = JObj fs" "depth \<le> 10" "\<not> has_key fs ''and''" "has_key fs ''or''"
      "obj_get fs ''or'' = JArr ps" "\<forall>q\<in>set ps. validate q (depth + 1) = Inr ()"
  | (neg) fs where "p = JObj fs" "depth \<le> 10" "\<not> has_key fs ''and''" "\<not> has_key fs ''or''"
      "has_key fs ''not''" "validate (obj_get fs ''not'') (depth + 1) = Inr ()"
  | (helper) fs args where "p = JObj fs" "depth \<le> 10" "\<not> has_key fs ''and''" "\<not> has_key fs ''or''"
      "\<not> has_key fs ''not''" "has_key fs ''fn''" "known_name KNOWN_FNS (obj_get fs ''fn'')"
      "obj_get fs ''args'' = JArr args"
  | (compare) fs where "p = JObj fs" "depth \<le> 10" "\<not> has_key fs ''and''" "\<not> has_key fs ''or''"
      "\<not> has_key fs ''not''" "\<not> has_key fs ''fn''" "has_key fs ''op''"
      "known_name KNOWN_OPS (obj_get fs ''op'')"
proof -
  from assms obtain fs where p: "p = JObj fs" "depth \<le> 10"
    by (subst (asm) validate.simps) (auto split: if_splits jsval.splits)
  from assms [unfolded p validate.simps [of "JObj fs"]] p(2) show ?thesis
    using conj [OF p] disj [OF p] neg [OF p] helper [OF p] compare [OF p]
    by (cases "obj_get fs ''args''")
       (auto simp: result_simps simp del: obj_get.simps split: if_splits jsval.splits)
qed

lemma plain_operandsD:
  assumes "plain_operands h c (JObj fs)"
  shows "obj_get fs ''and'' = JArr ps \<Longrightarrow> q \<in> set ps \<Longrightarrow> plain_operands h c q"
    "obj_get fs ''or'' = JArr ps \<Longrightarrow> q \<in> set ps \<Longrightarrow> plain_operands h c q"
    "truthy_val (obj_get fs ''not'') \<Longrightarrow> plain_operands h c (obj_get fs ''not'')"
    "obj_get fs ''args'' = JArr args \<Longrightarrow> plain_args h c (obj_get fs ''fn'') args" "plain_sides c fs"
  using assms unfolding plain_operands.simps [of h c "JObj fs"] jsval.case
  by (auto simp: list_all_iff simp del: obj_get.simps)

lemma validate_truthy: "validate v depth = Inr () \<Longrightarrow> truthy_val v"
  by (subst (asm) validate.simps) (cases v; simp split: if_splits)

lemma validated_settles:
  "validate p depth = Inr () \<Longrightarrow> settles (plain_operands h c p) (evaluate h now p c depth)"
proof (induction "11 - depth" arbitrary: p depth rule: less_induct)
  case less
  have deeper: "settles b (evaluate h now q c (depth + 1))"
    if "depth \<le> 10" "validate q (depth + 1) = Inr ()" "b \<Longrightarrow> plain_operands h c q" for q b
    using that by (intro settles_weaken [OF less.hyps, of "depth + 1" q]) auto
  from less.prems show ?case
  proof (cases rule: validateE)
    case (conj fs ps)
    with deeper plain_operandsD(1) have "settles (plain_operands h c p) (every_result (\<lambda>q. evaluate h now q c (depth + 1)) ps)"
      by (intro settle) blast
    with conj show ?thesis by (subst evaluate.simps) simp
  next
    case (disj fs ps)
    with deeper plain_operandsD(2) have "settles (plain_operands h c p) (some_result (\<lambda>q. evaluate h now q c (depth + 1)) ps)"
      by (intro settle) blast
    with disj show ?thesis by (subst evaluate.simps) simp
  next
    case (neg fs)
    from plain_operandsD(3) [OF _ validate_truthy [OF neg(6)]] neg(1)
    have "settles (plain_operands h c p) (evaluate h now (obj_get fs ''not'') c (depth + 1))"
      by (intro deeper [OF neg(2,6)]) simp
    with neg show ?thesis by (subst evaluate.simps) (simp add: settles_and_then)
  next
    case (helper fs args)
    from plain_operandsD(4) [OF _ helper(8)] helper(1)
    have "settles (plain_operands h c p) (evalFn h now (obj_get fs ''fn'') args c)"
      by (intro settles_weaken [OF evalFn_settles [OF helper(7)]]) simp
    with helper show ?thesis by (subst evaluate.simps) simp
  next
    case (compare fs)
    from plain_operandsD(5) compare(1) have "settles (plain_operands h c p) (evalOp h fs c)"
      by (intro settles_weaken [OF evalOp_settles [OF compare(8)]]) simp
    with compare show ?thesis by (subst evaluate.simps) simp
  qed
qed

lemma validated_evaluates:
  assumes "validate p depth = Inr ()" "plain_operands h c p"
  shows "\<exists>b. evaluate h now p c depth = Inr b"
  using validated_settles [OF assms(1), of h c now] assms(2) by (simp add: settles_value)

subsection \<open>What an evaluation depends on\<close>

lemma evaluate_stuck:
  "depth > 10 \<or> (\<forall>fs. p \<noteq> JObj fs) \<Longrightarrow> evaluate h now p c depth = Inl invalid_predicate"
  by (subst evaluate.simps) (cases p; simp)

lemma evaluate_falsy: "\<not> truthy_val v \<Longrightarrow> evaluate h now v c depth = Inl invalid_predicate"
  by (rule evaluate_stuck) auto

text \<open>
  Two evaluations of a predicate agree when its leaves do. \<open>Q\<close> selects the nodes that the
  evaluation can reach.
\<close>

lemma evaluate_transfer:
  assumes "Q p"
    and child: "\<And>fs q. Q (JObj fs) \<Longrightarrow>
      q \<in> set (array_elems (obj_get fs ''and'')) \<union> set (array_elems (obj_get fs ''or'')) \<Longrightarrow> Q q"
    and neg: "\<And>fs. Q (JObj fs) \<Longrightarrow> truthy_val (obj_get fs ''not'') \<Longrightarrow> Q (obj_get fs ''not'')"
    and leaf_fn: "\<And>fs args. Q (JObj fs) \<Longrightarrow> fn_args (obj_get fs ''args'') = Inr args \<Longrightarrow>
      evalFn h now1 (obj_get fs ''fn'') args c1 = evalFn h now2 (obj_get fs ''fn'') args c2"
    and leaf_op: "\<And>fs. Q (JObj fs) \<Longrightarrow> evalOp h fs c1 = evalOp h fs c2"
  shows "evaluate h now1 p c1 depth = evaluate h now2 p c2 depth"
  using \<open>Q p\<close>
proof (induction "11 - depth" arbitrary: p depth rule: less_induct)
  case less
  show ?case
  proof (cases "depth \<le> 10 \<and> (\<exists>fs. p = JObj fs)")
    case False
    then have "depth > 10 \<or> (\<forall>fs. p \<noteq> JObj fs)" by auto
    then show ?thesis by (simp only: evaluate_stuck)
  next
    case True
    then obtain fs where p: "p = JObj fs" and d: "depth \<le> 10" by blast
    note Q = less.prems [unfolded p]
    have deeper: "evaluate h now1 q c1 (depth + 1) = evaluate h now2 q c2 (depth + 1)" if "Q q" for q
      using d that by (intro less.hyps) auto
    have ands: "(case obj_get fs ''and'' of
          JArr ps \<Rightarrow> every_result (\<lambda>q. evaluate h now1 q c1 (depth + 1)) ps | _ \<Rightarrow> Inl invalid_predicate)
        = (case obj_get fs ''and'' of
          JArr ps \<Rightarrow> every_result (\<lambda>q. evaluate h now2 q c2 (depth + 1)) ps | _ \<Rightarrow> Inl invalid_predicate)"
      using child [OF Q]
      by (auto split: jsval.split intro!: every_result_cong deeper [simplified] simp del: obj_get.simps)
    have ors: "(case obj_get fs ''or'' of
          JArr ps \<Rightarrow> some_result (\<lambda>q. evaluate h now1 q c1 (depth + 1)) ps | _ \<Rightarrow> Inl invalid_predicate)
        = (case obj_get fs ''or'' of
          JArr ps \<Rightarrow> some_result (\<lambda>q. evaluate h now2 q c2 (depth + 1)) ps | _ \<Rightarrow> Inl invalid_predicate)"
      using child [OF Q]
      by (auto split: jsval.split intro!: some_result_cong deeper [simplified] simp del: obj_get.simps)
    have nots: "evaluate h now1 (obj_get fs ''not'') c1 (depth + 1)
        = evaluate h now2 (obj_get fs ''not'') c2 (depth + 1)"
      using deeper neg [OF Q] by (cases "truthy_val (obj_get fs ''not'')") (auto simp: evaluate_falsy)
    have fns: "and_then (fn_args (obj_get fs ''args'')) (\<lambda>args. evalFn h now1 (obj_get fs ''fn'') args c1)
        = and_then (fn_args (obj_get fs ''args'')) (\<lambda>args. evalFn h now2 (obj_get fs ''fn'') args c2)"
      by (intro and_then_cong refl leaf_fn [OF Q])
    show ?thesis
      unfolding p evaluate.simps [of h _ "JObj fs"]
      by (simp only: jsval.case ands ors nots fns leaf_op [OF Q])
  qed
qed

lemma evalFn_clock:
  assumes "basisNowMs h now1 c = basisNowMs h now2 c"
  shows "evalFn h now1 fn args c = evalFn h now2 fn args c"
  by (simp add: evalFn_def Let_def assms)

lemma evaluate_clock:
  assumes "basisNowMs h now1 c = basisNowMs h now2 c"
  shows "evaluate h now1 p c depth = evaluate h now2 p c depth"
  by (rule evaluate_transfer [where Q = "\<lambda>_. True"]) (simp_all add: evalFn_clock [OF assms])

lemma basisNowMs_fixed:
  assumes "obj_get (c_fields c) ''resolution_basis_at'' = JStr s" and "date_parse h s = Some t"
  shows "basisNowMs h now c = t"
  using assms by (simp add: basisNowMs_def del: obj_get.simps)

subsection \<open>Hydration answers every lookup\<close>

text \<open>
  The specification of hydration: the context in which every helper lookup is the remote
  call itself. For a root that is an inherited name there is no call: the lookup finds the inherited property.
\<close>

definition live_ctx ::
    "(string \<Rightarrow> string list result) \<Rightarrow> (string \<Rightarrow> string \<Rightarrow> bool result) \<Rightarrow> eval_ctx \<Rightarrow> eval_ctx" where
  "live_ctx orgRpc hoursRpc c =
     c\<lparr>c_org_descendants := (\<lambda>r. if r \<in> set OBJECT_KEYS then None else case orgRpc r of
           Inl _ \<Rightarrow> None | Inr ids \<Rightarrow> Some (filter (\<lambda>i. i \<noteq> []) ids)),
       c_in_business_hours := (\<lambda>k. case business_rpc hoursRpc k of
           Inl _ \<Rightarrow> None | Inr b \<Rightarrow> Some b)\<rparr>"

text \<open>References that look into the pre-resolved maps themselves.\<close>

definition resolved_ref :: "jsval \<Rightarrow> bool" where
  "resolved_ref v =
     (case v of
        JStr s \<Rightarrow> starts_with s ''$.'' \<and> hd (split_on (CHR ''.'') (drop 2 s)) = ''resolved''
      | _ \<Rightarrow> False)"

text \<open>
  Operands as the rule editor writes them: no reference into \<open>$.resolved\<close>, and the keys of
  the two database helpers are strings or falsy.
\<close>

definition fn_operands_ok :: "eval_ctx \<Rightarrow> jsval \<Rightarrow> jsval list \<Rightarrow> bool" where
  "fn_operands_ok c fn rawArgs =
     (let args = map (\<lambda>a. resolveRef a c) rawArgs;
          plain = (\<lambda>v. \<not> truthy_val v \<or> (case v of JStr _ \<Rightarrow> True | _ \<Rightarrow> False))
      in (\<forall>a\<in>set rawArgs. \<not> resolved_ref a) \<and>
         (fn = JStr ''in_org_descendants'' \<longrightarrow> plain (arg_at args 1)) \<and>
         (fn = JStr ''in_business_hours'' \<longrightarrow> plain (arg_at args 0) \<and> plain (arg_at args 1)))"

function operands_ok :: "eval_ctx \<Rightarrow> jsval \<Rightarrow> bool" where
  "operands_ok c p =
     (case p of
        JObj fs \<Rightarrow>
          list_all (operands_ok c) (array_elems (obj_get fs ''and'')) \<and>
          list_all (operands_ok c) (array_elems (obj_get fs ''or'')) \<and>
          (if truthy_val (obj_get fs ''not'') then operands_ok c (obj_get fs ''not'') else True) \<and>
          fn_operands_ok c (obj_get fs ''fn'') (array_elems (obj_get fs ''args'')) \<and>
          \<not> resolved_ref (obj_get fs ''left'') \<and> \<not> resolved_ref (obj_get fs ''right'')
      | _ \<Rightarrow> True)"
  by pat_completeness auto
termination
  by (relation "measure (\<lambda>(c, p). size p)")
     (simp_all add: array_elems_size size_field_truthy del: obj_get.simps jsval.size)

declare operands_ok.simps [simp del]

definition same_core :: "eval_ctx \<Rightarrow> eval_ctx \<Rightarrow> bool" where
  "same_core c1 c2 \<longleftrightarrow> c_fields c1 = c_fields c2 \<and> c_permissions c1 = c_permissions c2"

lemma resolveRef_same_core:
  assumes "same_core c1 c2" and "\<not> resolved_ref v"
  shows "resolveRef v c1 = resolveRef v c2"
proof (cases "\<exists>s. v = JStr s \<and> starts_with s ''$.''")
  case True
  then obtain s where s: "v = JStr s" "starts_with s ''$.''" by blast
  obtain k ks where k: "split_on (CHR ''.'') (drop 2 s) = k # ks"
    using split_on_neq_Nil by (meson neq_Nil_conv)
  with s assms(2) have "k \<noteq> ''resolved''" by (simp add: resolved_ref_def)
  with s k assms(1) show ?thesis
    by (simp add: resolveRef_def same_core_def split: list.split)
qed (auto simp: resolveRef_def split: jsval.split)

lemma basisNowMs_same_core: "same_core c1 c2 \<Longrightarrow> basisNowMs h now c1 = basisNowMs h now c2"
  by (simp add: basisNowMs_def same_core_def)

lemma evalOp_same_core:
  assumes "same_core c1 c2"
    and "\<not> resolved_ref (obj_get fs ''left'')" and "\<not> resolved_ref (obj_get fs ''right'')"
  shows "evalOp h fs c1 = evalOp h fs c2"
  by (simp add: evalOp_def resolveRef_same_core [OF assms(1,2)] resolveRef_same_core [OF assms(1,3)]
      del: obj_get.simps)

text \<open>The helper data two contexts hold for the given keys is the same.\<close>

definition same_answers :: "helper_key list \<Rightarrow> eval_ctx \<Rightarrow> eval_ctx \<Rightarrow> bool" where
  "same_answers ks c1 c2 \<longleftrightarrow>
     (\<forall>r. OrgRoot r \<in> set ks \<longrightarrow> c_org_descendants c1 r = c_org_descendants c2 r) \<and>
     (\<forall>k. BusinessKey k \<in> set ks \<longrightarrow> c_in_business_hours c1 k = c_in_business_hours c2 k)"

lemma evalFn_same_answers:
  assumes core: "same_core c1 c" "same_core c2 c"
    and ok: "fn_operands_ok c fn raw"
    and same: "same_answers (visit_fn c fn raw) c1 c2"
  shows "evalFn h now fn raw c1 = evalFn h now fn raw c2"
proof -
  from ok have "\<forall>a\<in>set raw. \<not> resolved_ref a" by (simp add: fn_operands_ok_def Let_def)
  then have refs: "map (\<lambda>a. resolveRef a c1) raw = map (\<lambda>a. resolveRef a c) raw"
    "map (\<lambda>a. resolveRef a c2) raw = map (\<lambda>a. resolveRef a c) raw"
    using core resolveRef_same_core by simp_all
  have perm: "c_permissions c1 = c_permissions c2" and clock: "basisNowMs h now c1 = basisNowMs h now c2"
    using core basisNowMs_same_core [of c1 c h now] basisNowMs_same_core [of c2 c h now]
    by (simp_all add: same_core_def)
  show ?thesis
  proof (cases "fn = JStr ''in_org_descendants'' \<or> fn = JStr ''in_business_hours''")
    case False
    then show ?thesis by (simp add: evalFn_def Let_def refs permission_of_def perm clock)
  next
    case True
    define args where "args = map (\<lambda>a. resolveRef a c) raw"
    show ?thesis
    proof (cases "truthy_val (arg_at args 0) \<and> truthy_val (arg_at args 1)")
      case False
      with True show ?thesis by (auto simp: evalFn_def Let_def refs args_def)
    next
      case t: True
      show ?thesis
      proof (cases "fn = JStr ''in_org_descendants''")
        case org: True
        with ok t obtain r where "arg_at args 1 = JStr r"
          by (auto simp: fn_operands_ok_def Let_def args_def split: jsval.splits)
        with org same t show ?thesis
          by (simp add: evalFn_def refs Let_def visit_fn_def same_answers_def in_descendants_def flip: args_def)
      next
        case False
        with True have hours: "fn = JStr ''in_business_hours''" by simp
        with ok t obtain tm cal where "arg_at args 0 = JStr tm" "arg_at args 1 = JStr cal"
          by (auto simp: fn_operands_ok_def Let_def args_def split: jsval.splits)
        with hours same t show ?thesis
          by (simp add: evalFn_def refs Let_def visit_fn_def same_answers_def business_key_def
              flip: args_def)
      qed
    qed
  qed
qed

lemma visit_parts:
  "set (visit c (JObj fs)) \<supseteq> (\<Union>q\<in>set (array_elems (obj_get fs ''and'')). set (visit c q))"
  "set (visit c (JObj fs)) \<supseteq> (\<Union>q\<in>set (array_elems (obj_get fs ''or'')). set (visit c q))"
  "truthy_val (obj_get fs ''not'') \<Longrightarrow> set (visit c (JObj fs)) \<supseteq> set (visit c (obj_get fs ''not''))"
  "is_array (obj_get fs ''args'') \<Longrightarrow>
     set (visit c (JObj fs)) \<supseteq> set (visit_fn c (obj_get fs ''fn'') (array_elems (obj_get fs ''args'')))"
  by (subst visit.simps, auto simp del: obj_get.simps)+

lemma same_answers_mono: "same_answers ks c1 c2 \<Longrightarrow> set ks' \<subseteq> set ks \<Longrightarrow> same_answers ks' c1 c2"
  by (auto simp: same_answers_def)

lemma visit_fn_no_args: "visit_fn c fn [] = []"
  by (simp add: visit_fn_def arg_at_def)

lemma evaluate_same_answers:
  assumes core: "same_core c1 c" "same_core c2 c"
    and "operands_ok c p" and "same_answers (visit c p) c1 c2"
  shows "evaluate h now p c1 depth = evaluate h now p c2 depth"
proof (rule evaluate_transfer [where Q = "\<lambda>p. operands_ok c p \<and> same_answers (visit c p) c1 c2"])
  show "operands_ok c p \<and> same_answers (visit c p) c1 c2" using assms by blast
next
  fix fs q
  assume Q: "operands_ok c (JObj fs) \<and> same_answers (visit c (JObj fs)) c1 c2"
    and q: "q \<in> set (array_elems (obj_get fs ''and'')) \<union> set (array_elems (obj_get fs ''or''))"
  from q have "set (visit c q) \<subseteq> set (visit c (JObj fs))"
    using visit_parts(1,2) [where fs = fs and c = c] by blast
  moreover from Q q have "operands_ok c q"
    by (subst (asm) operands_ok.simps) (auto simp: list_all_iff simp del: obj_get.simps)
  ultimately show "operands_ok c q \<and> same_answers (visit c q) c1 c2"
    using Q same_answers_mono by blast
next
  fix fs
  assume Q: "operands_ok c (JObj fs) \<and> same_answers (visit c (JObj fs)) c1 c2"
    and t: "truthy_val (obj_get fs ''not'')"
  from Q t have "operands_ok c (obj_get fs ''not'')"
    by (subst (asm) operands_ok.simps) (simp del: obj_get.simps)
  with Q visit_parts(3) [OF t]
  show "operands_ok c (obj_get fs ''not'') \<and> same_answers (visit c (obj_get fs ''not'')) c1 c2"
    using same_answers_mono by blast
next
  fix fs args
  assume Q: "operands_ok c (JObj fs) \<and> same_answers (visit c (JObj fs)) c1 c2"
    and a: "fn_args (obj_get fs ''args'') = Inr args"
  have ok: "fn_operands_ok c (obj_get fs ''fn'') (array_elems (obj_get fs ''args''))"
    using Q by (subst (asm) operands_ok.simps) (simp del: obj_get.simps)
  from a have args: "args = array_elems (obj_get fs ''args'')"
    by (cases "obj_get fs ''args''") (auto simp del: obj_get.simps)
  from a have "is_array (obj_get fs ''args'') \<or> args = []"
    by (cases "obj_get fs ''args''") (auto simp del: obj_get.simps)
  then have "same_answers (visit_fn c (obj_get fs ''fn'') args) c1 c2"
  proof
    assume "is_array (obj_get fs ''args'')"
    from visit_parts(4) [OF this, of c] Q show ?thesis
      unfolding args by (auto elim: same_answers_mono simp del: obj_get.simps)
  next
    assume "args = []"
    then show ?thesis by (simp add: visit_fn_no_args same_answers_def)
  qed
  with ok args core
  show "evalFn h now (obj_get fs ''fn'') args c1 = evalFn h now (obj_get fs ''fn'') args c2"
    by (intro evalFn_same_answers) simp_all
next
  fix fs
  assume "operands_ok c (JObj fs) \<and> same_answers (visit c (JObj fs)) c1 c2"
  then have "\<not> resolved_ref (obj_get fs ''left'')" "\<not> resolved_ref (obj_get fs ''right'')"
    by (subst (asm) operands_ok.simps, simp del: obj_get.simps)+
  moreover have "same_core c1 c2" using core by (simp add: same_core_def)
  ultimately show "evalOp h fs c1 = evalOp h fs c2" by (intro evalOp_same_core)
qed

lemma hydrate_org_result:
  assumes "hydrate_org rpc rs c = Inr c'"
  shows "same_core c' c" and "c_in_business_hours c' = c_in_business_hours c"
    and "c_org_descendants c' r =
      (if c_org_descendants c r = None \<and> r \<notin> set OBJECT_KEYS \<and> r \<in> set rs
       then (case rpc r of Inl _ \<Rightarrow> None | Inr ids \<Rightarrow> Some (filter (\<lambda>i. i \<noteq> []) ids))
       else c_org_descendants c r)"
  using assms
  by (induction rpc rs c rule: hydrate_org.induct)
     (auto simp: same_core_def split: if_splits sum.splits)

lemma hydrate_business_result:
  assumes "hydrate_business rpc ks c = Inr c'"
  shows "same_core c' c" and "c_org_descendants c' = c_org_descendants c"
    and "c_in_business_hours c' k =
      (if c_in_business_hours c k = None \<and> k \<in> set ks
       then (case business_rpc rpc k of Inl _ \<Rightarrow> None | Inr b \<Rightarrow> Some b)
       else c_in_business_hours c k)"
  using assms
  by (induction rpc ks c rule: hydrate_business.induct)
     (auto simp: same_core_def split: if_splits sum.splits)

lemma org_roots_iff: "r \<in> set (org_roots ks) \<longleftrightarrow> OrgRoot r \<in> set ks"
  by (induction ks rule: org_roots.induct) auto

lemma business_keys_iff: "k \<in> set (business_keys ks) \<longleftrightarrow> BusinessKey k \<in> set ks"
  by (induction ks rule: business_keys.induct) auto

lemma hydrate_answers:
  assumes "hydrateContextHelpers orgRpc hoursRpc ps c = Inr c'"
    and fresh: "c_org_descendants c = Map.empty" "c_in_business_hours c = Map.empty"
    and "p \<in> set ps"
  shows "same_core c' c \<and> same_answers (visit c p) c' (live_ctx orgRpc hoursRpc c)"
proof -
  define found where "found = concat (map (visit c) ps)"
  obtain c1 where c1: "hydrate_org orgRpc (fold set_add (org_roots found) []) c = Inr c1"
    and c': "hydrate_business hoursRpc (fold set_add (business_keys found) []) c1 = Inr c'"
    using assms(1) by (auto simp: hydrateContextHelpers_def Let_def found_def result_simps)
  note r1 = hydrate_org_result [OF c1] and r2 = hydrate_business_result [OF c']
  have "set (visit c p) \<subseteq> set found" using assms(4) by (auto simp: found_def)
  then show ?thesis
    using r1 r2 fresh
    by (auto simp: same_core_def same_answers_def live_ctx_def org_roots_iff business_keys_iff)
qed

lemma evaluate_hydrated:
  assumes "hydrateContextHelpers orgRpc hoursRpc ps c = Inr c'"
    and "c_org_descendants c = Map.empty" "c_in_business_hours c = Map.empty"
    and "p \<in> set ps" and "operands_ok c p"
  shows "evaluate h now p c' depth = evaluate h now p (live_ctx orgRpc hoursRpc c) depth"
proof (rule evaluate_same_answers)
  show "same_core c' c" "same_answers (visit c p) c' (live_ctx orgRpc hoursRpc c)"
    using hydrate_answers [OF assms(1-4)] by blast+
  show "same_core (live_ctx orgRpc hoursRpc c) c" by (simp add: live_ctx_def same_core_def)
qed (rule assms(5))

subsection \<open>Properties\<close>

text \<open>
  An accepted predicate can throw: an operand with a field \<open>toString\<close> does not convert, and the root \<open>constructor\<close>
  finds an inherited property that is no set.
\<close>

lemma accepted_predicate_throws:
  fixes c :: eval_ctx
  defines "p \<equiv> JObj [(''op'', JStr ''eq''), (''left'', JObj [(''toString'', JNum 1)]), (''right'', JStr ''x'')]"
    and "q \<equiv> JObj [(''fn'', JStr ''in_org_descendants''), (''args'', JArr [JStr ''n'', JStr ''constructor''])]"
  shows "validate p 0 = Inr () \<and> evaluate h now p c 0 = Inl type_error"
    and "c_org_descendants c = Map.empty \<Longrightarrow> validate q 0 = Inr () \<and> evaluate h now q c 0 = Inl type_error"
  by (simp_all add: p_def q_def validate.simps evaluate.simps has_key_def known_name_def KNOWN_OPS_def KNOWN_FNS_def
      evalOp_def evalFn_def Let_def resolveRef_def looseEq_def is_nullish_def arg_at_def in_descendants_def OBJECT_KEYS_def)

text \<open>
  C17. The validator guards the evaluator: a predicate that it accepts at some depth evaluates at
  that depth to a truth value, in every context and at every time, unless an operand does not convert. No nesting
  error, unknown operator or malformed node can be left; the one error is the \<open>TypeError\<close> of a conversion, and it takes
  an operand with a field \<open>toString\<close>, of its own or of an element, or a root named like an inherited property.
\<close>

theorem validated_predicate_evaluates:
  assumes "validate p depth = Inr ()"
  shows "(\<exists>b. evaluate h now p c depth = Inr b) \<or>
    \<not> plain_operands h c p \<and> evaluate h now p c depth = Inl type_error"
  using validated_settles [OF assms, of h c now] by (simp add: settles_def)

definition ex_predicate :: jsval where
  "ex_predicate = JObj [(''and'', JArr
     [JObj [(''not'', JObj [(''fn'', JStr ''in_org_descendants''),
        (''args'', JArr [JStr ''$.requester.org'', JStr ''n0''])])],
      JObj [(''fn'', JStr ''in_business_hours''), (''args'', JArr [JStr ''$.start'', JStr ''cal''])]])]"

definition ex_fields :: "(string \<times> jsval) list" where
  "ex_fields = [(''start'', JStr ''t1''), (''requester'', JObj [(''org'', JStr ''n1'')])]"

definition ex_base :: eval_ctx where
  "ex_base = \<lparr>c_fields = ex_fields, c_permissions = Map.empty, c_org_descendants = Map.empty,
     c_in_business_hours = Map.empty\<rparr>"

definition ex_plain_host :: host where
  "ex_plain_host = \<lparr>date_parse = (\<lambda>_. None), str_num = (\<lambda>_. None), num_str = (\<lambda>_. [])\<rparr>"

theorem validated_predicate_evaluates_witness:
  "plain_operands ex_plain_host ex_base ex_predicate \<and> (\<exists>b. evaluate ex_plain_host 0 ex_predicate ex_base 0 = Inr b)"
proof -
  have "validate ex_predicate 0 = Inr ()" "plain_operands ex_plain_host ex_base ex_predicate" by code_simp+
  with validated_predicate_evaluates [of ex_predicate 0 ex_plain_host 0 ex_base] show ?thesis by simp
qed

text \<open>
  C19. Hydration is complete: after the helper data of a list of predicates has been fetched in one
  batch, evaluating any of them on the hydrated context gives what it would give if every helper
  call asked the database at that moment. The operands are those the rule editor writes: no
  reference into the pre-resolved maps, and string keys for the two database helpers.
\<close>

theorem hydrated_evaluation_is_live:
  assumes "hydrateContextHelpers orgRpc hoursRpc ps c = Inr c'"
    and "c_org_descendants c = Map.empty" "c_in_business_hours c = Map.empty"
    and "p \<in> set ps" and "operands_ok c p"
  shows "evaluate h now p c' depth = evaluate h now p (live_ctx orgRpc hoursRpc c) depth"
  by (rule evaluate_hydrated [OF assms])

theorem hydrated_evaluation_is_live_witness:
  "\<exists>c'. hydrateContextHelpers (\<lambda>_. Inr [''n2'']) (\<lambda>_ _. Inr True) [ex_predicate] ex_base = Inr c' \<and>
     evaluate ex_plain_host 0 ex_predicate c' 0 =
       evaluate ex_plain_host 0 ex_predicate (live_ctx (\<lambda>_. Inr [''n2'']) (\<lambda>_ _. Inr True) ex_base) 0"
proof -
  have "(case hydrateContextHelpers (\<lambda>_. Inr [''n2'']) (\<lambda>_ _. Inr True) [ex_predicate] ex_base of
      Inl _ \<Rightarrow> False | Inr _ \<Rightarrow> True)" by code_simp
  then obtain c' where
    c': "hydrateContextHelpers (\<lambda>_. Inr [''n2'']) (\<lambda>_ _. Inr True) [ex_predicate] ex_base = Inr c'"
    by (auto split: sum.splits)
  have "operands_ok ex_base ex_predicate" by code_simp
  with hydrated_evaluation_is_live [OF c', of ex_predicate] c' show ?thesis
    by (simp add: ex_base_def)
qed

end
