(* ===== verification/Booking_Rules.thy ===== *)
theory Booking_Rules
  imports Predicate_Engine "HOL-Library.Product_Lexorder" "HOL-Library.Multiset"
begin

section \<open>The room-booking rule resolver\<close>

text \<open>
  \<open>modules/room-booking-rules/rule-resolver.service.ts\<close> and the requester loader of
  \<open>common/requester-context.ts\<close>: which rules apply to a booking attempt and what they decide.
  The tables are the lists of a record \<open>rules_db\<close>, read under the tenant that the code
  passes to every query; ids are primary keys. The permission check and the two helper
  procedures of the predicate engine are arguments. A query that the database refuses is
  an exception in the code and outside the model, except for the helper procedures, whose
  failure the code turns into an error of its own.
\<close>

datatype RuleEffect = Deny | RequireApproval | AllowOverride | Warn

datatype TargetScope = Room | RoomType | SpaceSubtree | Tenant

record RuleRow =
  r_id :: string
  r_tenant :: string
  r_name :: string
  r_scope :: TargetScope
  r_target :: "string option"
  r_applies_when :: jsval
  r_effect :: RuleEffect
  r_approval_config :: jsval
  r_denial_message :: "string option"
  r_priority :: int
  r_active :: bool
  r_template_id :: "string option"
  r_workflow_definition_id :: "string option"

text \<open>A matched rule: the row and its specificity, 1 the most specific.\<close>

type_synonym MatchedRule = "RuleRow \<times> nat"

datatype final_effect = FinalAllow | FinalDeny | FinalRequireApproval

record ResolveOutcome =
  o_effects :: "RuleEffect list"
  o_matchedRules :: "MatchedRule list"
  o_warnings :: "string list"
  o_denialMessages :: "string list"
  o_overridable :: bool
  o_approvalConfig :: jsval
  o_approvalWorkflowDefinitionId :: "string option"
  o_final :: final_effect

record BookingScenario =
  s_requester_person_id :: string
  s_space_id :: string
  s_start_at :: string
  s_end_at :: string
  s_attendee_count :: "int option"
  s_resolution_basis_at :: "string option"

record space_row =
  sp_id :: string
  sp_tenant :: string
  sp_type :: "string option"
  sp_parent :: "string option"
  sp_capacity :: "int option"
  sp_min_attendees :: "int option"
  sp_calendar :: "string option"

text \<open>A space with the ids of its ancestors, itself first.\<close>

record SpaceWithChain =
  sc_row :: space_row
  sc_ancestor_ids :: "string list"

record RequesterContext =
  rq_id :: string
  rq_type :: "string option"
  rq_cost_center :: "string option"
  rq_org_node_id :: "string option"
  rq_role_ids :: "string list"
  rq_user_id :: "string option"

record person_row =
  pn_id :: string
  pn_tenant :: string
  pn_type :: "string option"
  pn_cost_center :: "string option"

record membership_row =
  mb_person :: string
  mb_tenant :: string
  mb_org_node :: string
  mb_primary :: bool

record user_row =
  us_id :: string
  us_person :: "string option"
  us_tenant :: string

record role_row =
  ro_user :: string
  ro_tenant :: string
  ro_role :: string
  ro_active :: bool

record rules_db =
  d_rules :: "RuleRow list"
  d_spaces :: "space_row list"
  d_persons :: "person_row list"
  d_memberships :: "membership_row list"
  d_users :: "user_row list"
  d_roles :: "role_row list"

subsection \<open>The requester\<close>

text \<open>\<open>maybeSingle()\<close> whose error is thrown: several rows are an error of the client.\<close>

fun single_or_throw :: "'a list \<Rightarrow> 'a option result" where
  "single_or_throw [] = Inr None"
| "single_or_throw [x] = Inr (Some x)"
| "single_or_throw _ = Inl (PlainError ''PGRST116'')"

definition loadRequesterContext :: "rules_db \<Rightarrow> string \<Rightarrow> string \<Rightarrow> RequesterContext result" where
  "loadRequesterContext db personId tenantId =
     and_then (single_or_throw (filter (\<lambda>p. pn_id p = personId \<and> pn_tenant p = tenantId) (d_persons db)))
       (\<lambda>person.
     and_then (single_or_throw (filter (\<lambda>m. mb_person m = personId \<and> mb_tenant m = tenantId \<and> mb_primary m)
                 (d_memberships db))) (\<lambda>membership.
     and_then (single_or_throw (filter (\<lambda>u. us_person u = Some personId \<and> us_tenant u = tenantId)
                 (d_users db))) (\<lambda>user.
     (case person of
        None \<Rightarrow> Inl (NotFound ''person'' personId)
      | Some p \<Rightarrow>
          let userId = map_option us_id user;
              roleIds = (if truthy userId
                         then map ro_role (filter (\<lambda>r. Some (ro_user r) = userId \<and>
                                ro_tenant r = tenantId \<and> ro_active r) (d_roles db))
                         else [])
          in Inr \<lparr>rq_id = personId, rq_type = pn_type p, rq_cost_center = pn_cost_center p,
                  rq_org_node_id = map_option mb_org_node membership,
                  rq_role_ids = roleIds, rq_user_id = userId\<rparr>))))"

definition PERMS :: "string list" where
  "PERMS = [''rooms.override_rules'', ''rooms.book_on_behalf'']"

definition loadPermissionMap ::
    "(string \<Rightarrow> string \<Rightarrow> string \<Rightarrow> bool) \<Rightarrow> string option \<Rightarrow> string \<Rightarrow> string \<Rightarrow> bool option" where
  "loadPermissionMap has_perm userId tenantId perm =
     (if truthy userId \<and> perm \<in> set PERMS
      then Some (has_perm (the userId) tenantId perm) else None)"

subsection \<open>Spaces and their ancestors\<close>

definition space_by_id :: "space_row list \<Rightarrow> string \<Rightarrow> string \<Rightarrow> space_row option" where
  "space_by_id spaces tenantId i = find (\<lambda>r. sp_id r = i \<and> sp_tenant r = tenantId) spaces"

text \<open>One query per level, at most 16, the space itself first.\<close>

fun ancestor_loop :: "space_row list \<Rightarrow> string \<Rightarrow> nat \<Rightarrow> string option \<Rightarrow> string list" where
  "ancestor_loop spaces tenantId 0 cur = []"
| "ancestor_loop spaces tenantId (Suc n) cur =
     (if truthy cur then
        (case space_by_id spaces tenantId (the cur) of
           None \<Rightarrow> []
         | Some row \<Rightarrow> sp_id row # ancestor_loop spaces tenantId n (sp_parent row))
      else [])"

definition loadAncestorChain :: "rules_db \<Rightarrow> string \<Rightarrow> string \<Rightarrow> string list" where
  "loadAncestorChain db spaceId tenantId = ancestor_loop (d_spaces db) tenantId 16 (Some spaceId)"

text \<open>
  The batched loader of \<open>loadSpacesWithAncestors\<close>: one query per layer of parents that
  were not asked for before. \<open>allIds\<close> and the layer are sets, \<open>fetched\<close> maps an id to its row.
\<close>

type_synonym layer_state = "string list \<times> string list \<times> (string \<Rightarrow> space_row option)"

definition layer_row :: "space_row \<Rightarrow> layer_state \<Rightarrow> layer_state" where
  "layer_row row st =
     (case st of (allIds, nextLayer, fetched) \<Rightarrow>
        let fetched' = fetched(sp_id row \<mapsto> row)
        in if truthy (sp_parent row) \<and> fetched' (the (sp_parent row)) = None \<and>
              the (sp_parent row) \<notin> set allIds
           then (allIds @ [the (sp_parent row)], set_add (the (sp_parent row)) nextLayer, fetched')
           else (allIds, nextLayer, fetched'))"

definition parent_ids :: "space_row list \<Rightarrow> string set" where
  "parent_ids spaces = {p. \<exists>r\<in>set spaces. sp_parent r = Some p}"

lemma finite_parent_ids: "finite (parent_ids spaces)"
proof -
  have "parent_ids spaces \<subseteq> (\<lambda>r. the (sp_parent r)) ` set spaces"
    by (force simp: parent_ids_def)
  then show ?thesis by (rule finite_subset) simp
qed

lemma layer_rows_grow:
  assumes "set rows \<subseteq> set spaces"
    and "fold layer_row rows (allIds, nextLayer, fetched) = (allIds', nextLayer', fetched')"
  shows "set allIds \<subseteq> set allIds' \<and> set allIds' \<subseteq> set allIds \<union> parent_ids spaces \<and>
    set nextLayer' = set nextLayer \<union> (set allIds' - set allIds)"
  using assms
proof (induction rows arbitrary: allIds nextLayer fetched)
  case (Cons row rows)
  obtain a n f where st: "layer_row row (allIds, nextLayer, fetched) = (a, n, f)"
    by (cases "layer_row row (allIds, nextLayer, fetched)")
  with Cons.prems have "fold layer_row rows (a, n, f) = (allIds', nextLayer', fetched')" by simp
  with Cons have IH: "set a \<subseteq> set allIds' \<and> set allIds' \<subseteq> set a \<union> parent_ids spaces \<and>
      set nextLayer' = set n \<union> (set allIds' - set a)" by simp
  from st Cons.prems(1) have "set allIds \<subseteq> set a" "set a \<subseteq> set allIds \<union> parent_ids spaces"
      "set n = set nextLayer \<union> (set a - set allIds)"
    by (auto simp: layer_row_def Let_def parent_ids_def elim!: truthyE split: if_splits)
  with IH show ?case by blast
qed simp

definition layer_query :: "space_row list \<Rightarrow> string \<Rightarrow> string list \<Rightarrow> space_row list" where
  "layer_query spaces tenantId layer =
     filter (\<lambda>r. sp_tenant r = tenantId \<and> sp_id r \<in> set layer) spaces"

function load_layers ::
    "space_row list \<Rightarrow> string \<Rightarrow> string list \<Rightarrow> string list \<Rightarrow> (string \<Rightarrow> space_row option) \<Rightarrow>
     (string \<Rightarrow> space_row option)" where
  "load_layers spaces tenantId allIds layer fetched =
     (if layer = [] then fetched
      else (case fold layer_row (layer_query spaces tenantId layer) (allIds, [], fetched) of
              (allIds', nextLayer, fetched') \<Rightarrow>
                load_layers spaces tenantId allIds' nextLayer fetched'))"
  by pat_completeness auto
termination
proof (relation "measures [\<lambda>(spaces, t, allIds, layer, f). card (parent_ids spaces - set allIds),
    \<lambda>(spaces, t, allIds, layer, f). length layer]", goal_cases)
  case 1
  show ?case by simp
next
  case (2 spaces tenantId allIds layer fetched allIds' rest nextLayer fetched')
  then have st: "fold layer_row (layer_query spaces tenantId layer) (allIds, [], fetched)
      = (allIds', nextLayer, fetched')" by simp
  have "set (layer_query spaces tenantId layer) \<subseteq> set spaces" by (auto simp: layer_query_def)
  note g = layer_rows_grow [OF this st]
  show ?case
  proof (cases "nextLayer = []")
    case True
    with g have "set allIds' = set allIds" by auto
    with True 2(1) st show ?thesis by simp
  next
    case False
    then obtain x where "x \<in> set nextLayer" by (cases nextLayer) auto
    with g have "parent_ids spaces - set allIds' \<subset> parent_ids spaces - set allIds" by auto
    then have "card (parent_ids spaces - set allIds') < card (parent_ids spaces - set allIds)"
      by (intro psubset_card_mono) (simp add: finite_parent_ids)
    then show ?thesis by simp
  qed
qed

declare load_layers.simps [simp del]

fun chain_loop :: "(string \<Rightarrow> space_row option) \<Rightarrow> nat \<Rightarrow> string option \<Rightarrow> string list" where
  "chain_loop fetched 0 cursor = []"
| "chain_loop fetched (Suc n) cursor =
     (if truthy cursor then
        (case fetched (the cursor) of
           None \<Rightarrow> []
         | Some node \<Rightarrow> sp_id node # chain_loop fetched n (sp_parent node))
      else [])"

definition loadSpacesWithAncestors ::
    "rules_db \<Rightarrow> string list \<Rightarrow> string \<Rightarrow> string \<Rightarrow> SpaceWithChain option" where
  "loadSpacesWithAncestors db spaceIds tenantId =
     (let ids = fold set_add spaceIds [];
          fetched = load_layers (d_spaces db) tenantId ids ids Map.empty
      in (\<lambda>spaceId.
            if spaceId \<in> set spaceIds then
              map_option (\<lambda>seed. \<lparr>sc_row = seed,
                  sc_ancestor_ids = sp_id seed # chain_loop fetched 16 (sp_parent seed)\<rparr>)
                (fetched spaceId)
            else None))"

subsection \<open>Candidate rules\<close>

text \<open>A comparator sort: stable, as \<open>Array.prototype.sort\<close> is.\<close>

fun insert_by :: "('a \<Rightarrow> 'a \<Rightarrow> int) \<Rightarrow> 'a \<Rightarrow> 'a list \<Rightarrow> 'a list" where
  "insert_by compare x [] = [x]"
| "insert_by compare x (y # ys) =
     (if compare x y \<le> 0 then x # y # ys else y # insert_by compare x ys)"

definition sort_by :: "('a \<Rightarrow> 'a \<Rightarrow> int) \<Rightarrow> 'a list \<Rightarrow> 'a list" where
  "sort_by compare xs = foldr (insert_by compare) xs []"

definition fetchAllRules :: "rules_db \<Rightarrow> string \<Rightarrow> RuleRow list" where
  "fetchAllRules db tenantId =
     sort_key r_id (filter (\<lambda>r. r_tenant r = tenantId \<and> r_active r) (d_rules db))"

definition fetchCandidateRules :: "rules_db \<Rightarrow> string \<Rightarrow> string \<Rightarrow> RuleRow list" where
  "fetchCandidateRules db spaceId tenantId =
     (let targets = loadAncestorChain db spaceId tenantId @ [spaceId]
      in sort_key r_id (filter (\<lambda>r. r_tenant r = tenantId \<and> r_active r \<and>
           (r_scope r = Tenant \<or> r_scope r = RoomType \<or>
            (r_scope r = Room \<and> r_target r = Some spaceId) \<or>
            (r_scope r = SpaceSubtree \<and> (\<exists>t\<in>set targets. r_target r = Some t)))) (d_rules db)))"

text \<open>
  The scope test of \<open>bucketRulesBySpecificity\<close>. A rule for room types without a target is
  type-agnostic; \<open>String(space.type)\<close> of a missing type is the text \<open>null\<close>.
\<close>

definition specificity_of :: "RuleRow \<Rightarrow> SpaceWithChain \<Rightarrow> nat option" where
  "specificity_of rule space =
     (if \<not> r_active rule then None
      else case r_scope rule of
        Room \<Rightarrow> if r_target rule = Some (sp_id (sc_row space)) then Some 1 else None
      | SpaceSubtree \<Rightarrow>
          if truthy (r_target rule) \<and> the (r_target rule) \<in> set (sc_ancestor_ids space)
          then Some 2 else None
      | RoomType \<Rightarrow>
          if r_target rule = None \<or>
             r_target rule = Some (case sp_type (sc_row space) of None \<Rightarrow> ''null'' | Some t \<Rightarrow> t)
          then Some 3 else None
      | Tenant \<Rightarrow> Some 4)"

text \<open>\<open>Map.set\<close> on a map in insertion order.\<close>

fun map_set :: "'k \<Rightarrow> 'v \<Rightarrow> ('k \<times> 'v) list \<Rightarrow> ('k \<times> 'v) list" where
  "map_set k v [] = [(k, v)]"
| "map_set k v ((k', w) # m) = (if k' = k then (k, v) # m else (k', w) # map_set k v m)"

definition bucket_add :: "SpaceWithChain \<Rightarrow> RuleRow \<Rightarrow> (nat \<times> RuleRow list) list \<Rightarrow> (nat \<times> RuleRow list) list" where
  "bucket_add space rule buckets =
     (case specificity_of rule space of
        None \<Rightarrow> buckets
      | Some s \<Rightarrow> map_set s (orElse (map_of buckets s) [] @ [rule]) buckets)"

definition bucketRulesBySpecificity :: "RuleRow list \<Rightarrow> SpaceWithChain \<Rightarrow> (nat \<times> RuleRow list) list" where
  "bucketRulesBySpecificity rules space =
     sort_by (\<lambda>(a, _) (b, _). int a - int b) (fold (bucket_add space) rules [])"

definition filterRulesForSpace :: "RuleRow list \<Rightarrow> SpaceWithChain \<Rightarrow> RuleRow list" where
  "filterRulesForSpace rules space = concat (map snd (bucketRulesBySpecificity rules space))"

definition compareRulesWithinSpecificity :: "RuleRow \<Rightarrow> RuleRow \<Rightarrow> int" where
  "compareRulesWithinSpecificity a b =
     (let priority = r_priority b - r_priority a
      in if priority \<noteq> 0 then priority
         else if r_id a < r_id b then -1 else if r_id a > r_id b then 1 else 0)"

definition ordered_rules :: "RuleRow list \<Rightarrow> SpaceWithChain \<Rightarrow> MatchedRule list" where
  "ordered_rules rules space =
     concat (map (\<lambda>(s, bucket). map (\<lambda>r. (r, s)) (sort_by compareRulesWithinSpecificity bucket))
       (bucketRulesBySpecificity rules space))"

subsection \<open>Aggregation\<close>

record aggregate =
  g_denials :: "string list"
  g_warnings :: "string list"
  g_overridable :: bool
  g_approvalConfig :: jsval
  g_approvalWorkflow :: "string option"
  g_approvalRank :: "(nat \<times> int) option"
  g_hasDeny :: bool
  g_hasApproval :: bool

definition aggregate0 :: aggregate where
  "aggregate0 = \<lparr>g_denials = [], g_warnings = [], g_overridable = False, g_approvalConfig = JNull,
     g_approvalWorkflow = None, g_approvalRank = None, g_hasDeny = False, g_hasApproval = False\<rparr>"

text \<open>
  The test \<open>specificity < best || (specificity === best && priority > bestPriority)\<close>, with
  \<open>None\<close> for the initial \<open>Infinity\<close> and \<open>-Infinity\<close>.
\<close>

fun preferred :: "nat \<Rightarrow> int \<Rightarrow> (nat \<times> int) option \<Rightarrow> bool" where
  "preferred s p None = True"
| "preferred s p (Some (s', p')) = (s < s' \<or> (s = s' \<and> p > p'))"

fun aggregate_rule :: "MatchedRule \<Rightarrow> aggregate \<Rightarrow> aggregate" where
  "aggregate_rule (r, s) g =
     (case r_effect r of
        Deny \<Rightarrow>
          g\<lparr>g_hasDeny := True,
            g_denials := g_denials g @
              (if truthy (r_denial_message r) then [the (r_denial_message r)] else [])\<rparr>
      | RequireApproval \<Rightarrow>
          if preferred s (r_priority r) (g_approvalRank g)
          then g\<lparr>g_hasApproval := True, g_approvalRank := Some (s, r_priority r),
                 g_approvalConfig := (if r_approval_config r = JUndef then JNull
                                      else r_approval_config r),
                 g_approvalWorkflow := r_workflow_definition_id r\<rparr>
          else g\<lparr>g_hasApproval := True\<rparr>
      | Warn \<Rightarrow>
          g\<lparr>g_warnings := g_warnings g @
              [if truthy (r_denial_message r) then the (r_denial_message r)
               else ''Warning from rule '' @ [CHR 0x22] @ r_name r @ [CHR 0x22]]\<rparr>
      | AllowOverride \<Rightarrow> g\<lparr>g_overridable := True\<rparr>)"

definition aggregateOutcome :: "MatchedRule list \<Rightarrow> ResolveOutcome" where
  "aggregateOutcome matched =
     (let g = fold aggregate_rule matched aggregate0
      in \<lparr>o_effects = map (\<lambda>m. r_effect (fst m)) matched,
          o_matchedRules = matched,
          o_warnings = g_warnings g,
          o_denialMessages = g_denials g,
          o_overridable = g_overridable g,
          o_approvalConfig = g_approvalConfig g,
          o_approvalWorkflowDefinitionId = g_approvalWorkflow g,
          o_final = (if g_hasDeny g then FinalDeny
                     else if g_hasApproval g then FinalRequireApproval else FinalAllow)\<rparr>)"

definition emptyOutcome :: ResolveOutcome where
  "emptyOutcome = \<lparr>o_effects = [], o_matchedRules = [], o_warnings = [], o_denialMessages = [],
     o_overridable = False, o_approvalConfig = JNull, o_approvalWorkflowDefinitionId = None,
     o_final = FinalAllow\<rparr>"

subsection \<open>Resolution\<close>

definition parseBasisMs :: "host \<Rightarrow> int \<Rightarrow> string option \<Rightarrow> int" where
  "parseBasisMs h now v =
     (case v of None \<Rightarrow> now | Some s \<Rightarrow> orElse (date_parse h s) now)"

text \<open>\<open>Math.round\<close> of a number of minutes: halves are rounded up.\<close>

definition js_round :: "rat \<Rightarrow> int" where
  "js_round x = \<lfloor>x + 1 / 2\<rfloor>"

definition int_val :: "int option \<Rightarrow> jsval" where
  "int_val v = (case v of None \<Rightarrow> JNull | Some n \<Rightarrow> JNum (of_int n))"

definition round_minutes :: "int option \<Rightarrow> int option \<Rightarrow> int" where
  "round_minutes s e = (case minutes_between s e of None \<Rightarrow> 0 | Some m \<Rightarrow> js_round m)"

definition assembleContext ::
    "host \<Rightarrow> int \<Rightarrow> RequesterContext \<Rightarrow> (string \<Rightarrow> bool option) \<Rightarrow> SpaceWithChain \<Rightarrow>
     BookingScenario \<Rightarrow> eval_ctx" where
  "assembleContext h now requester permissions space scenario =
     (let startMs = date_parse h (s_start_at scenario);
          endMs = date_parse h (s_end_at scenario);
          basisMs = parseBasisMs h now (s_resolution_basis_at scenario);
          row = sc_row space
      in \<lparr>c_fields =
            [(''resolution_basis_at'',
                case s_resolution_basis_at scenario of None \<Rightarrow> JUndef | Some b \<Rightarrow> JStr b),
             (''requester'', JObj
               [(''id'', JStr (rq_id requester)),
                (''role_ids'', JArr (map JStr (rq_role_ids requester))),
                (''org_node_id'', of_str_opt (rq_org_node_id requester)),
                (''type'', of_str_opt (rq_type requester)),
                (''cost_center'', of_str_opt (rq_cost_center requester)),
                (''user_id'', of_str_opt (rq_user_id requester))]),
             (''space'', JObj
               [(''id'', JStr (sp_id row)),
                (''type'', of_str_opt (sp_type row)),
                (''parent_id'', of_str_opt (sp_parent row)),
                (''capacity'', int_val (sp_capacity row)),
                (''min_attendees'', int_val (sp_min_attendees row)),
                (''default_calendar_id'', of_str_opt (sp_calendar row)),
                (''ancestor_ids'', JArr (map JStr (sc_ancestor_ids space)))]),
             (''booking'', JObj
               [(''start_at'', JStr (s_start_at scenario)),
                (''end_at'', JStr (s_end_at scenario)),
                (''duration_minutes'', JNum (of_int (round_minutes startMs endMs))),
                (''lead_time_minutes'', JNum (of_int (round_minutes (Some basisMs) startMs))),
                (''attendee_count'', int_val (s_attendee_count scenario))]),
             (''resolution_basis_ms'', JNum (of_int basisMs))],
          c_permissions = permissions,
          c_org_descendants = Map.empty,
          c_in_business_hours = Map.empty\<rparr>)"

text \<open>A predicate that throws counts as not fired.\<close>

definition fires :: "host \<Rightarrow> int \<Rightarrow> eval_ctx \<Rightarrow> jsval \<Rightarrow> bool" where
  "fires h now c p = (case evaluate h now p c 0 of Inl _ \<Rightarrow> False | Inr b \<Rightarrow> b)"

record remote =
  org_node_descendants :: "string \<Rightarrow> string list result"
  in_business_hours :: "string \<Rightarrow> string \<Rightarrow> bool result"
  user_has_permission :: "string \<Rightarrow> string \<Rightarrow> string \<Rightarrow> bool"

definition evaluateAndAggregate ::
    "host \<Rightarrow> int \<Rightarrow> remote \<Rightarrow> RuleRow list \<Rightarrow> eval_ctx \<Rightarrow> SpaceWithChain \<Rightarrow> ResolveOutcome result" where
  "evaluateAndAggregate h now rem rules ctx space =
     (let orderedRules = ordered_rules rules space;
          predicates = map (\<lambda>m. r_applies_when (fst m)) orderedRules
      in and_then (hydrateContextHelpers (org_node_descendants rem) (in_business_hours rem) predicates ctx)
           (\<lambda>c. Inr (aggregateOutcome (filter (\<lambda>m. fires h now c (r_applies_when (fst m))) orderedRules))))"

definition buildContext ::
    "host \<Rightarrow> int \<Rightarrow> remote \<Rightarrow> rules_db \<Rightarrow> BookingScenario \<Rightarrow> string \<Rightarrow> (eval_ctx \<times> SpaceWithChain) result" where
  "buildContext h now rem db scenario tenantId =
     and_then (loadRequesterContext db (s_requester_person_id scenario) tenantId) (\<lambda>requester.
       let permissions = loadPermissionMap (user_has_permission rem) (rq_user_id requester) tenantId
       in case loadSpacesWithAncestors db [s_space_id scenario] tenantId (s_space_id scenario) of
            None \<Rightarrow> Inl (NotFoundWithCode ''room_rule.space_not_found'')
          | Some space \<Rightarrow> Inr (assembleContext h now requester permissions space scenario, space))"

definition resolve_scenario ::
    "host \<Rightarrow> int \<Rightarrow> remote \<Rightarrow> rules_db \<Rightarrow> BookingScenario \<Rightarrow> string \<Rightarrow> ResolveOutcome result" where
  "resolve_scenario h now rem db scenario tenantId =
     and_then (buildContext h now rem db scenario tenantId) (\<lambda>(ctx, space).
       evaluateAndAggregate h now rem (fetchCandidateRules db (s_space_id scenario) tenantId) ctx space)"

definition evaluateAdHoc ::
    "host \<Rightarrow> int \<Rightarrow> remote \<Rightarrow> rules_db \<Rightarrow> RuleRow list \<Rightarrow> BookingScenario \<Rightarrow> string \<Rightarrow>
     ResolveOutcome result" where
  "evaluateAdHoc h now rem db rules scenario tenantId =
     and_then (buildContext h now rem db scenario tenantId) (\<lambda>(ctx, space).
       evaluateAndAggregate h now rem rules ctx space)"

fun bulk_loop :: "(string \<Rightarrow> ResolveOutcome result) \<Rightarrow> string list \<Rightarrow> (string \<times> ResolveOutcome) list \<Rightarrow>
    (string \<times> ResolveOutcome) list result" where
  "bulk_loop f [] out = Inr out"
| "bulk_loop f (i # is) out = and_then (f i) (\<lambda>oc. bulk_loop f is (map_set i oc out))"

definition resolveBulk ::
    "host \<Rightarrow> int \<Rightarrow> remote \<Rightarrow> rules_db \<Rightarrow> string \<Rightarrow> string list \<Rightarrow> string \<Rightarrow> string \<Rightarrow> int option \<Rightarrow> string \<Rightarrow>
     (string \<times> ResolveOutcome) list result" where
  "resolveBulk h now rem db requesterPersonId spaceIds startAt endAt attendees tenantId =
     (if spaceIds = [] then Inr []
      else
        and_then (loadRequesterContext db requesterPersonId tenantId) (\<lambda>requester.
          let allRules = fetchAllRules db tenantId;
              permissions = loadPermissionMap (user_has_permission rem) (rq_user_id requester) tenantId;
              spaces = loadSpacesWithAncestors db spaceIds tenantId
          in bulk_loop (\<lambda>spaceId.
               case spaces spaceId of
                 None \<Rightarrow> Inr emptyOutcome
               | Some space \<Rightarrow>
                   evaluateAndAggregate h now rem (filterRulesForSpace allRules space)
                     (assembleContext h now requester permissions space
                        \<lparr>s_requester_person_id = requesterPersonId, s_space_id = spaceId,
                         s_start_at = startAt, s_end_at = endAt, s_attendee_count = attendees,
                         s_resolution_basis_at = None\<rparr>) space) spaceIds []))"

subsection \<open>The batched loader walks the tree\<close>

lemma space_by_id_Some:
  assumes "distinct (map sp_id spaces)"
  shows "space_by_id spaces t i = Some r \<longleftrightarrow> r \<in> set spaces \<and> sp_id r = i \<and> sp_tenant r = t"
proof
  assume "space_by_id spaces t i = Some r"
  then show "r \<in> set spaces \<and> sp_id r = i \<and> sp_tenant r = t"
    by (auto simp: space_by_id_def find_Some_iff)
next
  assume r: "r \<in> set spaces \<and> sp_id r = i \<and> sp_tenant r = t"
  then obtain r' where r': "space_by_id spaces t i = Some r'"
    by (cases "space_by_id spaces t i") (auto simp: space_by_id_def find_None_iff)
  then have "r' \<in> set spaces" "sp_id r' = i" by (auto simp: space_by_id_def find_Some_iff)
  with r assms have "r' = r" by (auto dest: inj_onD [OF distinct_map [THEN iffD1, THEN conjunct2]])
  with r' show "space_by_id spaces t i = Some r" by simp
qed

lemma layer_rows_fetched:
  assumes "\<forall>r\<in>set rows. G (sp_id r) = Some r"
    and "fold layer_row rows (allIds, nextLayer, fetched) = (allIds', nextLayer', fetched')"
  shows "fetched' i = (if i \<in> sp_id ` set rows then G i else fetched i)"
  using assms
proof (induction rows arbitrary: allIds nextLayer fetched)
  case (Cons row rows)
  obtain a n f where st: "layer_row row (allIds, nextLayer, fetched) = (a, n, f)"
    by (cases "layer_row row (allIds, nextLayer, fetched)")
  then have f: "f = fetched(sp_id row \<mapsto> row)"
    by (auto simp: layer_row_def Let_def split: if_splits)
  from Cons.prems st have "fold layer_row rows (a, n, f) = (allIds', nextLayer', fetched')" by simp
  from Cons.IH [OF _ this] Cons.prems(1) f show ?case by auto
qed simp

lemma layer_rows_parents:
  assumes "\<forall>i. fetched i \<noteq> None \<longrightarrow> i \<in> set allIds" and "sp_id ` set rows \<subseteq> set allIds"
    and "fold layer_row rows (allIds, nextLayer, fetched) = (allIds', nextLayer', fetched')"
  shows "set allIds \<subseteq> set allIds' \<and> (\<forall>i. fetched' i \<noteq> None \<longrightarrow> i \<in> set allIds') \<and>
    (\<forall>r\<in>set rows. truthy (sp_parent r) \<longrightarrow> the (sp_parent r) \<in> set allIds')"
  using assms
proof (induction rows arbitrary: allIds nextLayer fetched)
  case (Cons row rows)
  obtain a n f where st: "layer_row row (allIds, nextLayer, fetched) = (a, n, f)"
    by (cases "layer_row row (allIds, nextLayer, fetched)")
  with Cons.prems have step: "fold layer_row rows (a, n, f) = (allIds', nextLayer', fetched')" by simp
  from st Cons.prems(1,2) have "set allIds \<subseteq> set a" "\<forall>i. f i \<noteq> None \<longrightarrow> i \<in> set a"
      "truthy (sp_parent row) \<longrightarrow> the (sp_parent row) \<in> set a"
    by (auto simp: layer_row_def Let_def split: if_splits)
  moreover from this(1) Cons.prems(2) have "sp_id ` set rows \<subseteq> set a" by auto
  ultimately show ?case using Cons.IH [OF _ _ step] by auto
qed simp

text \<open>
  What the loop keeps: rows are the table's, ids asked for and answered are complete, and
  the parent of a fetched row has been asked for or is in the next layer.
\<close>

definition layers_inv ::
    "space_row list \<Rightarrow> string \<Rightarrow> string list \<Rightarrow> string list \<Rightarrow> (string \<Rightarrow> space_row option) \<Rightarrow> bool" where
  "layers_inv spaces t allIds layer fetched \<longleftrightarrow>
     set layer \<subseteq> set allIds \<and>
     (\<forall>i. fetched i \<noteq> None \<longrightarrow> i \<in> set allIds \<and> fetched i = space_by_id spaces t i) \<and>
     (\<forall>i\<in>set allIds - set layer. fetched i = space_by_id spaces t i) \<and>
     (\<forall>i r. fetched i = Some r \<longrightarrow> truthy (sp_parent r) \<longrightarrow> the (sp_parent r) \<in> set allIds)"

lemma layers_invD:
  assumes "layers_inv spaces t allIds layer fetched"
  shows "i \<in> set allIds \<Longrightarrow> i \<notin> set layer \<Longrightarrow> fetched i = space_by_id spaces t i"
    and "fetched i = Some r \<Longrightarrow> space_by_id spaces t i = Some r"
    and "fetched i = Some r \<Longrightarrow> truthy (sp_parent r) \<Longrightarrow> the (sp_parent r) \<in> set allIds"
  using assms unfolding layers_inv_def by (blast, metis option.distinct(1), blast)

lemma layers_inv_step:
  assumes pk: "distinct (map sp_id spaces)"
    and inv: "layers_inv spaces t allIds layer fetched"
    and st: "fold layer_row (layer_query spaces t layer) (allIds, [], fetched) = (allIds', layer', fetched')"
  shows "layers_inv spaces t allIds' layer' fetched'"
proof -
  let ?rows = "layer_query spaces t layer"
  have rows: "\<forall>r\<in>set ?rows. space_by_id spaces t (sp_id r) = Some r"
    using space_by_id_Some [OF pk] by (auto simp: layer_query_def)
  have ids: "sp_id ` set ?rows \<subseteq> set allIds"
    using inv by (auto simp: layer_query_def layers_inv_def)
  have known: "\<forall>i. fetched i \<noteq> None \<longrightarrow> i \<in> set allIds" using inv by (simp add: layers_inv_def)
  note f = layer_rows_fetched [OF rows st] and p = layer_rows_parents [OF known ids st]
  have n: "set layer' = set allIds' - set allIds"
    using layer_rows_grow [OF _ st, of spaces] by (auto simp: layer_query_def)
  have hit: "i \<in> sp_id ` set ?rows" if "i \<in> set layer" "space_by_id spaces t i \<noteq> None" for i
    using that space_by_id_Some [OF pk] by (force simp: layer_query_def)
  have "fetched' i = space_by_id spaces t i" if "i \<in> set allIds" for i
  proof (cases "i \<in> sp_id ` set ?rows")
    case False
    show ?thesis
    proof (cases "i \<in> set layer")
      case True
      with hit [OF True] False have "space_by_id spaces t i = None" by blast
      moreover from this have "fetched i = None"
        using layers_invD(2) [OF inv, of i] by (cases "fetched i") auto
      ultimately show ?thesis using f [of i] False by simp
    next
      case l: False
      from layers_invD(1) [OF inv that l] f [of i] False show ?thesis by simp
    qed
  qed (simp add: f)
  moreover have "the (sp_parent r) \<in> set allIds'" if "fetched' i = Some r" "truthy (sp_parent r)" for i r
  proof (cases "i \<in> sp_id ` set ?rows")
    case True
    with f [of i] that rows have "r \<in> set ?rows" by auto
    with p that show ?thesis by blast
  next
    case False
    with f [of i] that inv have "the (sp_parent r) \<in> set allIds" by (auto simp: layers_inv_def)
    with p show ?thesis by blast
  qed
  moreover have "fetched' i = space_by_id spaces t i" if "fetched' i \<noteq> None" for i
    using inv f [of i] that by (auto simp: layers_inv_def split: if_splits)
  ultimately show ?thesis using p n by (auto simp: layers_inv_def)
qed

lemma load_layers_inv:
  assumes "distinct (map sp_id spaces)" and "layers_inv spaces t allIds layer fetched"
  shows "\<exists>allIds'. set allIds \<subseteq> set allIds' \<and>
    layers_inv spaces t allIds' [] (load_layers spaces t allIds layer fetched)"
  using assms
proof (induction spaces t allIds layer fetched rule: load_layers.induct)
  case (1 spaces t allIds layer fetched)
  show ?case
  proof (cases "layer = []")
    case True
    with 1 show ?thesis by (subst load_layers.simps) auto
  next
    case False
    obtain a l f where st: "fold layer_row (layer_query spaces t layer) (allIds, [], fetched) = (a, l, f)"
      by (cases "fold layer_row (layer_query spaces t layer) (allIds, [], fetched)")
    have "set allIds \<subseteq> set a"
      using layer_rows_grow [OF _ st, of spaces] by (auto simp: layer_query_def)
    moreover from 1 False st layers_inv_step [OF 1(2) 1(3) st] have
      "\<exists>allIds'. set a \<subseteq> set allIds' \<and> layers_inv spaces t allIds' [] (load_layers spaces t a l f)"
      by auto
    moreover from False st have "load_layers spaces t allIds layer fetched = load_layers spaces t a l f"
      by (subst load_layers.simps) simp
    ultimately show ?thesis by auto
  qed
qed

lemma chain_loop_ancestors:
  assumes "layers_inv spaces t allIds [] F" and "truthy cur \<Longrightarrow> the cur \<in> set allIds"
  shows "chain_loop F n cur = ancestor_loop spaces t n cur"
  using assms(2)
proof (induction n arbitrary: cur)
  case (Suc n)
  show ?case
  proof (cases "truthy cur")
    case True
    with Suc.prems layers_invD(1) [OF assms(1)] have F: "F (the cur) = space_by_id spaces t (the cur)"
      by simp
    show ?thesis
    proof (cases "F (the cur)")
      case (Some node)
      from Suc.IH [OF layers_invD(3) [OF assms(1) Some]] True F [symmetric] Some show ?thesis by simp
    qed (use True F [symmetric] in simp)
  qed simp
qed simp

lemma loadSpacesWithAncestors_eq:
  assumes "distinct (map sp_id (d_spaces db))"
  shows "loadSpacesWithAncestors db spaceIds t i =
    (if i \<in> set spaceIds
     then map_option (\<lambda>seed. \<lparr>sc_row = seed,
            sc_ancestor_ids = sp_id seed # ancestor_loop (d_spaces db) t 16 (sp_parent seed)\<rparr>)
          (space_by_id (d_spaces db) t i)
     else None)"
proof -
  define ids where "ids = fold set_add spaceIds []"
  define F where "F = load_layers (d_spaces db) t ids ids Map.empty"
  have "layers_inv (d_spaces db) t ids ids Map.empty" by (simp add: layers_inv_def)
  from load_layers_inv [OF assms this] obtain allIds where
    sub: "set ids \<subseteq> set allIds" and inv: "layers_inv (d_spaces db) t allIds [] F"
    by (auto simp: F_def)
  have "chain_loop F 16 (sp_parent seed) = ancestor_loop (d_spaces db) t 16 (sp_parent seed)"
    if "F i = Some seed" for seed
    by (rule chain_loop_ancestors [OF inv layers_invD(3) [OF inv that]])
  moreover have "space_by_id (d_spaces db) t i = F i" if "i \<in> set spaceIds"
    using sub that by (intro layers_invD(1) [OF inv, symmetric]) (auto simp: ids_def)
  ultimately show ?thesis
    unfolding loadSpacesWithAncestors_def Let_def ids_def [symmetric] F_def [symmetric]
    by (cases "F i") auto
qed

lemma ancestor_loop_take:
  "m \<le> n \<Longrightarrow> ancestor_loop spaces t m cur = take m (ancestor_loop spaces t n cur)"
proof (induction m arbitrary: n cur)
  case (Suc m)
  then obtain k where "n = Suc k" "m \<le> k" by (cases n) auto
  with Suc.IH show ?case by (auto split: option.split)
qed simp

subsection \<open>Buckets and the order of the rules\<close>

lemma insert_by_insort:
  assumes "\<And>a b. compare a b \<le> 0 \<longleftrightarrow> f a \<le> f b"
  shows "insert_by compare x xs = insort_key f x xs"
  by (induction xs) (auto simp: assms)

lemma sort_by_sort_key:
  fixes f :: "'a \<Rightarrow> 'b::linorder"
  assumes "\<And>a b. compare a b \<le> 0 \<longleftrightarrow> f a \<le> f b"
  shows "sort_by compare xs = sort_key f xs"
proof -
  have "insert_by compare = insort_key f" by (intro ext insert_by_insort assms)
  then show ?thesis by (simp add: sort_by_def sort_key_def)
qed

text \<open>The order of the rules inside a bucket: higher priority first, then the smaller id.\<close>

definition rule_key :: "RuleRow \<Rightarrow> int \<times> string" where
  "rule_key r = (- r_priority r, r_id r)"

lemma compareRules_key: "compareRulesWithinSpecificity a b \<le> 0 \<longleftrightarrow> rule_key a \<le> rule_key b"
  by (auto simp: compareRulesWithinSpecificity_def rule_key_def Let_def)

lemma map_of_map_set: "map_of (map_set k v m) = (map_of m)(k \<mapsto> v)"
  by (induction m) auto

lemma fst_map_set: "map fst (map_set k v m) = set_add k (map fst m)"
proof (induction m)
  case (Cons a m)
  then show ?case by (cases a) (simp add: set_add_def)
qed (simp add: set_add_def)

definition in_bucket :: "SpaceWithChain \<Rightarrow> nat \<Rightarrow> RuleRow list \<Rightarrow> RuleRow list" where
  "in_bucket space s rules = filter (\<lambda>r. specificity_of r space = Some s) rules"

lemma bucket_add_step:
  assumes "distinct (map fst B)"
    and "\<And>s. map_of B s = (if in_bucket space s rules = [] then None else Some (in_bucket space s rules))"
  shows "distinct (map fst (bucket_add space r B)) \<and>
    map_of (bucket_add space r B) s = (if in_bucket space s (rules @ [r]) = [] then None
      else Some (in_bucket space s (rules @ [r])))"
proof (cases "specificity_of r space")
  case None
  with assms show ?thesis by (simp add: bucket_add_def in_bucket_def)
next
  case (Some q)
  have b: "in_bucket space s (rules @ [r]) = in_bucket space s rules @ (if s = q then [r] else [])"
    by (simp add: in_bucket_def Some)
  have "orElse (map_of B q) [] = in_bucket space q rules" using assms(2) by simp
  with assms Some show ?thesis
    by (simp add: b bucket_add_def map_of_map_set fst_map_set set_add_def)
qed

lemma fold_bucket_add:
  "distinct (map fst (fold (bucket_add space) rules [])) \<and>
   (\<forall>s. map_of (fold (bucket_add space) rules []) s =
     (if in_bucket space s rules = [] then None else Some (in_bucket space s rules)))"
proof (induction rules rule: rev_induct)
  case (snoc r rules)
  then show ?case using bucket_add_step [of "fold (bucket_add space) rules []" space rules r]
    by simp
qed (simp add: in_bucket_def)

lemma assoc_list_unique:
  assumes "sorted (map fst m)" "distinct (map fst m)" "sorted (map fst m')" "distinct (map fst m')"
    and "map_of m = map_of m'"
  shows "m = (m' :: (nat \<times> 'a) list)"
proof -
  from assms(5) have "set (map fst m) = set (map fst m')" by (metis dom_map_of_conv_image_fst set_map)
  with assms have keys: "map fst m = map fst m'" by (simp add: sorted_distinct_set_unique)
  have "map snd l = map (\<lambda>k. the (map_of l k)) (map fst l)" if "distinct (map fst l)"
    for l :: "(nat \<times> 'a) list"
    using that by (auto simp: map_of_is_SomeI)
  with assms keys have "map snd m = map snd m'" by metis
  with keys show ?thesis by (metis zip_map_fst_snd)
qed

definition specificities :: "SpaceWithChain \<Rightarrow> RuleRow list \<Rightarrow> nat list" where
  "specificities space rules = filter (\<lambda>s. in_bucket space s rules \<noteq> []) [1, 2, 3, 4]"

lemma specificity_range: "specificity_of r space = Some s \<Longrightarrow> s \<in> {1, 2, 3, 4}"
  by (auto simp: specificity_of_def split: if_splits TargetScope.splits)

lemma set_specificities: "s \<in> set (specificities space rules) \<longleftrightarrow> in_bucket space s rules \<noteq> []"
proof
  assume "in_bucket space s rules \<noteq> []"
  moreover from this obtain r where "specificity_of r space = Some s"
    by (auto simp: in_bucket_def filter_empty_conv)
  ultimately show "s \<in> set (specificities space rules)"
    using specificity_range by (auto simp: specificities_def)
qed (auto simp: specificities_def split: if_splits)

lemma bucketRulesBySpecificity_eq:
  "bucketRulesBySpecificity rules space =
     map (\<lambda>s. (s, in_bucket space s rules)) (specificities space rules)"
proof (rule assoc_list_unique)
  let ?B = "fold (bucket_add space) rules []"
  have B: "bucketRulesBySpecificity rules space = sort_key fst ?B"
    unfolding bucketRulesBySpecificity_def by (rule sort_by_sort_key) auto
  show "sorted (map fst (bucketRulesBySpecificity rules space))" by (simp add: B)
  have d: "distinct (map fst ?B)" using fold_bucket_add by blast
  have "mset (map fst (sort_key fst ?B)) = mset (map fst ?B)" by simp
  with d show d': "distinct (map fst (bucketRulesBySpecificity rules space))"
    unfolding B by (metis mset_eq_imp_distinct_iff)
  show "sorted (map fst (map (\<lambda>s. (s, in_bucket space s rules)) (specificities space rules)))"
    "distinct (map fst (map (\<lambda>s. (s, in_bucket space s rules)) (specificities space rules)))"
    by (auto simp: specificities_def comp_def)
  have "map_of (sort_key fst ?B) = map_of ?B"
    using d' d by (intro map_of_inject_set [THEN iffD2]) (auto simp: B)
  then show "map_of (bucketRulesBySpecificity rules space) =
      map_of (map (\<lambda>s. (s, in_bucket space s rules)) (specificities space rules))"
    using fold_bucket_add [of space rules]
    by (simp add: B map_of_map_restrict restrict_map_def set_specificities fun_eq_iff)
qed

lemma ordered_rules_eq:
  "ordered_rules rules space =
     concat (map (\<lambda>s. map (\<lambda>r. (r, s)) (sort_key rule_key (in_bucket space s rules))) [1, 2, 3, 4])"
  by (auto simp: ordered_rules_def bucketRulesBySpecificity_eq specificities_def
      sort_by_sort_key [OF compareRules_key] comp_def)

lemma ordered_rules_cong:
  assumes "\<And>s. in_bucket space s rules = in_bucket space s rules'"
  shows "ordered_rules rules space = ordered_rules rules' space"
  by (simp add: ordered_rules_eq assms)

text \<open>The rules in scope of a space, with their specificity, in table order.\<close>

definition targeted :: "RuleRow list \<Rightarrow> SpaceWithChain \<Rightarrow> MatchedRule list" where
  "targeted rules space =
     concat (map (\<lambda>r. case specificity_of r space of None \<Rightarrow> [] | Some s \<Rightarrow> [(r, s)]) rules)"

lemma ordered_rules_mset: "mset (ordered_rules rules space) = mset (targeted rules space)"
proof -
  have "mset (targeted rules space) =
      (\<Sum>s\<leftarrow>[1, 2, 3, 4]. mset (map (\<lambda>r. (r, s)) (in_bucket space s rules)))"
  proof (induction rules)
    case (Cons r rules)
    have "(\<Sum>s\<leftarrow>[1, 2, 3, 4]. mset (map (\<lambda>r. (r, s)) (in_bucket space s (r # rules)))) =
        mset (case specificity_of r space of None \<Rightarrow> [] | Some s \<Rightarrow> [(r, s)]) +
        (\<Sum>s\<leftarrow>[1, 2, 3, 4]. mset (map (\<lambda>r. (r, s)) (in_bucket space s rules)))"
      using specificity_range [of r space] by (auto simp: in_bucket_def split: option.split)
    with Cons show ?case by (simp add: targeted_def)
  qed (simp add: targeted_def in_bucket_def)
  then show ?thesis by (simp add: ordered_rules_eq)
qed

text \<open>The rank of a matched rule: most specific first, then priority, then id.\<close>

definition match_key :: "MatchedRule \<Rightarrow> nat \<times> int \<times> string" where
  "match_key m = (snd m, - r_priority (fst m), r_id (fst m))"

lemma ordered_rules_sorted: "sorted (map match_key (ordered_rules rules space))"
proof -
  have bucket: "sorted (map match_key (map (\<lambda>r. (r, s)) (sort_key rule_key rs)))" for s rs
  proof -
    have "sorted_wrt (\<lambda>a b. rule_key a \<le> rule_key b) (sort_key rule_key rs)"
      using sorted_sort_key [of rule_key rs] by (simp add: sorted_map)
    then have "sorted_wrt (\<lambda>a b. match_key (a, s) \<le> match_key (b, s)) (sort_key rule_key rs)"
      by (rule sorted_wrt_mono_rel [rotated]) (simp add: match_key_def rule_key_def)
    then show ?thesis by (simp add: sorted_map comp_def sorted_wrt_map)
  qed
  show ?thesis
    unfolding ordered_rules_eq
    by (auto simp: sorted_append bucket [unfolded map_map comp_def] comp_def)
       (auto simp: match_key_def)
qed

subsection \<open>Aggregation\<close>

definition is_approval :: "MatchedRule \<Rightarrow> bool" where
  "is_approval m \<longleftrightarrow> r_effect (fst m) = RequireApproval"

definition has_effect :: "RuleEffect \<Rightarrow> MatchedRule list \<Rightarrow> bool" where
  "has_effect e ms \<longleftrightarrow> (\<exists>m\<in>set ms. r_effect (fst m) = e)"

lemma aggregate_rule_flags:
  "g_hasDeny (aggregate_rule m g) = (g_hasDeny g \<or> r_effect (fst m) = Deny)"
  "g_hasApproval (aggregate_rule m g) = (g_hasApproval g \<or> r_effect (fst m) = RequireApproval)"
  "g_overridable (aggregate_rule m g) = (g_overridable g \<or> r_effect (fst m) = AllowOverride)"
  by (cases m; cases "r_effect (fst m)"; simp)+

lemma fold_aggregate_flags:
  "g_hasDeny (fold aggregate_rule ms g) = (g_hasDeny g \<or> has_effect Deny ms)"
  "g_hasApproval (fold aggregate_rule ms g) = (g_hasApproval g \<or> has_effect RequireApproval ms)"
  "g_overridable (fold aggregate_rule ms g) = (g_overridable g \<or> has_effect AllowOverride ms)"
  by (induction ms arbitrary: g)
     (auto simp: has_effect_def aggregate_rule_flags)

lemma fold_aggregate_denials:
  "g_denials (fold aggregate_rule ms g) =
     g_denials g @ map (\<lambda>m. the (r_denial_message (fst m)))
       (filter (\<lambda>m. r_effect (fst m) = Deny \<and> truthy (r_denial_message (fst m))) ms)"
  by (induction ms arbitrary: g) (auto split: RuleEffect.splits)

text \<open>Once a rule has set the approval configuration, rules that rank behind it do not replace it.\<close>

lemma fold_aggregate_kept:
  assumes "g_approvalRank g = Some (s, p)"
    and "\<forall>m\<in>set ms. (s, - p) \<le> (snd m, - r_priority (fst m))"
  shows "g_approvalConfig (fold aggregate_rule ms g) = g_approvalConfig g \<and>
    g_approvalWorkflow (fold aggregate_rule ms g) = g_approvalWorkflow g"
  using assms
proof (induction ms arbitrary: g)
  case (Cons m ms)
  obtain r q where m: "m = (r, q)" by (cases m)
  from Cons.prems m have "\<not> preferred q (r_priority r) (g_approvalRank g)" by auto
  then have "g_approvalRank (aggregate_rule m g) = g_approvalRank g"
    "g_approvalConfig (aggregate_rule m g) = g_approvalConfig g"
    "g_approvalWorkflow (aggregate_rule m g) = g_approvalWorkflow g"
    by (simp_all add: m split: RuleEffect.split)
  with Cons show ?case by simp
qed simp

lemma fold_aggregate_first:
  assumes "sorted (map match_key ms)" and "g_approvalRank g = None"
  shows "(g_approvalConfig (fold aggregate_rule ms g), g_approvalWorkflow (fold aggregate_rule ms g)) =
    (case find is_approval ms of
       None \<Rightarrow> (g_approvalConfig g, g_approvalWorkflow g)
     | Some (r, s) \<Rightarrow> (if r_approval_config r = JUndef then JNull else r_approval_config r,
                       r_workflow_definition_id r))"
  using assms
proof (induction ms arbitrary: g)
  case (Cons m ms)
  obtain r q where m: "m = (r, q)" by (cases m)
  show ?case
  proof (cases "is_approval m")
    case True
    let ?g = "aggregate_rule m g"
    from True m Cons.prems(2) have g: "g_approvalRank ?g = Some (q, r_priority r)"
      "g_approvalConfig ?g = (if r_approval_config r = JUndef then JNull else r_approval_config r)"
      "g_approvalWorkflow ?g = r_workflow_definition_id r"
      by (simp_all add: is_approval_def)
    from Cons.prems(1) m have "\<forall>m'\<in>set ms. (q, - r_priority r) \<le> (snd m', - r_priority (fst m'))"
      by (auto simp: match_key_def)
    from fold_aggregate_kept [OF g(1) this] True m g show ?thesis by simp
  next
    case False
    then have "g_approvalRank (aggregate_rule m g) = g_approvalRank g"
      "g_approvalConfig (aggregate_rule m g) = g_approvalConfig g"
      "g_approvalWorkflow (aggregate_rule m g) = g_approvalWorkflow g"
      by (simp_all add: m is_approval_def split: RuleEffect.split)
    with Cons False show ?thesis by (simp split: option.split)
  qed
qed simp

subsection \<open>The two resolution paths\<close>

lemma evaluateAndAggregate_cong:
  assumes "\<And>s. in_bucket space s rules = in_bucket space s rules'"
  shows "evaluateAndAggregate h now rem rules ctx space = evaluateAndAggregate h now rem rules' ctx space"
  by (simp add: evaluateAndAggregate_def ordered_rules_cong [OF assms])

lemma in_bucket_filterRules: "in_bucket space s (filterRulesForSpace rules space) = in_bucket space s rules"
proof -
  have "in_bucket space s (in_bucket space q rules) = (if q = s then in_bucket space s rules else [])" for q
    by (auto simp: in_bucket_def filter_empty_conv intro: filter_cong)
  then have "in_bucket space s (concat (map (\<lambda>q. in_bucket space q rules) qs)) =
      (if s \<in> set qs then in_bucket space s rules else [])" if "distinct qs" for qs
    using that by (induction qs) (auto simp: in_bucket_def)
  moreover have "distinct (specificities space rules)" by (simp add: specificities_def)
  ultimately show ?thesis
    by (auto simp: filterRulesForSpace_def bucketRulesBySpecificity_eq comp_def set_specificities)
qed

lemma in_bucket_sort:
  "in_bucket space s (sort_key r_id rules) = sort_key r_id (in_bucket space s rules)"
  by (simp add: in_bucket_def filter_sort)

text \<open>
  The query for one space returns every rule that can target it, when no more than 16
  spaces lie on the way to the root.
\<close>

lemma in_bucket_candidates:
  assumes space: "sp_id (sc_row space) = i"
    and anc: "set (sc_ancestor_ids space) \<subseteq> set (loadAncestorChain db i t @ [i])"
  shows "in_bucket space s (fetchCandidateRules db i t) = in_bucket space s (fetchAllRules db t)"
proof -
  let ?P = "\<lambda>r. r_scope r = Tenant \<or> r_scope r = RoomType \<or> (r_scope r = Room \<and> r_target r = Some i) \<or>
      (r_scope r = SpaceSubtree \<and> (\<exists>x\<in>set (loadAncestorChain db i t @ [i]). r_target r = Some x))"
  have "?P r" if "specificity_of r space = Some q" for r q
    using that anc
    by (cases "r_scope r") (auto simp: specificity_of_def space elim!: truthyE split: if_splits)
  then have "in_bucket space s (filter (\<lambda>r. r_tenant r = t \<and> r_active r \<and> ?P r) (d_rules db)) =
      in_bucket space s (filter (\<lambda>r. r_tenant r = t \<and> r_active r) (d_rules db))"
    by (auto simp: in_bucket_def intro!: filter_cong)
  then show ?thesis
    unfolding fetchCandidateRules_def fetchAllRules_def Let_def by (simp only: in_bucket_sort)
qed

lemma bulk_loop_lookup:
  assumes "bulk_loop f is out = Inr res"
  shows "map_of res i = (if i \<in> set is then (case f i of Inl _ \<Rightarrow> None | Inr oc \<Rightarrow> Some oc) else map_of out i)
    \<and> (\<forall>j\<in>set is. \<exists>oc. f j = Inr oc)"
  using assms
  by (induction f "is" out rule: bulk_loop.induct)
     (auto simp: result_simps map_of_map_set split: sum.splits)

lemma hydrate_core:
  assumes "hydrateContextHelpers orgRpc hoursRpc ps c = Inr c'"
  shows "same_core c' c"
  using assms
  by (auto simp: hydrateContextHelpers_def Let_def result_simps same_core_def
      dest!: hydrate_org_result(1) hydrate_business_result(1))

lemma assembleContext_basis:
  assumes "s_resolution_basis_at sc = Some b" and "date_parse h b = Some t"
  shows "assembleContext h now1 rq perms space sc = assembleContext h now2 rq perms space sc"
    and "same_core c (assembleContext h now1 rq perms space sc) \<Longrightarrow> basisNowMs h now c = t"
  using assms
  by (simp_all add: assembleContext_def parseBasisMs_def same_core_def basisNowMs_def Let_def)

lemma chain_covers:
  assumes pk: "distinct (map sp_id (d_spaces db))"
    and row: "space_by_id (d_spaces db) t i = Some row" and "i \<noteq> []"
    and short: "length (ancestor_loop (d_spaces db) t 16 (sp_parent row)) \<le> 15"
  shows "loadAncestorChain db i t = sp_id row # ancestor_loop (d_spaces db) t 16 (sp_parent row)"
proof -
  have "ancestor_loop (d_spaces db) t 15 (sp_parent row) = ancestor_loop (d_spaces db) t 16 (sp_parent row)"
    using ancestor_loop_take [of 15 16 "d_spaces db" t "sp_parent row"] short by simp
  moreover have "(16::nat) = Suc 15" by simp
  ultimately show ?thesis
    unfolding loadAncestorChain_def using row \<open>i \<noteq> []\<close>
    by (metis (no_types, lifting) ancestor_loop.simps(2) option.sel option.simps(5) truthy.simps(2))
qed

subsection \<open>A small tenant\<close>

text \<open>
  The concrete data of the witnesses: a room in a building, a tenant-wide rule that denies
  and a rule for the room that asks for approval.
\<close>

definition ex_host :: host where
  "ex_host = \<lparr>date_parse = (\<lambda>s. if s = ''t0'' then Some 0 else None),
     str_num = (\<lambda>_. None), num_str = (\<lambda>_. [])\<rparr>"

definition ex_remote :: remote where
  "ex_remote = \<lparr>org_node_descendants = (\<lambda>_. Inr [''n1'']), in_business_hours = (\<lambda>_ _. Inr True),
     user_has_permission = (\<lambda>_ _ _. True)\<rparr>"

definition ex_rule :: "string \<Rightarrow> TargetScope \<Rightarrow> string option \<Rightarrow> jsval \<Rightarrow> RuleEffect \<Rightarrow> RuleRow" where
  "ex_rule i sc tg p e = \<lparr>r_id = i, r_tenant = ''t'', r_name = i, r_scope = sc, r_target = tg,
     r_applies_when = p, r_effect = e, r_approval_config = JNull, r_denial_message = Some ''no'',
     r_priority = 100, r_active = True, r_template_id = None, r_workflow_definition_id = Some ''w''\<rparr>"

definition ex_same_type :: jsval where
  "ex_same_type = JObj [(''op'', JStr ''eq''), (''left'', JStr ''$.space.type''), (''right'', JStr ''room'')]"

definition ex_in_org :: jsval where
  "ex_in_org = JObj [(''fn'', JStr ''in_org_descendants''),
     (''args'', JArr [JStr ''$.requester.org_node_id'', JStr ''n0''])]"

definition ex_space :: "string \<Rightarrow> string option \<Rightarrow> space_row" where
  "ex_space i p = \<lparr>sp_id = i, sp_tenant = ''t'', sp_type = Some ''room'', sp_parent = p,
     sp_capacity = None, sp_min_attendees = None, sp_calendar = None\<rparr>"

definition ex_db :: rules_db where
  "ex_db = \<lparr>d_rules = [ex_rule ''r2'' Tenant None ex_same_type Deny,
       ex_rule ''r1'' Room (Some ''s'') ex_in_org RequireApproval],
     d_spaces = [ex_space ''s'' (Some ''b''), ex_space ''b'' None],
     d_persons = [\<lparr>pn_id = ''p'', pn_tenant = ''t'', pn_type = None, pn_cost_center = None\<rparr>],
     d_memberships = [\<lparr>mb_person = ''p'', mb_tenant = ''t'', mb_org_node = ''n1'', mb_primary = True\<rparr>],
     d_users = [], d_roles = []\<rparr>"

definition ex_scenario :: BookingScenario where
  "ex_scenario = \<lparr>s_requester_person_id = ''p'', s_space_id = ''s'', s_start_at = ''t1'', s_end_at = ''t2'',
     s_attendee_count = None, s_resolution_basis_at = None\<rparr>"

definition ex_chain :: SpaceWithChain where
  "ex_chain = \<lparr>sc_row = ex_space ''s'' (Some ''b''), sc_ancestor_ids = [''s'', ''b'']\<rparr>"

definition ex_ctx :: eval_ctx where
  "ex_ctx = assembleContext ex_host 0
     \<lparr>rq_id = ''p'', rq_type = None, rq_cost_center = None, rq_org_node_id = Some ''n1'',
      rq_role_ids = [], rq_user_id = None\<rparr> Map.empty ex_chain ex_scenario"

fun ok_result :: "'a result \<Rightarrow> bool" where
  "ok_result (Inl _) = False"
| "ok_result (Inr _) = True"

lemma ok_resultE: assumes "ok_result r" obtains a where "r = Inr a"
  using assms by (cases r) auto

subsection \<open>Properties\<close>

text \<open>
  C6. The rules that decide a booking are exactly the active rules in scope of the space whose
  predicate fires on the hydrated context, in the order of specificity, priority and id. The
  outcome is any-wins over them: denied when one of them denies, otherwise sent for approval
  when one asks for it; the approval configuration and the workflow come from the first approval
  rule in that order.
\<close>

theorem resolution_any_wins:
  assumes "evaluateAndAggregate h now rem rules ctx space = Inr oc"
  shows "(\<exists>c. hydrateContextHelpers (org_node_descendants rem) (in_business_hours rem)
             (map (\<lambda>m. r_applies_when (fst m)) (ordered_rules rules space)) ctx = Inr c \<and>
           mset (o_matchedRules oc) =
             mset (filter (\<lambda>m. fires h now c (r_applies_when (fst m))) (targeted rules space))) \<and>
     sorted (map match_key (o_matchedRules oc)) \<and>
     o_final oc = (if has_effect Deny (o_matchedRules oc) then FinalDeny
                   else if has_effect RequireApproval (o_matchedRules oc) then FinalRequireApproval
                   else FinalAllow) \<and>
     o_overridable oc = has_effect AllowOverride (o_matchedRules oc) \<and>
     (o_approvalConfig oc, o_approvalWorkflowDefinitionId oc) =
       (case find is_approval (o_matchedRules oc) of
          None \<Rightarrow> (JNull, None)
        | Some (r, s) \<Rightarrow> (if r_approval_config r = JUndef then JNull else r_approval_config r,
                          r_workflow_definition_id r))"
proof -
  from assms obtain c where c: "hydrateContextHelpers (org_node_descendants rem) (in_business_hours rem)
      (map (\<lambda>m. r_applies_when (fst m)) (ordered_rules rules space)) ctx = Inr c"
    and oc: "oc = aggregateOutcome
      (filter (\<lambda>m. fires h now c (r_applies_when (fst m))) (ordered_rules rules space))"
    by (auto simp: evaluateAndAggregate_def Let_def result_simps)
  let ?ms = "filter (\<lambda>m. fires h now c (r_applies_when (fst m))) (ordered_rules rules space)"
  have sorted: "sorted (map match_key ?ms)"
    using ordered_rules_sorted by (rule sorted_filter)
  have ms: "o_matchedRules oc = ?ms" by (simp add: oc aggregateOutcome_def Let_def)
  have mset: "mset ?ms = mset (filter (\<lambda>m. fires h now c (r_applies_when (fst m))) (targeted rules space))"
    by (simp add: ordered_rules_mset)
  have flags: "\<not> g_hasDeny aggregate0" "\<not> g_hasApproval aggregate0" "\<not> g_overridable aggregate0"
    and init: "g_approvalRank aggregate0 = None" "g_approvalConfig aggregate0 = JNull"
      "g_approvalWorkflow aggregate0 = None"
    by (simp_all add: aggregate0_def)
  show ?thesis
    unfolding ms using c mset sorted fold_aggregate_first [OF sorted init(1)] flags
    by (intro conjI exI [of _ c])
       (simp_all only: init fold_aggregate_flags, simp_all add: oc aggregateOutcome_def Let_def
         fold_aggregate_flags)
qed

theorem resolution_any_wins_witness:
  "\<exists>oc. evaluateAndAggregate ex_host 0 ex_remote (d_rules ex_db) ex_ctx ex_chain = Inr oc \<and>
     sorted (map match_key (o_matchedRules oc)) \<and> o_final oc = FinalDeny"
proof -
  have "ok_result (evaluateAndAggregate ex_host 0 ex_remote (d_rules ex_db) ex_ctx ex_chain)"
    by code_simp
  then obtain oc where oc: "evaluateAndAggregate ex_host 0 ex_remote (d_rules ex_db) ex_ctx ex_chain = Inr oc"
    by (rule ok_resultE)
  have "(case evaluateAndAggregate ex_host 0 ex_remote (d_rules ex_db) ex_ctx ex_chain of
      Inl _ \<Rightarrow> False | Inr oc \<Rightarrow> has_effect Deny (o_matchedRules oc))"
    by code_simp
  with oc resolution_any_wins [OF oc] show ?thesis by simp
qed

text \<open>
  The wall clock does not decide a booking: when the scenario carries a resolution instant
  that parses, two resolutions at different times of the process clock give the same outcome or
  the same error, lead-time rules included.
\<close>

theorem resolve_clock_independent:
  assumes "s_resolution_basis_at scenario = Some b" and "date_parse h b = Some t"
  shows "resolve_scenario h now1 rem db scenario tenantId = resolve_scenario h now2 rem db scenario tenantId"
proof -
  have build: "buildContext h now1 rem db scenario tenantId = buildContext h now2 rem db scenario tenantId"
    unfolding buildContext_def assembleContext_basis(1) [OF assms, of now1 _ _ _ now2] by (rule refl)
  have "evaluateAndAggregate h now1 rem rules ctx space = evaluateAndAggregate h now2 rem rules ctx space"
    if ctx: "buildContext h now2 rem db scenario tenantId = Inr (ctx, space)" for rules ctx space
  proof -
    obtain rq perms where "ctx = assembleContext h now2 rq perms space scenario"
      using ctx by (auto simp: buildContext_def Let_def result_simps split: option.splits)
    then have clock: "basisNowMs h now1 c = basisNowMs h now2 c" if "same_core c ctx" for c
      using assembleContext_basis(2) [OF assms] that by simp
    have "fires h now1 c p = fires h now2 c p" if "same_core c ctx" for c p
      unfolding fires_def evaluate_clock [OF clock [OF that]] by (rule refl)
    then show ?thesis
      unfolding evaluateAndAggregate_def Let_def
      by (intro and_then_cong refl) (simp add: hydrate_core)
  qed
  then show ?thesis
    unfolding resolve_scenario_def build by (intro and_then_cong refl) auto
qed

theorem resolve_clock_independent_witness:
  "resolve_scenario ex_host 1 ex_remote ex_db (ex_scenario\<lparr>s_resolution_basis_at := Some ''t0''\<rparr>) ''t''
    = resolve_scenario ex_host 2 ex_remote ex_db (ex_scenario\<lparr>s_resolution_basis_at := Some ''t0''\<rparr>) ''t''"
  by (rule resolve_clock_independent [where b = "''t0''" and t = 0]) (simp_all add: ex_host_def)

text \<open>
  The batched loader of spaces, which asks the database layer by layer, ends on every
  table, cyclic ones included, and returns for each requested space its row and the first
  16 ancestors of a walk from parent to parent.
\<close>

theorem batched_ancestors_equal_walk:
  assumes "distinct (map sp_id (d_spaces db))"
  shows "loadSpacesWithAncestors db spaceIds t i =
    (if i \<in> set spaceIds
     then map_option (\<lambda>seed. \<lparr>sc_row = seed,
            sc_ancestor_ids = sp_id seed # ancestor_loop (d_spaces db) t 16 (sp_parent seed)\<rparr>)
          (space_by_id (d_spaces db) t i)
     else None)"
  by (rule loadSpacesWithAncestors_eq [OF assms])

theorem batched_ancestors_equal_walk_witness:
  "loadSpacesWithAncestors ex_db [''s''] ''t'' ''s'' = Some ex_chain"
proof -
  have "distinct (map sp_id (d_spaces ex_db))" by code_simp
  from batched_ancestors_equal_walk [OF this, of "[''s'']" "''t''" "''s''"] show ?thesis
    by (simp add: ex_db_def ex_chain_def ex_space_def space_by_id_def numeral_eq_Suc)
qed

text \<open>
  C18. The picker and the booking agree: for a space with at most 15 ancestors, the outcome that
  the bulk path reports is the outcome of resolving the booking of that space alone, although
  one path fetches every rule of the tenant and the other only the candidates of the space.
\<close>

theorem picker_agrees_with_booking:
  assumes pk: "distinct (map sp_id (d_spaces db))"
    and bulk: "resolveBulk h now rem db person ids startAt endAt att t = Inr out"
    and i: "i \<in> set ids" "i \<noteq> []"
    and row: "space_by_id (d_spaces db) t i = Some row"
    and short: "length (ancestor_loop (d_spaces db) t 16 (sp_parent row)) \<le> 15"
  shows "\<exists>oc. map_of out i = Some oc \<and>
    resolve_scenario h now rem db \<lparr>s_requester_person_id = person, s_space_id = i, s_start_at = startAt,
      s_end_at = endAt, s_attendee_count = att, s_resolution_basis_at = None\<rparr> t = Inr oc"
proof -
  let ?sc = "\<lambda>j. \<lparr>s_requester_person_id = person, s_space_id = j, s_start_at = startAt,
      s_end_at = endAt, s_attendee_count = att, s_resolution_basis_at = None\<rparr>"
  define space where "space = \<lparr>sc_row = row,
      sc_ancestor_ids = sp_id row # ancestor_loop (d_spaces db) t 16 (sp_parent row)\<rparr>"
  from i have "ids \<noteq> []" by auto
  with bulk obtain rq where rq: "loadRequesterContext db person t = Inr rq"
    by (auto simp: resolveBulk_def result_simps)
  define perms where "perms = loadPermissionMap (user_has_permission rem) (rq_user_id rq) t"
  have load: "loadSpacesWithAncestors db js t i = Some space" if "i \<in> set js" for js
    using that row by (simp add: loadSpacesWithAncestors_eq [OF pk] space_def)
  define f where "f = (\<lambda>j. case loadSpacesWithAncestors db ids t j of
        None \<Rightarrow> Inr emptyOutcome
      | Some sp \<Rightarrow> evaluateAndAggregate h now rem (filterRulesForSpace (fetchAllRules db t) sp)
          (assembleContext h now rq perms sp (?sc j)) sp)"
  from bulk \<open>ids \<noteq> []\<close> rq have "bulk_loop f ids [] = Inr out"
    unfolding resolveBulk_def f_def perms_def Let_def by simp
  from bulk_loop_lookup [OF this, of i] i obtain oc where
    oc: "map_of out i = Some oc" "f i = Inr oc" by auto
  have id: "sp_id row = i" using row space_by_id_Some [OF pk] by blast
  have "in_bucket space s (fetchCandidateRules db i t) =
      in_bucket space s (filterRulesForSpace (fetchAllRules db t) space)" for s
    unfolding in_bucket_filterRules
    using chain_covers [OF pk row i(2) short] id
    by (intro in_bucket_candidates) (auto simp: space_def)
  then have "resolve_scenario h now rem db (?sc i) t = f i"
    using load [OF i(1)] load [of "[i]"] rq
      evaluateAndAggregate_cong [of space "fetchCandidateRules db i t"
        "filterRulesForSpace (fetchAllRules db t) space"]
    by (simp add: resolve_scenario_def buildContext_def f_def perms_def Let_def)
  with oc show ?thesis by auto
qed

theorem picker_agrees_with_booking_witness:
  "\<exists>out oc. resolveBulk ex_host 0 ex_remote ex_db ''p'' [''s''] ''t1'' ''t2'' None ''t'' = Inr out \<and>
     map_of out ''s'' = Some oc \<and> resolve_scenario ex_host 0 ex_remote ex_db ex_scenario ''t'' = Inr oc"
proof -
  have "ok_result (resolveBulk ex_host 0 ex_remote ex_db ''p'' [''s''] ''t1'' ''t2'' None ''t'')" by code_simp
  then obtain out where out: "resolveBulk ex_host 0 ex_remote ex_db ''p'' [''s''] ''t1'' ''t2'' None ''t'' = Inr out"
    by (rule ok_resultE)
  have "distinct (map sp_id (d_spaces ex_db))" by code_simp
  moreover have "space_by_id (d_spaces ex_db) ''t'' ''s'' = Some (ex_space ''s'' (Some ''b''))"
    by (simp add: ex_db_def ex_space_def space_by_id_def)
  moreover have "length (ancestor_loop (d_spaces ex_db) ''t'' 16 (sp_parent (ex_space ''s'' (Some ''b'')))) \<le> 15"
    by code_simp
  ultimately show ?thesis
    using picker_agrees_with_booking [OF _ out, of "''s''" "ex_space ''s'' (Some ''b'')"] out
    by (auto simp: ex_scenario_def)
qed

end
