(* ===== verification/Rule_Templates.thy ===== *)
theory Rule_Templates
  imports Booking_Rules
begin

section \<open>The starter templates of the rule editor\<close>

text \<open>
  \<open>modules/room-booking-rules/rule-templates.ts\<close>: the twelve templates, each with its
  parameter specification and the \<open>compile\<close> function that turns the parameters of the
  editor into a predicate, an effect and a message. Parameters are the JSON object of the
  request. A template without a message or an approval configuration leaves the field
  undefined.
\<close>

datatype TemplateParamType = P_role_ids | P_org_node_id | P_calendar_id | P_interval_minutes
  | P_attendee_count | P_factor | P_mode | P_approval_config | P_denial_message

record TemplateParamSpec =
  ps_key :: string
  ps_type :: TemplateParamType
  ps_label :: string
  ps_required :: bool
  ps_default :: jsval
  ps_enum :: "jsval list"

record CompiledRule =
  k_applies_when :: jsval
  k_effect :: RuleEffect
  k_denial_message :: jsval
  k_approval_config :: jsval
  k_suggested_name :: string

type_synonym params = "(string \<times> jsval) list"

record TemplateDefinition =
  t_id :: string
  t_label :: string
  t_description :: string
  t_effect_hint :: RuleEffect
  t_paramSpecs :: "TemplateParamSpec list"
  t_compile :: "host \<Rightarrow> params \<Rightarrow> CompiledRule result"

definition param :: "string \<Rightarrow> TemplateParamType \<Rightarrow> string \<Rightarrow> bool \<Rightarrow> TemplateParamSpec" where
  "param k ty l req = \<lparr>ps_key = k, ps_type = ty, ps_label = l, ps_required = req,
     ps_default = JUndef, ps_enum = []\<rparr>"

definition requireParam :: "params \<Rightarrow> string \<Rightarrow> jsval result" where
  "requireParam ps key =
     (let v = obj_get ps key
      in if v = JUndef \<or> v = JNull \<or> v = JStr []
         then Inl (ValidationFailed ''room_rule.template_param_required'') else Inr v)"

definition template_invalid :: app_error where
  "template_invalid = ValidationFailed ''room_rule.template_invalid''"

definition toNumber :: "host \<Rightarrow> jsval \<Rightarrow> rat result" where
  "toNumber h v = and_then (js_Number h v) (\<lambda>n. case n of None \<Rightarrow> Inl template_invalid | Some q \<Rightarrow> Inr q)"

fun is_str :: "jsval \<Rightarrow> bool" where
  "is_str (JStr s) = True"
| "is_str _ = False"

fun toStringArray :: "jsval \<Rightarrow> jsval list result" where
  "toStringArray (JArr vs) = (if \<exists>v\<in>set vs. \<not> is_str v then Inl template_invalid else Inr vs)"
| "toStringArray _ = Inl template_invalid"

definition fn_node :: "string \<Rightarrow> jsval list \<Rightarrow> jsval" where
  "fn_node f args = JObj [(''fn'', JStr f), (''args'', JArr args)]"

definition not_node :: "jsval \<Rightarrow> jsval" where
  "not_node p = JObj [(''not'', p)]"

definition op_node :: "string \<Rightarrow> jsval \<Rightarrow> jsval \<Rightarrow> jsval" where
  "op_node op l r = JObj [(''op'', JStr op), (''left'', l), (''right'', r)]"

text \<open>The multiplication sign in UTF-8.\<close>

definition times_sign :: string where
  "times_sign = [char_of (195::nat), char_of (151::nat)]"

definition compile_restrict_to_roles :: "host \<Rightarrow> params \<Rightarrow> CompiledRule result" where
  "compile_restrict_to_roles h ps =
     and_then (requireParam ps ''role_ids'') (\<lambda>v.
     and_then (toStringArray v) (\<lambda>roleIds.
       Inr \<lparr>k_applies_when = not_node (fn_node ''array_intersects''
              [JStr ''$.requester.role_ids'', JArr roleIds]),
            k_effect = Deny,
            k_denial_message = or_default (obj_get ps ''denial_message'')
              (JStr ''This room is restricted to specific roles.''),
            k_approval_config = JUndef,
            k_suggested_name = ''Restrict to roles''\<rparr>))"

definition compile_restrict_to_org_subtree :: "host \<Rightarrow> params \<Rightarrow> CompiledRule result" where
  "compile_restrict_to_org_subtree h ps =
     and_then (requireParam ps ''org_node_id'') (\<lambda>rt.
       Inr \<lparr>k_applies_when = not_node (fn_node ''in_org_descendants''
              [JStr ''$.requester.org_node_id'', rt]),
            k_effect = Deny,
            k_denial_message = or_default (obj_get ps ''denial_message'')
              (JStr ''This room is restricted to a specific part of the organisation.''),
            k_approval_config = JUndef,
            k_suggested_name = ''Restrict to org subtree''\<rparr>)"

definition compile_off_hours_need_approval :: "host \<Rightarrow> params \<Rightarrow> CompiledRule result" where
  "compile_off_hours_need_approval h ps =
     and_then (requireParam ps ''calendar_id'') (\<lambda>calId.
       Inr \<lparr>k_applies_when = not_node (fn_node ''in_business_hours''
              [JStr ''$.booking.start_at'', calId]),
            k_effect = RequireApproval,
            k_denial_message = JUndef,
            k_approval_config = or_default (obj_get ps ''approval_config'') JNull,
            k_suggested_name = ''Off-hours need approval''\<rparr>)"

definition number_param :: "host \<Rightarrow> params \<Rightarrow> string \<Rightarrow> rat result" where
  "number_param h ps key = and_then (requireParam ps key) (toNumber h)"

definition compile_min_lead_time :: "host \<Rightarrow> params \<Rightarrow> CompiledRule result" where
  "compile_min_lead_time h ps =
     and_then (number_param h ps ''interval_minutes'') (\<lambda>minutes.
       Inr \<lparr>k_applies_when = fn_node ''lead_minutes_lt'' [JStr ''$.booking.start_at'', JNum minutes],
            k_effect = Deny,
            k_denial_message = or_default (obj_get ps ''denial_message'')
              (JStr (''This room requires at least '' @ num_str h minutes @ '' minutes' lead time.'')),
            k_approval_config = JUndef,
            k_suggested_name = ''Minimum lead time ('' @ num_str h minutes @ '' min)''\<rparr>)"

definition compile_max_lead_time :: "host \<Rightarrow> params \<Rightarrow> CompiledRule result" where
  "compile_max_lead_time h ps =
     and_then (number_param h ps ''interval_minutes'') (\<lambda>minutes.
       Inr \<lparr>k_applies_when = fn_node ''lead_minutes_gt'' [JStr ''$.booking.start_at'', JNum minutes],
            k_effect = Deny,
            k_denial_message = or_default (obj_get ps ''denial_message'')
              (JStr (''This room cannot be booked more than '' @ num_str h minutes @
                 '' minutes in advance.'')),
            k_approval_config = JUndef,
            k_suggested_name = ''Maximum lead time ('' @ num_str h minutes @ '' min)''\<rparr>)"

definition compile_max_duration :: "host \<Rightarrow> params \<Rightarrow> CompiledRule result" where
  "compile_max_duration h ps =
     and_then (number_param h ps ''interval_minutes'') (\<lambda>minutes.
       Inr \<lparr>k_applies_when = fn_node ''duration_minutes_gt''
              [JStr ''$.booking.start_at'', JStr ''$.booking.end_at'', JNum minutes],
            k_effect = Deny,
            k_denial_message = or_default (obj_get ps ''denial_message'')
              (JStr (''This room can be booked for at most '' @ num_str h minutes @ '' minutes.'')),
            k_approval_config = JUndef,
            k_suggested_name = ''Max duration ('' @ num_str h minutes @ '' min)''\<rparr>)"

fun mode_effect :: "string \<Rightarrow> RuleEffect option" where
  "mode_effect m =
     (if m = ''deny'' then Some Deny else if m = ''warn'' then Some Warn
      else if m = ''require_approval'' then Some RequireApproval else None)"

definition compile_capacity_tolerance :: "host \<Rightarrow> params \<Rightarrow> CompiledRule result" where
  "compile_capacity_tolerance h ps =
     and_then (number_param h ps ''factor'') (\<lambda>factor.
     and_then (requireParam ps ''mode'') (\<lambda>v.
     and_then (js_String h v) (\<lambda>m.
       (case mode_effect m of
          None \<Rightarrow> Inl template_invalid
        | Some mode \<Rightarrow>
            Inr \<lparr>k_applies_when = fn_node ''attendees_over_capacity_factor''
                   [JStr ''$.booking.attendee_count'', JStr ''$.space.capacity'', JNum factor],
                 k_effect = mode,
                 k_denial_message = or_default (obj_get ps ''denial_message'')
                   (if mode = Deny
                    then JStr (''This room cannot be booked above '' @
                      num_str h (of_int (js_round (factor * 100))) @ ''% capacity.'')
                    else JNull),
                 k_approval_config = or_default (obj_get ps ''approval_config'') JNull,
                 k_suggested_name = ''Capacity tolerance ('' @ times_sign @ num_str h factor @ '')''\<rparr>))))"

definition compile_long_bookings :: "host \<Rightarrow> params \<Rightarrow> CompiledRule result" where
  "compile_long_bookings h ps =
     and_then (number_param h ps ''interval_minutes'') (\<lambda>minutes.
       Inr \<lparr>k_applies_when = fn_node ''duration_minutes_gt''
              [JStr ''$.booking.start_at'', JStr ''$.booking.end_at'', JNum minutes],
            k_effect = RequireApproval,
            k_denial_message = JUndef,
            k_approval_config = or_default (obj_get ps ''approval_config'') JNull,
            k_suggested_name = ''Long bookings (>'' @ num_str h minutes @ '' min) need approval''\<rparr>)"

definition compile_high_capacity :: "host \<Rightarrow> params \<Rightarrow> CompiledRule result" where
  "compile_high_capacity h ps =
     and_then (number_param h ps ''attendee_threshold'') (\<lambda>threshold.
       Inr \<lparr>k_applies_when = op_node ''gt'' (JStr ''$.booking.attendee_count'') (JNum threshold),
            k_effect = RequireApproval,
            k_denial_message = JUndef,
            k_approval_config = or_default (obj_get ps ''approval_config'') JNull,
            k_suggested_name = ''Bookings above '' @ num_str h threshold @ '' attendees need approval''\<rparr>)"

definition compile_capacity_floor :: "host \<Rightarrow> params \<Rightarrow> CompiledRule result" where
  "compile_capacity_floor h ps =
     Inr \<lparr>k_applies_when = fn_node ''attendees_below_min''
            [JStr ''$.booking.attendee_count'', JStr ''$.space.min_attendees''],
          k_effect = Deny,
          k_denial_message = or_default (obj_get ps ''denial_message'')
            (JStr ''This room has a minimum-attendee requirement and your booking is below it.''),
          k_approval_config = JUndef,
          k_suggested_name = ''Capacity floor''\<rparr>"

definition compile_soft_over_capacity :: "host \<Rightarrow> params \<Rightarrow> CompiledRule result" where
  "compile_soft_over_capacity h ps =
     Inr \<lparr>k_applies_when = op_node ''gt'' (JStr ''$.booking.attendee_count'') (JStr ''$.space.capacity''),
          k_effect = Warn, k_denial_message = JNull, k_approval_config = JUndef,
          k_suggested_name = ''Soft over-capacity warning''\<rparr>"

definition compile_override_allow :: "host \<Rightarrow> params \<Rightarrow> CompiledRule result" where
  "compile_override_allow h ps =
     Inr \<lparr>k_applies_when = fn_node ''has_permission'' [JStr ''rooms.override_rules''],
          k_effect = AllowOverride, k_denial_message = JNull, k_approval_config = JUndef,
          k_suggested_name = ''Service-desk override''\<rparr>"

definition denial_param :: TemplateParamSpec where
  "denial_param = param ''denial_message'' P_denial_message ''Denial message'' False"

definition approvers_param :: TemplateParamSpec where
  "approvers_param = param ''approval_config'' P_approval_config ''Approvers'' False"

definition RULE_TEMPLATES :: "TemplateDefinition list" where
  "RULE_TEMPLATES =
     [\<lparr>t_id = ''restrict_to_roles'', t_label = ''Restrict to roles'',
       t_description = ''Deny bookings unless the requester holds one of the listed roles.'',
       t_effect_hint = Deny,
       t_paramSpecs = [param ''role_ids'' P_role_ids ''Allowed roles'' True, denial_param],
       t_compile = compile_restrict_to_roles\<rparr>,
      \<lparr>t_id = ''restrict_to_org_subtree'', t_label = ''Restrict to org subtree'',
       t_description = ''Deny bookings unless the requester sits within the chosen org subtree.'',
       t_effect_hint = Deny,
       t_paramSpecs = [param ''org_node_id'' P_org_node_id ''Org root'' True, denial_param],
       t_compile = compile_restrict_to_org_subtree\<rparr>,
      \<lparr>t_id = ''off_hours_need_approval'', t_label = ''Off-hours need approval'',
       t_description = ''Require approval when the booking starts outside business hours.'',
       t_effect_hint = RequireApproval,
       t_paramSpecs = [param ''calendar_id'' P_calendar_id ''Business-hours calendar'' True, approvers_param],
       t_compile = compile_off_hours_need_approval\<rparr>,
      \<lparr>t_id = ''min_lead_time'', t_label = ''Minimum lead time'',
       t_description = ''Deny bookings made less than N minutes before the start time.'',
       t_effect_hint = Deny,
       t_paramSpecs = [param ''interval_minutes'' P_interval_minutes ''Minimum lead (minutes)'' True, denial_param],
       t_compile = compile_min_lead_time\<rparr>,
      \<lparr>t_id = ''max_lead_time'', t_label = ''Maximum lead time'',
       t_description = ''Deny bookings made more than N minutes in advance.'',
       t_effect_hint = Deny,
       t_paramSpecs = [param ''interval_minutes'' P_interval_minutes ''Maximum lead (minutes)'' True, denial_param],
       t_compile = compile_max_lead_time\<rparr>,
      \<lparr>t_id = ''max_duration'', t_label = ''Maximum duration'',
       t_description = ''Deny bookings longer than N minutes.'',
       t_effect_hint = Deny,
       t_paramSpecs = [param ''interval_minutes'' P_interval_minutes ''Maximum duration (minutes)'' True, denial_param],
       t_compile = compile_max_duration\<rparr>,
      \<lparr>t_id = ''capacity_tolerance'', t_label = ''Capacity tolerance'',
       t_description = ''Treat over-capacity bookings (attendees > capacity '' @ times_sign @
         '' factor) per the chosen mode.'',
       t_effect_hint = Deny,
       t_paramSpecs =
         [(param ''factor'' P_factor ''Tolerance factor'' True)\<lparr>ps_default := JNum (12 / 10)\<rparr>,
          (param ''mode'' P_mode ''When over-capacity'' True)
            \<lparr>ps_default := JStr ''warn'',
             ps_enum := [JStr ''deny'', JStr ''warn'', JStr ''require_approval'']\<rparr>,
          param ''denial_message'' P_denial_message ''Message'' False,
          param ''approval_config'' P_approval_config ''Approvers (if approval)'' False],
       t_compile = compile_capacity_tolerance\<rparr>,
      \<lparr>t_id = ''long_bookings_need_manager_approval'', t_label = ''Long bookings need approval'',
       t_description = ''Require approval when a booking exceeds N minutes in length.'',
       t_effect_hint = RequireApproval,
       t_paramSpecs = [param ''interval_minutes'' P_interval_minutes ''Threshold (minutes)'' True, approvers_param],
       t_compile = compile_long_bookings\<rparr>,
      \<lparr>t_id = ''high_capacity_needs_vp_approval'', t_label = ''High-attendee bookings need approval'',
       t_description = ''Require approval when the attendee count exceeds N.'',
       t_effect_hint = RequireApproval,
       t_paramSpecs = [param ''attendee_threshold'' P_attendee_count ''Attendee threshold'' True, approvers_param],
       t_compile = compile_high_capacity\<rparr>,
      \<lparr>t_id = ''capacity_floor'', t_label = ''Capacity floor'',
       t_description = ''Deny bookings with fewer attendees than the room's `min_attendees`. Only fires when min_attendees is set on the room.'',
       t_effect_hint = Deny,
       t_paramSpecs = [denial_param],
       t_compile = compile_capacity_floor\<rparr>,
      \<lparr>t_id = ''soft_over_capacity_warning'', t_label = ''Soft over-capacity warning'',
       t_description = ''Warn (without blocking) when attendee_count exceeds the room capacity.'',
       t_effect_hint = Warn, t_paramSpecs = [], t_compile = compile_soft_over_capacity\<rparr>,
      \<lparr>t_id = ''service_desk_override_allow'', t_label = ''Service-desk override'',
       t_description = ''Marks the booking as overridable when the requester (or actor) holds the `rooms.override_rules` permission.'',
       t_effect_hint = AllowOverride, t_paramSpecs = [], t_compile = compile_override_allow\<rparr>]"

definition getTemplate :: "string \<Rightarrow> TemplateDefinition result" where
  "getTemplate i =
     (case find (\<lambda>t. t_id t = i) RULE_TEMPLATES of
        None \<Rightarrow> Inl template_invalid | Some t \<Rightarrow> Inr t)"

definition listTemplates :: "(string \<times> string \<times> string \<times> RuleEffect \<times> TemplateParamSpec list) list" where
  "listTemplates = map (\<lambda>t. (t_id t, t_label t, t_description t, t_effect_hint t, t_paramSpecs t)) RULE_TEMPLATES"

subsection \<open>What the templates compile to\<close>

lemmas compile_defs = compile_restrict_to_roles_def compile_restrict_to_org_subtree_def
  compile_off_hours_need_approval_def compile_min_lead_time_def compile_max_lead_time_def
  compile_max_duration_def compile_capacity_tolerance_def compile_long_bookings_def
  compile_high_capacity_def compile_capacity_floor_def compile_soft_over_capacity_def
  compile_override_allow_def

text \<open>The three shapes of predicate a template produces.\<close>

definition template_shape :: "jsval \<Rightarrow> bool" where
  "template_shape p \<longleftrightarrow>
     (\<exists>f args. f \<in> set KNOWN_FNS \<and> (p = fn_node f args \<or> p = not_node (fn_node f args))) \<or>
     (\<exists>l r. p = op_node ''gt'' l r)"

lemma template_shape_valid: "template_shape p \<Longrightarrow> validate p 0 = Inr ()"
  by (auto simp: template_shape_def fn_node_def not_node_def op_node_def validate.simps has_key_def
      known_name_def KNOWN_OPS_def)

lemma template_shapeI:
  "f \<in> set KNOWN_FNS \<Longrightarrow> template_shape (fn_node f args)"
  "f \<in> set KNOWN_FNS \<Longrightarrow> template_shape (not_node (fn_node f args))"
  "template_shape (op_node ''gt'' l r)"
  by (auto simp: template_shape_def)

lemma known_fns:
  "''array_intersects'' \<in> set KNOWN_FNS" "''in_org_descendants'' \<in> set KNOWN_FNS"
  "''in_business_hours'' \<in> set KNOWN_FNS" "''lead_minutes_lt'' \<in> set KNOWN_FNS"
  "''lead_minutes_gt'' \<in> set KNOWN_FNS" "''duration_minutes_gt'' \<in> set KNOWN_FNS"
  "''attendees_over_capacity_factor'' \<in> set KNOWN_FNS" "''attendees_below_min'' \<in> set KNOWN_FNS"
  "''has_permission'' \<in> set KNOWN_FNS"
  by (simp_all add: KNOWN_FNS_def)

lemmas shape_simps = template_shapeI known_fns result_simps

definition shaped :: "CompiledRule result \<Rightarrow> bool" where
  "shaped r \<longleftrightarrow> (\<forall>k. r = Inr k \<longrightarrow> template_shape (k_applies_when k))"

lemma shaped_rules [intro!, simp]:
  "shaped (Inl e)"
  "template_shape (k_applies_when k) \<Longrightarrow> shaped (Inr k)"
  "(\<And>a. x = Inr a \<Longrightarrow> shaped (f a)) \<Longrightarrow> shaped (and_then x f)"
  by (auto simp: shaped_def result_simps)

lemma shaped_option [intro!]:
  "shaped a \<Longrightarrow> (\<And>x. shaped (b x)) \<Longrightarrow> shaped (case v of None \<Rightarrow> a | Some x \<Rightarrow> b x)"
  by (cases v) auto

lemma compile_shapes:
  "shaped (compile_restrict_to_roles h ps)" "shaped (compile_restrict_to_org_subtree h ps)"
  "shaped (compile_off_hours_need_approval h ps)" "shaped (compile_min_lead_time h ps)"
  "shaped (compile_max_lead_time h ps)" "shaped (compile_max_duration h ps)"
  "shaped (compile_capacity_tolerance h ps)" "shaped (compile_long_bookings h ps)"
  "shaped (compile_high_capacity h ps)" "shaped (compile_capacity_floor h ps)"
  "shaped (compile_soft_over_capacity h ps)" "shaped (compile_override_allow h ps)"
  unfolding compile_defs
  by (intro shaped_rules shaped_option; simp only: CompiledRule.simps shape_simps)+

lemma RULE_TEMPLATES_shaped:
  assumes "t \<in> set RULE_TEMPLATES"
  shows "shaped (t_compile t h ps)"
  using assms unfolding RULE_TEMPLATES_def
  by (auto simp: compile_shapes)

subsection \<open>What the predicates mean on a booking\<close>

lemma booking_refs:
  fixes h now rq perms space sc
  defines "c \<equiv> assembleContext h now rq perms space sc"
  shows "resolveRef (JStr ''$.booking.start_at'') c = JStr (s_start_at sc)"
    and "resolveRef (JStr ''$.booking.end_at'') c = JStr (s_end_at sc)"
    and "resolveRef (JStr ''$.booking.attendee_count'') c = int_val (s_attendee_count sc)"
    and "resolveRef (JStr ''$.space.capacity'') c = int_val (sp_capacity (sc_row space))"
    and "resolveRef (JStr ''$.space.min_attendees'') c = int_val (sp_min_attendees (sc_row space))"
    and "resolveRef (JStr ''$.requester.role_ids'') c = JArr (map JStr (rq_role_ids rq))"
  by (simp_all add: c_def resolveRef_def assembleContext_def Let_def)

lemma literal_refs:
  "resolveRef (JNum n) c = JNum n" "resolveRef (JArr vs) c = JArr vs"
  by (simp_all add: resolveRef_def)

lemma fires_fn: "fires h now c (fn_node f args) \<longleftrightarrow> evalFn h now (JStr f) args c = Inr True"
  by (simp add: fires_def fn_node_def evaluate.simps has_key_def split: sum.split)

lemma fires_not_fn:
  "f \<in> set KNOWN_FNS \<Longrightarrow>
     fires h now c (not_node (fn_node f args)) \<longleftrightarrow> evalFn h now (JStr f) args c = Inr False"
  by (cases "evalFn h now (JStr f) args c") (simp_all add: fires_def fn_node_def not_node_def evaluate.simps has_key_def)

lemma fires_gt:
  "fires h now c (op_node ''gt'' l r) \<longleftrightarrow>
     cmp_test h (\<lambda>x. x > 0) (resolveRef l c) (resolveRef r c) = Inr True"
  by (simp add: fires_def op_node_def evaluate.simps has_key_def evalOp_def Let_def split: sum.split)

lemma basisNowMs_assembled:
  "basisNowMs h now (assembleContext h now rq perms space sc) =
     parseBasisMs h now (s_resolution_basis_at sc)"
  by (simp add: basisNowMs_def assembleContext_def parseBasisMs_def Let_def split: option.split)

lemma arg_at_list: "arg_at (a # as) 0 = a" "arg_at (a # as) (Suc i) = arg_at as i" "arg_at [] i = JUndef"
  by (simp_all add: arg_at_def)

lemma arrays_intersect_strings:
  "arrays_intersect h (map JStr xs) (map JStr ys) = Inr (set xs \<inter> set ys \<noteq> {})"
proof -
  have "map_result (js_String h) (map JStr zs) = Inr zs" for zs by (induction zs) auto
  moreover have "some_result (\<lambda>v. and_then (js_String h v) (\<lambda>s. Inr (s \<in> A))) (map JStr xs) = Inr (set xs \<inter> A \<noteq> {})" for A
    by (induction xs) auto
  ultimately show ?thesis by (simp add: arrays_intersect_def)
qed

lemma minutes_test_num:
  "minutes_test h num_less d (JNum m) = Inr (num_less d (Some m))"
  "minutes_test h (\<lambda>d m. num_less m d) d (JNum m) = Inr (num_less (Some m) d)"
  by (cases d; simp)+

lemma num_less_Some: "num_less (Some x) (Some y) \<longleftrightarrow> x < y" by simp

lemmas meaning_simps = booking_refs literal_refs basisNowMs_assembled arg_at_list parse_val_def
  evalFn_def Let_def numeral_2_eq_2 arrays_intersect_strings minutes_test_num

definition ex_requester :: RequesterContext where
  "ex_requester = \<lparr>rq_id = ''p'', rq_type = None, rq_cost_center = None, rq_org_node_id = None,
     rq_role_ids = [''staff''], rq_user_id = None\<rparr>"

subsection \<open>Properties\<close>

text \<open>
  What the editor produces from a template can always be saved: when a template compiles, its predicate passes the
  validator. Its evaluation returns a truth value in every context in which its operands convert.
\<close>

theorem template_predicates_evaluate:
  assumes "getTemplate i = Inr t" and "t_compile t h ps = Inr k"
  shows "validate (k_applies_when k) 0 = Inr () \<and>
    (plain_operands h' c (k_applies_when k) \<longrightarrow> (\<exists>b. evaluate h' now (k_applies_when k) c 0 = Inr b))"
proof -
  have "t \<in> set RULE_TEMPLATES"
    using assms(1) by (auto simp: getTemplate_def find_Some_iff split: option.splits)
  from RULE_TEMPLATES_shaped [OF this, of h ps] assms(2) have "template_shape (k_applies_when k)"
    by (simp add: shaped_def)
  from template_shape_valid [OF this] validated_evaluates show ?thesis by blast
qed

theorem template_predicates_evaluate_witness:
  "\<exists>t k. getTemplate ''capacity_floor'' = Inr t \<and> t_compile t ex_host [] = Inr k \<and>
     validate (k_applies_when k) 0 = Inr ()"
proof -
  have "ok_result (getTemplate ''capacity_floor'')" by (simp add: getTemplate_def RULE_TEMPLATES_def)
  then obtain t where t: "getTemplate ''capacity_floor'' = Inr t" by (rule ok_resultE)
  then have "t_compile t = compile_capacity_floor"
    by (auto simp: getTemplate_def RULE_TEMPLATES_def)
  then obtain k where k: "t_compile t ex_host [] = Inr k" by (simp add: compile_capacity_floor_def)
  from template_predicates_evaluate [OF t k] t k show ?thesis by blast
qed

text \<open>
  The templates on lead time, length, roles and capacity mean what their labels say. On the
  context of a booking: the minimum lead time denies exactly the bookings that start less than
  the given minutes after the resolution instant, the maximum lead time those that start more
  than that after it, the maximum duration those that last longer; the role restriction
  denies exactly the requesters without one of the roles; the capacity floor denies exactly when
  both numbers are known and the attendees are fewer.
\<close>

theorem template_meanings:
  fixes h now rq perms space sc
  defines "c \<equiv> assembleContext h now rq perms space sc"
    and "lead \<equiv> minutes_between (Some (parseBasisMs h now (s_resolution_basis_at sc)))
      (date_parse h (s_start_at sc))"
    and "len \<equiv> minutes_between (date_parse h (s_start_at sc)) (date_parse h (s_end_at sc))"
  assumes "number_param h ps ''interval_minutes'' = Inr m"
    and "obj_get ps ''role_ids'' = JArr (map JStr roles)"
  shows "(\<exists>k. compile_min_lead_time h ps = Inr k \<and> k_effect k = Deny \<and>
           fires h now c (k_applies_when k) = num_less lead (Some m)) \<and>
     (\<exists>k. compile_max_lead_time h ps = Inr k \<and> k_effect k = Deny \<and>
           fires h now c (k_applies_when k) = num_less (Some m) lead) \<and>
     (\<exists>k. compile_max_duration h ps = Inr k \<and> k_effect k = Deny \<and>
           fires h now c (k_applies_when k) = num_less (Some m) len) \<and>
     (\<exists>k. compile_restrict_to_roles h ps = Inr k \<and> k_effect k = Deny \<and>
           fires h now c (k_applies_when k) = (set (rq_role_ids rq) \<inter> set roles = {})) \<and>
     (\<exists>k. compile_capacity_floor h ps = Inr k \<and> k_effect k = Deny \<and>
           fires h now c (k_applies_when k) =
             (\<exists>a n. s_attendee_count sc = Some a \<and> sp_min_attendees (sc_row space) = Some n \<and> a < n))"
proof -
  have "\<exists>k. compile_min_lead_time h ps = Inr k \<and> k_effect k = Deny \<and>
      fires h now c (k_applies_when k) = num_less lead (Some m)"
    using assms(4)
    by (simp add: compile_min_lead_time_def fires_fn meaning_simps c_def lead_def)
  moreover have "\<exists>k. compile_max_lead_time h ps = Inr k \<and> k_effect k = Deny \<and>
      fires h now c (k_applies_when k) = num_less (Some m) lead"
    using assms(4)
    by (simp add: compile_max_lead_time_def fires_fn meaning_simps c_def lead_def)
  moreover have "\<exists>k. compile_max_duration h ps = Inr k \<and> k_effect k = Deny \<and>
      fires h now c (k_applies_when k) = num_less (Some m) len"
    using assms(4)
    by (simp add: compile_max_duration_def fires_fn meaning_simps c_def len_def)
  moreover have "\<exists>k. compile_restrict_to_roles h ps = Inr k \<and> k_effect k = Deny \<and>
      fires h now c (k_applies_when k) = (set (rq_role_ids rq) \<inter> set roles = {})"
    using assms(5)
    by (auto simp: compile_restrict_to_roles_def requireParam_def fires_not_fn known_fns
        meaning_simps c_def simp del: obj_get.simps)
  moreover have "\<exists>k. compile_capacity_floor h ps = Inr k \<and> k_effect k = Deny \<and>
      fires h now c (k_applies_when k) =
        (\<exists>a n. s_attendee_count sc = Some a \<and> sp_min_attendees (sc_row space) = Some n \<and> a < n)"
    by (auto simp: compile_capacity_floor_def fires_fn meaning_simps c_def int_val_def is_nullish_def
        split: option.splits)
  ultimately show ?thesis by blast
qed

theorem template_meanings_witness:
  "\<exists>k. compile_restrict_to_roles ex_host
        [(''interval_minutes'', JNum 30), (''role_ids'', JArr [JStr ''vp''])] = Inr k \<and> k_effect k = Deny \<and>
      fires ex_host 0 (assembleContext ex_host 0 ex_requester Map.empty ex_chain ex_scenario) (k_applies_when k)"
proof -
  let ?ps = "[(''interval_minutes'', JNum 30), (''role_ids'', JArr [JStr ''vp''])]"
  have "number_param ex_host ?ps ''interval_minutes'' = Inr 30"
    by (simp add: number_param_def requireParam_def toNumber_def)
  moreover have "obj_get ?ps ''role_ids'' = JArr (map JStr [''vp''])" by simp
  ultimately show ?thesis
    using template_meanings [where h = ex_host and ps = ?ps and roles = "[''vp'']" and now = 0
        and rq = ex_requester and perms = Map.empty and space = ex_chain and sc = ex_scenario]
    by (simp add: ex_requester_def)
qed

text \<open>
  The soft over-capacity warning also fires for a room without a capacity: the missing
  capacity compares as 0, so every booking with attendees is warned about, while the capacity
  tolerance with the same operands does not fire.
\<close>

theorem soft_warning_without_capacity:
  assumes "sp_capacity (sc_row space) = None" and "s_attendee_count sc = Some n" and "0 < n"
  shows "(\<exists>k. compile_soft_over_capacity h ps = Inr k \<and>
      fires h now (assembleContext h now rq perms space sc) (k_applies_when k)) \<and>
    (\<forall>k. compile_capacity_tolerance h ps = Inr k \<longrightarrow>
      \<not> fires h now (assembleContext h now rq perms space sc) (k_applies_when k))"
proof -
  have "\<exists>k. compile_soft_over_capacity h ps = Inr k \<and>
      fires h now (assembleContext h now rq perms space sc) (k_applies_when k)"
    using assms
    by (simp add: compile_soft_over_capacity_def fires_gt booking_refs int_val_def cmp_test_def cmp_def)
  moreover have "\<not> fires h now (assembleContext h now rq perms space sc) (k_applies_when k)"
    if "compile_capacity_tolerance h ps = Inr k" for k
    using that assms(1)
    by (auto simp: compile_capacity_tolerance_def result_simps fires_fn meaning_simps int_val_def
        is_nullish_def simp del: mode_effect.simps split: option.splits)
  ultimately show ?thesis by blast
qed

theorem soft_warning_without_capacity_witness:
  "\<exists>k. compile_soft_over_capacity ex_host [] = Inr k \<and>
     fires ex_host 0 (assembleContext ex_host 0 ex_requester Map.empty ex_chain
       (ex_scenario\<lparr>s_attendee_count := Some 4\<rparr>)) (k_applies_when k)"
  using soft_warning_without_capacity [of ex_chain "ex_scenario\<lparr>s_attendee_count := Some 4\<rparr>" 4
      ex_host "[]" 0 ex_requester Map.empty]
  by (simp add: ex_chain_def ex_space_def)

end
