(* ===== verification/Rule_Store.thy ===== *)
theory Rule_Store
  imports Rule_Templates Db_Tx
begin

section \<open>Saving, versioning and restoring booking rules\<close>

text \<open>
  \<open>modules/room-booking-rules/room-booking-rules.service.ts\<close>, the approval compiler of
  \<open>modules/approval/approval-config-compiler.service.ts\<close> and the stored procedures the service
  calls (\<open>supabase/migrations/00400\<close>, \<open>00406\<close>, \<open>00423\<close>), which write a rule, its workflow definition
  and the link between them in one transaction.

  The store holds the rules, their versions, the workflow definitions and the audit events.
  An operation returns the new store and the rule, or an error that leaves the store as it was.
  What a call draws from outside is a record \<open>call_env\<close>: the tenant, the actor, the ids the database
  generates, which definitions have running instances, and whether the two best-effort inserts
  (version and audit) succeed. \<open>vu\<close> is the database's test for the syntax of a uuid. White space
  is that of ASCII.
\<close>

subsection \<open>Text columns\<close>

text \<open>SQL \<open>btrim(s)\<close> strips spaces only.\<close>

definition sql_btrim :: "string \<Rightarrow> string" where
  "sql_btrim = strip_by (\<lambda>ch. ch = CHR '' '')"

text \<open>\<open>s?.trim() || null\<close> and \<open>nullif(btrim(coalesce(s, '')), '')\<close>.\<close>

definition trim_or_null :: "string option \<Rightarrow> string option" where
  "trim_or_null x = (case x of None \<Rightarrow> None | Some s \<Rightarrow> if js_trim s = [] then None else Some (js_trim s))"

definition sql_text :: "string option \<Rightarrow> string option" where
  "sql_text x = (let s = sql_btrim (orElse x []) in if s = [] then None else Some s)"

definition nullif_empty :: "string option \<Rightarrow> string option" where
  "nullif_empty x = (if x = Some [] then None else x)"

text \<open>A JSON column that keeps objects and arrays and stores \<open>null\<close> for anything else.\<close>

definition jsonb_obj :: "jsval \<Rightarrow> jsval" where
  "jsonb_obj v = (case v of JObj _ \<Rightarrow> v | JArr _ \<Rightarrow> v | _ \<Rightarrow> JNull)"

fun scope_of :: "string \<Rightarrow> TargetScope option" where
  "scope_of s = (if s = ''room'' then Some Room else if s = ''room_type'' then Some RoomType
     else if s = ''space_subtree'' then Some SpaceSubtree else if s = ''tenant'' then Some Tenant else None)"

fun scope_name :: "TargetScope \<Rightarrow> string" where
  "scope_name Room = ''room''"
| "scope_name RoomType = ''room_type''"
| "scope_name SpaceSubtree = ''space_subtree''"
| "scope_name Tenant = ''tenant''"

fun effect_of :: "string \<Rightarrow> RuleEffect option" where
  "effect_of s = (if s = ''deny'' then Some Deny else if s = ''require_approval'' then Some RequireApproval
     else if s = ''allow_override'' then Some AllowOverride else if s = ''warn'' then Some Warn else None)"

fun effect_name :: "RuleEffect \<Rightarrow> string" where
  "effect_name Deny = ''deny''"
| "effect_name RequireApproval = ''require_approval''"
| "effect_name AllowOverride = ''allow_override''"
| "effect_name Warn = ''warn''"

lemma scope_of_name [simp]: "scope_of (scope_name s) = Some s"
  by (cases s) auto

lemma effect_of_name [simp]: "effect_of (effect_name e) = Some e"
  by (cases e) auto

declare scope_of.simps [simp del] effect_of.simps [simp del]

subsection \<open>The approval compiler\<close>

definition compilation_failed :: app_error where
  "compilation_failed = ValidationFailed ''workflow_definition.compilation_failed''"

fun approver_ok :: "jsval \<Rightarrow> bool" where
  "approver_ok (JObj fs) =
     ((obj_get fs ''type'' = JStr ''person'' \<or> obj_get fs ''type'' = JStr ''team'') \<and>
      (case obj_get fs ''id'' of JStr s \<Rightarrow> s \<noteq> [] | _ \<Rightarrow> False))"
| "approver_ok _ = False"

definition approver_entry :: "jsval \<Rightarrow> jsval" where
  "approver_entry a = JObj [(''type'', js_get a ''type''), (''id'', js_get a ''id'')]"

definition graph_node :: "string \<Rightarrow> string \<Rightarrow> (string \<times> jsval) list \<Rightarrow> jsval" where
  "graph_node i ty cfg = JObj [(''id'', JStr i), (''type'', JStr ty), (''config'', JObj cfg)]"

definition graph_edge :: "string \<Rightarrow> string \<Rightarrow> (string \<times> jsval) list \<Rightarrow> jsval" where
  "graph_edge a b cond = JObj ([(''from'', JStr a), (''to'', JStr b)] @ cond)"

definition compile_approval :: "jsval \<Rightarrow> string \<Rightarrow> (jsval \<times> string) result" where
  "compile_approval config ruleName =
     (case js_get config ''required_approvers'' of
        JArr approvers \<Rightarrow>
          if approvers = [] \<or> (\<exists>a\<in>set approvers. \<not> approver_ok a) then Inl compilation_failed
          else let threshold = or_default (js_get config ''threshold'') (JStr ''all'')
               in if threshold \<noteq> JStr ''all'' \<and> threshold \<noteq> JStr ''any'' then Inl compilation_failed
                  else Inr
                    (JObj [(''nodes'', JArr
                        [graph_node ''trigger'' ''trigger'' [],
                         graph_node ''approval_main'' ''approval''
                           [(''required_approvers'', JArr (map approver_entry approvers)),
                            (''threshold'', threshold)],
                         graph_node ''end_success'' ''end'' [(''outcome'', JStr ''approved'')],
                         graph_node ''end_failure'' ''end'' [(''outcome'', JStr ''rejected'')]]),
                      (''edges'', JArr
                        [graph_edge ''trigger'' ''approval_main'' [],
                         graph_edge ''approval_main'' ''end_success'' [(''condition'', JStr ''approved'')],
                         graph_edge ''approval_main'' ''end_failure'' [(''condition'', JStr ''rejected'')]])],
                     ruleName @ '' approval workflow'')
      | _ \<Rightarrow> Inl compilation_failed)"

definition compileApprovalGraph :: "string \<Rightarrow> jsval \<Rightarrow> jsval result" where
  "compileApprovalGraph ruleName config =
     (if \<not> truthy_val config then Inr JNull
      else and_then (compile_approval config ruleName) (\<lambda>(graphDefinition, _). Inr graphDefinition))"

subsection \<open>The store\<close>

record stored_rule = RuleRow +
  st_description :: "string option"
  st_template_params :: jsval

record RuleSnapshot =
  sn_name :: string
  sn_description :: "string option"
  sn_target_scope :: string
  sn_target_id :: "string option"
  sn_applies_when :: jsval
  sn_effect :: string
  sn_approval_config :: jsval
  sn_denial_message :: "string option"
  sn_priority :: int
  sn_template_id :: "string option"
  sn_template_params :: jsval
  sn_active :: bool

datatype ChangeType = ChCreate | ChUpdate | ChEnable | ChDisable | ChDelete

record rule_version =
  v_rule_id :: string
  v_tenant :: string
  v_number :: nat
  v_change :: ChangeType
  v_snapshot :: RuleSnapshot
  v_diff :: "(string \<times> jsval \<times> jsval) list option"
  v_actor :: "string option"

record definition_row =
  df_id :: string
  df_tenant :: string
  df_name :: string
  df_archived :: bool
  df_version :: nat
  df_graph :: jsval
  df_source_rule :: string

record rule_store =
  rs_rules :: "stored_rule list"
  rs_versions :: "rule_version list"
  rs_definitions :: "definition_row list"
  rs_audit :: "(string \<times> string \<times> string) list"

record call_env =
  ce_tenant :: string
  ce_actor :: "string option"
  ce_rule_id :: string
  ce_def_id :: string
  ce_in_flight :: "string \<Rightarrow> bool"
  ce_version_ok :: bool
  ce_audit_ok :: bool

subsection \<open>Snapshots and differences\<close>

definition VERSIONABLE_FIELDS :: "string list" where
  "VERSIONABLE_FIELDS = [''name'', ''description'', ''target_scope'', ''target_id'', ''applies_when'',
     ''effect'', ''approval_config'', ''denial_message'', ''priority'', ''template_id'',
     ''template_params'', ''active'']"

definition pickSnapshotFields :: "stored_rule \<Rightarrow> RuleSnapshot" where
  "pickSnapshotFields r = \<lparr>sn_name = r_name r, sn_description = st_description r,
     sn_target_scope = scope_name (r_scope r), sn_target_id = r_target r,
     sn_applies_when = r_applies_when r, sn_effect = effect_name (r_effect r),
     sn_approval_config = r_approval_config r, sn_denial_message = r_denial_message r,
     sn_priority = r_priority r, sn_template_id = r_template_id r,
     sn_template_params = st_template_params r, sn_active = r_active r\<rparr>"

text \<open>The value of a versionable field of a snapshot.\<close>

definition snap_fields :: "RuleSnapshot \<Rightarrow> (string \<times> jsval) list" where
  "snap_fields s = [(''name'', JStr (sn_name s)), (''description'', of_str_opt (sn_description s)),
     (''target_scope'', JStr (sn_target_scope s)), (''target_id'', of_str_opt (sn_target_id s)),
     (''applies_when'', sn_applies_when s), (''effect'', JStr (sn_effect s)),
     (''approval_config'', sn_approval_config s), (''denial_message'', of_str_opt (sn_denial_message s)),
     (''priority'', JNum (of_int (sn_priority s))), (''template_id'', of_str_opt (sn_template_id s)),
     (''template_params'', sn_template_params s), (''active'', JBool (sn_active s))]"

text \<open>
  \<open>JSON.stringify(b) !== JSON.stringify(a)\<close>: values read from the database contain no
  \<open>undefined\<close>, so their texts are equal exactly when they are.
\<close>

definition buildDiff :: "stored_rule \<Rightarrow> stored_rule \<Rightarrow> (string \<times> jsval \<times> jsval) list" where
  "buildDiff before after =
     (let b = snap_fields (pickSnapshotFields before); a = snap_fields (pickSnapshotFields after)
      in map (\<lambda>k. (k, obj_get b k, obj_get a k))
           (filter (\<lambda>k. obj_get b k \<noteq> obj_get a k) VERSIONABLE_FIELDS))"

text \<open>The next number is one above the highest of the rule; a failed insert is logged only.\<close>

definition writeVersion ::
    "call_env \<Rightarrow> string \<Rightarrow> ChangeType \<Rightarrow> stored_rule option \<Rightarrow> stored_rule \<Rightarrow> rule_store \<Rightarrow> rule_store" where
  "writeVersion env ruleId changeType before after st =
     (let nums = map v_number (filter (\<lambda>v. v_rule_id v = ruleId) (rs_versions st));
          next = foldr max nums 0 + 1;
          row = \<lparr>v_rule_id = ruleId, v_tenant = ce_tenant env, v_number = next, v_change = changeType,
                 v_snapshot = pickSnapshotFields after,
                 v_diff = map_option (\<lambda>b. buildDiff b after) before, v_actor = ce_actor env\<rparr>
      in if ce_version_ok env then st\<lparr>rs_versions := rs_versions st @ [row]\<rparr> else st)"

definition emitRuleAudit :: "call_env \<Rightarrow> string \<Rightarrow> string \<Rightarrow> rule_store \<Rightarrow> rule_store" where
  "emitRuleAudit env eventType ruleId st =
     (if ce_audit_ok env then st\<lparr>rs_audit := rs_audit st @ [(ce_tenant env, eventType, ruleId)]\<rparr> else st)"

subsection \<open>The stored procedures\<close>

definition pg_error :: app_error where
  "pg_error = PlainError ''postgres''"

definition int4 :: "int \<Rightarrow> bool" where
  "int4 n \<longleftrightarrow> - 2147483648 \<le> n \<and> n \<le> 2147483647"

text \<open>What the columns accept: the check constraints, the cast to uuid, the range of \<open>int\<close>.\<close>

definition columns_ok :: "(string \<Rightarrow> bool) \<Rightarrow> string \<Rightarrow> string \<Rightarrow> string option \<Rightarrow> int \<Rightarrow> bool" where
  "columns_ok vu scope eff target prio \<longleftrightarrow>
     scope_of scope \<noteq> None \<and> effect_of eff \<noteq> None \<and>
     (case target of None \<Rightarrow> True | Some t \<Rightarrow> vu t) \<and> int4 prio"

record rule_data =
  rd_name :: string
  rd_description :: "string option"
  rd_scope :: string
  rd_target :: "string option"
  rd_applies_when :: jsval
  rd_effect :: string
  rd_approval_config :: jsval
  rd_denial_message :: "string option"
  rd_priority :: int
  rd_template_id :: "string option"
  rd_template_params :: jsval
  rd_active :: bool

definition approval_name :: "string \<Rightarrow> string" where
  "approval_name nm = ''Approval '' @ em_dash @ '' '' @ nm"

definition create_rpc ::
    "(string \<Rightarrow> bool) \<Rightarrow> call_env \<Rightarrow> rule_data \<Rightarrow> jsval \<Rightarrow> rule_store \<Rightarrow> (rule_store \<times> stored_rule) result" where
  "create_rpc vu env rd graph st =
     (let target = nullif_empty (rd_target rd)
      in if sql_btrim (rd_name rd) = [] then Inl pg_error
         else if \<not> columns_ok vu (rd_scope rd) (rd_effect rd) target (rd_priority rd) then Inl pg_error
         else if ce_rule_id env \<in> r_id ` set (rs_rules st) then Inl pg_error
         else
           let rule = \<lparr>r_id = ce_rule_id env, r_tenant = ce_tenant env, r_name = sql_btrim (rd_name rd),
                 r_scope = the (scope_of (rd_scope rd)), r_target = target,
                 r_applies_when = rd_applies_when rd, r_effect = the (effect_of (rd_effect rd)),
                 r_approval_config = jsonb_obj (rd_approval_config rd),
                 r_denial_message = sql_text (rd_denial_message rd), r_priority = rd_priority rd,
                 r_active = rd_active rd, r_template_id = nullif_empty (rd_template_id rd),
                 r_workflow_definition_id = (if graph = JNull then None else Some (ce_def_id env)),
                 st_description = sql_text (rd_description rd),
                 st_template_params = jsonb_obj (rd_template_params rd)\<rparr>;
               defs = (if graph = JNull then []
                 else [\<lparr>df_id = ce_def_id env, df_tenant = ce_tenant env,
                        df_name = approval_name (r_name rule), df_archived = False, df_version = 1,
                        df_graph = graph, df_source_rule = ce_rule_id env\<rparr>])
           in if graph \<noteq> JNull \<and> ce_def_id env \<in> df_id ` set (rs_definitions st) then Inl pg_error
              else Inr (st\<lparr>rs_rules := rs_rules st @ [rule],
                           rs_definitions := rs_definitions st @ defs\<rparr>, rule))"

text \<open>The sparse patch: a missing key keeps the column.\<close>

record rule_patch =
  rp_name :: "string option"
  rp_description :: "string option option"
  rp_scope :: "string option"
  rp_target :: "string option option"
  rp_applies_when :: "jsval option"
  rp_effect :: "string option"
  rp_approval_config :: "jsval option"
  rp_denial_message :: "string option option"
  rp_priority :: "int option"
  rp_template_id :: "string option option"
  rp_template_params :: "jsval option"
  rp_active :: "bool option"

definition patch_text :: "string option option \<Rightarrow> string option \<Rightarrow> string option" where
  "patch_text p old = (case p of None \<Rightarrow> old | Some x \<Rightarrow> sql_text x)"

definition patch_nullif :: "string option option \<Rightarrow> string option \<Rightarrow> string option" where
  "patch_nullif p old = (case p of None \<Rightarrow> old | Some x \<Rightarrow> nullif_empty x)"

definition patch_json :: "jsval option \<Rightarrow> jsval \<Rightarrow> jsval" where
  "patch_json p old = (case p of None \<Rightarrow> old | Some x \<Rightarrow> jsonb_obj x)"

definition apply_patch :: "rule_patch \<Rightarrow> stored_rule \<Rightarrow> stored_rule" where
  "apply_patch p r = r\<lparr>
     r_name := orElse (rp_name p) (r_name r),
     st_description := patch_text (rp_description p) (st_description r),
     r_scope := (case rp_scope p of None \<Rightarrow> r_scope r | Some s \<Rightarrow> the (scope_of s)),
     r_target := patch_nullif (rp_target p) (r_target r),
     r_applies_when := orElse (rp_applies_when p) (r_applies_when r),
     r_effect := (case rp_effect p of None \<Rightarrow> r_effect r | Some e \<Rightarrow> the (effect_of e)),
     r_approval_config := patch_json (rp_approval_config p) (r_approval_config r),
     r_denial_message := patch_text (rp_denial_message p) (r_denial_message r),
     r_priority := orElse (rp_priority p) (r_priority r),
     r_template_id := patch_nullif (rp_template_id p) (r_template_id r),
     st_template_params := patch_json (rp_template_params p) (st_template_params r),
     r_active := orElse (rp_active p) (r_active r)\<rparr>"

definition patch_ok :: "(string \<Rightarrow> bool) \<Rightarrow> rule_patch \<Rightarrow> bool" where
  "patch_ok vu p \<longleftrightarrow>
     (case rp_scope p of None \<Rightarrow> True | Some s \<Rightarrow> scope_of s \<noteq> None) \<and>
     (case rp_effect p of None \<Rightarrow> True | Some e \<Rightarrow> effect_of e \<noteq> None) \<and>
     (case rp_target p of None \<Rightarrow> True
      | Some x \<Rightarrow> (case nullif_empty x of None \<Rightarrow> True | Some t \<Rightarrow> vu t)) \<and>
     (case rp_priority p of None \<Rightarrow> True | Some n \<Rightarrow> int4 n)"

definition find_rule :: "string \<Rightarrow> string \<Rightarrow> rule_store \<Rightarrow> stored_rule option" where
  "find_rule tenant i st = find (\<lambda>r. r_id r = i \<and> r_tenant r = tenant) (rs_rules st)"

definition set_rule :: "string \<Rightarrow> string \<Rightarrow> (stored_rule \<Rightarrow> stored_rule) \<Rightarrow> rule_store \<Rightarrow> rule_store" where
  "set_rule tenant i f st =
     st\<lparr>rs_rules := update_where (\<lambda>r. r_id r = i \<and> r_tenant r = tenant) f (rs_rules st)\<rparr>"

text \<open>
  \<open>ensure_room_booking_rule_workflow_definition\<close>: a new published version of the workflow,
  the older ones archived unless an instance still runs on them, the link moved.
\<close>

definition ensure_definition :: "call_env \<Rightarrow> string \<Rightarrow> string \<Rightarrow> jsval \<Rightarrow> rule_store \<Rightarrow> rule_store result" where
  "ensure_definition env i nm graph st =
     (let next = foldr max (map df_version (filter (\<lambda>d. df_source_rule d = i) (rs_definitions st))) 0 + 1;
          row = \<lparr>df_id = ce_def_id env, df_tenant = ce_tenant env, df_name = approval_name nm,
                 df_archived = False, df_version = next, df_graph = graph, df_source_rule = i\<rparr>
      in if ce_def_id env \<in> df_id ` set (rs_definitions st) then Inl pg_error
         else Inr (set_rule (ce_tenant env) i (\<lambda>r. r\<lparr>r_workflow_definition_id := Some (ce_def_id env)\<rparr>)
           (st\<lparr>rs_definitions := update_where (\<lambda>d. df_source_rule d = i \<and> df_tenant d = ce_tenant env \<and>
                  \<not> df_archived d \<and> \<not> ce_in_flight env (df_id d)) (\<lambda>d. d\<lparr>df_archived := True\<rparr>)
                (rs_definitions st) @ [row]\<rparr>)))"

definition update_rpc ::
    "(string \<Rightarrow> bool) \<Rightarrow> call_env \<Rightarrow> string \<Rightarrow> rule_patch \<Rightarrow> bool \<Rightarrow> jsval \<Rightarrow> rule_store \<Rightarrow>
     (rule_store \<times> stored_rule) result" where
  "update_rpc vu env i p recompile graph st =
     (case find_rule (ce_tenant env) i st of
        None \<Rightarrow> Inl pg_error
      | Some old \<Rightarrow>
          if \<not> patch_ok vu p then Inl pg_error
          else
            let rule = apply_patch p old;
                st1 = set_rule (ce_tenant env) i (apply_patch p) st
            in if recompile \<and> r_approval_config rule \<noteq> JNull then
                 if graph = JNull then Inl pg_error
                 else and_then (ensure_definition env i (r_name rule) graph st1) (\<lambda>st2.
                   case find_rule (ce_tenant env) i st2 of
                     None \<Rightarrow> Inl pg_error | Some r \<Rightarrow> Inr (st2, r))
               else Inr (st1, rule))"

subsection \<open>The service\<close>

record CreateRuleDto =
  n_name :: string
  n_description :: "string option"
  n_target_scope :: string
  n_target_id :: "string option"
  n_applies_when :: jsval
  n_effect :: string
  n_approval_config :: jsval
  n_denial_message :: jsval
  n_priority :: "int option"
  n_template_id :: "string option"
  n_template_params :: jsval
  n_active :: "bool option"

definition name_required :: app_error where
  "name_required = ValidationFailed ''room_rule.name_required''"

definition invalid_scope :: app_error where
  "invalid_scope = ValidationFailed ''room_rule.invalid_scope''"

definition invalid_effect :: app_error where
  "invalid_effect = ValidationFailed ''room_rule.invalid_effect''"

definition rule_not_found :: app_error where
  "rule_not_found = NotFoundWithCode ''room_rule.not_found''"

definition recompile_failed :: app_error where
  "recompile_failed = ServerError ''room_rule.workflow_recompile_failed''"

definition validateCreateInput :: "CreateRuleDto \<Rightarrow> unit result" where
  "validateCreateInput dto =
     (if js_trim (n_name dto) = [] then Inl name_required
      else if scope_of (n_target_scope dto) = None then Inl invalid_scope
      else if effect_of (n_effect dto) = None then Inl invalid_effect
      else if n_target_scope dto = ''tenant'' \<and> truthy (n_target_id dto) then Inl invalid_scope
      else if n_target_scope dto \<noteq> ''tenant'' \<and> \<not> truthy (n_target_id dto) \<and> n_target_scope dto \<noteq> ''room_type''
        then Inl invalid_scope
      else validate (n_applies_when dto) 0)"

text \<open>Any error of a procedure becomes one server error.\<close>

fun rpc_or :: "app_error \<Rightarrow> 'a result \<Rightarrow> 'a result" where
  "rpc_or e (Inl _) = Inl e"
| "rpc_or e (Inr a) = Inr a"

definition findOne :: "string \<Rightarrow> string \<Rightarrow> rule_store \<Rightarrow> stored_rule result" where
  "findOne tenant i st =
     (case find_rule tenant i st of None \<Rightarrow> Inl rule_not_found | Some r \<Rightarrow> Inr r)"

text \<open>A message that is not a string has no \<open>trim\<close> method.\<close>

fun message_text :: "jsval \<Rightarrow> string option result" where
  "message_text (JStr s) = Inr (Some s)"
| "message_text JNull = Inr None"
| "message_text JUndef = Inr None"
| "message_text _ = Inl type_error"

definition create_rule ::
    "(string \<Rightarrow> bool) \<Rightarrow> call_env \<Rightarrow> CreateRuleDto \<Rightarrow> rule_store \<Rightarrow> (rule_store \<times> stored_rule) result" where
  "create_rule vu env dto st =
     and_then (validateCreateInput dto) (\<lambda>_.
     and_then (message_text (n_denial_message dto)) (\<lambda>message.
       let ruleData = \<lparr>rd_name = js_trim (n_name dto), rd_description = trim_or_null (n_description dto),
             rd_scope = n_target_scope dto, rd_target = n_target_id dto,
             rd_applies_when = n_applies_when dto, rd_effect = n_effect dto,
             rd_approval_config = or_default (n_approval_config dto) JNull,
             rd_denial_message = trim_or_null message,
             rd_priority = orElse (n_priority dto) 100, rd_template_id = n_template_id dto,
             rd_template_params = or_default (n_template_params dto) JNull,
             rd_active = orElse (n_active dto) True\<rparr>
       in and_then (compileApprovalGraph (js_trim (n_name dto)) (or_default (n_approval_config dto) JNull)) (\<lambda>graph.
          and_then (rpc_or recompile_failed (create_rpc vu env ruleData graph st)) (\<lambda>(st1, rule).
            Inr (emitRuleAudit env ''room_booking_rule.created'' (r_id rule)
                   (writeVersion env (r_id rule) ChCreate None rule st1), rule)))))"

text \<open>The request of an update: a field is present or not, and nullable fields may be null.\<close>

type_synonym UpdateRuleDto = rule_patch

definition patch_of_dto :: "UpdateRuleDto \<Rightarrow> rule_patch result" where
  "patch_of_dto dto =
     (if (case rp_name dto of None \<Rightarrow> False | Some s \<Rightarrow> js_trim s = []) then Inl name_required
      else Inr (dto\<lparr>rp_name := map_option js_trim (rp_name dto),
                    rp_description := map_option trim_or_null (rp_description dto),
                    rp_denial_message := map_option trim_or_null (rp_denial_message dto)\<rparr>))"

definition change_type :: "UpdateRuleDto \<Rightarrow> stored_rule \<Rightarrow> ChangeType" where
  "change_type dto before =
     (if rp_active dto = Some False \<and> r_active before then ChDisable
      else if rp_active dto = Some True \<and> \<not> r_active before then ChEnable
      else ChUpdate)"

fun change_name :: "ChangeType \<Rightarrow> string" where
  "change_name ChCreate = ''create''"
| "change_name ChUpdate = ''update''"
| "change_name ChEnable = ''enable''"
| "change_name ChDisable = ''disable''"
| "change_name ChDelete = ''delete''"

definition update_rule ::
    "(string \<Rightarrow> bool) \<Rightarrow> call_env \<Rightarrow> string \<Rightarrow> UpdateRuleDto \<Rightarrow> rule_store \<Rightarrow> (rule_store \<times> stored_rule) result" where
  "update_rule vu env i dto st =
     and_then (findOne (ce_tenant env) i st) (\<lambda>before.
     and_then (case rp_applies_when dto of None \<Rightarrow> Inr () | Some p \<Rightarrow> validate p 0) (\<lambda>_.
     and_then (guard_ok (\<not> (truthy (rp_effect dto) \<and> effect_of (the (rp_effect dto)) = None)) invalid_effect) (\<lambda>_.
     and_then (patch_of_dto dto) (\<lambda>rulePatch.
       let recompile = (rp_approval_config dto \<noteq> None \<or> rp_name dto \<noteq> None);
           effectiveApprovalConfig = orElse (rp_approval_config dto) (r_approval_config before);
           effectiveRuleName = orElse (rp_name rulePatch) (r_name before)
       in and_then (if recompile
                    then compileApprovalGraph effectiveRuleName (or_default effectiveApprovalConfig JNull)
                    else Inr JNull) (\<lambda>graph.
          and_then (rpc_or recompile_failed (update_rpc vu env i rulePatch recompile graph st)) (\<lambda>(st1, rule).
            let changeType = change_type dto before
            in Inr (emitRuleAudit env (''room_booking_rule.'' @ change_name changeType) i
                      (writeVersion env i changeType (Some before) rule st1), rule)))))))"

definition softDelete ::
    "call_env \<Rightarrow> string \<Rightarrow> rule_store \<Rightarrow> (rule_store \<times> stored_rule) result" where
  "softDelete env i st =
     and_then (findOne (ce_tenant env) i st) (\<lambda>before.
       let rule = before\<lparr>r_active := False\<rparr>;
           st1 = set_rule (ce_tenant env) i (\<lambda>r. r\<lparr>r_active := False\<rparr>) st
       in Inr (emitRuleAudit env ''room_booking_rule.deleted'' i
                 (writeVersion env i ChDelete (Some before) rule st1), rule))"

definition rule_versions :: "call_env \<Rightarrow> string \<Rightarrow> rule_store \<Rightarrow> rule_version list result" where
  "rule_versions env i st =
     and_then (findOne (ce_tenant env) i st) (\<lambda>_.
       Inr (sort_key (\<lambda>v. - int (v_number v))
         (filter (\<lambda>v. v_rule_id v = i \<and> v_tenant v = ce_tenant env) (rs_versions st))))"

definition snapshot_patch :: "RuleSnapshot \<Rightarrow> UpdateRuleDto" where
  "snapshot_patch s = \<lparr>rp_name = Some (sn_name s), rp_description = Some (sn_description s),
     rp_scope = Some (sn_target_scope s), rp_target = Some (sn_target_id s),
     rp_applies_when = Some (sn_applies_when s), rp_effect = Some (sn_effect s),
     rp_approval_config = Some (sn_approval_config s), rp_denial_message = Some (sn_denial_message s),
     rp_priority = Some (sn_priority s), rp_template_id = Some (sn_template_id s),
     rp_template_params = Some (sn_template_params s), rp_active = Some (sn_active s)\<rparr>"

definition restoreVersion ::
    "(string \<Rightarrow> bool) \<Rightarrow> call_env \<Rightarrow> string \<Rightarrow> nat \<Rightarrow> rule_store \<Rightarrow> (rule_store \<times> stored_rule) result" where
  "restoreVersion vu env i n st =
     and_then (findOne (ce_tenant env) i st) (\<lambda>_.
     (case maybe_single (filter (\<lambda>v. v_rule_id v = i \<and> v_tenant v = ce_tenant env \<and> v_number v = n)
              (rs_versions st)) of
        None \<Rightarrow> Inl (NotFoundWithCode ''room_rule.version_not_found'')
      | Some v \<Rightarrow> update_rule vu env i (snapshot_patch (v_snapshot v)) st))"

record FromTemplateDto =
  ft_template_id :: string
  ft_params :: params
  ft_target_scope :: string
  ft_target_id :: "string option"
  ft_name :: "string option"
  ft_description :: "string option"
  ft_priority :: "int option"
  ft_active :: "bool option"

definition createFromTemplate ::
    "host \<Rightarrow> (string \<Rightarrow> bool) \<Rightarrow> call_env \<Rightarrow> FromTemplateDto \<Rightarrow> rule_store \<Rightarrow>
     (rule_store \<times> stored_rule) result" where
  "createFromTemplate h vu env dto st =
     and_then (getTemplate (ft_template_id dto)) (\<lambda>template.
     and_then (t_compile template h (ft_params dto)) (\<lambda>compiled.
       create_rule vu env
         \<lparr>n_name = (case trim_or_null (ft_name dto) of Some nm \<Rightarrow> nm
                    | None \<Rightarrow> if k_suggested_name compiled \<noteq> [] then k_suggested_name compiled
                              else t_label template),
          n_description = nullish (ft_description dto) (Some (t_description template)),
          n_target_scope = ft_target_scope dto, n_target_id = ft_target_id dto,
          n_applies_when = k_applies_when compiled, n_effect = effect_name (k_effect compiled),
          n_approval_config = or_default (k_approval_config compiled) JNull,
          n_denial_message = or_default (k_denial_message compiled) JNull,
          n_priority = Some (orElse (ft_priority dto) 100), n_template_id = Some (t_id template),
          n_template_params = JObj (ft_params dto), n_active = Some (orElse (ft_active dto) True)\<rparr> st))"

subsection \<open>Stripping\<close>

lemma sql_btrim_trimmed: "js_trim s = s \<Longrightarrow> sql_btrim s = s"
proof -
  assume s: "js_trim s = s"
  have "\<not> is_ws (hd s) \<and> \<not> is_ws (last s)" if "s \<noteq> []"
    using strip_by_ends [of is_ws s] that s by (simp add: js_trim_def)
  then show ?thesis
    unfolding sql_btrim_def by (intro strip_by_id) (auto simp: is_ws_def)
qed

lemma trim_or_null_idem [simp]: "trim_or_null (trim_or_null x) = trim_or_null x"
  by (simp add: trim_or_null_def split: option.split)

lemma sql_text_trimmed: "trim_or_null x = x \<Longrightarrow> sql_text x = x"
  by (cases x) (auto simp: trim_or_null_def sql_text_def sql_btrim_trimmed Let_def split: if_splits,
    simp add: sql_btrim_def strip_by_def)

lemma nullif_empty_idem [simp]: "nullif_empty (nullif_empty x) = nullif_empty x"
  by (simp add: nullif_empty_def)

lemma jsonb_obj_idem [simp]: "jsonb_obj (jsonb_obj v) = jsonb_obj v"
  by (cases v) (simp_all add: jsonb_obj_def)

subsection \<open>Well-formed rules\<close>

text \<open>The compiler accepts the configuration, whatever the name of the rule.\<close>

definition approval_ok :: "jsval \<Rightarrow> bool" where
  "approval_ok a \<longleftrightarrow> a = JNull \<or> (\<exists>g. compile_approval a [] = Inr g)"

definition snap_ok :: "(string \<Rightarrow> bool) \<Rightarrow> RuleSnapshot \<Rightarrow> bool" where
  "snap_ok vu s \<longleftrightarrow>
     js_trim (sn_name s) = sn_name s \<and> sn_name s \<noteq> [] \<and>
     trim_or_null (sn_description s) = sn_description s \<and>
     trim_or_null (sn_denial_message s) = sn_denial_message s \<and>
     nullif_empty (sn_target_id s) = sn_target_id s \<and>
     nullif_empty (sn_template_id s) = sn_template_id s \<and>
     validate (sn_applies_when s) 0 = Inr () \<and>
     jsonb_obj (sn_approval_config s) = sn_approval_config s \<and> approval_ok (sn_approval_config s) \<and>
     jsonb_obj (sn_template_params s) = sn_template_params s \<and>
     columns_ok vu (sn_target_scope s) (sn_effect s) (sn_target_id s) (sn_priority s)"

definition numbered :: "string \<Rightarrow> rule_version list \<Rightarrow> bool" where
  "numbered i vs \<longleftrightarrow>
     (let ns = map v_number (filter (\<lambda>v. v_rule_id v = i) vs) in ns = [1..<Suc (length ns)])"

definition rule_inv :: "(string \<Rightarrow> bool) \<Rightarrow> rule_store \<Rightarrow> bool" where
  "rule_inv vu st \<longleftrightarrow>
     distinct (map r_id (rs_rules st)) \<and>
     (\<forall>r\<in>set (rs_rules st). snap_ok vu (pickSnapshotFields r)) \<and>
     (\<forall>v\<in>set (rs_versions st). snap_ok vu (v_snapshot v)) \<and>
     (\<forall>v\<in>set (rs_versions st). \<exists>r\<in>set (rs_rules st). r_id r = v_rule_id v \<and> r_tenant r = v_tenant v) \<and>
     (\<forall>i. numbered i (rs_versions st))"

lemma compile_approval_name:
  "compile_approval a nm = Inr (g, x) \<Longrightarrow> compile_approval a nm' = Inr (g, nm' @ '' approval workflow'')"
  by (auto simp: compile_approval_def Let_def split: jsval.splits if_splits)

lemma compile_approval_object:
  assumes "compile_approval a nm = Inr gx"
  shows "jsonb_obj a = a" and "truthy_val a" and "fst gx \<noteq> JNull"
  using assms
  by (cases a; auto simp: compile_approval_def jsonb_obj_def Let_def split: jsval.splits if_splits)+

lemma compileApprovalGraph_ok:
  assumes "approval_ok a"
  shows "\<exists>g. compileApprovalGraph nm (or_default a JNull) = Inr g \<and> (a \<noteq> JNull \<longrightarrow> g \<noteq> JNull)"
proof (cases "a = JNull")
  case True
  then show ?thesis by (simp add: compileApprovalGraph_def or_default_def)
next
  case False
  with assms obtain g x where g: "compile_approval a [] = Inr (g, x)" by (auto simp: approval_ok_def)
  from compile_approval_object [OF g] have "\<not> is_nullish a" by (auto simp: is_nullish_def)
  with compile_approval_name [OF g, of nm] compile_approval_object [OF g] show ?thesis
    by (simp add: compileApprovalGraph_def or_default_def)
qed

lemma compileApprovalGraph_Inr:
  assumes "compileApprovalGraph nm (or_default a JNull) = Inr g"
  shows "approval_ok (jsonb_obj (or_default a JNull)) \<and> approval_ok (jsonb_obj a) \<and> jsonb_obj (or_default a JNull) = jsonb_obj a"
proof -
  have eq: "jsonb_obj (or_default a JNull) = jsonb_obj a"
    by (auto simp: or_default_def is_nullish_def jsonb_obj_def)
  show ?thesis
  proof (cases "truthy_val (or_default a JNull)")
    case False
    then have "jsonb_obj (or_default a JNull) = JNull"
      by (cases "or_default a JNull") (auto simp: jsonb_obj_def)
    then show ?thesis unfolding eq by (simp add: approval_ok_def)
  next
    case True
    with assms obtain x where x: "compile_approval (or_default a JNull) nm = Inr (g, x)"
      by (auto simp: compileApprovalGraph_def result_simps)
    with compile_approval_object [OF x] have "approval_ok (jsonb_obj (or_default a JNull))"
      using compile_approval_name [OF x, of "[]"] by (auto simp: approval_ok_def)
    with eq show ?thesis by simp
  qed
qed

subsection \<open>Every operation keeps the invariant\<close>

lemma find_rule_Some:
  assumes "distinct (map r_id (rs_rules st))"
  shows "find_rule t i st = Some r \<longleftrightarrow> r \<in> set (rs_rules st) \<and> r_id r = i \<and> r_tenant r = t"
proof
  assume "find_rule t i st = Some r"
  then show "r \<in> set (rs_rules st) \<and> r_id r = i \<and> r_tenant r = t"
    by (auto simp: find_rule_def find_Some_iff)
next
  assume r: "r \<in> set (rs_rules st) \<and> r_id r = i \<and> r_tenant r = t"
  then obtain r' where r': "find_rule t i st = Some r'"
    by (cases "find_rule t i st") (auto simp: find_rule_def find_None_iff)
  then have "r' \<in> set (rs_rules st)" "r_id r' = i" by (auto simp: find_rule_def find_Some_iff)
  with r assms have "r' = r" by (auto dest: inj_onD [OF distinct_map [THEN iffD1, THEN conjunct2]])
  with r' show "find_rule t i st = Some r" by simp
qed

lemma foldr_max_init: "foldr max xs m = max (foldr max xs 0) (m :: nat)"
  by (induction xs) auto

lemma foldr_max_upt: "foldr max [1..<Suc n] 0 = n"
proof (induction n)
  case (Suc n)
  have "foldr max ([1..<Suc n] @ [Suc n]) 0 = foldr max [1..<Suc n] (Suc n)"
    by (simp del: upt_Suc)
  also have "\<dots> = Suc n"
    using Suc foldr_max_init [of "[1..<Suc n]" "Suc n"] by (simp del: upt_Suc)
  finally show ?case by simp
qed simp

text \<open>The fields that hold a rule in its place: its id and its tenant.\<close>

definition keeps_key :: "(stored_rule \<Rightarrow> stored_rule) \<Rightarrow> bool" where
  "keeps_key f \<longleftrightarrow> (\<forall>r. r_id (f r) = r_id r \<and> r_tenant (f r) = r_tenant r)"

lemma keeps_key_ops [simp]:
  "keeps_key (apply_patch p)" "keeps_key (\<lambda>r. r\<lparr>r_active := b\<rparr>)"
  "keeps_key (\<lambda>r. r\<lparr>r_workflow_definition_id := w\<rparr>)"
  by (simp_all add: keeps_key_def apply_patch_def)

lemma set_rule_inv:
  assumes inv: "rule_inv vu st" and f: "keeps_key f"
    and ok: "\<And>r. find_rule t i st = Some r \<Longrightarrow> snap_ok vu (pickSnapshotFields (f r))"
  shows "rule_inv vu (set_rule t i f st)"
proof -
  let ?f = "\<lambda>r. if r_id r = i \<and> r_tenant r = t then f r else r"
  have rules: "rs_rules (set_rule t i f st) = map ?f (rs_rules st)"
    by (simp add: set_rule_def update_where_def)
  have key: "r_id (?f r) = r_id r" "r_tenant (?f r) = r_tenant r" for r
    using f by (auto simp: keeps_key_def)
  have "snap_ok vu (pickSnapshotFields (?f r))" if "r \<in> set (rs_rules st)" for r
    using that inv ok [of r] find_rule_Some [of st t i r] by (auto simp: rule_inv_def)
  note snaps = this
  have "\<exists>r\<in>set (map ?f (rs_rules st)). r_id r = v_rule_id v \<and> r_tenant r = v_tenant v"
    if v: "v \<in> set (rs_versions st)" for v
  proof -
    from v inv obtain r where "r \<in> set (rs_rules st)" "r_id r = v_rule_id v" "r_tenant r = v_tenant v"
      by (auto simp: rule_inv_def)
    with key [of r] show ?thesis by (intro bexI [of _ "?f r"]) simp_all
  qed
  note homes = this
  have ids: "map r_id (map ?f (rs_rules st)) = map r_id (rs_rules st)"
    unfolding map_map comp_def key by (rule refl)
  have versions: "rs_versions (set_rule t i f st) = rs_versions st" by (simp add: set_rule_def)
  show ?thesis
    unfolding rule_inv_def rules versions ids
  proof (intro conjI ballI)
    fix r
    assume "r \<in> set (map ?f (rs_rules st))"
    then obtain r0 where "r0 \<in> set (rs_rules st)" "r = ?f r0" by (simp only: set_map) blast
    with snaps show "snap_ok vu (pickSnapshotFields r)" by (simp only:)
  qed (use inv homes in \<open>auto simp only: rule_inv_def\<close>)
qed

lemma find_rule_set_rule:
  assumes "keeps_key f"
  shows "find_rule t i (set_rule t i f st) = map_option f (find_rule t i st)"
proof -
  have "find (\<lambda>r. r_id r = i \<and> r_tenant r = t) (map (\<lambda>r. if r_id r = i \<and> r_tenant r = t then f r else r) rs) =
      map_option f (find (\<lambda>r. r_id r = i \<and> r_tenant r = t) rs)" for rs
    using assms by (induction rs) (auto simp: keeps_key_def)
  then show ?thesis by (simp add: find_rule_def set_rule_def update_where_def)
qed

lemma numbered_snoc:
  assumes "numbered i vs" and "v_rule_id v = i"
    and "v_number v = foldr max (map v_number (filter (\<lambda>v. v_rule_id v = i) vs)) 0 + 1"
  shows "numbered i (vs @ [v])"
proof -
  let ?ns = "map v_number (filter (\<lambda>v. v_rule_id v = i) vs)"
  from assms(1) have ns: "?ns = [1..<Suc (length ?ns)]" by (simp only: numbered_def Let_def)
  then have "foldr max ?ns 0 = length ?ns" by (metis foldr_max_upt)
  with assms(2,3) have "map v_number (filter (\<lambda>v. v_rule_id v = i) (vs @ [v])) = ?ns @ [Suc (length ?ns)]"
    by simp
  also have "\<dots> = [1..<Suc (Suc (length ?ns))]" using ns by (metis One_nat_def Suc_le_mono upt_Suc zero_le)
  finally show ?thesis
    unfolding numbered_def Let_def by (metis diff_Suc_1 length_upt One_nat_def)
qed

lemma writeVersion_inv:
  assumes inv: "rule_inv vu st" and r: "find_rule (ce_tenant env) i st = Some r"
    and ok: "snap_ok vu (pickSnapshotFields after)"
  shows "rule_inv vu (writeVersion env i ch before after st)"
proof (cases "ce_version_ok env")
  case True
  define v where "v = \<lparr>v_rule_id = i, v_tenant = ce_tenant env,
      v_number = foldr max (map v_number (filter (\<lambda>v. v_rule_id v = i) (rs_versions st))) 0 + 1,
      v_change = ch, v_snapshot = pickSnapshotFields after,
      v_diff = map_option (\<lambda>b. buildDiff b after) before, v_actor = ce_actor env\<rparr>"
  have st: "writeVersion env i ch before after st = st\<lparr>rs_versions := rs_versions st @ [v]\<rparr>"
    using True by (simp add: writeVersion_def v_def Let_def)
  have "r \<in> set (rs_rules st)" "r_id r = i" "r_tenant r = ce_tenant env"
    using r inv find_rule_Some by (auto simp: rule_inv_def)
  then have "\<exists>r\<in>set (rs_rules st). r_id r = v_rule_id v \<and> r_tenant r = v_tenant v"
    by (auto simp: v_def)
  moreover have "numbered j (rs_versions st @ [v])" for j
  proof (cases "j = i")
    case True
    with inv show ?thesis by (intro numbered_snoc) (auto simp: rule_inv_def v_def)
  next
    case False
    with inv show ?thesis by (auto simp: rule_inv_def numbered_def v_def)
  qed
  moreover have "snap_ok vu (v_snapshot v)" using ok by (simp add: v_def)
  ultimately show ?thesis using inv unfolding st rule_inv_def by auto
qed (use inv in \<open>simp add: writeVersion_def Let_def\<close>)

lemma emitRuleAudit_inv: "rule_inv vu (emitRuleAudit env e i st) = rule_inv vu st"
  by (simp add: emitRuleAudit_def rule_inv_def)

text \<open>A patch that the service has checked turns a well-formed rule into a well-formed rule.\<close>

lemma apply_patch_ok:
  assumes old: "snap_ok vu (pickSnapshotFields r)" and p: "patch_of_dto dto = Inr p" and ok: "patch_ok vu p"
    and val: "(case rp_applies_when dto of None \<Rightarrow> Inr () | Some q \<Rightarrow> validate q 0) = Inr ()"
    and app: "\<And>a. rp_approval_config dto = Some a \<Longrightarrow> approval_ok (jsonb_obj a)"
  shows "snap_ok vu (pickSnapshotFields (apply_patch p r))"
proof -
  have p': "p = dto\<lparr>rp_name := map_option js_trim (rp_name dto),
      rp_description := map_option trim_or_null (rp_description dto),
      rp_denial_message := map_option trim_or_null (rp_denial_message dto)\<rparr>"
    and nm: "\<And>s. rp_name dto = Some s \<Longrightarrow> js_trim s \<noteq> []"
    using p by (auto simp: patch_of_dto_def split: if_splits option.splits)
  let ?r = "apply_patch p r"
  have name: "js_trim (r_name ?r) = r_name ?r \<and> r_name ?r \<noteq> []"
    using old nm by (cases "rp_name dto") (auto simp: p' apply_patch_def snap_ok_def pickSnapshotFields_def)
  have texts: "trim_or_null (patch_text (map_option trim_or_null x) y) = patch_text (map_option trim_or_null x) y"
    if "trim_or_null y = y" for x y
    using that by (cases x) (simp_all add: patch_text_def sql_text_trimmed)
  have nul: "nullif_empty (patch_nullif x y) = patch_nullif x y" if "nullif_empty y = y" for x y
    using that by (cases x) (simp_all add: patch_nullif_def)
  have json: "jsonb_obj (patch_json x y) = patch_json x y" if "jsonb_obj y = y" for x y
    using that by (cases x) (simp_all add: patch_json_def)
  have "approval_ok (r_approval_config ?r)"
    using old app by (cases "rp_approval_config dto")
      (auto simp: p' apply_patch_def patch_json_def snap_ok_def pickSnapshotFields_def)
  moreover have "validate (r_applies_when ?r) 0 = Inr ()"
    using old val by (cases "rp_applies_when dto")
      (auto simp: p' apply_patch_def snap_ok_def pickSnapshotFields_def)
  moreover have "columns_ok vu (scope_name (r_scope ?r)) (effect_name (r_effect ?r)) (r_target ?r) (r_priority ?r)"
    using old ok
    by (auto simp: p' apply_patch_def columns_ok_def patch_ok_def patch_nullif_def snap_ok_def
        pickSnapshotFields_def split: option.splits)
  ultimately show ?thesis
    using old name texts nul json by (auto simp: p' apply_patch_def snap_ok_def pickSnapshotFields_def)
qed

lemma ensure_definition_Inr:
  assumes "ensure_definition env i nm graph st = Inr st'"
  shows "rs_rules st' = rs_rules (set_rule (ce_tenant env) i
      (\<lambda>r. r\<lparr>r_workflow_definition_id := Some (ce_def_id env)\<rparr>) st)"
    and "rs_versions st' = rs_versions st"
  using assms by (auto simp: ensure_definition_def set_rule_def Let_def split: if_splits)

lemma rule_inv_same:
  "rs_rules st' = rs_rules st \<Longrightarrow> rs_versions st' = rs_versions st \<Longrightarrow> rule_inv vu st' = rule_inv vu st"
  by (simp add: rule_inv_def)

lemma find_rule_same: "rs_rules st' = rs_rules st \<Longrightarrow> find_rule t i st' = find_rule t i st"
  by (simp add: find_rule_def)

lemma pickSnapshot_link [simp]:
  "pickSnapshotFields (r\<lparr>r_workflow_definition_id := w\<rparr>) = pickSnapshotFields r"
  by (simp add: pickSnapshotFields_def)

lemma rule_inv_rule_ok: "rule_inv vu st \<Longrightarrow> find_rule t i st = Some r \<Longrightarrow> snap_ok vu (pickSnapshotFields r)"
  using find_rule_Some by (auto simp: rule_inv_def)

text \<open>What a successful update leaves: the patched rule, up to its link, under the invariant.\<close>

lemma update_rpc_Inr:
  assumes inv: "rule_inv vu st" and run: "update_rpc vu env i p recompile graph st = Inr (st', rule)"
    and ok: "\<And>r. find_rule (ce_tenant env) i st = Some r \<Longrightarrow> patch_ok vu p \<Longrightarrow>
      snap_ok vu (pickSnapshotFields (apply_patch p r))"
  shows "rule_inv vu st' \<and> find_rule (ce_tenant env) i st' = Some rule \<and>
    rs_versions st' = rs_versions st \<and>
    (\<exists>old. find_rule (ce_tenant env) i st = Some old \<and>
       pickSnapshotFields rule = pickSnapshotFields (apply_patch p old))"
proof -
  let ?t = "ce_tenant env"
  from run obtain old where old: "find_rule ?t i st = Some old" and p: "patch_ok vu p"
    by (auto simp: update_rpc_def split: option.splits if_splits)
  define st1 where "st1 = set_rule ?t i (apply_patch p) st"
  have inv1: "rule_inv vu st1"
    unfolding st1_def using ok p by (intro set_rule_inv [OF inv]) auto
  have find1: "find_rule ?t i st1 = Some (apply_patch p old)"
    by (simp add: st1_def find_rule_set_rule old)
  have v1: "rs_versions st1 = rs_versions st" by (simp add: st1_def set_rule_def)
  show ?thesis
  proof (cases "recompile \<and> r_approval_config (apply_patch p old) \<noteq> JNull")
    case False
    with run old p have "st' = st1" "rule = apply_patch p old"
      by (auto simp: update_rpc_def st1_def)
    with inv1 find1 v1 old show ?thesis by simp
  next
    case True
    with run old p obtain st2 where st2: "ensure_definition env i (r_name (apply_patch p old)) graph st1 = Inr st2"
      and res: "find_rule ?t i st2 = Some rule" "st' = st2"
      by (auto simp: update_rpc_def st1_def result_simps split: if_splits option.splits)
    let ?link = "\<lambda>r. r\<lparr>r_workflow_definition_id := Some (ce_def_id env)\<rparr> :: stored_rule"
    note e = ensure_definition_Inr [OF st2]
    have "rule_inv vu (set_rule ?t i ?link st1)"
      using rule_inv_rule_ok [OF inv1] by (intro set_rule_inv [OF inv1]) auto
    moreover have "rs_versions (set_rule ?t i ?link st1) = rs_versions st1" by (simp add: set_rule_def)
    ultimately have "rule_inv vu st2" using e rule_inv_same by metis
    moreover have "rule = ?link (apply_patch p old)"
      using res(1) find1 find_rule_same [OF e(1), of ?t i]
      by (simp add: find_rule_set_rule)
    ultimately show ?thesis using res e(2) v1 old by auto
  qed
qed

lemma create_rpc_Inr:
  assumes inv: "rule_inv vu st" and run: "create_rpc vu env rd graph st = Inr (st', rule)"
    and ok: "snap_ok vu (pickSnapshotFields rule)"
  shows "rule_inv vu st' \<and> find_rule (ce_tenant env) (r_id rule) st' = Some rule"
proof -
  from run have new: "r_id rule \<notin> r_id ` set (rs_rules st)" "r_tenant rule = ce_tenant env"
    and rules: "rs_rules st' = rs_rules st @ [rule]" and versions: "rs_versions st' = rs_versions st"
    by (auto simp: create_rpc_def Let_def split: if_splits)
  have d: "distinct (map r_id (rs_rules st'))"
    using inv new by (auto simp: rule_inv_def rules)
  then have "rule_inv vu st'"
    using inv ok unfolding rule_inv_def rules versions by auto
  moreover have "find_rule (ce_tenant env) (r_id rule) st' = Some rule"
    using find_rule_Some [OF d] new by (simp add: rules)
  ultimately show ?thesis by blast
qed

lemma rpc_or_Inr [result_simps]: "rpc_or e x = Inr a \<longleftrightarrow> x = Inr a"
  by (cases x) auto

lemma create_rule_inv:
  assumes inv: "rule_inv vu st" and run: "create_rule vu env dto st = Inr (st', rule)"
  shows "rule_inv vu st'"
proof -
  from run obtain msg rd graph st1 where v: "validateCreateInput dto = Inr ()"
    and g: "compileApprovalGraph (js_trim (n_name dto)) (or_default (n_approval_config dto) JNull) = Inr graph"
    and rd: "rd = \<lparr>rd_name = js_trim (n_name dto), rd_description = trim_or_null (n_description dto),
             rd_scope = n_target_scope dto, rd_target = n_target_id dto,
             rd_applies_when = n_applies_when dto, rd_effect = n_effect dto,
             rd_approval_config = or_default (n_approval_config dto) JNull,
             rd_denial_message = trim_or_null msg,
             rd_priority = orElse (n_priority dto) 100, rd_template_id = n_template_id dto,
             rd_template_params = or_default (n_template_params dto) JNull,
             rd_active = orElse (n_active dto) True\<rparr>"
    and rpc: "create_rpc vu env rd graph st = Inr (st1, rule)"
    and st': "st' = emitRuleAudit env ''room_booking_rule.created'' (r_id rule)
        (writeVersion env (r_id rule) ChCreate None rule st1)"
    by (auto simp: create_rule_def Let_def result_simps)
  from v have val: "js_trim (n_name dto) \<noteq> []" "validate (n_applies_when dto) 0 = Inr ()"
    by (auto simp: validateCreateInput_def split: if_splits)
  have "snap_ok vu (pickSnapshotFields rule)"
    using rpc val compileApprovalGraph_Inr [OF g]
    by (auto simp: create_rpc_def rd Let_def snap_ok_def pickSnapshotFields_def sql_text_trimmed
        sql_btrim_trimmed columns_ok_def split: if_splits)
  from create_rpc_Inr [OF inv rpc this] this writeVersion_inv show ?thesis
    unfolding st' emitRuleAudit_inv by blast
qed

lemma update_rule_Inr:
  assumes inv: "rule_inv vu st" and run: "update_rule vu env i dto st = Inr (st', rule)"
  shows "rule_inv vu st' \<and>
    (\<exists>old p. find_rule (ce_tenant env) i st = Some old \<and> patch_of_dto dto = Inr p \<and>
       pickSnapshotFields rule = pickSnapshotFields (apply_patch p old) \<and>
       find_rule (ce_tenant env) i st' = Some rule \<and>
       (ce_version_ok env \<longrightarrow> (\<exists>v. rs_versions st' = rs_versions st @ [v] \<and> v_rule_id v = i \<and>
          v_snapshot v = pickSnapshotFields rule)))"
proof -
  from run obtain before p graph st1 where f: "find_rule (ce_tenant env) i st = Some before"
    and val: "(case rp_applies_when dto of None \<Rightarrow> Inr () | Some q \<Rightarrow> validate q 0) = Inr ()"
    and p: "patch_of_dto dto = Inr p"
    and g: "(if rp_approval_config dto \<noteq> None \<or> rp_name dto \<noteq> None
        then compileApprovalGraph (orElse (rp_name p) (r_name before))
          (or_default (orElse (rp_approval_config dto) (r_approval_config before)) JNull)
        else Inr JNull) = Inr graph"
    and rpc: "update_rpc vu env i p (rp_approval_config dto \<noteq> None \<or> rp_name dto \<noteq> None) graph st = Inr (st1, rule)"
    and st': "st' = emitRuleAudit env (''room_booking_rule.'' @ change_name (change_type dto before)) i
        (writeVersion env i (change_type dto before) (Some before) rule st1)"
    by (auto simp: update_rule_def findOne_def Let_def result_simps split: option.splits)
  have app: "approval_ok (jsonb_obj a)" if "rp_approval_config dto = Some a" for a
    using g that compileApprovalGraph_Inr by simp
  have "snap_ok vu (pickSnapshotFields (apply_patch p r))"
    if "find_rule (ce_tenant env) i st = Some r" "patch_ok vu p" for r
    using rule_inv_rule_ok [OF inv that(1)] p that(2) val app by (rule apply_patch_ok)
  note u = update_rpc_Inr [OF inv rpc this]
  from u f have "snap_ok vu (pickSnapshotFields rule)" using rule_inv_rule_ok by blast
  with u have "rule_inv vu st'" unfolding st' emitRuleAudit_inv by (blast intro: writeVersion_inv)
  moreover have "find_rule (ce_tenant env) i st' = Some rule"
    using u by (simp add: st' emitRuleAudit_def writeVersion_def find_rule_def Let_def)
  moreover have "\<exists>v. rs_versions st' = rs_versions st @ [v] \<and> v_rule_id v = i \<and>
      v_snapshot v = pickSnapshotFields rule" if "ce_version_ok env"
    using that u by (simp add: st' emitRuleAudit_def writeVersion_def Let_def)
  ultimately show ?thesis using u f p by auto
qed

lemma softDelete_inv:
  assumes inv: "rule_inv vu st" and run: "softDelete env i st = Inr (st', rule)"
  shows "rule_inv vu st'"
proof -
  let ?t = "ce_tenant env" and ?off = "\<lambda>r. r\<lparr>r_active := False\<rparr> :: stored_rule"
  from run obtain before where b: "find_rule ?t i st = Some before" and r: "rule = ?off before"
    and st': "st' = emitRuleAudit env ''room_booking_rule.deleted'' i
      (writeVersion env i ChDelete (Some before) rule (set_rule ?t i ?off st))"
    by (auto simp: softDelete_def findOne_def Let_def result_simps split: option.splits)
  have off: "snap_ok vu (pickSnapshotFields (?off q))" if "find_rule ?t i st = Some q" for q
    using rule_inv_rule_ok [OF inv that] by (simp add: snap_ok_def pickSnapshotFields_def)
  have "rule_inv vu (set_rule ?t i ?off st)" by (rule set_rule_inv [OF inv _ off]) simp_all
  moreover have "find_rule ?t i (set_rule ?t i ?off st) = Some rule"
    by (simp add: find_rule_set_rule b r)
  ultimately show ?thesis
    unfolding st' emitRuleAudit_inv using off [OF b] r by (intro writeVersion_inv) auto
qed

datatype rule_op =
    OpCreate call_env CreateRuleDto
  | OpTemplate call_env FromTemplateDto
  | OpUpdate call_env string UpdateRuleDto
  | OpDelete call_env string
  | OpRestore call_env string nat

text \<open>A call that fails leaves the store as it was.\<close>

definition commit :: "rule_store \<Rightarrow> (rule_store \<times> stored_rule) result \<Rightarrow> rule_store" where
  "commit st r = (case r of Inl _ \<Rightarrow> st | Inr (st', _) \<Rightarrow> st')"

fun run_rule :: "host \<Rightarrow> (string \<Rightarrow> bool) \<Rightarrow> rule_op \<Rightarrow> rule_store \<Rightarrow> rule_store" where
  "run_rule h vu (OpCreate env dto) st = commit st (create_rule vu env dto st)"
| "run_rule h vu (OpTemplate env dto) st = commit st (createFromTemplate h vu env dto st)"
| "run_rule h vu (OpUpdate env i dto) st = commit st (update_rule vu env i dto st)"
| "run_rule h vu (OpDelete env i) st = commit st (softDelete env i st)"
| "run_rule h vu (OpRestore env i n) st = commit st (restoreVersion vu env i n st)"

lemma commit_inv:
  "rule_inv vu st \<Longrightarrow> (\<And>st' r. res = Inr (st', r) \<Longrightarrow> rule_inv vu st') \<Longrightarrow> rule_inv vu (commit st res)"
  by (auto simp: commit_def split: sum.split)

lemma restoreVersion_Inr:
  assumes "restoreVersion vu env i n st = Inr res"
  obtains v where "v \<in> set (rs_versions st)"
    "update_rule vu env i (snapshot_patch (v_snapshot v)) st = Inr res"
  using assms
  by (auto simp: restoreVersion_def result_simps split: option.splits dest!: maybe_single_in_set)

lemma run_rule_inv: "rule_inv vu st \<Longrightarrow> rule_inv vu (run_rule h vu op st)"
proof (cases op)
  case (OpTemplate env dto)
  assume "rule_inv vu st"
  with OpTemplate show ?thesis
    by (auto simp: createFromTemplate_def result_simps intro!: commit_inv intro: create_rule_inv)
next
  case (OpRestore env i n)
  assume inv: "rule_inv vu st"
  then show ?thesis unfolding OpRestore run_rule.simps
    by (rule commit_inv) (blast elim: restoreVersion_Inr dest: update_rule_Inr [OF inv])
qed (auto intro!: commit_inv intro: create_rule_inv softDelete_inv dest: update_rule_Inr)

interpretation rule_calls: op_invariant "run_rule h vu" "rule_inv vu" for h vu
  by unfold_locales (rule run_rule_inv)

subsection \<open>Restoring\<close>

lemma version_lookup:
  assumes "rule_inv vu st" and "v \<in> set (rs_versions st)" and "v_tenant v = t"
  shows "maybe_single (filter (\<lambda>w. v_rule_id w = v_rule_id v \<and> v_tenant w = t \<and> v_number w = v_number v)
    (rs_versions st)) = Some v"
proof -
  let ?vs = "filter (\<lambda>w. v_rule_id w = v_rule_id v) (rs_versions st)"
  have "numbered (v_rule_id v) (rs_versions st)" using assms(1) by (simp add: rule_inv_def)
  then have "distinct (map v_number ?vs)" by (metis distinct_upt numbered_def)
  then have "filter (\<lambda>w. v_number w = v_number v) ?vs = [v]"
    using assms(2) by (intro filter_key_single) simp_all
  then have "filter (\<lambda>w. v_tenant w = t) (filter (\<lambda>w. v_number w = v_number v) ?vs) = [v]"
    using assms(3) by simp
  moreover have "filter (\<lambda>w. v_tenant w = t) (filter (\<lambda>w. v_number w = v_number v) ?vs) =
      filter (\<lambda>w. v_rule_id w = v_rule_id v \<and> v_tenant w = t \<and> v_number w = v_number v) (rs_versions st)"
    by (simp add: conj_ac)
  ultimately show ?thesis unfolding maybe_single_Some by (simp only:)
qed

lemma snapshot_patch_of_dto: "snap_ok vu s \<Longrightarrow> patch_of_dto (snapshot_patch s) = Inr (snapshot_patch s)"
  by (simp add: patch_of_dto_def snapshot_patch_def snap_ok_def)

lemma snapshot_patch_restores:
  "snap_ok vu s \<Longrightarrow> pickSnapshotFields (apply_patch (snapshot_patch s) old) = s"
proof -
  assume s: "snap_ok vu s"
  then have sc: "scope_name (the (scope_of (sn_target_scope s))) = sn_target_scope s"
    by (auto simp: snap_ok_def columns_ok_def scope_of.simps split: if_splits)
  from s have ef: "effect_name (the (effect_of (sn_effect s))) = sn_effect s"
    by (auto simp: snap_ok_def columns_ok_def effect_of.simps split: if_splits)
  from s sc ef show ?thesis
    by (simp add: apply_patch_def snapshot_patch_def pickSnapshotFields_def snap_ok_def patch_text_def
        patch_nullif_def patch_json_def sql_text_trimmed)
qed

lemma snapshot_patch_accepted: "snap_ok vu s \<Longrightarrow> patch_ok vu (snapshot_patch s)"
  by (simp add: patch_ok_def snapshot_patch_def snap_ok_def columns_ok_def split: option.split)

lemma restore_update_rpc:
  assumes s: "snap_ok vu s" and old: "find_rule (ce_tenant env) i st = Some old"
    and fresh: "ce_def_id env \<notin> df_id ` set (rs_definitions st)"
    and graph: "sn_approval_config s \<noteq> JNull \<longrightarrow> graph \<noteq> JNull"
  shows "\<exists>res. update_rpc vu env i (snapshot_patch s) True graph st = Inr res"
proof -
  let ?p = "snapshot_patch s" and ?t = "ce_tenant env"
  have a: "r_approval_config (apply_patch ?p old) = sn_approval_config s"
    using snapshot_patch_restores [OF s, of old] by (simp add: pickSnapshotFields_def)
      (metis RuleSnapshot.select_convs(7))
  show ?thesis
  proof (cases "sn_approval_config s = JNull")
    case True
    with a old snapshot_patch_accepted [OF s] show ?thesis by (simp add: update_rpc_def Let_def)
  next
    case False
    let ?st1 = "set_rule ?t i (apply_patch ?p) st"
    have "ce_def_id env \<notin> df_id ` set (rs_definitions ?st1)" using fresh by (simp add: set_rule_def)
    then obtain st2 where e: "ensure_definition env i (r_name (apply_patch ?p old)) graph ?st1 = Inr st2"
      by (simp add: ensure_definition_def Let_def)
    have "find_rule ?t i st2 \<noteq> None"
      unfolding find_rule_same [OF ensure_definition_Inr(1) [OF e]]
      by (simp add: find_rule_set_rule old)
    with False graph a e old snapshot_patch_accepted [OF s] show ?thesis
      by (auto simp: update_rpc_def Let_def)
  qed
qed

lemma restore_update:
  assumes s: "snap_ok vu s" and old: "find_rule (ce_tenant env) i st = Some old"
    and fresh: "ce_def_id env \<notin> df_id ` set (rs_definitions st)"
  shows "\<exists>res. update_rule vu env i (snapshot_patch s) st = Inr res"
proof -
  let ?p = "snapshot_patch s"
  have fields: "rp_applies_when ?p = Some (sn_applies_when s)" "rp_effect ?p = Some (sn_effect s)"
    "rp_approval_config ?p = Some (sn_approval_config s)" "rp_name ?p = Some (sn_name s)"
    by (simp_all add: snapshot_patch_def)
  have "approval_ok (sn_approval_config s)" using s by (simp add: snap_ok_def)
  from compileApprovalGraph_ok [OF this, of "sn_name s"] obtain g where
    g: "compileApprovalGraph (sn_name s) (or_default (sn_approval_config s) JNull) = Inr g"
    and "sn_approval_config s \<noteq> JNull \<longrightarrow> g \<noteq> JNull" by blast
  from restore_update_rpc [OF s old fresh this(2)] obtain st1 rule where
    "update_rpc vu env i ?p True g st = Inr (st1, rule)" by auto
  moreover have "validate (sn_applies_when s) 0 = Inr ()" "effect_of (sn_effect s) \<noteq> None"
    using s by (simp_all add: snap_ok_def columns_ok_def)
  ultimately show ?thesis
    using old g snapshot_patch_of_dto [OF s]
    by (simp add: update_rule_def findOne_def fields Let_def)
qed

definition empty_rule_store :: rule_store where
  "empty_rule_store = \<lparr>rs_rules = [], rs_versions = [], rs_definitions = [], rs_audit = []\<rparr>"

lemma empty_rule_store_inv: "rule_inv vu empty_rule_store"
  by (simp add: rule_inv_def empty_rule_store_def numbered_def)

lemmas reachable_rules = rule_calls.run_all_inv [OF empty_rule_store_inv]

text \<open>The request that changes nothing.\<close>

definition no_patch :: UpdateRuleDto where
  "no_patch = \<lparr>rp_name = None, rp_description = None, rp_scope = None, rp_target = None,
     rp_applies_when = None, rp_effect = None, rp_approval_config = None, rp_denial_message = None,
     rp_priority = None, rp_template_id = None, rp_template_params = None, rp_active = None\<rparr>"

definition ex_env :: "string \<Rightarrow> string \<Rightarrow> call_env" where
  "ex_env r d = \<lparr>ce_tenant = ''t'', ce_actor = None, ce_rule_id = r, ce_def_id = d,
     ce_in_flight = (\<lambda>_. False), ce_version_ok = True, ce_audit_ok = True\<rparr>"

definition ex_dto :: CreateRuleDto where
  "ex_dto = \<lparr>n_name = '' Board room '', n_description = None, n_target_scope = ''tenant'',
     n_target_id = None, n_applies_when = fn_node ''has_permission'' [JStr ''x''],
     n_effect = ''require_approval'',
     n_approval_config = JObj [(''required_approvers'',
       JArr [JObj [(''type'', JStr ''team''), (''id'', JStr ''a'')]])],
     n_denial_message = JNull, n_priority = None, n_template_id = None, n_template_params = JNull,
     n_active = None\<rparr>"

definition ex_ops :: "rule_op list" where
  "ex_ops = [OpCreate (ex_env ''r'' ''d1'') ex_dto,
     OpUpdate (ex_env ''_'' ''d2'') ''r'' (no_patch\<lparr>rp_name := Some ''Other''\<rparr>)]"

subsection \<open>Properties\<close>

text \<open>
  C7. After any sequence of calls, successful or not, every version of a rule can be restored: the
  call succeeds, the rule then has exactly the twelve fields of the snapshot, and when the version
  insert succeeds the history ends with a new version that holds the same snapshot.
\<close>

theorem restore_round_trip:
  assumes "st = run_all (run_rule h vu) ops empty_rule_store"
    and v: "v \<in> set (rs_versions st)" and t: "v_tenant v = ce_tenant env"
    and fresh: "ce_def_id env \<notin> df_id ` set (rs_definitions st)"
  shows "\<exists>st' rule. restoreVersion vu env (v_rule_id v) (v_number v) st = Inr (st', rule) \<and>
    find_rule (ce_tenant env) (v_rule_id v) st' = Some rule \<and>
    pickSnapshotFields rule = v_snapshot v \<and>
    (ce_version_ok env \<longrightarrow> (\<exists>w. rs_versions st' = rs_versions st @ [w] \<and> v_rule_id w = v_rule_id v \<and>
       v_snapshot w = v_snapshot v))"
proof -
  have inv: "rule_inv vu st" unfolding assms(1) by (rule reachable_rules)
  with v have s: "snap_ok vu (v_snapshot v)" by (simp add: rule_inv_def)
  from inv v t obtain old where old: "find_rule (ce_tenant env) (v_rule_id v) st = Some old"
    using find_rule_Some by (fastforce simp: rule_inv_def)
  from restore_update [OF s old fresh] obtain st' rule where
    u: "update_rule vu env (v_rule_id v) (snapshot_patch (v_snapshot v)) st = Inr (st', rule)" by auto
  with old version_lookup [OF inv v t] have
    "restoreVersion vu env (v_rule_id v) (v_number v) st = Inr (st', rule)"
    by (simp add: restoreVersion_def findOne_def)
  moreover from update_rule_Inr [OF inv u] snapshot_patch_of_dto [OF s] snapshot_patch_restores [OF s] old
  have "find_rule (ce_tenant env) (v_rule_id v) st' = Some rule"
    "pickSnapshotFields rule = v_snapshot v"
    "ce_version_ok env \<longrightarrow> (\<exists>w. rs_versions st' = rs_versions st @ [w] \<and> v_rule_id w = v_rule_id v \<and>
       v_snapshot w = v_snapshot v)"
    by auto
  ultimately show ?thesis by blast
qed

theorem restore_round_trip_witness:
  "\<exists>st' rule. restoreVersion (\<lambda>_. True) (ex_env ''_'' ''d3'') ''r'' 1
      (run_all (run_rule ex_host (\<lambda>_. True)) ex_ops empty_rule_store) = Inr (st', rule) \<and>
    r_name rule = ''Board room''"
proof -
  define st where "st = run_all (run_rule ex_host (\<lambda>_. True)) ex_ops empty_rule_store"
  define v where "v = hd (rs_versions st)"
  have "rs_versions (run_all (run_rule ex_host (\<lambda>_. True)) ex_ops empty_rule_store) \<noteq> [] \<and>
      v_rule_id (hd (rs_versions (run_all (run_rule ex_host (\<lambda>_. True)) ex_ops empty_rule_store))) = ''r'' \<and>
      v_number (hd (rs_versions (run_all (run_rule ex_host (\<lambda>_. True)) ex_ops empty_rule_store))) = 1 \<and>
      v_tenant (hd (rs_versions (run_all (run_rule ex_host (\<lambda>_. True)) ex_ops empty_rule_store))) = ''t'' \<and>
      sn_name (v_snapshot (hd (rs_versions (run_all (run_rule ex_host (\<lambda>_. True)) ex_ops empty_rule_store)))) =
        ''Board room'' \<and>
      ''d3'' \<notin> df_id ` set (rs_definitions (run_all (run_rule ex_host (\<lambda>_. True)) ex_ops empty_rule_store))"
    by code_simp
  then have "v \<in> set (rs_versions st)" "v_tenant v = ce_tenant (ex_env ''_'' ''d3'')"
    "ce_def_id (ex_env ''_'' ''d3'') \<notin> df_id ` set (rs_definitions st)"
    and v: "v_rule_id v = ''r''" "v_number v = 1" "sn_name (v_snapshot v) = ''Board room''"
    by (auto simp: st_def v_def ex_env_def)
  from restore_round_trip [OF st_def this(1-3)] obtain st' rule where
    r: "restoreVersion (\<lambda>_. True) (ex_env ''_'' ''d3'') (v_rule_id v) (v_number v) st = Inr (st', rule)"
    "pickSnapshotFields rule = v_snapshot v" by blast
  have "r_name rule = sn_name (pickSnapshotFields rule)" by (simp add: pickSnapshotFields_def)
  with r v show ?thesis unfolding st_def by metis
qed

text \<open>
  C22. The history is sound: over any sequence of calls, the versions of a rule are numbered from 1
  without a gap in the order they were written, every stored predicate passes the validator, and
  every stored approval configuration compiles to a workflow.
\<close>

theorem rule_history_sound:
  assumes "st = run_all (run_rule h vu) ops empty_rule_store"
  shows "map v_number (filter (\<lambda>v. v_rule_id v = i) (rs_versions st)) =
      [1..<Suc (length (filter (\<lambda>v. v_rule_id v = i) (rs_versions st)))] \<and>
    (\<forall>r\<in>set (rs_rules st). validate (r_applies_when r) 0 = Inr () \<and> js_trim (r_name r) = r_name r \<and>
       r_name r \<noteq> [] \<and>
       (r_approval_config r = JNull \<or> (\<exists>g. compile_approval (r_approval_config r) (r_name r) = Inr g)))"
proof -
  have inv: "rule_inv vu st" unfolding assms by (rule reachable_rules)
  then have "numbered i (rs_versions st)" by (simp add: rule_inv_def)
  then have "map v_number (filter (\<lambda>v. v_rule_id v = i) (rs_versions st)) =
      [1..<Suc (length (filter (\<lambda>v. v_rule_id v = i) (rs_versions st)))]"
    by (simp only: numbered_def Let_def length_map)
  moreover have "\<exists>g. compile_approval a nm = Inr g" if "approval_ok a" "a \<noteq> JNull" for a nm
    using that compile_approval_name by (fastforce simp: approval_ok_def)
  moreover have "snap_ok vu (pickSnapshotFields r)" if "r \<in> set (rs_rules st)" for r
    using that inv by (simp add: rule_inv_def)
  ultimately show ?thesis by (auto simp: snap_ok_def pickSnapshotFields_def simp del: upt_Suc)
qed

theorem rule_history_sound_witness:
  "map v_number (filter (\<lambda>v. v_rule_id v = ''r'')
    (rs_versions (run_all (run_rule ex_host (\<lambda>_. True)) ex_ops empty_rule_store))) = [1, 2]"
proof -
  have "length (filter (\<lambda>v. v_rule_id v = ''r'')
      (rs_versions (run_all (run_rule ex_host (\<lambda>_. True)) ex_ops empty_rule_store))) = 2"
    by code_simp
  with rule_history_sound [OF refl, where i = "''r''" and h = ex_host and vu = "\<lambda>_. True" and ops = ex_ops]
  show ?thesis by (simp add: upt_rec)
qed

text \<open>
  Clearing the approval configuration of a rule does not clear its workflow: the update succeeds
  and leaves the link to the old definition, so the resolver still reports that workflow, without
  a configuration, for the rule.
\<close>

theorem cleared_approval_keeps_workflow:
  assumes "find_rule (ce_tenant env) i st = Some old" and "r_workflow_definition_id old = Some w"
    and "r_effect old = RequireApproval"
  shows "\<exists>st' rule. update_rule vu env i (no_patch\<lparr>rp_approval_config := Some JNull\<rparr>) st = Inr (st', rule) \<and>
    r_approval_config rule = JNull \<and> r_workflow_definition_id rule = Some w \<and>
    o_approvalConfig (aggregateOutcome [(RuleRow.truncate rule, s)]) = JNull \<and>
    o_approvalWorkflowDefinitionId (aggregateOutcome [(RuleRow.truncate rule, s)]) = Some w"
  using assms
  by (simp add: update_rule_def findOne_def no_patch_def patch_of_dto_def compileApprovalGraph_def
      or_default_def update_rpc_def patch_ok_def Let_def apply_patch_def patch_json_def jsonb_obj_def
      aggregateOutcome_def aggregate0_def RuleRow.truncate_def)

theorem cleared_approval_keeps_workflow_witness:
  "\<exists>st' rule. update_rule (\<lambda>_. True) (ex_env ''_'' ''d2'') ''r''
      (no_patch\<lparr>rp_approval_config := Some JNull\<rparr>)
      (run_all (run_rule ex_host (\<lambda>_. True)) [OpCreate (ex_env ''r'' ''d1'') ex_dto] empty_rule_store)
      = Inr (st', rule) \<and>
    r_approval_config rule = JNull \<and> r_workflow_definition_id rule = Some ''d1''"
proof -
  let ?st = "run_all (run_rule ex_host (\<lambda>_. True)) [OpCreate (ex_env ''r'' ''d1'') ex_dto] empty_rule_store"
  have "(case find_rule ''t'' ''r'' ?st of None \<Rightarrow> False
      | Some r \<Rightarrow> r_workflow_definition_id r = Some ''d1'' \<and> r_effect r = RequireApproval)"
    by code_simp
  then obtain old where "find_rule (ce_tenant (ex_env ''_'' ''d2'')) ''r'' ?st = Some old"
    "r_workflow_definition_id old = Some ''d1''" "r_effect old = RequireApproval"
    by (auto simp: ex_env_def simp del: run_all_simps split: option.splits)
  from cleared_approval_keeps_workflow [OF this] show ?thesis by blast
qed

end
