(* ===== verification/Workflow_Approval.thy ===== *)
theory Workflow_Approval
  imports Workflow_Life Rule_Store
begin

section \<open>Approval workflows compiled from booking rules\<close>

text \<open>
  Where the rule store meets the engine: the graph that \<open>compile_approval\<close> writes as JSON, read back as
  the graph the validator and the engine work on (\<open>graph_of_json\<close> is the unchecked cast of the source,
  with \<open>None\<close> for JSON of another shape). Starting such a workflow for a booking leaves one pending
  approval per approver and a waiting instance; resuming it completes the instance.
\<close>

subsection \<open>Graphs as JSON\<close>

definition node_of_json :: "jsval \<Rightarrow> wf_node option" where
  "node_of_json v =
     (case (js_get v ''id'', js_get v ''type'', js_get v ''config'') of
        (JStr i, JStr ty, JObj cfg) \<Rightarrow> Some \<lparr>nd_id = i, nd_type = ty, nd_config = cfg\<rparr>
      | _ \<Rightarrow> None)"

definition edge_of_json :: "jsval \<Rightarrow> wf_edge option" where
  "edge_of_json v =
     (case (js_get v ''from'', js_get v ''to'', js_get v ''condition'') of
        (JStr a, JStr b, JStr c) \<Rightarrow> Some \<lparr>ed_from = a, ed_to = b, ed_condition = Some c\<rparr>
      | (JStr a, JStr b, JUndef) \<Rightarrow> Some \<lparr>ed_from = a, ed_to = b, ed_condition = None\<rparr>
      | _ \<Rightarrow> None)"

definition graph_of_json :: "jsval \<Rightarrow> wf_graph option" where
  "graph_of_json v =
     (case (js_get v ''nodes'', js_get v ''edges'') of
        (JArr ns, JArr es) \<Rightarrow>
          (case (those (map node_of_json ns), those (map edge_of_json es)) of
             (Some nodes, Some edges) \<Rightarrow> Some \<lparr>g_nodes = nodes, g_edges = edges\<rparr>
           | _ \<Rightarrow> None)
      | _ \<Rightarrow> None)"

definition approval_node :: "jsval list \<Rightarrow> jsval \<Rightarrow> wf_node" where
  "approval_node approvers threshold =
     \<lparr>nd_id = ''approval_main'', nd_type = ''approval'',
      nd_config = [(''required_approvers'', JArr (map approver_entry approvers)), (''threshold'', threshold)]\<rparr>"

definition approval_graph :: "jsval list \<Rightarrow> jsval \<Rightarrow> wf_graph" where
  "approval_graph approvers threshold =
     \<lparr>g_nodes = [\<lparr>nd_id = ''trigger'', nd_type = ''trigger'', nd_config = []\<rparr>, approval_node approvers threshold,
        \<lparr>nd_id = ''end_success'', nd_type = ''end'', nd_config = [(''outcome'', JStr ''approved'')]\<rparr>,
        \<lparr>nd_id = ''end_failure'', nd_type = ''end'', nd_config = [(''outcome'', JStr ''rejected'')]\<rparr>],
      g_edges = [\<lparr>ed_from = ''trigger'', ed_to = ''approval_main'', ed_condition = None\<rparr>,
        \<lparr>ed_from = ''approval_main'', ed_to = ''end_success'', ed_condition = Some ''approved''\<rparr>,
        \<lparr>ed_from = ''approval_main'', ed_to = ''end_failure'', ed_condition = Some ''rejected''\<rparr>]\<rparr>"

lemma compiled_graph:
  assumes "compile_approval config nm = Inr (g, x)"
  obtains approvers threshold where "js_get config ''required_approvers'' = JArr approvers" "approvers \<noteq> []"
    "\<forall>a\<in>set approvers. approver_ok a" "threshold = or_default (js_get config ''threshold'') (JStr ''all'')"
    "threshold = JStr ''all'' \<or> threshold = JStr ''any''" "graph_of_json g = Some (approval_graph approvers threshold)"
proof -
  from assms obtain approvers where a: "js_get config ''required_approvers'' = JArr approvers" "approvers \<noteq> []"
    "\<forall>a\<in>set approvers. approver_ok a"
    by (auto simp: compile_approval_def split: jsval.splits if_splits)
  let ?t = "or_default (js_get config ''threshold'') (JStr ''all'')"
  from assms a have t: "?t = JStr ''all'' \<or> ?t = JStr ''any''"
    by (auto simp: compile_approval_def Let_def split: if_splits)
  from assms a t have "graph_of_json g = Some (approval_graph approvers ?t)"
    by (auto simp: compile_approval_def Let_def graph_of_json_def graph_node_def graph_edge_def node_of_json_def
        edge_of_json_def approval_graph_def approval_node_def split: if_splits)
  with a t that show ?thesis by blast
qed

subsection \<open>The validator rejects them\<close>

lemma compiled_fails_validation:
  "\<exists>r. validate_workflow (approval_graph approvers threshold) = Inr r \<and> \<not> vr_ok r \<and>
     map ve_code (vr_errors r) = [''APPROVAL_APPROVER'']"
  unfolding validate_workflow_def unreachable_errors_def nodes_of_type_def
  by (simp add: approval_graph_def approval_node_def node_errors_def validateNodeConfig_def config_get_def Let_def
        out_edges_def edge_errors_def has_branch_def req_def node_error_def bfs_def bfs_edge_pair)

subsection \<open>Starting for a booking\<close>

text \<open>An approver that exists in the tenant, and the row that stands for its approval.\<close>

definition approver_known :: "wf_env \<Rightarrow> jsval \<Rightarrow> bool" where
  "approver_known env a \<longleftrightarrow>
     assertTenantOwned env (if js_get a ''type'' = JStr ''person'' then ''persons'' else ''teams'') (js_get a ''id'')
       (en_tenant env) = Inr ()"

definition approver_row :: "(jsval \<Rightarrow> jsval \<Rightarrow> wf_approval) \<Rightarrow> jsval \<Rightarrow> wf_approval" where
  "approver_row row a =
     row (if js_get a ''type'' = JStr ''person'' then js_get a ''id'' else JUndef)
         (if js_get a ''type'' = JStr ''team'' then js_get a ''id'' else JUndef)"

lemma entry_fields:
  "approver_ok a \<Longrightarrow> \<not> is_nullish (approver_entry a)"
  "js_get (approver_entry a) ''type'' = js_get a ''type''" "js_get (approver_entry a) ''id'' = js_get a ''id''"
  by (simp_all add: approver_entry_def is_nullish_def)

text \<open>
  The persons named by an approver list, the two columns an approver is written to, and the condition under which the
  index on pending rows lets all of them in: no person twice in the list, none with a pending row for the target.
\<close>

definition persons_of :: "jsval list \<Rightarrow> jsval list" where
  "persons_of as = map (\<lambda>a. js_get a ''id'') (filter (\<lambda>a. js_get a ''type'' = JStr ''person'') as)"

definition approver_columns :: "jsval \<Rightarrow> jsval \<times> jsval" where
  "approver_columns a =
     (if js_get a ''type'' = JStr ''person'' then (js_get a ''id'', JUndef) else (JUndef, js_get a ''id''))"

definition no_pending :: "string \<Rightarrow> jsval list \<Rightarrow> wf_approval list \<Rightarrow> bool" where
  "no_pending target ps rows \<longleftrightarrow>
     (\<forall>r\<in>set rows. wa_status r = ''pending'' \<and> wa_target_id r = target \<longrightarrow> wa_person r \<notin> set ps)"

text \<open>What the loop needs of the row it inserts: the two columns where they belong, one target, pending.\<close>

definition row_for :: "string \<Rightarrow> (jsval \<Rightarrow> jsval \<Rightarrow> wf_approval) \<Rightarrow> bool" where
  "row_for target row \<longleftrightarrow> (\<forall>p q. wa_person (row p q) = p \<and> wa_team (row p q) = q \<and> wa_target_id (row p q) = target \<and>
     wa_status (row p q) = ''pending'')"

lemma row_for_chain [simp]: "row_for b (chain_row env i n kind b)"
  by (simp add: row_for_def chain_row_def Let_def)

lemma approver_type: "approver_ok a \<Longrightarrow> js_get a ''type'' = JStr ''person'' \<or> js_get a ''type'' = JStr ''team''"
  by (cases a) (auto simp del: obj_get.simps)

lemma approver_row_columns:
  assumes "row_for target row" "approver_ok a"
  shows "(wa_person (approver_row row a), wa_team (approver_row row a)) = approver_columns a"
  using assms approver_type [OF assms(2)] by (auto simp: row_for_def approver_row_def approver_columns_def)

lemma approver_not_duplicate:
  assumes "row_for target row" "no_pending target (persons_of (a # as)) rows"
  shows "\<not> list_ex (pending_duplicate (approver_row row a)) rows"
proof
  assume "list_ex (pending_duplicate (approver_row row a)) rows"
  then obtain r where "r \<in> set rows" "pending_duplicate (approver_row row a) r" by (auto simp: list_ex_iff)
  with assms show False
    by (auto simp: pending_duplicate_def approver_row_def row_for_def no_pending_def persons_of_def is_nullish_def split: if_splits)
qed

lemma no_pending_after:
  assumes "row_for target row" "no_pending target (persons_of (a # as)) rows" "distinct (persons_of (a # as))"
    "\<forall>c\<in>set as. \<not> is_nullish (js_get c ''id'')"
  shows "no_pending target (persons_of as) (rows @ [approver_row row a])"
  using assms by (auto simp: no_pending_def row_for_def approver_row_def persons_of_def is_nullish_def split: if_splits)

lemma insert_known_approvers:
  assumes "\<forall>a\<in>set as. approver_ok a \<and> approver_known env a" "\<And>r. \<not> en_approval_refused env r"
    "row_for target row" "distinct (persons_of as)" "no_pending target (persons_of as) (db_approvals (rn_db st))"
  shows "insert_approvers env row (map approver_entry as) st =
    (Inr (), st\<lparr>rn_db := (rn_db st)\<lparr>db_approvals := db_approvals (rn_db st) @ map (approver_row row) as\<rparr>\<rparr>)"
  using assms(1,4,5)
proof (induction as arbitrary: st)
  case Nil
  show ?case by simp
next
  case (Cons a as)
  then have ok: "approver_ok a" "approver_known env a" by simp_all
  define p where "p = (if js_get a ''type'' = JStr ''person'' then js_get a ''id'' else JUndef)"
  define q where "q = (if js_get a ''type'' = JStr ''team'' then js_get a ''id'' else JUndef)"
  have row: "row p q = approver_row row a" by (simp add: approver_row_def p_def q_def)
  have known: "and_then (assert_if_given env ''persons'' p) (\<lambda>_. assert_if_given env ''teams'' q) = Inr ()"
    using ok approver_type [OF ok(1)] by (auto simp: approver_known_def assert_if_given_def p_def q_def)
  let ?st = "st\<lparr>rn_db := (rn_db st)\<lparr>db_approvals := db_approvals (rn_db st) @ [approver_row row a]\<rparr>\<rparr>"
  have "insert_approval env (approver_row row a) st = (Inr (), ?st)"
    using approver_not_duplicate [OF assms(3) Cons.prems(3)] assms(2) by (simp add: insert_approval_def)
  with known have step: "insert_approvers env row (approver_entry a # rest) st = insert_approvers env row rest ?st" for rest
    unfolding insert_approvers.simps entry_fields(2,3) Let_def p_def [symmetric] q_def [symmetric] row
    using entry_fields(1) [OF ok(1)] by simp
  have ids: "\<forall>c\<in>set as. \<not> is_nullish (js_get c ''id'')"
    using Cons.prems(1) by (auto simp: approver_known_def assertTenantOwned_def is_nullish_def split: if_splits)
  have rest: "distinct (persons_of as)" using Cons.prems(2) by (simp add: persons_of_def split: if_splits)
  have "no_pending target (persons_of as) (db_approvals (rn_db ?st))"
    using no_pending_after [OF assms(3) Cons.prems(3,2) ids] by simp
  with Cons.IH [OF _ rest, of ?st] Cons.prems(1) step show ?case by simp
qed

lemma approval_graph_next:
  "next_node (approval_graph as th) ''trigger'' None = Some (approval_node as th)"
  "next_node (approval_graph as th) ''approval_main'' (Some ''approved'') =
     Some \<lparr>nd_id = ''end_success'', nd_type = ''end'', nd_config = [(''outcome'', JStr ''approved'')]\<rparr>"
  "next_node (approval_graph as th) ''approval_main'' (Some ''rejected'') =
     Some \<lparr>nd_id = ''end_failure'', nd_type = ''end'', nd_config = [(''outcome'', JStr ''rejected'')]\<rparr>"
  by (simp_all add: next_node_def out_edges_def approval_graph_def approval_node_def)

lemma approval_node_simps [simp]:
  "nd_id (approval_node as th) = ''approval_main''" "nd_type (approval_node as th) = ''approval''"
  "config_get (approval_node as th) ''required_approvers'' = JArr (map approver_entry as)"
  by (simp_all add: approval_node_def config_get_def)

text \<open>The row of an instance that nothing else has touched, found by its key.\<close>

lemma own_single:
  assumes "distinct (map wi_id ws)" "w \<in> set ws" "wi_id w = i" "wi_tenant w = tenant"
  shows "filter (own_instance i tenant) ws = [w]"
proof -
  have "filter (own_instance i tenant) ws = filter (\<lambda>v. wi_tenant v = tenant) (filter (\<lambda>v. wi_id v = wi_id w) ws)"
    using assms(3) by (auto simp: own_instance_def conj_commute intro: filter_cong)
  then show ?thesis using filter_key_single [OF assms(1,2)] assms(4) by simp
qed

lemma exec_approval_ok:
  assumes "as \<noteq> []" "\<forall>a\<in>set as. approver_ok a \<and> approver_known env a" "\<And>r. \<not> en_approval_refused env r"
    and index: "distinct (persons_of as)" "no_pending b (persons_of as) (db_approvals (rn_db st))"
    and st: "rn_ctx st = None" "distinct (map wi_id (db_instances (rn_db st)))" "w \<in> set (db_instances (rn_db st))"
      "wi_id w = i" "wi_tenant w = en_tenant env" "wi_kind w = Some KindBooking" "wi_booking w = Some b" "b \<noteq> []"
  shows "exec_approval env i (approval_node as th) t st =
    (Stop, emit env i (mk_event ''instance_waiting'' (approval_node as th) [(''waiting_for'', JStr ''approval'')])
      (set_waiting env i (JStr ''approval'') (st\<lparr>rn_db := (rn_db st)\<lparr>db_approvals := db_approvals (rn_db st) @
         map (approver_row (chain_row env i (approval_node as th) KindBooking b)) as\<rparr>\<rparr>)))"
proof -
  have "filter (own_instance i (en_tenant env)) (db_instances (rn_db st)) = [w]"
    using own_single st(2-5) by blast
  with st(6-8) have kind: "getEntityKindForInstance env i (rn_db st) = Inr (KindBooking, b)"
    by (simp add: getEntityKindForInstance_def resolvePolymorphicEntity_def)
  from assms(1) obtain x xs where as: "as = x # xs" by (cases as) auto
  have "create_approvals env i (approval_node as th) t st =
      insert_approvers env (chain_row env i (approval_node as th) KindBooking b) (map approver_entry as) st"
    unfolding create_approvals_def Let_def approval_node_simps(3) by (simp add: as kind del: insert_approvers.simps)
  with insert_known_approvers [OF assms(2,3) row_for_chain index] st(1) show ?thesis
    by (simp add: exec_approval_def dry_run_def)
qed

lemma executeNode_approval:
  "nd_type n = ''approval'' \<Longrightarrow> executeNode env i n t st =
     exec_approval env i n t (push_path (nd_id n) (emit env i (mk_event ''node_entered'' n []) st))"
  by (simp add: executeNode_def Let_def)

lemma executeNode_end:
  "nd_type n = ''end'' \<Longrightarrow> executeNode env i n t st =
     exec_end env i n (push_path (nd_id n) (emit env i (mk_event ''node_entered'' n []) st))"
  by (simp add: executeNode_def Let_def)

lemma real_run_simps:
  assumes "rn_ctx st = None"
  shows "emit env i e st = st\<lparr>rn_db := emit_row (en_tenant env) i e (rn_db st)\<rparr>" "push_path k st = st"
    "enter_node env i n st = set_instance env i (\<lambda>w. w\<lparr>wi_node := nd_id n\<rparr>) st"
  using assms by (simp_all add: emit_def push_path_def enter_node_def dry_run_def)

text \<open>Rows of one instance after updates of that instance.\<close>

lemma own_after:
  assumes "w \<in> set ws" "own_instance i tenant w"
  shows "f w \<in> set (update_where (own_instance i tenant) f ws)"
  using assms by (force simp: update_where_def)

lemma start_approval:
  assumes approvers: "as \<noteq> []" "\<forall>a\<in>set as. approver_ok a \<and> approver_known env a" "\<And>r. \<not> en_approval_refused env r"
    and index: "distinct (persons_of as)" "no_pending b (persons_of as) (db_approvals db)"
    and d: "load_published env defId db = Inr (Some d)" "wd_graph d = approval_graph as th"
    and db: "distinct (map wi_id (db_instances db))" "b \<noteq> []"
      "\<forall>v\<in>set (db_instances db). wi_id v \<noteq> en_instance_id env \<and>
         \<not> (live_status (wi_status v) \<and> wi_tenant v = en_tenant env \<and> wi_kind v = Some KindBooking \<and> wi_booking v = Some b)"
  shows "\<exists>w db' w'. startForBooking env b defId db = Some (Inr (Some w), db') \<and>
    db_approvals db' = db_approvals db @ map (approver_row (chain_row env (en_instance_id env) (approval_node as th) KindBooking b)) as \<and>
    w' \<in> set (db_instances db') \<and> wi_id w' = en_instance_id env \<and> wi_tenant w' = en_tenant env \<and>
    wi_status w' = InstWaiting \<and> wi_node w' = ''approval_main'' \<and> wi_kind w' = Some KindBooking \<and> wi_booking w' = Some b \<and>
    wi_definition w' = wd_id d \<and> distinct (map wi_id (db_instances db')) \<and> db_definitions db' = db_definitions db"
proof -
  let ?i = "en_instance_id env" and ?T = "en_tenant env" and ?n = "approval_node as th"
  let ?trigger = "\<lparr>nd_id = ''trigger'', nd_type = ''trigger'', nd_config = []\<rparr> :: wf_node"
  define w where "w = (fresh_instance env d ?trigger)\<lparr>wi_kind := Some KindBooking, wi_booking := Some b\<rparr>"
  define db1 where "db1 = emit_row ?T ?i (mk_event ''instance_started'' ?trigger []) (db\<lparr>db_instances := db_instances db @ [w]\<rparr>)"
  have w: "wi_id w = ?i" "wi_tenant w = ?T" "wi_kind w = Some KindBooking" "wi_booking w = Some b" "wi_definition w = wd_id d"
    "derive_entity db w = w" "one_of_kind (wi_kind w) (wi_case w) (wi_work_order w) (wi_booking w)"
    by (simp_all add: w_def fresh_instance_def derive_entity_def)
  have "\<not> same_live_entity v w" if "v \<in> set (db_instances db)" for v
  proof
    assume s: "same_live_entity v w"
    then obtain k where "wi_kind v = Some k" "wi_kind w = Some k" "kind_id k v = kind_id k w" "live_status (wi_status v)"
      "wi_tenant v = wi_tenant w"
      unfolding same_live_entity_def by blast
    with w db(3) that show False by auto
  qed
  moreover have "?i \<notin> wi_id ` set (db_instances db)" using db(3) by auto
  ultimately have ins: "insert_instance fb w db = Inr (w, db\<lparr>db_instances := db_instances db @ [w]\<rparr>)" for fb
    using w by (simp add: insert_instance_def Let_def)
  define st where "st = \<lparr>rn_db = emit_row ?T ?i (mk_event ''node_entered'' ?n [])
      (db1\<lparr>db_instances := update_where (own_instance ?i ?T) (\<lambda>w. w\<lparr>wi_node := ''approval_main''\<rparr>) (db_instances db1)\<rparr>),
      rn_ctx = None\<rparr>"
  have st_inst: "db_instances (rn_db st) = update_where (own_instance ?i ?T) (\<lambda>w. w\<lparr>wi_node := ''approval_main''\<rparr>) (db_instances db @ [w])"
    by (simp add: st_def db1_def)
  have own: "own_instance ?i ?T w" using w by (simp add: own_instance_def)
  have row: "w\<lparr>wi_node := ''approval_main''\<rparr> \<in> set (db_instances (rn_db st))"
    unfolding st_inst using own by (intro own_after [where f = "\<lambda>w. w\<lparr>wi_node := ''approval_main''\<rparr>"]) simp_all
  have "distinct (map wi_id (db_instances (rn_db st)))"
    using db(1) \<open>?i \<notin> wi_id ` set (db_instances db)\<close> w(1) by (simp add: st_inst)
  moreover have "db_approvals (rn_db st) = db_approvals db" by (simp add: st_def db1_def)
  ultimately have "distinct (map wi_id (db_instances (rn_db st)))" "no_pending b (persons_of as) (db_approvals (rn_db st))"
    using index(2) by simp_all
  from exec_approval_ok [OF approvers index(1) this(2) _ this(1) row, where i = ?i and t = b and th = th] w db(2)
  have ex: "exec_approval env ?i ?n b st =
      (Stop, emit env ?i (mk_event ''instance_waiting'' ?n [(''waiting_for'', JStr ''approval'')])
        (set_waiting env ?i (JStr ''approval'') (st\<lparr>rn_db := (rn_db st)\<lparr>db_approvals := db_approvals (rn_db st) @
           map (approver_row (chain_row env ?i ?n KindBooking b)) as\<rparr>\<rparr>)))"
    by (simp add: st_def)
  let ?st' = "emit env ?i (mk_event ''instance_waiting'' ?n [(''waiting_for'', JStr ''approval'')])
        (set_waiting env ?i (JStr ''approval'') (st\<lparr>rn_db := (rn_db st)\<lparr>db_approvals := db_approvals (rn_db st) @
           map (approver_row (chain_row env ?i ?n KindBooking b)) as\<rparr>\<rparr>))"
  have enter: "push_path (nd_id ?n) (emit env ?i (mk_event ''node_entered'' ?n []) (enter_node env ?i ?n \<lparr>rn_db = db1, rn_ctx = None\<rparr>)) = st"
    by (simp add: real_run_simps set_instance_def st_def)
  have adv: "advance env ?i (approval_graph as th) b ''trigger'' None \<lparr>rn_db = db1, rn_ctx = None\<rparr> = Some (Inr (), ?st')"
    by (simp add: advance.simps [of env ?i "approval_graph as th" b "''trigger''"] approval_graph_next
        executeNode_approval enter [simplified] ex)
  have start: "startForBooking env b defId db = Some (Inr (Some w), rn_db ?st')"
  proof -
    have "find (\<lambda>n. nd_type n = ''trigger'') (g_nodes (approval_graph as th)) = Some ?trigger"
      by (simp add: approval_graph_def)
    with adv show ?thesis
      by (simp add: startForBooking_def start_instance_def d w_def [symmetric] ins w(1) db1_def)
  qed
  have ctx: "rn_ctx st = None" by (simp add: st_def)
  let ?w' = "w\<lparr>wi_node := ''approval_main'', wi_status := InstWaiting, wi_waiting_for := JStr ''approval''\<rparr>"
  have "db_approvals (rn_db ?st') = db_approvals db @ map (approver_row (chain_row env ?i ?n KindBooking b)) as"
    by (simp add: set_waiting_def set_instance_def real_run_simps ctx) (simp add: st_def db1_def)
  moreover have "?w' \<in> set (db_instances (rn_db ?st'))"
  proof -
    have "own_instance ?i ?T (w\<lparr>wi_node := ''approval_main''\<rparr>)" using own by (simp add: own_instance_def)
    from own_after [OF row this, of "\<lambda>w. w\<lparr>wi_status := InstWaiting, wi_waiting_for := JStr ''approval''\<rparr>"] show ?thesis
      by (simp add: set_waiting_def set_instance_def real_run_simps ctx)
  qed
  moreover have "distinct (map wi_id (db_instances (rn_db ?st')))" "db_definitions (rn_db ?st') = db_definitions db"
    using \<open>distinct (map wi_id (db_instances (rn_db st)))\<close>
    by (simp_all add: set_waiting_def set_instance_def real_run_simps ctx) (simp add: st_def db1_def)
  ultimately show ?thesis using start w by (intro exI [of _ w] exI [of _ "rn_db ?st'"] exI [of _ ?w']) simp
qed

subsection \<open>Resuming\<close>

lemma resume_approval:
  assumes d: "filter (\<lambda>x. wd_id x = wi_definition w \<and> wd_tenant x = tenant) (db_definitions db) = [d]"
      "wd_graph d = approval_graph as th"
    and w: "distinct (map wi_id (db_instances db))" "w \<in> set (db_instances db)" "wi_id w = i" "wi_tenant w = tenant"
      "wi_status w = InstWaiting" "wi_node w = ''approval_main''" "wi_kind w = Some KindBooking"
      "wi_booking w = Some b" "b \<noteq> []" "en_tenant env = tenant"
    and decision: "(decision, final) = (''approved'', ''end_success'') \<or> (decision, final) = (''rejected'', ''end_failure'')"
  shows "\<exists>db' w'. resume env i tenant (Some decision) db = Some (Inr (), db') \<and> w' \<in> set (db_instances db') \<and>
    wi_id w' = i \<and> wi_tenant w' = tenant \<and> wi_status w' = InstCompleted \<and> wi_node w' = final"
proof -
  let ?wait = "\<lambda>w. own_instance i tenant w \<and> wi_status w = InstWaiting"
  let ?n = "\<lparr>nd_id = final, nd_type = ''end'', nd_config = [(''outcome'', JStr decision)]\<rparr> :: wf_node"
  have own: "own_instance i tenant w" using w(3,4) by (simp add: own_instance_def)
  have "filter ?wait (db_instances db) = filter (\<lambda>w. wi_status w = InstWaiting) (filter (own_instance i tenant) (db_instances db))"
    by (auto intro: filter_cong)
  with own_single [OF w(1-4)] w(5) have single: "filter ?wait (db_instances db) = [w]" by simp
  have next_: "next_node (approval_graph as th) ''approval_main'' (Some decision) = Some ?n"
    using decision approval_graph_next(2,3) by auto
  have ent: "snd (resolvePolymorphicEntity w) = Some b" using w(7,8) by (simp add: resolvePolymorphicEntity_def)
  have env: "env\<lparr>en_tenant := tenant\<rparr> = env" using w(10) by simp
  define st where "st e = \<lparr>rn_db = emit_row tenant i e (claimed i tenant db), rn_ctx = None\<rparr>" for e
  define st1 where "st1 e = snd (executeNode env i ?n b (enter_node env i ?n (st e)))" for e
  have "executeNode env i ?n b (enter_node env i ?n (st e)) = (Stop, st1 e)" for e
    by (simp add: st1_def executeNode_end exec_end_def)
  then have adv: "advance env i (approval_graph as th) b ''approval_main'' (Some decision) (st e) = Some (Inr (), st1 e)" for e
    by (simp add: advance.simps [of env i "approval_graph as th" b "''approval_main''"] next_)
  have res: "\<exists>e. resume env i tenant (Some decision) db = Some (Inr (), rn_db (st1 e))"
    by (auto simp: resume_def Let_def single d ent w(6,9,10) env claimed_def [symmetric] st_def [symmetric] adv)
  let ?w1 = "w\<lparr>wi_status := InstActive, wi_waiting_for := JNull\<rparr>"
  let ?w' = "?w1\<lparr>wi_node := final, wi_status := InstCompleted, wi_completed_at := Some (en_now env)\<rparr>"
  have row: "?w1 \<in> set (db_instances (rn_db (st e)))" for e
    using claimed_row [OF w(2) own w(5)] by (simp add: st_def)
  have "?w' \<in> set (db_instances (rn_db (st1 e)))" for e
  proof -
    let ?f = "\<lambda>w. w\<lparr>wi_node := final\<rparr>" and ?h = "\<lambda>w. w\<lparr>wi_status := InstCompleted, wi_completed_at := Some (en_now env)\<rparr>"
    have "own_instance i tenant ?w1" "own_instance i tenant (?f ?w1)" using own by (simp_all add: own_instance_def)
    from own_after [OF own_after [OF row this(1), of ?f] this(2), of ?h] w(10) show ?thesis
      by (simp add: st1_def executeNode_end exec_end_def real_run_simps st_def set_instance_def dry_run_def)
  qed
  with res w(3,4) show ?thesis by (auto intro!: exI [of _ ?w'])
qed

subsection \<open>Properties\<close>

definition ex_config :: jsval where
  "ex_config = JObj [(''required_approvers'', JArr [JObj [(''type'', JStr ''person''), (''id'', JStr ''p1'')],
     JObj [(''type'', JStr ''team''), (''id'', JStr ''p2'')]]), (''threshold'', JStr ''all'')]"

definition ex_approval_graph :: wf_graph where
  "ex_approval_graph = approval_graph [JObj [(''type'', JStr ''person''), (''id'', JStr ''p1'')],
     JObj [(''type'', JStr ''team''), (''id'', JStr ''p2'')]] (JStr ''all'')"

text \<open>
  C32. The validator rejects what the rule compiler produces: every graph compiled from an approval
  configuration names its approvers under another key than the validator looks at, so publishing
  such a definition from the editor fails with exactly that one error.
\<close>

theorem compiled_graphs_rejected:
  assumes "compile_approval config nm = Inr (g, x)"
  shows "\<exists>wg r. graph_of_json g = Some wg \<and> validate_workflow wg = Inr r \<and> \<not> vr_ok r \<and>
    map ve_code (vr_errors r) = [''APPROVAL_APPROVER'']"
proof -
  from assms obtain approvers threshold where "graph_of_json g = Some (approval_graph approvers threshold)"
    by (rule compiled_graph)
  with compiled_fails_validation [of approvers threshold] show ?thesis by auto
qed

theorem compiled_graphs_rejected_witness:
  "\<exists>g x wg r. compile_approval ex_config ''r'' = Inr (g, x) \<and> graph_of_json g = Some wg \<and>
     validate_workflow wg = Inr r \<and> \<not> vr_ok r"
proof -
  have "\<not> isl (compile_approval ex_config ''r'')" by code_simp
  then obtain g x where c: "compile_approval ex_config ''r'' = Inr (g, x)"
    by (cases "compile_approval ex_config ''r''") auto
  from compiled_graphs_rejected [OF c] c show ?thesis by blast
qed

text \<open>
  A configuration that names one person twice compiles, and its workflow cannot start: the second row is refused by
  the index, the start throws, and it leaves the first approval pending and the instance active.
\<close>

definition twice_config :: jsval where
  "twice_config = JObj [(''required_approvers'', JArr [JObj [(''type'', JStr ''person''), (''id'', JStr ''p1'')],
     JObj [(''type'', JStr ''person''), (''id'', JStr ''p1'')]]), (''threshold'', JStr ''all'')]"

definition twice_start :: "(wf_instance option result \<times> wf_db) option" where
  "twice_start =
     (case compile_approval twice_config ''r'' of
        Inl e \<Rightarrow> None
      | Inr (g, _) \<Rightarrow>
          (case graph_of_json g of
             None \<Rightarrow> None
           | Some wg \<Rightarrow> startForBooking ex_wf_env ''b1'' ''d'' (ex_wf_db
               [\<lparr>wd_id = ''d'', wd_tenant = ''T'', wd_name = [], wd_entity_type = ''booking'', wd_graph = wg,
                 wd_status = DefPublished, wd_version = 1, wd_published_at = None\<rparr>])))"

lemma duplicate_approver_refused:
  "map_option (\<lambda>(r, db). (r, map wa_person (db_approvals db), map (\<lambda>w. (wi_status w, wi_node w)) (db_instances db))) twice_start =
     Some (Inl advance_failed, [JStr ''p1''], [(InstActive, ''approval_main'')])"
  by code_simp

text \<open>
  C20. A compiled approval runs from start to decision: started for a booking, the workflow of a rule with
  known approvers, no person named twice and none with a pending approval of the booking already, inserts exactly one
  pending approval per approver, in their order and under their person or team, bound to the instance and the
  booking, and waits; resumed with the decision, it completes at the end node of that decision.
\<close>

theorem approval_workflow_decides:
  assumes compiled: "compile_approval config nm = Inr (g, x)" "graph_of_json g = Some (wd_graph d)"
    and known: "js_get config ''required_approvers'' = JArr as" "\<forall>a\<in>set as. approver_known env a" "\<And>r. \<not> en_approval_refused env r"
    and index: "distinct (persons_of as)" "no_pending b (persons_of as) (db_approvals db)"
    and d: "filter (\<lambda>y. wd_id y = wd_id d \<and> wd_tenant y = en_tenant env) (db_definitions db) = [d]" "wd_status d = DefPublished"
    and db: "distinct (map wi_id (db_instances db))" "b \<noteq> []"
      "\<forall>v\<in>set (db_instances db). wi_id v \<noteq> en_instance_id env \<and>
         \<not> (live_status (wi_status v) \<and> wi_tenant v = en_tenant env \<and> wi_kind v = Some KindBooking \<and> wi_booking v = Some b)"
    and decision: "(decision, final) = (''approved'', ''end_success'') \<or> (decision, final) = (''rejected'', ''end_failure'')"
  shows "\<exists>w db1 new db2 w'. startForBooking env b (wd_id d) db = Some (Inr (Some w), db1) \<and>
    db_approvals db1 = db_approvals db @ new \<and> map (\<lambda>a. (wa_person a, wa_team a)) new = map approver_columns as \<and>
    (\<forall>a\<in>set new. pending_of (en_instance_id env) (en_tenant env) a \<and> wa_target_type a = ''booking'' \<and> wa_target_id a = b) \<and>
    resume env (en_instance_id env) (en_tenant env) (Some decision) db1 = Some (Inr (), db2) \<and>
    w' \<in> set (db_instances db2) \<and> wi_id w' = en_instance_id env \<and> wi_status w' = InstCompleted \<and> wi_node w' = final"
proof -
  obtain approvers th where "js_get config ''required_approvers'' = JArr approvers" "approvers \<noteq> []" "\<forall>a\<in>set approvers. approver_ok a"
    "graph_of_json g = Some (approval_graph approvers th)" by (rule compiled_graph [OF compiled(1)])
  with compiled(2) known(1) have as: "as \<noteq> []" "\<forall>a\<in>set as. approver_ok a" "wd_graph d = approval_graph as th" by auto
  from d have "load_published env (wd_id d) db = Inr (Some d)" by (simp add: load_published_def Let_def)
  from start_approval [OF as(1) _ known(3) index this as(3) db] known(2) as(2) obtain w db1 v where
    s: "startForBooking env b (wd_id d) db = Some (Inr (Some w), db1)"
    and new: "db_approvals db1 = db_approvals db @ map (approver_row (chain_row env (en_instance_id env) (approval_node as th) KindBooking b)) as"
    and v: "v \<in> set (db_instances db1)" "wi_id v = en_instance_id env" "wi_tenant v = en_tenant env" "wi_status v = InstWaiting"
      "wi_node v = ''approval_main''" "wi_kind v = Some KindBooking" "wi_booking v = Some b" "wi_definition v = wd_id d"
      "distinct (map wi_id (db_instances db1))" "db_definitions db1 = db_definitions db"
    by blast
  from d(1) v(8,10) have def: "filter (\<lambda>x. wd_id x = wi_definition v \<and> wd_tenant x = en_tenant env) (db_definitions db1) = [d]" by simp
  from resume_approval [OF def as(3) v(9,1,2,3,4,5,6,7) db(2) refl decision] obtain db2 w' where
    "resume env (en_instance_id env) (en_tenant env) (Some decision) db1 = Some (Inr (), db2)" "w' \<in> set (db_instances db2)"
    "wi_id w' = en_instance_id env" "wi_status w' = InstCompleted" "wi_node w' = final" by blast
  moreover have "\<forall>a\<in>set (map (approver_row (chain_row env (en_instance_id env) (approval_node as th) KindBooking b)) as).
      pending_of (en_instance_id env) (en_tenant env) a \<and> wa_target_type a = ''booking'' \<and> wa_target_id a = b"
    by (simp add: approver_row_def chain_row_def Let_def pending_of_def projectLegacyEntityType_def)
  moreover have "map (\<lambda>a. (wa_person a, wa_team a)) (map (approver_row (chain_row env (en_instance_id env) (approval_node as th) KindBooking b)) as) =
      map approver_columns as"
    using as(2) approver_row_columns [OF row_for_chain] by simp
  ultimately show ?thesis using s new by (intro exI conjI) (assumption | rule refl)+
qed

theorem approval_workflow_decides_witness:
  "\<exists>d w db1 db2 w'. startForBooking ex_wf_env ''b1'' ''d'' (ex_wf_db [d]) = Some (Inr (Some w), db1) \<and>
     map (\<lambda>a. (wa_person a, wa_team a)) (db_approvals db1) = [(JStr ''p1'', JUndef), (JUndef, JStr ''p2'')] \<and>
     resume ex_wf_env ''i'' ''T'' (Some ''rejected'') db1 = Some (Inr (), db2) \<and> w' \<in> set (db_instances db2) \<and> wi_node w' = ''end_failure''"
proof -
  let ?d = "\<lparr>wd_id = ''d'', wd_tenant = ''T'', wd_name = [], wd_entity_type = ''booking'', wd_graph = ex_approval_graph,
     wd_status = DefPublished, wd_version = 1, wd_published_at = None\<rparr>"
  have "(case compile_approval ex_config ''r'' of Inl _ \<Rightarrow> False | Inr (g, _) \<Rightarrow> graph_of_json g = Some ex_approval_graph)" by code_simp
  then obtain g x where c: "compile_approval ex_config ''r'' = Inr (g, x)" "graph_of_json g = Some (wd_graph ?d)"
    by (auto split: sum.splits)
  define as where "as = [JObj [(''type'', JStr ''person''), (''id'', JStr ''p1'')], JObj [(''type'', JStr ''team''), (''id'', JStr ''p2'')]]"
  have "js_get ex_config ''required_approvers'' = JArr as" "\<forall>a\<in>set as. approver_known ex_wf_env a" "distinct (persons_of as)"
    "map approver_columns as = [(JStr ''p1'', JUndef), (JUndef, JStr ''p2'')]"
    unfolding as_def by code_simp+
  with approval_workflow_decides [OF c, of as ex_wf_env "''b1''" "ex_wf_db [?d]" "''rejected''" "''end_failure''"]
  show ?thesis by (fastforce simp: ex_wf_env_def ex_wf_db_def no_pending_def)
qed

end
