(* ===== verification/Spec2Isabelle.thy ===== *)
theory Spec2Isabelle
  imports Maintenance_Recurrence Sla_Thresholds Routing_Resolver Visitor_Flows Workflow_Wait Workflow_Approval
begin

text \<open>
  \<^bold>\<open>A model of the workplace platform.\<close> The repository is a multi-tenant facility
  platform: an API of NestJS services over PostgreSQL (\<open>apps/api\<close>), a web client
  (\<open>apps/web\<close>), shared types (\<open>packages/shared\<close>) and the database with its stored procedures
  (\<open>supabase/migrations\<close>). This development models services of \<open>apps/api/src/modules\<close> and proves what
  makes them correct. Paths below are relative to that directory.

  \<^bold>\<open>How code becomes definitions.\<close> A table is the list of its rows, a query a filter
  over it, a row a record. A thrown application error is the left side of a sum, by its code. A call
  that writes takes the database and returns its result and the new database; what it draws from
  outside (the instant, the tenant, generated ids, whether a best-effort insert succeeds) is an
  argument. Remote procedures and handlers are arguments too. Values read from JSON columns keep
  their JSON shape, with JavaScript's equality, truthiness and conversions.

  \<^bold>\<open>Theories and sources.\<close>
  \<^item> \<open>Prelude\<close>, \<open>Js_Date\<close>, \<open>Js_Value\<close>: errors as values, fallible loops, parent walks; the UTC calendar of
    the \<open>Date\<close> object; JSON values.
  \<^item> \<open>Db_Tx\<close>: rows, \<open>DbService.tx\<close> of \<open>common/db/db.service.ts\<close> with the rule that a failed statement aborts
    the transaction even when its error is caught, and the two interfaces of a client of the
    database, operations that keep an invariant and operations along which a relation grows.
  \<^item> \<open>Maintenance_Recurrence\<close>: \<open>maintenance/recurrence.ts\<close>.
  \<^item> \<open>Business_Hours\<close>: \<open>sla/business-hours.service.ts\<close>.
  \<^item> \<open>Sla_Timers\<close>: the timers of \<open>sla/sla.service.ts\<close>, the two handlers of timer events
    (\<open>outbox/handlers/sla-timer-recompute.handler.ts\<close>, \<open>sla-timer-repoint.handler.ts\<close>) and the procedures of migrations
    00240 (breach batch), 00299 (\<open>outbox.emit\<close>), 00325 (change of status), 00352 and 00353 (start and repoint).
  \<^item> \<open>Sla_Thresholds\<close>: the threshold pass of \<open>sla/sla.service.ts\<close> with \<open>sla-threshold.helpers.ts\<close>, the validator
    of \<open>sla-policy.controller.ts\<close> and sending in \<open>notification/notification.service.ts\<close>.
  \<^item> \<open>Routing_Resolver\<close>: \<open>routing/resolver.service.ts\<close>, its repository, types and scope overrides.
  \<^item> \<open>Visitors\<close>, \<open>Visitor_Flows\<close>: \<open>visitors/visitor.service.ts\<close>, \<open>pass-pool.service.ts\<close>,
    \<open>reception.service.ts\<close>, \<open>eod-sweep.worker.ts\<close>, \<open>bundle-cascade.adapter.ts\<close>.
  \<^item> \<open>Outbox\<close>: \<open>outbox/outbox.worker.ts\<close>, its types and handler registry.
  \<^item> \<open>Predicate_Engine\<close>: \<open>room-booking-rules/predicate-engine.service.ts\<close>.
  \<^item> \<open>Booking_Rules\<close>: \<open>room-booking-rules/rule-resolver.service.ts\<close> and \<open>common/requester-context.ts\<close>.
  \<^item> \<open>Rule_Templates\<close>: \<open>room-booking-rules/rule-templates.ts\<close>.
  \<^item> \<open>Rule_Store\<close>: \<open>room-booking-rules/room-booking-rules.service.ts\<close>,
    \<open>approval/approval-config-compiler.service.ts\<close> and the procedures of migrations 00400, 00406 and 00423.
  \<^item> \<open>Workflow_Graph\<close>, \<open>Workflow_Definitions\<close>: \<open>workflow/workflow-validator.service.ts\<close>, \<open>workflow/workflow.service.ts\<close> and
    \<open>common/errors/wrap-pg-error.ts\<close>.
  \<^item> \<open>Workflow_Template\<close>, \<open>Workflow_Engine\<close>, \<open>Workflow_Cancel\<close>: \<open>workflow/workflow-engine.service.ts\<close> (templates of HTTP
    nodes; starting, walking, resuming; cancelling and the check before a spawn), the dry run of
    \<open>workflow/workflow-simulator.service.ts\<close>, the procedures and triggers of migrations 00232, 00369 and 00400.
    \<open>Workflow_Runs\<close> and \<open>Workflow_Life\<close> hold the theorems on one run and on sequences of operations.
  \<^item> \<open>Workflow_Wait\<close>: \<open>workflow/workflow-wait-sweeper.cron.ts\<close>, \<open>outbox/handlers/workflow-spawn-wake.handler.ts\<close>.
  \<^item> \<open>Workflow_Approval\<close>: the approval graphs that the rule service compiles, run by the engine.

  \<^bold>\<open>How the parts interact.\<close> The reception desk, the sweep and the cascade change a visitor only
  through the status machine of \<open>visitor.service.ts\<close> and the pass pool; the invariants of
  \<open>Visitor_Flows\<close> range over sequences of calls from all of them. Events leave the services through the
  outbox. A booking asks the rule resolver, which asks the predicate engine about the rules that
  the rule service saved; the theorem below joins the two ends. A rule that asks for approval carries a
  compiled workflow; the engine runs it for the booking, creates the approvals and is resumed by the
  decision. The outbox delivers booking events to the handlers that wake or cancel workflows and timer events
  to those that start timers. Timers take their due dates from the business hours of the policy; a change of
  status reaches them through the outbox only, and the pass of every minute marks breaches and fires thresholds.

  \<^bold>\<open>What is shown.\<close> Calendar arithmetic clamps and advances as documented, and the catch-up loop
  returns the first future run. A routing decision follows the order of precedence, is explained by its
  trace and reads rows of its tenant only. Visitor statuses follow the transition matrix over any
  sequence of calls, the pass pool stays consistent, the sweep rewrites exactly its candidates, once.
  Outbox rows stay consistent under any interleaving of workers, crashes, sweeps and purges, and
  settled events stay settled. A validated predicate evaluates, or throws the \<open>TypeError\<close> of an operand that does not
  convert to a text or a number, which the validator does not look for; hydration answers every lookup as the
  database would; the matched rules are exactly those in scope that fire, ordered, with deny over
  approval; the picker and the booking agree; the outcome does not depend on the process clock.
  Every version of a rule can be restored and gives back its snapshot. The workflow validator decides a
  declarative specification, which every graph published through the editor satisfies (those that the rule procedure
  publishes do not); a simulation writes nothing and
  settles on graphs without cycles of pass-through nodes and with texts in their HTTP nodes; over any sequence of
  operations an entity has at most one live workflow and settled workflows stay settled; a cancellation stops exactly
  the workflows its links lead to. A compiled approval starts, waits and completes when it names no person twice. Due
  dates and counted business minutes are inverse to each other on calendars whose windows end before midnight and avoid
  the clock changes of their zone, so a pause moves a due date by the business minutes it lasted; over any sequence of
  operations timers stay consistent and settled timers final; under overlapping passes the notifications of a crossing
  are those of one firing, and a firing that fails is not recorded. Some theorems state faults of
  the code: a lost visitor update, an orphaned pass, a cascade that waits for its own lock, a
  refused arrival, a century of an anchor date, a capacity warning without a capacity, a workflow
  that outlives its approval configuration, a valid workflow that loops, a wait that is not retried, a
  cancellation that fails unseen, compiled graphs that the validator rejects, days that the count of business
  minutes skips, status changes that no timer sees, thresholds that cannot fire, and escalations that nobody hears of.

  \<^bold>\<open>Bounds.\<close> The loops carry the bounds of the code: 4096 advances of a recurrence, 10 and 11
  levels of locations and domains, 16 levels of spaces, depth 10 of a predicate, 10 links above a spawn.
  The walk over a workflow graph may not end and is a partial function with results in \<open>option\<close>; the
  cascade of cancellations carries the number of live instances as the bound of its depth, which is
  shown to be enough; breadth-first search ends by a measure. The layered loader of
  spaces has no bound of its own; it ends because every layer asks for parents not asked for before.
  Numbers of JSON are exact rationals, strings are byte lists; infinite numbers and white space beyond ASCII are
  outside the model. Inherited object properties are modelled where they decide something: conversions and the maps of
  the predicate engine; reading them through a reference or a condition node is outside.

  A local day of business hours is taken from a record of operations on time zones with laws, which
  UTC satisfies for every calendar and a zone with a clock change for the calendars whose windows avoid the hour that
  is skipped or repeated; the search for a due date carries the 400 rounds of the code. The threshold pass is a step relation
  over firings in phases (read, assign, claim, effects), so that passes of several processes overlap freely. Elsewhere
  a call is one step, unless its round trips are separate definitions: the read and the write of a publication and the
  select and the batch of the breach pass can come apart, and a lemma beside each shows what then goes wrong.

  \<^bold>\<open>Not modelled.\<close> Rule simulation and impact preview, the service rules, the granting of approvals
  (a stored procedure), the reservation pipeline, tickets and work orders, the kiosk and
  invitations: they assemble rows for stored procedures. Left out for good: the
  web client, error catalogues, mail rendering, controllers, smoke tests and scripts, which hold tables,
  glue or input and output.
\<close>

section \<open>From the rule editor to the booking\<close>

text \<open>
  C23. When a rule that went through the service is skipped at booking time because its predicate throws, an operand
  does not convert. After any sequence of creations, template uses, updates, deletions and restores, the predicate of
  every stored rule evaluates to a truth value and the rule fires exactly when it is true, or it throws a \<open>TypeError\<close>
  on an operand that is not plain and the rule does not fire; the resolver's fallback is taken for nothing else.
\<close>

theorem stored_rules_evaluate:
  assumes "r \<in> set (rs_rules (run_all (run_rule h vu) ops empty_rule_store))"
  shows "(\<exists>b. evaluate h' now (r_applies_when r) c 0 = Inr b \<and> fires h' now c (r_applies_when r) = b) \<or>
    evaluate h' now (r_applies_when r) c 0 = Inl type_error \<and> \<not> plain_operands h' c (r_applies_when r) \<and>
    \<not> fires h' now c (r_applies_when r)"
proof -
  from reachable_rules assms have "snap_ok vu (pickSnapshotFields r)" by (auto simp: rule_inv_def)
  then have "validate (r_applies_when r) 0 = Inr ()" by (simp add: snap_ok_def pickSnapshotFields_def)
  from validated_settles [OF this, of h' c now] show ?thesis by (auto simp: settles_def fires_def)
qed

theorem stored_rules_evaluate_witness:
  "\<exists>r b. r \<in> set (rs_rules (run_all (run_rule ex_host (\<lambda>_. True)) ex_ops empty_rule_store)) \<and>
     evaluate ex_host 0 (r_applies_when r) ex_base 0 = Inr b \<and> fires ex_host 0 ex_base (r_applies_when r) = b"
proof -
  have stored: "rs_rules (run_all (run_rule ex_host (\<lambda>_. True)) ex_ops empty_rule_store) \<noteq> [] \<and>
      plain_operands ex_host ex_base (r_applies_when (hd (rs_rules (run_all (run_rule ex_host (\<lambda>_. True)) ex_ops empty_rule_store))))"
    by code_simp
  define r where "r = hd (rs_rules (run_all (run_rule ex_host (\<lambda>_. True)) ex_ops empty_rule_store))"
  from stored have r: "r \<in> set (rs_rules (run_all (run_rule ex_host (\<lambda>_. True)) ex_ops empty_rule_store))"
    and plain: "plain_operands ex_host ex_base (r_applies_when r)" by (simp_all add: r_def)
  from stored_rules_evaluate [OF r, of ex_host 0 ex_base] r plain show ?thesis by auto
qed

text \<open>
  Such a rule can be saved. A rule that asks for approval unless \<open>{toString: 1}\<close> equals a text goes through the service, and at no
  booking does it fire.
\<close>

definition throwing_predicate :: jsval where
  "throwing_predicate = JObj [(''op'', JStr ''ne''), (''left'', JObj [(''toString'', JNum 1)]), (''right'', JStr ''x'')]"

lemma throwing_rule_never_fires:
  "map r_applies_when (rs_rules (run_all (run_rule ex_host (\<lambda>_. True))
     [OpCreate (ex_env ''r'' ''d1'') (ex_dto\<lparr>n_applies_when := throwing_predicate\<rparr>)] empty_rule_store)) = [throwing_predicate]"
  "\<not> fires h now c throwing_predicate"
proof -
  show "map r_applies_when (rs_rules (run_all (run_rule ex_host (\<lambda>_. True))
     [OpCreate (ex_env ''r'' ''d1'') (ex_dto\<lparr>n_applies_when := throwing_predicate\<rparr>)] empty_rule_store)) = [throwing_predicate]"
    by code_simp
  show "\<not> fires h now c throwing_predicate"
    by (simp add: fires_def throwing_predicate_def evaluate.simps has_key_def evalOp_def Let_def resolveRef_def looseEq_def
        is_nullish_def)
qed

end
